(* ===== verification/Prelude.thy ===== *)
theory Prelude
  imports Main "HOL-Library.Multiset" "HOL-Library.List_Lexorder" "HOL-Library.Char_ord" "HOL-Library.Product_Lexorder"
begin

text \<open>
  The vocabulary every component shares: fallible results as sums, the two loop shapes the
  Python sources use over fallible bodies, lists of rows standing for SQL tables and for
  insertion-ordered dictionaries, and the decimal text of a natural number.  Strings are
  \<open>string\<close> values, compared by their bytes, which is Python's order on code points for the
  ASCII text (hotkeys, ISO dates, wire names) the program compares.  The lemmas about these
  operations carry the component proofs; the ones that rewrite are declared \<open>[simp]\<close>.
\<close>

subsection \<open>Fallible results\<close>

text \<open>A raised exception is \<open>Inl\<close> of the component's error type, a return value is \<open>Inr\<close>.\<close>

definition ebind :: "'e + 'a \<Rightarrow> ('a \<Rightarrow> 'e + 'b) \<Rightarrow> 'e + 'b" where
  "ebind r f = (case r of Inl e \<Rightarrow> Inl e | Inr a \<Rightarrow> f a)"

text \<open>\<open>echeck b e\<close> is the statement \<open>if not b: raise e\<close>.\<close>

definition echeck :: "bool \<Rightarrow> 'e \<Rightarrow> 'e + unit" where
  "echeck b e = (if b then Inr () else Inl e)"

lemma ebind_simps [simp]:
  "ebind (Inl e) f = Inl e" "ebind (Inr a) f = f a"
  by (simp_all add: ebind_def)

lemma echeck_simps [simp]:
  "echeck True e = Inr ()" "echeck False e = Inl e"
  by (simp_all add: echeck_def)

lemma ebind_eq_Inr [simp]:
  "ebind r f = Inr b \<longleftrightarrow> (\<exists>a. r = Inr a \<and> f a = Inr b)"
  by (cases r) simp_all

lemma ebind_eq_Inl:
  "ebind r f = Inl e \<longleftrightarrow> r = Inl e \<or> (\<exists>a. r = Inr a \<and> f a = Inl e)"
  by (cases r) simp_all

lemma echeck_eq_Inr [simp]: "echeck b e = Inr u \<longleftrightarrow> b"
  by (simp add: echeck_def)

lemma echeck_eq_Inl [simp]: "echeck b e = Inl e' \<longleftrightarrow> \<not> b \<and> e' = e"
  by (auto simp: echeck_def)

text \<open>A comprehension whose element expression can raise: the first error wins.\<close>

fun etraverse :: "('a \<Rightarrow> 'e + 'b) \<Rightarrow> 'a list \<Rightarrow> 'e + 'b list" where
  "etraverse f [] = Inr []"
| "etraverse f (x # xs) =
     ebind (f x) (\<lambda>y. ebind (etraverse f xs) (\<lambda>ys. Inr (y # ys)))"

lemma etraverse_length: "etraverse f xs = Inr ys \<Longrightarrow> length ys = length xs"
  by (induction xs arbitrary: ys) auto

lemma etraverse_map:
  "(\<And>x. x \<in> set xs \<Longrightarrow> f x = Inr (g x)) \<Longrightarrow> etraverse f xs = Inr (map g xs)"
  by (induction xs) auto

lemma etraverse_Inr_iff:
  "etraverse f xs = Inr ys \<longleftrightarrow> list_all2 (\<lambda>x y. f x = Inr y) xs ys"
proof (induction xs arbitrary: ys)
  case (Cons x xs)
  show ?case by (cases ys) (auto simp: Cons.IH)
qed auto

lemma etraverse_Inl:
  "etraverse f xs = Inl e \<Longrightarrow> \<exists>x \<in> set xs. f x = Inl e"
  by (induction xs) (auto simp: ebind_eq_Inl)

subsection \<open>Lists as tables and dictionaries\<close>

text \<open>
  A table is the list of its rows in insertion order.  \<open>select_one\<close> is the
  \<open>select(...).first()\<close> of the sources, \<open>update_where\<close> an \<open>UPDATE\<close>.
\<close>

definition select_one :: "('r \<Rightarrow> bool) \<Rightarrow> 'r list \<Rightarrow> 'r option" where
  "select_one p rows = List.find p rows"

definition update_where :: "('r \<Rightarrow> bool) \<Rightarrow> ('r \<Rightarrow> 'r) \<Rightarrow> 'r list \<Rightarrow> 'r list" where
  "update_where p f rows = map (\<lambda>r. if p r then f r else r) rows"

text \<open>At most one row per key: a \<open>UNIQUE\<close> or \<open>PRIMARY KEY\<close> constraint.\<close>

definition unique_on :: "('r \<Rightarrow> 'k) \<Rightarrow> 'r list \<Rightarrow> bool" where
  "unique_on key rows = distinct (map key rows)"

lemma select_one_simps [simp]:
  "select_one p [] = None"
  "select_one p (r # rows) = (if p r then Some r else select_one p rows)"
  by (simp_all add: select_one_def)

lemma select_one_None [simp]:
  "select_one p rows = None \<longleftrightarrow> (\<forall>r \<in> set rows. \<not> p r)"
  by (induction rows) auto

lemma select_one_SomeD:
  "select_one p rows = Some r \<Longrightarrow> r \<in> set rows \<and> p r"
  by (induction rows) (auto split: if_splits)

lemma select_one_append:
  "select_one p (xs @ ys) = (case select_one p xs of None \<Rightarrow> select_one p ys | Some r \<Rightarrow> Some r)"
  by (induction xs) auto

lemma unique_on_simps [simp]:
  "unique_on key []"
  "unique_on key (r # rows) \<longleftrightarrow> key r \<notin> key ` set rows \<and> unique_on key rows"
  by (auto simp: unique_on_def)

lemma unique_on_append [simp]:
  "unique_on key (xs @ ys) \<longleftrightarrow>
     unique_on key xs \<and> unique_on key ys \<and> key ` set xs \<inter> key ` set ys = {}"
  by (auto simp: unique_on_def)

lemma unique_on_eq:
  "unique_on key rows \<Longrightarrow> r \<in> set rows \<Longrightarrow> r' \<in> set rows \<Longrightarrow> key r = key r' \<Longrightarrow> r = r'"
  by (auto simp: unique_on_def distinct_map inj_on_def)

lemma select_one_unique:
  assumes "unique_on key rows" "r \<in> set rows" "key r = k"
  shows "select_one (\<lambda>r. key r = k) rows = Some r"
  using assms by (induction rows) force+

lemma length_update_where [simp]: "length (update_where p f rows) = length rows"
  by (simp add: update_where_def)

lemma set_update_where:
  "set (update_where p f rows) = {f r |r. r \<in> set rows \<and> p r} \<union> {r \<in> set rows. \<not> p r}"
  by (auto simp: update_where_def)

lemma update_where_simps [simp]:
  "update_where p f [] = []"
  "update_where p f (r # rows) = (if p r then f r else r) # update_where p f rows"
  by (simp_all add: update_where_def)

lemma update_where_id:
  "(\<And>r. r \<in> set rows \<Longrightarrow> \<not> p r) \<Longrightarrow> update_where p f rows = rows"
  by (induction rows) auto

lemma update_where_key [simp]:
  assumes "\<And>r. key (f r) = key r"
  shows "map key (update_where p f rows) = map key rows"
  using assms by (induction rows) auto

lemma unique_on_update_where:
  assumes "unique_on key rows" "\<And>r. key (f r) = key r"
  shows "unique_on key (update_where p f rows)"
  using assms by (simp add: unique_on_def)

lemma select_one_update_where:
  assumes "\<And>r. q (f r) = q r"
  shows "select_one q (update_where p f rows) =
     map_option (\<lambda>r. if p r then f r else r) (select_one q rows)"
  using assms by (induction rows) auto

text \<open>A Python dictionary in insertion order: assignment keeps the position of a known key.\<close>

fun dict_set :: "'k \<Rightarrow> 'v \<Rightarrow> ('k \<times> 'v) list \<Rightarrow> ('k \<times> 'v) list" where
  "dict_set k v [] = [(k, v)]"
| "dict_set k v ((k', v') # m) = (if k' = k then (k, v) # m else (k', v') # dict_set k v m)"

lemma map_of_dict_set [simp]: "map_of (dict_set k v m) = (map_of m)(k \<mapsto> v)"
  by (induction m) auto

lemma keys_dict_set: "fst ` set (dict_set k v m) = insert k (fst ` set m)"
  by (induction m) force+

lemma distinct_dict_set: "distinct (map fst m) \<Longrightarrow> distinct (map fst (dict_set k v m))"
proof (induction m)
  case (Cons kv m)
  obtain k' v' where kv: "kv = (k', v')" by force
  have "fst ` set (dict_set k v m) = insert k (fst ` set m)" by (rule keys_dict_set)
  with Cons kv show ?case by auto
qed simp

text \<open>\<open>d.setdefault(k, []).append(v)\<close>.\<close>

fun dict_push :: "'k \<Rightarrow> 'v \<Rightarrow> ('k \<times> 'v list) list \<Rightarrow> ('k \<times> 'v list) list" where
  "dict_push k v [] = [(k, [v])]"
| "dict_push k v ((k', vs) # m) = (if k' = k then (k, vs @ [v]) # m else (k', vs) # dict_push k v m)"

lemma keys_dict_push: "fst ` set (dict_push k v m) = insert k (fst ` set m)"
  by (induction m) force+

lemma distinct_dict_push: "distinct (map fst m) \<Longrightarrow> distinct (map fst (dict_push k v m))"
proof (induction m)
  case (Cons kv m)
  obtain k' vs where kv: "kv = (k', vs)" by force
  have "fst ` set (dict_push k v m) = insert k (fst ` set m)" by (rule keys_dict_push)
  with Cons kv show ?case by auto
qed simp

lemma map_of_dict_push:
  "map_of (dict_push k v m) =
     (map_of m)(k \<mapsto> (case map_of m k of None \<Rightarrow> [] | Some vs \<Rightarrow> vs) @ [v])"
  by (induction m) auto

text \<open>\<open>next(i for i, x in enumerate(xs) if p(x))\<close>: the first position, if any.\<close>

fun index_where :: "('a \<Rightarrow> bool) \<Rightarrow> 'a list \<Rightarrow> nat option" where
  "index_where p [] = None"
| "index_where p (x # xs) = (if p x then Some 0 else map_option Suc (index_where p xs))"

lemma index_where_SomeD:
  "index_where p xs = Some i \<Longrightarrow> i < length xs \<and> p (xs ! i)"
  by (induction xs arbitrary: i) (auto split: if_splits)

lemma index_where_None: "index_where p xs = None \<longleftrightarrow> (\<forall>x \<in> set xs. \<not> p x)"
  by (induction xs) auto

subsection \<open>Sorting\<close>

text \<open>\<open>sort\<close> and \<open>sort_key\<close> are stable, as \<open>sorted\<close> is; a duplicate-free input sorts strictly.\<close>

lemma sort_strict: "distinct xs \<Longrightarrow> sorted_wrt (<) (sort xs)"
  by (simp add: strict_sorted_iff)

lemma sort_eq_of_mset:
  fixes xs ys :: "'a::linorder list"
  assumes "mset xs = mset ys"
  shows "sort xs = sort ys"
  using assms by (metis properties_for_sort mset_sort sorted_sort)

lemma sorted_list_of_set_sort [simp]:
  "distinct xs \<Longrightarrow> sorted_list_of_set (set xs) = sort xs"
  by (rule sorted_list_of_set.idem_if_sorted_distinct [of "sort xs", simplified])

end
