(* ===== verification/Text.thy ===== *)
theory Text
  imports Prelude "HOL-Library.Word"
begin

text \<open>
  Python's text and bytes: \<open>str\<close> of an integer and its parser, UTF-8, and hexadecimal text.
  A \<open>str\<close> is a \<open>string\<close>, whose characters stand for the code points below 256; a \<open>bytes\<close>
  value is a list of \<open>8 word\<close>.  The lemmas are the round trips the components rest on.
\<close>

type_synonym bytes = "8 word list"

subsection \<open>Decimal text\<close>

definition digit_char :: "int \<Rightarrow> char" where
  "digit_char d = char_of (48 + nat d)"

definition digit_val :: "char \<Rightarrow> int" where
  "digit_val c = int (of_char c) - 48"

definition is_digit :: "char \<Rightarrow> bool" where
  "is_digit c \<longleftrightarrow> 0 \<le> digit_val c \<and> digit_val c \<le> 9"

function str_nat :: "int \<Rightarrow> string" where
  "str_nat n = (if n < 10 then [digit_char n] else str_nat (n div 10) @ [digit_char (n mod 10)])"
  by pat_completeness auto
termination
  by (relation "measure nat") auto

declare str_nat.simps [simp del]

text \<open>\<open>str(n)\<close>.\<close>

definition str_int :: "int \<Rightarrow> string" where
  "str_int n = (if n < 0 then CHR ''-'' # str_nat (- n) else str_nat n)"

text \<open>\<open>s.isascii() and s.isdecimal()\<close>, and \<open>int(s)\<close> for such an \<open>s\<close>.\<close>

definition is_decimal :: "string \<Rightarrow> bool" where
  "is_decimal s \<longleftrightarrow> s \<noteq> [] \<and> list_all is_digit s"

definition int_of_digits :: "string \<Rightarrow> int" where
  "int_of_digits s = foldl (\<lambda>v c. 10 * v + digit_val c) 0 s"

text \<open>\<open>f"{n:0wd}"\<close> for a natural number.\<close>

definition zero_pad :: "nat \<Rightarrow> int \<Rightarrow> string" where
  "zero_pad w n = (let s = str_int n in replicate (w - length s) (CHR ''0'') @ s)"

lemma digit_val_digit_char [simp]: "0 \<le> d \<Longrightarrow> d \<le> 9 \<Longrightarrow> digit_val (digit_char d) = d"
  by (simp add: digit_val_def digit_char_def)

lemma digit_char_digit_val: "is_digit c \<Longrightarrow> digit_char (digit_val c) = c"
  by (simp add: is_digit_def digit_val_def digit_char_def nat_diff_distrib)

lemma is_digit_digit_char [simp]: "0 \<le> d \<Longrightarrow> d \<le> 9 \<Longrightarrow> is_digit (digit_char d)"
  by (simp add: is_digit_def)

lemma int_of_digits_append:
  "int_of_digits (s @ [c]) = 10 * int_of_digits s + digit_val c"
  by (simp add: int_of_digits_def)

lemma str_nat_digits: "0 \<le> n \<Longrightarrow> list_all is_digit (str_nat n) \<and> str_nat n \<noteq> []"
  by (induction n rule: str_nat.induct) (subst (1 2) str_nat.simps, auto)

lemma int_of_str_nat [simp]: "0 \<le> n \<Longrightarrow> int_of_digits (str_nat n) = n"
proof (induction n rule: str_nat.induct)
  case (1 n)
  then show ?case
    by (subst str_nat.simps)
      (auto simp: int_of_digits_append int_of_digits_def [of "[_]"])
qed

lemma is_decimal_str_int: "is_decimal (str_int n) \<longleftrightarrow> 0 \<le> n"
proof (cases "0 \<le> n")
  case False
  have "\<not> is_digit (CHR ''-'')" by code_simp
  with False show ?thesis by (simp add: is_decimal_def str_int_def)
qed (simp add: is_decimal_def str_int_def str_nat_digits)

lemma int_of_str_int [simp]: "0 \<le> n \<Longrightarrow> int_of_digits (str_int n) = n"
  by (simp add: str_int_def)

lemma str_int_inj_nat: "0 \<le> m \<Longrightarrow> 0 \<le> n \<Longrightarrow> str_int m = str_int n \<longleftrightarrow> m = n"
  by (metis int_of_str_int)

lemma str_int_neg_not_decimal: "n < 0 \<Longrightarrow> \<exists>s. str_int n = CHR ''-'' # s \<and> s = str_nat (- n)"
  by (simp add: str_int_def)

lemma str_int_inj [simp]: "str_int m = str_int n \<longleftrightarrow> m = n"
proof
  assume eq: "str_int m = str_int n"
  show "m = n"
  proof (cases "0 \<le> m")
    case True
    then have "0 \<le> n" using eq is_decimal_str_int [of m] is_decimal_str_int [of n] by simp
    with True eq show ?thesis by (simp add: str_int_inj_nat)
  next
    case False
    then have "n < 0" using eq is_decimal_str_int [of m] is_decimal_str_int [of n] by simp
    with False eq have "str_nat (- m) = str_nat (- n)" by (simp add: str_int_def)
    then have "- m = - n" using False \<open>n < 0\<close>
      by (metis int_of_str_nat neg_0_le_iff_le less_imp_le linorder_not_le)
    then show ?thesis by simp
  qed
qed simp

lemma str_int_nonempty [simp]: "str_int n \<noteq> []"
  using str_nat_digits [of n] by (auto simp: str_int_def)

lemma str_nat_eq_digit: "0 \<le> d \<Longrightarrow> d \<le> 9 \<Longrightarrow> str_nat d = [digit_char d]"
  by (subst str_nat.simps) simp

lemma int_of_digits_nonneg: "list_all is_digit s \<Longrightarrow> 0 \<le> int_of_digits s"
proof (induction s rule: rev_induct)
  case (snoc c s)
  then show ?case by (simp add: int_of_digits_append is_digit_def)
qed (simp add: int_of_digits_def)

text \<open>The canonical texts are the digit strings with no leading zero.\<close>

lemma str_int_of_digits:
  "is_decimal s \<Longrightarrow> hd s \<noteq> CHR ''0'' \<Longrightarrow> str_int (int_of_digits s) = s"
proof (induction s rule: rev_induct)
  case (snoc c s)
  have c: "is_digit c" using snoc.prems by (simp add: is_decimal_def)
  then have dc: "0 \<le> digit_val c" "digit_val c \<le> 9" by (simp_all add: is_digit_def)
  show ?case
  proof (cases "s = []")
    case True
    with c dc show ?thesis
      by (simp add: int_of_digits_def str_int_def str_nat_eq_digit digit_char_digit_val)
  next
    case False
    with snoc.prems have s: "is_decimal s" "hd s \<noteq> CHR ''0''" by (auto simp: is_decimal_def)
    then have IH: "str_int (int_of_digits s) = s" by (rule snoc.IH)
    have nn: "0 \<le> int_of_digits s" using s by (simp add: is_decimal_def int_of_digits_nonneg)
    have pos: "int_of_digits s \<noteq> 0"
    proof
      assume "int_of_digits s = 0"
      with IH have "s = [char_of (48 :: nat)]"
        by (simp add: str_int_def str_nat_eq_digit digit_char_def)
      moreover have "char_of (48 :: nat) = CHR ''0''" by code_simp
      ultimately show False using s by simp
    qed
    with nn dc have big: "\<not> 10 * int_of_digits s + digit_val c < 10" by linarith
    have "(10 * int_of_digits s + digit_val c) div 10 = int_of_digits s"
      "(10 * int_of_digits s + digit_val c) mod 10 = digit_val c" using dc by presburger+
    with big nn dc IH c show ?thesis
      by (simp add: int_of_digits_append str_int_def str_nat.simps [of "10 * _ + _"]
          digit_char_digit_val)
  qed
qed (simp add: is_decimal_def)

subsection \<open>UTF-8\<close>

definition byte_of :: "nat \<Rightarrow> 8 word" where
  "byte_of n = word_of_nat n"

text \<open>A code point below 128 is one byte, one below 256 two.\<close>

fun utf8_char :: "char \<Rightarrow> bytes" where
  "utf8_char c =
     (let n = of_char c :: nat
      in if n < 128 then [byte_of n] else [byte_of (192 + n div 64), byte_of (128 + n mod 64)])"

definition utf8 :: "string \<Rightarrow> bytes" where
  "utf8 s = concat (map utf8_char s)"

text \<open>\<open>bytes.decode("utf-8")\<close> on those: anything else raises.\<close>

fun utf8_decode :: "bytes \<Rightarrow> string option" where
  "utf8_decode [] = Some []"
| "utf8_decode (b # bs) =
     (if b < 128 then map_option (\<lambda>s. char_of (unat b) # s) (utf8_decode bs)
      else case bs of
        [] \<Rightarrow> None
      | c # cs \<Rightarrow>
          if (b = 194 \<or> b = 195) \<and> 128 \<le> c \<and> c < 192
          then map_option (\<lambda>s. char_of ((unat b - 192) * 64 + (unat c - 128)) # s) (utf8_decode cs)
          else None)"

lemma unat_byte_of [simp]: "n < 256 \<Longrightarrow> unat (byte_of n) = n"
  by (simp add: byte_of_def unat_of_nat)

lemma byte_of_less: "n < 256 \<Longrightarrow> m < 256 \<Longrightarrow> byte_of n < byte_of m \<longleftrightarrow> n < m"
  by (simp add: word_less_nat_alt)

lemma byte_of_numerals:
  "(128 :: 8 word) = byte_of 128" "(192 :: 8 word) = byte_of 192"
  "(194 :: 8 word) = byte_of 194" "(195 :: 8 word) = byte_of 195"
  by (simp_all add: byte_of_def)

lemma byte_of_eq: "n < 256 \<Longrightarrow> m < 256 \<Longrightarrow> byte_of n = byte_of m \<longleftrightarrow> n = m"
  by (metis unat_byte_of)

lemma utf8_decode_char:
  "utf8_decode (utf8_char c @ bs) = map_option (\<lambda>s. c # s) (utf8_decode bs)"
proof -
  define n :: nat where "n = of_char c"
  have c: "c = char_of n" and n: "n < 256" using nat_of_char_less_256 [of c] by (simp_all add: n_def)
  show ?thesis
  proof (cases "n < 128")
    case True
    then show ?thesis
      by (simp add: c byte_of_numerals byte_of_less)
  next
    case False
    have "n div 64 = 2 \<or> n div 64 = 3" using n False by auto
    moreover have "n mod 64 + 64 * (n div 64) = n" by simp
    moreover have "n mod 64 < 64" by simp
    ultimately show ?thesis
      using False n
      by (auto simp: c byte_of_numerals byte_of_less byte_of_eq linorder_not_less [symmetric] ac_simps Let_def)
  qed
qed

lemma utf8_decode_utf8 [simp]: "utf8_decode (utf8 s) = Some s"
  by (induction s) (simp_all add: utf8_def utf8_decode_char del: utf8_char.simps)

lemma utf8_inj [simp]: "utf8 s = utf8 t \<longleftrightarrow> s = t"
  by (metis utf8_decode_utf8 option.inject)

subsection \<open>Hexadecimal text\<close>

definition hex_digit :: "nat \<Rightarrow> char" where
  "hex_digit n = (if n < 10 then char_of (48 + n) else char_of (87 + n))"

definition hex :: "bytes \<Rightarrow> string" where
  "hex bs = concat (map (\<lambda>b. [hex_digit (unat b div 16), hex_digit (unat b mod 16)]) bs)"

text \<open>The value of a hexadecimal digit, either case; \<open>None\<close> where \<open>bytes.fromhex\<close> raises.\<close>

definition hex_val :: "char \<Rightarrow> nat option" where
  "hex_val c =
     (let n = of_char c :: nat
      in if 48 \<le> n \<and> n \<le> 57 then Some (n - 48)
         else if 97 \<le> n \<and> n \<le> 102 then Some (n - 87)
         else if 65 \<le> n \<and> n \<le> 70 then Some (n - 55) else None)"

text \<open>\<open>bytes.fromhex\<close> skips ASCII whitespace between bytes.\<close>

definition is_space :: "char \<Rightarrow> bool" where
  "is_space c \<longleftrightarrow> c = CHR '' '' \<or> (9 \<le> (of_char c :: nat) \<and> (of_char c :: nat) \<le> 13)"

fun fromhex :: "string \<Rightarrow> bytes option" where
  "fromhex [] = Some []"
| "fromhex (c # s) =
     (if is_space c then fromhex s
      else case s of
        [] \<Rightarrow> None
      | d # r \<Rightarrow>
          (case (hex_val c, hex_val d) of
             (Some h, Some l) \<Rightarrow> map_option (\<lambda>bs. byte_of (16 * h + l) # bs) (fromhex r)
           | _ \<Rightarrow> None))"

lemma hex_val_digit [simp]: "n < 16 \<Longrightarrow> hex_val (hex_digit n) = Some n"
  by (auto simp: hex_val_def hex_digit_def Let_def)

lemma hex_digit_not_space [simp]: "n < 16 \<Longrightarrow> \<not> is_space (hex_digit n)"
proof -
  assume n: "n < 16"
  have "hex_val c = None" if "is_space c" for c
    using that by (auto simp: is_space_def hex_val_def)
  with n show ?thesis by (metis hex_val_digit option.distinct(1))
qed

lemma unat_byte_less: "unat (b :: 8 word) < 256"
  using unsigned_less [of b] by simp

lemma fromhex_hex [simp]: "fromhex (hex bs) = Some bs"
proof (induction bs)
  case (Cons b bs)
  have b: "unat b < 256" by (rule unat_byte_less)
  have "unat b div 16 < 16" "unat b mod 16 < 16" using b by auto
  moreover have "byte_of (16 * (unat b div 16) + unat b mod 16) = b" by (simp add: byte_of_def)
  ultimately show ?case using Cons by (simp add: hex_def)
qed (simp add: hex_def)

lemma hex_inj [simp]: "hex bs = hex cs \<longleftrightarrow> bs = cs"
  by (metis fromhex_hex option.inject)

lemma length_hex [simp]: "length (hex bs) = 2 * length bs"
  by (induction bs) (simp_all add: hex_def)

end
