(* ===== verification/Decimal28.thy ===== *)
theory Decimal28
  imports Prelude Complex_Main
begin

text \<open>
  Python's \<open>decimal\<close> arithmetic under the context of \<open>endure/scoring/context.py\<close>: 28
  significant digits, half-even rounding.  A finite \<open>Decimal\<close> is its value, a rational; an
  operation is the exact operation followed by \<open>rnd28\<close>, which is what the specification of
  decimal arithmetic prescribes for the operations used here.  Signed zeros, NaN, infinities and
  the exponent limits (\<open>Emax = 999999\<close>) are outside the model: no value the program computes
  comes near them, and the text of a \<open>Decimal\<close> is modelled only where a component stores one.

  The rounding function is stated for any number \<open>p\<close> of digits because an integer power is
  computed with guard digits and rounded again at the end.  The locale \<open>decimal_rounding\<close> is the
  interface the scoring components use: rounding is monotone, odd, idempotent and keeps one.
\<close>

subsection \<open>Rounding to an integer\<close>

text \<open>\<open>ROUND_HALF_EVEN\<close> and \<open>ROUND_HALF_UP\<close> (ties away from zero) to an integral value.\<close>

definition round_half_even :: "rat \<Rightarrow> int" where
  "round_half_even x =
     (let f = \<lfloor>x\<rfloor>; r = x - of_int f
      in if r < 1/2 then f else if 1/2 < r then f + 1 else if even f then f else f + 1)"

definition round_half_up :: "rat \<Rightarrow> int" where
  "round_half_up x = (if 0 \<le> x then \<lfloor>x + 1/2\<rfloor> else - \<lfloor>1/2 - x\<rfloor>)"

lemma round_half_even_of_int [simp]: "round_half_even (of_int n) = n"
  by (simp add: round_half_even_def Let_def)

lemma round_half_even_err: "\<bar>of_int (round_half_even x) - x\<bar> \<le> 1/2"
proof -
  define f where "f = \<lfloor>x\<rfloor>"
  have "of_int f \<le> x" "x < of_int f + 1" unfolding f_def by linarith+
  then show ?thesis
    by (auto simp: round_half_even_def Let_def f_def [symmetric] abs_le_iff)
qed

lemma round_half_even_mono: "x \<le> y \<Longrightarrow> round_half_even x \<le> round_half_even y"
proof -
  assume xy: "x \<le> y"
  define f g where "f = \<lfloor>x\<rfloor>" and "g = \<lfloor>y\<rfloor>"
  have fg: "f \<le> g" unfolding f_def g_def using xy by (rule floor_mono)
  show ?thesis
  proof (cases "f = g")
    case True
    with xy show ?thesis
      by (auto simp: round_half_even_def Let_def f_def [symmetric] g_def [symmetric])
  next
    case False
    with fg have "f + 1 \<le> g" by simp
    then show ?thesis
      by (auto simp: round_half_even_def Let_def f_def [symmetric] g_def [symmetric])
  qed
qed

lemma round_half_even_minus: "round_half_even (- x) = - round_half_even x"
proof (cases "x \<in> \<int>")
  case True
  then obtain n where "x = of_int n" by (auto elim: Ints_cases)
  then have "- x = of_int (- n)" by simp
  then show ?thesis using \<open>x = of_int n\<close> by (metis round_half_even_of_int)
next
  case False
  define f where "f = \<lfloor>x\<rfloor>"
  from False have "of_int f \<noteq> x" by (auto simp: f_def)
  moreover have "of_int f \<le> x" "x < of_int f + 1" unfolding f_def by linarith+
  ultimately have "of_int f < x" "x < of_int f + 1" by auto
  then have "\<lfloor>- x\<rfloor> = - f - 1" by (simp add: floor_eq_iff)
  then show ?thesis
    by (auto simp: round_half_even_def Let_def f_def [symmetric])
qed

lemma round_half_up_of_int [simp]: "round_half_up (of_int n) = n"
  by (auto simp: round_half_up_def floor_eq_iff)

lemma round_half_up_mono: "x \<le> y \<Longrightarrow> round_half_up x \<le> round_half_up y"
proof (cases "0 \<le> x \<or> y < 0")
  case True
  assume "x \<le> y"
  with True show ?thesis by (auto simp: round_half_up_def intro!: floor_mono)
next
  case False
  then have "0 \<le> \<lfloor>y + 1/2\<rfloor>" "0 \<le> \<lfloor>1/2 - x\<rfloor>" by auto
  then have "- \<lfloor>1/2 - x\<rfloor> \<le> \<lfloor>y + 1/2\<rfloor>" by linarith
  with False show ?thesis by (auto simp: round_half_up_def)
qed

lemma round_half_up_err: "\<bar>of_int (round_half_up x) - x\<bar> \<le> 1/2"
proof (cases "0 \<le> x")
  case True
  show ?thesis unfolding abs_le_iff round_half_up_def if_P [OF True] by linarith
next
  case False
  show ?thesis unfolding abs_le_iff round_half_up_def if_not_P [OF False] of_int_minus by linarith
qed

subsection \<open>Significant digits\<close>

function digits10 :: "int \<Rightarrow> nat" where
  "digits10 n = (if n < 10 then 1 else Suc (digits10 (n div 10)))"
  by pat_completeness auto
termination
  by (relation "measure nat") auto

declare digits10.simps [simp del]

lemma digits10_pos: "0 < digits10 n"
  by (subst digits10.simps) simp

lemma digits10_bounds: "0 < n \<Longrightarrow> 10 ^ (digits10 n - 1) \<le> n \<and> n < 10 ^ digits10 n"
proof (induction n rule: digits10.induct)
  case (1 n)
  show ?case
  proof (cases "n < 10")
    case True
    with "1.prems" show ?thesis by (simp add: digits10.simps)
  next
    case False
    define k where "k = digits10 (n div 10)"
    have pos: "0 < k" unfolding k_def by (rule digits10_pos)
    from False 1 have "10 ^ (k - 1) \<le> n div 10" "n div 10 < 10 ^ k"
      by (auto simp: k_def)
    then have "10 * 10 ^ (k - 1) \<le> n" "n < 10 * 10 ^ k" by linarith+
    with False pos show ?thesis
      by (simp add: digits10.simps [of n] k_def [symmetric] power_eq_if)
  qed
qed

text \<open>\<open>Decimal.adjusted\<close>: the exponent of the most significant digit.\<close>

definition adjusted :: "rat \<Rightarrow> int" where
  "adjusted x =
     (let (n, d) = quotient_of \<bar>x\<bar>;
          e = int (digits10 n) - int (digits10 d)
      in if 10 powi e \<le> \<bar>x\<bar> then e else e - 1)"

lemma adjusted_bounds:
  assumes "x \<noteq> 0"
  shows "10 powi adjusted x \<le> \<bar>x\<bar>" "\<bar>x\<bar> < 10 powi (adjusted x + 1)"
proof -
  obtain n d where nd: "quotient_of \<bar>x\<bar> = (n, d)" by (cases "quotient_of \<bar>x\<bar>")
  have d: "0 < d" using nd by (rule quotient_of_denom_pos)
  have x: "\<bar>x\<bar> = of_int n / of_int d" using nd by (rule quotient_of_div)
  have n: "0 < n"
    using assms x d by (metis abs_of_nonpos le_cases linorder_not_le of_int_le_0_iff
      of_int_pos divide_nonpos_pos abs_ge_zero abs_eq_0 order_antisym_conv)
  define a b where "a = digits10 n" and "b = digits10 d"
  have ab: "0 < a" "0 < b" unfolding a_def b_def by (rule digits10_pos)+
  have up: "(of_int m :: rat) < 10 ^ k" if "m < 10 ^ k" for m :: int and k :: nat
    using that by (metis of_int_less_iff of_int_numeral of_int_power)
  have lo: "(10 :: rat) ^ k \<le> of_int m" if "10 ^ k \<le> m" for m :: int and k :: nat
    using that by (metis of_int_le_iff of_int_numeral of_int_power)
  have nb: "10 ^ (a - 1) \<le> (of_int n :: rat)" "(of_int n :: rat) < 10 ^ a"
    using digits10_bounds [OF n] up [of n a] lo [of "a - 1" n]
    by (simp_all add: a_def)
  have db: "10 ^ (b - 1) \<le> (of_int d :: rat)" "(of_int d :: rat) < 10 ^ b"
    using digits10_bounds [OF d] up [of d b] lo [of "b - 1" d]
    by (simp_all add: b_def)
  have pw: "(10 :: rat) powi (int a - int b) = 10 ^ a / 10 ^ b"
    by (simp add: power_int_diff)
  have p1: "(10 :: rat) powi (int a - int b + 1) = 10 ^ a * 10 / 10 ^ b"
    by (simp add: power_int_add pw)
  have m1: "(10 :: rat) powi (int a - int b - 1) = 10 ^ a / 10 / 10 ^ b"
    by (simp add: power_int_diff)
  have "\<bar>x\<bar> < 10 ^ a * 10 / 10 ^ b"
  proof -
    have "of_int n * 10 ^ b < 10 ^ a * (10 ^ b :: rat)"
      using nb(2) by simp
    also have "\<dots> = 10 ^ a * 10 * 10 ^ (b - 1)" using ab by (simp add: power_eq_if)
    also have "\<dots> \<le> 10 ^ a * 10 * (of_int d :: rat)" using db(1) by simp
    finally show ?thesis using d by (simp add: x field_simps)
  qed
  moreover have "10 ^ a / 10 / 10 ^ b \<le> \<bar>x\<bar>"
  proof -
    have "10 ^ a * (of_int d :: rat) \<le> 10 ^ a * 10 ^ b" using db(2) by simp
    also have "\<dots> = 10 * 10 ^ (a - 1) * 10 ^ b" using ab by (simp add: power_eq_if)
    also have "\<dots> \<le> 10 * (of_int n :: rat) * 10 ^ b" using nb(1) by simp
    finally show ?thesis using d by (simp add: x field_simps)
  qed
  ultimately have "\<bar>x\<bar> < 10 powi (int a - int b + 1)" "10 powi (int a - int b - 1) \<le> \<bar>x\<bar>"
    by (simp_all add: p1 m1)
  then show "10 powi adjusted x \<le> \<bar>x\<bar>" "\<bar>x\<bar> < 10 powi (adjusted x + 1)"
    by (auto simp: adjusted_def Let_def nd a_def [symmetric] b_def [symmetric])
qed

subsection \<open>Rounding to \<open>p\<close> significant digits\<close>

definition rndp :: "nat \<Rightarrow> rat \<Rightarrow> rat" where
  "rndp p x =
     (if x = 0 then 0
      else let u = 10 powi (adjusted x - int p + 1)
           in of_int (round_half_even (x / u)) * u)"

lemma rndp_0 [simp]: "rndp p 0 = 0"
  by (simp add: rndp_def)

lemma adjusted_minus [simp]: "adjusted (- x) = adjusted x"
  by (simp add: adjusted_def)

lemma rndp_minus: "rndp p (- x) = - rndp p x"
  by (simp add: rndp_def Let_def round_half_even_minus)

lemma powi_10_mono: "i \<le> j \<Longrightarrow> (10 :: rat) powi i \<le> 10 powi j"
  by (rule power_int_increasing) simp_all

lemma powi_10_less: "(10 :: rat) powi i < 10 powi j \<longleftrightarrow> i < j"
  by (meson linorder_not_le not_less_iff_gr_or_eq one_less_numeral_iff powi_10_mono
      power_int_strict_increasing semiring_norm(76))

text \<open>An integer multiple of a power of ten with at most \<open>p\<close> digits is not changed.\<close>

lemma rndp_of_int_powi:
  assumes "\<bar>m\<bar> < 10 ^ p" "0 < p"
  shows "rndp p (of_int m * 10 powi k) = of_int m * 10 powi k"
proof (cases "m = 0")
  case False
  define x :: rat where "x = of_int m * 10 powi k"
  have x0: "x \<noteq> 0" using False by (simp add: x_def)
  define e where "e = adjusted x"
  have mb: "\<bar>of_int m\<bar> < (10 :: rat) ^ p"
    using assms(1) by (metis of_int_abs of_int_less_iff of_int_numeral of_int_power)
  have "10 powi e \<le> \<bar>x\<bar>" unfolding e_def using x0 by (rule adjusted_bounds)
  also have "\<bar>x\<bar> = \<bar>of_int m\<bar> * 10 powi k" by (simp add: x_def abs_mult)
  also have "\<dots> < 10 ^ p * 10 powi k" using mb by simp
  also have "\<dots> = 10 powi (int p + k)" by (simp add: power_int_add)
  finally have "e < int p + k" by (simp only: powi_10_less)
  define j where "j = nat (k - (e - int p + 1))"
  have j: "k = int j + (e - int p + 1)" using \<open>e < int p + k\<close> by (simp add: j_def)
  have "x / 10 powi (e - int p + 1) = of_int m * (10 powi k / 10 powi (e - int p + 1))"
    by (simp add: x_def)
  also have "10 powi k / 10 powi (e - int p + 1) = (10 :: rat) powi int j"
    by (subst j, subst power_int_add) simp_all
  also have "of_int m * 10 powi int j = (of_int (m * 10 ^ j) :: rat)" by simp
  finally have "x / 10 powi (e - int p + 1) = of_int (m * 10 ^ j)" .
  then have "rndp p x = of_int (m * 10 ^ j) * 10 powi (e - int p + 1)"
    using x0 by (simp only: rndp_def Let_def e_def [symmetric] round_half_even_of_int if_False)
  also have "\<dots> = of_int m * (10 powi int j * 10 powi (e - int p + 1))" by simp
  also have "10 powi int j * 10 powi (e - int p + 1) = (10 :: rat) powi k"
    using power_int_add [of "10 :: rat" "int j" "e - int p + 1"] j by simp
  finally show ?thesis by (simp add: x_def)
qed simp

lemma rndp_powi: "0 < p \<Longrightarrow> rndp p (10 powi k) = 10 powi k"
  using rndp_of_int_powi [of 1 p k] one_less_power [of "10 :: int" p] by simp

lemma rndp_bounds:
  assumes "0 < x" "0 < p"
  shows "10 powi adjusted x \<le> rndp p x" "rndp p x \<le> 10 powi (adjusted x + 1)"
proof -
  define e u where "e = adjusted x" and "u = (10 :: rat) powi (e - int p + 1)"
  have u: "0 < u" by (simp add: u_def)
  have xb: "10 powi e \<le> x" "x < 10 powi (e + 1)"
    using adjusted_bounds [of x] assms(1) by (simp_all add: e_def)
  have lo: "10 powi e / u = of_int (10 ^ (p - 1))"
    using assms(2) by (simp add: u_def power_int_diff [symmetric] of_nat_diff)
      (metis One_nat_def Suc_leI of_nat_1 of_nat_diff power_int_of_nat)
  have hi: "10 powi (e + 1) / u = of_int (10 ^ p)"
    by (simp add: u_def power_int_diff [symmetric])
  have "round_half_even (10 powi e / u) \<le> round_half_even (x / u)"
    "round_half_even (x / u) \<le> round_half_even (10 powi (e + 1) / u)"
    using xb u by (auto intro!: round_half_even_mono divide_right_mono)
  then have r: "10 ^ (p - 1) \<le> round_half_even (x / u)" "round_half_even (x / u) \<le> 10 ^ p"
    unfolding lo hi round_half_even_of_int by simp_all
  have rx: "rndp p x = of_int (round_half_even (x / u)) * u"
    using assms(1) by (simp add: rndp_def Let_def e_def u_def)
  have "10 powi e = of_int (10 ^ (p - 1)) * u" using lo u by (simp add: field_simps)
  also have "\<dots> \<le> rndp p x" unfolding rx
    using r(1) u by (intro mult_right_mono) (simp_all only: of_int_le_iff less_imp_le)
  finally show "10 powi adjusted x \<le> rndp p x" by (simp add: e_def)
  have "rndp p x \<le> of_int (10 ^ p) * u" unfolding rx
    using r(2) u by (intro mult_right_mono) (simp_all only: of_int_le_iff less_imp_le)
  also have "\<dots> = 10 powi (e + 1)" using hi u by (simp add: field_simps)
  finally show "rndp p x \<le> 10 powi (adjusted x + 1)" by (simp add: e_def)
qed

lemma rndp_mono_pos:
  assumes "0 < x" "x \<le> y" "0 < p"
  shows "rndp p x \<le> rndp p y"
proof (cases "adjusted x = adjusted y")
  case True
  then show ?thesis
    using assms by (auto simp: rndp_def Let_def intro!: mult_right_mono round_half_even_mono
        divide_right_mono)
next
  case False
  have "(10 :: rat) powi adjusted x < 10 powi (adjusted y + 1)"
    using adjusted_bounds [of x] adjusted_bounds [of y] assms by linarith
  with False have "adjusted x + 1 \<le> adjusted y" by (simp only: powi_10_less)
  have "rndp p x \<le> 10 powi (adjusted x + 1)" using assms by (intro rndp_bounds)
  also have "\<dots> \<le> 10 powi adjusted y" by (rule powi_10_mono) fact
  also have "\<dots> \<le> rndp p y" using assms by (intro rndp_bounds) auto
  finally show ?thesis .
qed

lemma rndp_nonneg: "0 \<le> x \<Longrightarrow> 0 < p \<Longrightarrow> 0 \<le> rndp p x"
  using rndp_bounds(1) [of x p] by (cases "x = 0") (auto intro: order_trans [rotated])

lemma rndp_pos: "0 < x \<Longrightarrow> 0 < p \<Longrightarrow> 0 < rndp p x"
  using rndp_bounds(1) [of x p] by (auto intro: less_le_trans [rotated])

lemma rndp_mono:
  assumes "x \<le> y" "0 < p"
  shows "rndp p x \<le> rndp p y"
proof -
  consider "0 < x" | "x \<le> 0" "0 \<le> y" | "y < 0" by linarith
  then show ?thesis
  proof cases
    case 1
    with assms show ?thesis by (intro rndp_mono_pos)
  next
    case 2
    have "0 \<le> rndp p (- x)" using 2 assms by (intro rndp_nonneg) auto
    then have "rndp p x \<le> 0" by (simp add: rndp_minus)
    also have "0 \<le> rndp p y" using 2 assms by (intro rndp_nonneg) auto
    finally show ?thesis .
  next
    case 3
    have "rndp p (- y) \<le> rndp p (- x)" using 3 assms by (intro rndp_mono_pos) auto
    then show ?thesis by (simp add: rndp_minus)
  qed
qed

lemma rndp_idem_pos: "0 < x \<Longrightarrow> 0 < p \<Longrightarrow> rndp p (rndp p x) = rndp p x"
proof -
  assume x: "0 < x" and p: "0 < p"
  define k where "k = adjusted x - int p + 1"
  define m where "m = round_half_even (x / 10 powi k)"
  have rx: "rndp p x = of_int m * 10 powi k" using x by (simp add: rndp_def Let_def m_def k_def)
  have top: "10 powi (adjusted x + 1) = of_int (10 ^ p) * (10 :: rat) powi k"
    by (simp add: k_def power_int_add power_int_diff field_simps)
  from rndp_bounds(2) [OF x p] have "m \<le> 10 ^ p"
    unfolding rx top by (simp only: mult_le_cancel_right of_int_le_iff) simp
  moreover have "0 < m" using rndp_pos [OF x p] unfolding rx
    by (simp add: zero_less_mult_iff) (use zero_less_power_int [of "10 :: rat" k] in linarith)
  ultimately consider "\<bar>m\<bar> < 10 ^ p" | "m = 10 ^ p" by linarith
  then show ?thesis
  proof cases
    case 1
    then show ?thesis unfolding rx using p by (rule rndp_of_int_powi)
  next
    case 2
    then have "rndp p x = 10 powi (adjusted x + 1)" by (simp add: rx top)
    then show ?thesis by (simp only: rndp_powi [OF p])
  qed
qed

lemma rndp_idem: "0 < p \<Longrightarrow> rndp p (rndp p x) = rndp p x"
proof -
  assume p: "0 < p"
  consider "0 < x" | "x = 0" | "0 < - x" by linarith
  then show ?thesis
  proof cases
    case 3
    then have "rndp p (rndp p (- x)) = rndp p (- x)" using p by (rule rndp_idem_pos)
    then show ?thesis by (simp add: rndp_minus)
  qed (use p rndp_idem_pos in auto)
qed

text \<open>The relative error is at most half a unit in the last place.\<close>

lemma rndp_err:
  assumes "0 < p"
  shows "\<bar>rndp p x - x\<bar> \<le> \<bar>x\<bar> * 10 powi (1 - int p) / 2"
proof (cases "x = 0")
  case False
  define u where "u = (10 :: rat) powi (adjusted x - int p + 1)"
  have u: "0 < u" by (simp add: u_def)
  have "rndp p x - x = (of_int (round_half_even (x / u)) - x / u) * u"
    using False u by (simp add: rndp_def Let_def u_def left_diff_distrib)
  then have "\<bar>rndp p x - x\<bar> = \<bar>of_int (round_half_even (x / u)) - x / u\<bar> * u"
    using u by (simp add: abs_mult)
  also have "\<dots> \<le> 1/2 * u"
    using u by (intro mult_right_mono round_half_even_err) simp
  also have "u = 10 powi adjusted x * 10 powi (1 - int p)"
    by (simp add: u_def power_int_add [symmetric] algebra_simps)
  also have "1/2 * (10 powi adjusted x * 10 powi (1 - int p)) \<le> 1/2 * (\<bar>x\<bar> * 10 powi (1 - int p))"
    using adjusted_bounds(1) [OF False] by (intro mult_left_mono mult_right_mono) auto
  finally show ?thesis by simp
qed simp

subsection \<open>The context of the program\<close>

text \<open>\<open>TR_CONTEXT = Context(prec=28, rounding=ROUND_HALF_EVEN)\<close> and its operations.\<close>

definition tr_prec :: nat where
  "tr_prec = 28"

definition rnd28 :: "rat \<Rightarrow> rat" where
  "rnd28 = rndp tr_prec"

definition dadd :: "rat \<Rightarrow> rat \<Rightarrow> rat" where
  "dadd a b = rnd28 (a + b)"

definition dsub :: "rat \<Rightarrow> rat \<Rightarrow> rat" where
  "dsub a b = rnd28 (a - b)"

definition dmul :: "rat \<Rightarrow> rat \<Rightarrow> rat" where
  "dmul a b = rnd28 (a * b)"

text \<open>Division by zero raises; every use below has a divisor that is not zero or says so.\<close>

definition ddiv :: "rat \<Rightarrow> rat \<Rightarrow> rat" where
  "ddiv a b = rnd28 (a / b)"

text \<open>\<open>sum(values, Decimal(0))\<close>, left to right.\<close>

definition dsum :: "rat list \<Rightarrow> rat" where
  "dsum xs = foldl dadd 0 xs"

text \<open>
  A power with an integer exponent \<open>n\<close> is computed by binary powering with
  \<open>digits(n) + 2\<close> guard digits and then rounded to the context.
\<close>

fun qpow_uint :: "nat \<Rightarrow> rat \<Rightarrow> nat \<Rightarrow> rat" where
  "qpow_uint p b n =
     (if n \<le> 1 then b
      else let h = qpow_uint p b (n div 2); s = rndp p (h * h)
           in if odd n then rndp p (s * b) else s)"

declare qpow_uint.simps [simp del]

definition dpow :: "rat \<Rightarrow> nat \<Rightarrow> rat" where
  "dpow b n = (if n = 0 then 1 else rnd28 (qpow_uint (tr_prec + digits10 (int n) + 2) b n))"

text \<open>A value a context operation can return: one that rounding leaves alone.\<close>

definition is_dec :: "rat \<Rightarrow> bool" where
  "is_dec x \<longleftrightarrow> rnd28 x = x"

lemmas dec_ops = dadd_def dsub_def dmul_def ddiv_def

subsection \<open>The interface of the scoring components\<close>

locale decimal_rounding =
  fixes rnd :: "rat \<Rightarrow> rat"
  assumes mono: "x \<le> y \<Longrightarrow> rnd x \<le> rnd y"
    and minus: "rnd (- x) = - rnd x"
    and idem: "rnd (rnd x) = rnd x"
    and small_int: "\<bar>n\<bar> < 10 ^ 28 \<Longrightarrow> rnd (of_int n) = of_int n"
    and pos: "0 < x \<Longrightarrow> 0 < rnd x"
begin

lemma zero: "rnd 0 = 0"
  using small_int [of 0] by simp

lemma one: "rnd 1 = 1"
  using small_int [of 1] by simp

lemma nat: "n < 10 ^ 28 \<Longrightarrow> rnd (of_nat n) = of_nat n"
  using small_int [of "int n"] by (simp add: nat_less_iff)

lemma nonneg: "0 \<le> x \<Longrightarrow> 0 \<le> rnd x"
  using mono [of 0 x] by (simp add: zero)

lemma eq_0_iff: "rnd x = 0 \<longleftrightarrow> x = 0"
  using pos [of x] pos [of "- x"] by (cases x "0 :: rat" rule: linorder_cases) (auto simp: minus zero)

lemma ge_fix: "rnd a = a \<Longrightarrow> a \<le> x \<Longrightarrow> a \<le> rnd x"
  using mono [of a x] by simp

lemma le_fix: "rnd a = a \<Longrightarrow> x \<le> a \<Longrightarrow> rnd x \<le> a"
  using mono [of x a] by simp

lemma quotient_unit: "0 \<le> a \<Longrightarrow> a \<le> b \<Longrightarrow> 0 \<le> rnd (a / b) \<and> rnd (a / b) \<le> 1"
  using nonneg [of "a / b"] le_fix [OF one, of "a / b"]
  by (cases "b = 0") (auto simp: zero divide_le_eq_1)

lemma sum_fix: "rnd s = s \<Longrightarrow> rnd (foldl (\<lambda>s x. rnd (s + x)) s xs) = foldl (\<lambda>s x. rnd (s + x)) s xs"
  by (induction xs arbitrary: s) (simp_all add: idem)

lemma sum_ge_init:
  assumes "\<And>x. x \<in> set xs \<Longrightarrow> 0 \<le> x" "rnd s = s"
  shows "s \<le> foldl (\<lambda>s x. rnd (s + x)) s xs"
  using assms
proof (induction xs arbitrary: s)
  case (Cons x xs)
  have "s \<le> rnd (s + x)" using Cons.prems by (intro ge_fix) auto
  also have "\<dots> \<le> foldl (\<lambda>s x. rnd (s + x)) (rnd (s + x)) xs"
    using Cons.prems by (intro Cons.IH) (auto simp: idem)
  finally show ?case by simp
qed simp

lemma sum_ge_member:
  assumes "\<And>x. x \<in> set xs \<Longrightarrow> 0 \<le> x" "rnd s = s" "0 \<le> s" "y \<in> set xs" "rnd y = y"
  shows "y \<le> foldl (\<lambda>s x. rnd (s + x)) s xs"
  using assms
proof (induction xs arbitrary: s)
  case (Cons x xs)
  show ?case
  proof (cases "y = x")
    case True
    have "x \<le> rnd (s + x)" using Cons.prems True by (intro ge_fix) auto
    also have "\<dots> \<le> foldl (\<lambda>s x. rnd (s + x)) (rnd (s + x)) xs"
      using Cons.prems by (intro sum_ge_init) (auto simp: idem)
    finally show ?thesis by (simp add: True)
  next
    case False
    have "0 \<le> rnd (s + x)" using Cons.prems by (intro nonneg) auto
    with False Cons.prems show ?thesis by (auto simp: idem intro!: Cons.IH)
  qed
qed simp

lemma sum_le_length:
  assumes "\<And>x. x \<in> set xs \<Longrightarrow> x \<le> 1" "s \<le> of_nat k" "k + length xs < 10 ^ 28"
  shows "foldl (\<lambda>s x. rnd (s + x)) s xs \<le> of_nat (k + length xs)"
  using assms
proof (induction xs arbitrary: s k)
  case (Cons x xs)
  have "x \<le> 1" using Cons.prems(1) by simp
  with Cons.prems(2) have "s + x \<le> of_nat (Suc k)" by simp
  with Cons.prems(3) have "rnd (s + x) \<le> of_nat (Suc k)" by (intro le_fix nat) simp_all
  with Cons.prems have "foldl (\<lambda>s x. rnd (s + x)) (rnd (s + x)) xs \<le> of_nat (Suc k + length xs)"
    by (intro Cons.IH) auto
  then show ?case by simp
qed simp

lemma sum_mono:
  assumes "list_all2 (\<le>) xs ys" "s \<le> t"
  shows "foldl (\<lambda>s x. rnd (s + x)) s xs \<le> foldl (\<lambda>s x. rnd (s + x)) t ys"
  using assms
proof (induction xs ys arbitrary: s t rule: list_all2_induct)
  case (Cons x xs y ys)
  then have "rnd (s + x) \<le> rnd (t + y)" by (intro mono add_mono)
  then show ?case by (simp add: Cons.IH)
qed simp

lemma sum_all_zero: "(\<And>x. x \<in> set xs \<Longrightarrow> x = 0) \<Longrightarrow> foldl (\<lambda>s x. rnd (s + x)) 0 xs = 0"
proof (induction xs)
  case (Cons x xs)
  then have "x = 0" by simp
  with Cons show ?case by (simp add: zero)
qed simp

lemma average_unit:
  assumes "\<And>x. x \<in> set xs \<Longrightarrow> 0 \<le> x \<and> x \<le> 1" "length xs < 10 ^ 28"
  shows "0 \<le> rnd (foldl (\<lambda>s x. rnd (s + x)) 0 xs / of_nat (length xs))
       \<and> rnd (foldl (\<lambda>s x. rnd (s + x)) 0 xs / of_nat (length xs)) \<le> 1"
proof (rule quotient_unit)
  show "0 \<le> foldl (\<lambda>s x. rnd (s + x)) 0 xs"
    by (rule sum_ge_init) (simp_all add: assms(1) zero)
  have "foldl (\<lambda>s x. rnd (s + x)) 0 xs \<le> of_nat (0 + length xs)"
    by (rule sum_le_length) (use assms in simp_all)
  then show "foldl (\<lambda>s x. rnd (s + x)) 0 xs \<le> of_nat (length xs)" by simp
qed

text \<open>A convex combination of two values of the unit interval stays in it.\<close>

lemma convex_unit:
  assumes "0 \<le> a" "0 \<le> b" "a + b = 1" "rnd a = a" "rnd b = b"
    "0 \<le> x" "x \<le> 1" "0 \<le> y" "y \<le> 1"
  shows "0 \<le> rnd (rnd (a * x) + rnd (b * y)) \<and> rnd (rnd (a * x) + rnd (b * y)) \<le> 1"
proof -
  have "a * x \<le> a" "b * y \<le> b" using assms by (auto intro: mult_left_le)
  then have "rnd (a * x) \<le> a" "rnd (b * y) \<le> b" using assms by (auto intro: le_fix)
  then have "rnd (rnd (a * x) + rnd (b * y)) \<le> 1" using assms by (intro le_fix one) linarith
  moreover have "0 \<le> rnd (a * x)" "0 \<le> rnd (b * y)" using assms by (auto intro!: nonneg)
  ultimately show ?thesis by (auto intro!: nonneg)
qed

end

interpretation dec: decimal_rounding rnd28
proof
  show "rnd28 (of_int n) = of_int n" if "\<bar>n\<bar> < 10 ^ 28" for n
    using rndp_of_int_powi [of n 28 0] that by (simp add: rnd28_def tr_prec_def)
qed (simp_all add: rnd28_def tr_prec_def rndp_mono rndp_minus rndp_idem rndp_pos)

lemma dsum_foldl: "dsum xs = foldl (\<lambda>s x. rnd28 (s + x)) 0 xs"
  by (simp add: dsum_def dadd_def [abs_def])

lemma is_dec_rnd28 [simp]: "is_dec (rnd28 x)"
  by (simp add: is_dec_def dec.idem)

lemma is_dec_ops [simp]:
  "is_dec (dadd a b)" "is_dec (dsub a b)" "is_dec (dmul a b)" "is_dec (ddiv a b)"
  by (simp_all add: dec_ops)

lemma is_dec_0_1 [simp]: "is_dec 0" "is_dec 1"
  by (simp_all add: is_dec_def dec.zero dec.one)

lemma is_dec_of_int: "\<bar>n\<bar> < 10 ^ 28 \<Longrightarrow> is_dec (of_int n)"
  unfolding is_dec_def by (rule dec.small_int)

lemma is_decD: "is_dec x \<Longrightarrow> rnd28 x = x"
  by (simp add: is_dec_def)

lemma is_dec_dsum [simp]: "is_dec (dsum xs)"
  unfolding dsum_foldl is_dec_def by (rule dec.sum_fix) (rule dec.zero)

lemma dsum_nonneg: "(\<And>x. x \<in> set xs \<Longrightarrow> 0 \<le> x) \<Longrightarrow> 0 \<le> dsum xs"
  unfolding dsum_foldl by (rule dec.sum_ge_init) (auto simp: dec.zero)

lemma dsum_ge_member:
  "(\<And>x. x \<in> set xs \<Longrightarrow> 0 \<le> x) \<Longrightarrow> y \<in> set xs \<Longrightarrow> is_dec y \<Longrightarrow> y \<le> dsum xs"
  unfolding dsum_foldl is_dec_def by (rule dec.sum_ge_member) (auto simp: dec.zero)

lemma dsum_eq_0_iff:
  assumes "\<And>x. x \<in> set xs \<Longrightarrow> 0 \<le> x \<and> is_dec x"
  shows "dsum xs = 0 \<longleftrightarrow> (\<forall>x \<in> set xs. x = 0)"
proof
  assume "dsum xs = 0"
  then show "\<forall>x \<in> set xs. x = 0"
    using assms dsum_ge_member [of xs] by (metis order_antisym)
next
  assume "\<forall>x \<in> set xs. x = 0"
  then show "dsum xs = 0" unfolding dsum_foldl by (intro dec.sum_all_zero) auto
qed

lemma is_dec_dpow [simp]: "is_dec (dpow b n)"
  by (simp add: dpow_def)

lemma qpow_uint_nonneg: "0 \<le> b \<Longrightarrow> 0 < p \<Longrightarrow> 0 \<le> qpow_uint p b n"
proof (induction p b n rule: qpow_uint.induct)
  case (1 p b n)
  then show ?case
    by (subst qpow_uint.simps) (auto simp: Let_def rndp_nonneg)
qed

lemma qpow_uint_pos: "0 < b \<Longrightarrow> 0 < p \<Longrightarrow> 0 < qpow_uint p b n"
proof (induction p b n rule: qpow_uint.induct)
  case (1 p b n)
  then show ?case
    by (subst qpow_uint.simps) (auto simp: Let_def rndp_pos)
qed

lemma qpow_uint_mono:
  "0 \<le> b \<Longrightarrow> b \<le> c \<Longrightarrow> 0 < p \<Longrightarrow> qpow_uint p b n \<le> qpow_uint p c n"
proof (induction p b n arbitrary: c rule: qpow_uint.induct)
  case (1 p b n)
  show ?case
  proof (cases "n \<le> 1")
    case True
    with "1.prems" show ?thesis by (simp add: qpow_uint.simps)
  next
    case False
    define h k where "h = qpow_uint p b (n div 2)" and "k = qpow_uint p c (n div 2)"
    have hk: "0 \<le> h" "h \<le> k"
      using 1 False by (auto simp: h_def k_def intro: qpow_uint_nonneg)
    then have "rndp p (h * h) \<le> rndp p (k * k)"
      using "1.prems" by (intro rndp_mono mult_mono) auto
    moreover have "0 \<le> rndp p (h * h)" using hk "1.prems" by (intro rndp_nonneg) auto
    ultimately show ?thesis
      using False "1.prems" hk
      by (auto simp: qpow_uint.simps [of p b n] qpow_uint.simps [of p c n] Let_def
          h_def [symmetric] k_def [symmetric] intro!: rndp_mono mult_mono)
  qed
qed

lemma qpow_uint_1: "0 < p \<Longrightarrow> qpow_uint p 1 n = 1"
proof (induction n rule: less_induct)
  case (less n)
  have "rndp p 1 = 1" using rndp_powi [of p 0] less.prems by simp
  with less show ?case
    by (cases "n \<le> 1") (simp_all add: qpow_uint.simps [of p 1 n] Let_def)
qed

lemma dpow_nonneg: "0 \<le> b \<Longrightarrow> 0 \<le> dpow b n"
  by (simp add: dpow_def dec.nonneg qpow_uint_nonneg)

lemma dpow_pos: "0 < b \<Longrightarrow> 0 < dpow b n"
  by (simp add: dpow_def dec.pos qpow_uint_pos)

lemma dpow_mono: "0 \<le> b \<Longrightarrow> b \<le> c \<Longrightarrow> dpow b n \<le> dpow c n"
  by (simp add: dpow_def dec.mono qpow_uint_mono)

lemma dpow_le_1: "0 \<le> b \<Longrightarrow> b \<le> 1 \<Longrightarrow> dpow b n \<le> 1"
  using dpow_mono [of b 1 n] by (simp add: dpow_def qpow_uint_1 dec.one split: if_splits)

lemma dpow_0 [simp]: "0 < n \<Longrightarrow> dpow 0 n = 0"
proof -
  have "qpow_uint p 0 n = 0" if "0 < p" for p
  proof (induction n rule: less_induct)
    case (less n)
    then show ?case by (cases "n \<le> 1") (simp_all add: qpow_uint.simps [of p 0 n] Let_def)
  qed
  then show "0 < n \<Longrightarrow> dpow 0 n = 0" by (simp add: dpow_def dec.zero)
qed

subsection \<open>Two to a negative fraction\<close>

text \<open>
  \<open>Decimal(2) ** y\<close> for a non-integral \<open>y\<close> is computed to more digits than the context and
  rounded; the model is the correctly rounded value.  For \<open>-1 \<le> y < 0\<close> the value lies in
  \<open>[1/2, 1)\<close>, so it is the nearest multiple of \<open>10\<^sup>-\<^sup>2\<^sup>8\<close>: with \<open>y = -a/b\<close>, the largest \<open>n\<close> such
  that \<open>n - 1/2 \<le> 10\<^sup>2\<^sup>8 * 2\<^sup>-\<^sup>a\<^sup>/\<^sup>b\<close>, an integer comparison, found by bisection.
\<close>

function greatest_in :: "(int \<Rightarrow> bool) \<Rightarrow> int \<Rightarrow> int \<Rightarrow> int" where
  "greatest_in P lo hi =
     (if hi - lo \<le> 1 then lo
      else let m = (lo + hi) div 2
           in if P m then greatest_in P m hi else greatest_in P lo m)"
  by pat_completeness auto
termination
  by (relation "measure (\<lambda>(P, lo, hi). nat (hi - lo))") auto

declare greatest_in.simps [simp del]

lemma greatest_in_bounds:
  "P lo \<Longrightarrow> \<not> P hi \<Longrightarrow> lo < hi \<Longrightarrow>
     P (greatest_in P lo hi) \<and> \<not> P (greatest_in P lo hi + 1)
     \<and> lo \<le> greatest_in P lo hi \<and> greatest_in P lo hi < hi"
proof (induction P lo hi rule: greatest_in.induct)
  case (1 P lo hi)
  show ?case
  proof (cases "hi - lo \<le> 1")
    case True
    with "1.prems" have "hi = lo + 1" by simp
    with "1.prems" show ?thesis by (simp add: greatest_in.simps [of P lo "lo + 1"])
  next
    case False
    define m where "m = (lo + hi) div 2"
    have m: "lo < m" "m < hi" unfolding m_def using False by linarith+
    have eq: "greatest_in P lo hi = (if P m then greatest_in P m hi else greatest_in P lo m)"
      using False by (simp add: greatest_in.simps [of P lo hi] m_def [symmetric] Let_def)
    show ?thesis
    proof (cases "P m")
      case True
      with 1(1) [OF False m_def] 1(4) m show ?thesis by (auto simp: eq)
    next
      case f: False
      with 1(2) [OF False m_def f] 1(3) m show ?thesis by (auto simp: eq)
    qed
  qed
qed

lemma greatest_in_eqI:
  assumes "\<And>i j. i \<le> j \<Longrightarrow> P j \<Longrightarrow> lo \<le> i \<Longrightarrow> P i" "P lo" "\<not> P hi" "lo < hi"
    "P n" "\<not> P (n + 1)" "lo \<le> n"
  shows "greatest_in P lo hi = n"
proof -
  let ?g = "greatest_in P lo hi"
  have g: "P ?g" "\<not> P (?g + 1)" "lo \<le> ?g" using greatest_in_bounds [of P lo hi] assms by auto
  have "\<not> ?g + 1 \<le> n" using g assms(1) [of "?g + 1" n] assms(5) by linarith
  moreover have "\<not> n + 1 \<le> ?g" using g assms(1) [of "n + 1" ?g] assms(6,7) by linarith
  ultimately show ?thesis by simp
qed

definition root_below :: "nat \<Rightarrow> nat \<Rightarrow> int \<Rightarrow> bool" where
  "root_below a b n \<longleftrightarrow> (2 * n - 1) ^ b * 2 ^ a \<le> (2 * 10 ^ 28) ^ b"

definition exp2_neg :: "rat \<Rightarrow> rat" where
  "exp2_neg y =
     (let (a, b) = quotient_of (- y)
      in of_int (greatest_in (root_below (nat a) (nat b)) (5 * 10 ^ 27) (10 ^ 28 + 1)) / 10 ^ 28)"

lemma root_below_half: "a \<le> b \<Longrightarrow> root_below a b (5 * 10 ^ 27)"
proof -
  assume ab: "a \<le> b"
  have "(2 * (5 * 10 ^ 27) - 1 :: int) ^ b * 2 ^ a \<le> (10 ^ 28) ^ b * 2 ^ b"
    using ab by (intro mult_mono power_mono power_increasing) auto
  also have "\<dots> = (2 * 10 ^ 28) ^ b" by (simp add: power_mult_distrib [symmetric])
  finally show ?thesis by (simp add: root_below_def)
qed

lemma root_below_top: "0 < b \<Longrightarrow> \<not> root_below a b (10 ^ 28 + 1)"
proof -
  assume b: "0 < b"
  have "(2 * 10 ^ 28) ^ b < (2 * (10 ^ 28 + 1) - 1 :: int) ^ b"
    using b by (intro power_strict_mono) auto
  also have "\<dots> \<le> (2 * (10 ^ 28 + 1) - 1) ^ b * 2 ^ a" by (simp add: self_le_power)
  finally show ?thesis by (simp add: root_below_def)
qed

lemma exp2_neg_unit:
  assumes "- 1 \<le> y" "y < 0"
  shows "1/2 \<le> exp2_neg y \<and> exp2_neg y \<le> 1 \<and> is_dec (exp2_neg y) \<and> is_dec (1 - exp2_neg y)"
proof -
  obtain a b where q: "quotient_of (- y) = (a, b)" by (cases "quotient_of (- y)")
  have b: "0 < b" using q by (rule quotient_of_denom_pos)
  have y: "- y = of_int a / of_int b" using q by (rule quotient_of_div)
  have "0 < (of_int a :: rat) / of_int b" "of_int a / (of_int b :: rat) \<le> 1"
    using assms unfolding y [symmetric] by simp_all
  with b have "0 < a" "a \<le> b" by (simp_all add: zero_less_divide_iff divide_le_eq_1)
  then have "nat a \<le> nat b" by simp
  define n where "n = greatest_in (root_below (nat a) (nat b)) (5 * 10 ^ 27) (10 ^ 28 + 1)"
  have "5 * 10 ^ 27 \<le> n" "n < 10 ^ 28 + 1"
    using greatest_in_bounds [of "root_below (nat a) (nat b)" "5 * 10 ^ 27" "10 ^ 28 + 1"]
      root_below_half [OF \<open>nat a \<le> nat b\<close>] root_below_top [of "nat b" "nat a"] b
    by (auto simp: n_def)
  then have nb: "5 * 10 ^ 27 \<le> n" "n \<le> 10 ^ 28" by simp_all
  have v: "exp2_neg y = of_int n / 10 ^ 28" by (simp add: exp2_neg_def q n_def)
  have "of_int (5 * 10 ^ 27) \<le> (of_int n :: rat)" "of_int n \<le> (of_int (10 ^ 28) :: rat)"
    using nb by (simp_all only: of_int_le_iff)
  then have r: "1/2 \<le> exp2_neg y" "exp2_neg y \<le> 1" by (simp_all add: v)
  have pw: "x / 10 ^ 28 = x * 10 powi (- int 28)" for x :: rat
    by (simp only: power_int_minus power_int_of_nat divide_inverse)
  have d: "is_dec (of_int m / 10 ^ 28)" if "0 \<le> m" "m < 10 ^ 28" for m
    unfolding is_dec_def rnd28_def tr_prec_def pw
    by (rule rndp_of_int_powi) (use that in simp_all)
  have "is_dec (exp2_neg y)"
  proof (cases "n = 10 ^ 28")
    case False
    with nb d [of n] show ?thesis by (simp add: v)
  qed (simp add: v)
  have "1 - exp2_neg y = of_int (10 ^ 28 - n) / 10 ^ 28"
    by (simp add: v diff_divide_distrib)
  moreover have "is_dec (of_int (10 ^ 28 - n) / 10 ^ 28)" by (rule d) (use nb in simp_all)
  ultimately have "is_dec (1 - exp2_neg y)" by (simp only:)
  moreover have "is_dec (exp2_neg y)" by fact
  ultimately show ?thesis using r by simp
qed

text \<open>The half life of five rounds the program runs with.\<close>

lemma exp2_neg_fifth: "exp2_neg (- (1/5)) = 8705505632961241391362700175 / 10 ^ 28"
proof -
  have mono: "root_below 1 5 i" if "i \<le> j" "root_below 1 5 j" "5 * 10 ^ 27 \<le> i" for i j
  proof -
    have "(2 * i - 1) ^ 5 * 2 ^ 1 \<le> (2 * j - 1) ^ 5 * (2 :: int) ^ 1"
      using that by (intro mult_right_mono power_mono) auto
    with that(2) show ?thesis by (simp add: root_below_def)
  qed
  have "greatest_in (root_below 1 5) (5 * 10 ^ 27) (10 ^ 28 + 1) = 8705505632961241391362700175"
    by (rule greatest_in_eqI [OF mono root_below_half root_below_top]) (simp_all add: root_below_def)
  moreover have "quotient_of (1/5) = (1, 5)" by code_simp
  ultimately show ?thesis by (simp add: exp2_neg_def)
qed

end
