(* ===== verification/Coordinates.thy ===== *)
theory Coordinates
  imports Text Decimal28
begin

text \<open>
  Assessment coordinates (\<open>endure/assessment/coordinates.py\<close>): the cell a forecast, a score and an
  EMA belong to, its declared-field ordering, and the rows keyed by it.  A frozen dataclass whose
  \<open>__post_init__\<close> raises is a type with a constructor function returning a sum.
\<close>

subsection \<open>The coordinate and its order\<close>

datatype target_kind = Equity_ticker | Subnet_asset

datatype horizon_kind = Trading_days | Seconds

fun target_kind_text :: "target_kind \<Rightarrow> string" where
  "target_kind_text Equity_ticker = ''equity_ticker''"
| "target_kind_text Subnet_asset = ''subnet_asset''"

fun horizon_kind_text :: "horizon_kind \<Rightarrow> string" where
  "horizon_kind_text Trading_days = ''trading_days''"
| "horizon_kind_text Seconds = ''seconds''"

datatype coordinate = Coordinate
  (target_kind: target_kind) (target_id: string)
  (horizon_kind: horizon_kind) (horizon_value: int) (coord_output: string)

text \<open>\<open>order=True\<close>: the tuple of the declared fields, texts compared as texts.\<close>

definition coordinate_key ::
  "coordinate \<Rightarrow> string \<times> string \<times> string \<times> int \<times> string" where
  "coordinate_key c =
     (target_kind_text (target_kind c), target_id c,
      horizon_kind_text (horizon_kind c), horizon_value c, coord_output c)"

lemma target_kind_text_inj [simp]: "target_kind_text a = target_kind_text b \<longleftrightarrow> a = b"
  by (cases a; cases b) simp_all

lemma horizon_kind_text_inj [simp]: "horizon_kind_text a = horizon_kind_text b \<longleftrightarrow> a = b"
  by (cases a; cases b) simp_all

lemma coordinate_key_inj: "coordinate_key c = coordinate_key d \<longleftrightarrow> c = d"
  by (cases c; cases d) (auto simp: coordinate_key_def)

instantiation coordinate :: linorder
begin

definition less_eq_coordinate :: "coordinate \<Rightarrow> coordinate \<Rightarrow> bool" where
  "less_eq_coordinate c d \<longleftrightarrow> coordinate_key c \<le> coordinate_key d"

definition less_coordinate :: "coordinate \<Rightarrow> coordinate \<Rightarrow> bool" where
  "less_coordinate c d \<longleftrightarrow> coordinate_key c < coordinate_key d"

instance
proof
  fix c d e :: coordinate
  show "(c < d) = (c \<le> d \<and> \<not> d \<le> c)"
    by (simp add: less_eq_coordinate_def less_coordinate_def less_le_not_le)
  show "c \<le> c" by (simp add: less_eq_coordinate_def)
  show "c \<le> d \<Longrightarrow> d \<le> e \<Longrightarrow> c \<le> e"
    unfolding less_eq_coordinate_def by (rule order_trans)
  show "c \<le> d \<Longrightarrow> d \<le> c \<Longrightarrow> c = d"
    unfolding less_eq_coordinate_def using coordinate_key_inj by (auto intro: antisym)
  show "c \<le> d \<or> d \<le> c"
    unfolding less_eq_coordinate_def by (rule linear)
qed

end

subsection \<open>Construction\<close>

datatype coordinate_error =
    Empty_target_id | Horizon_not_positive | Empty_output | Negative_netuid int

definition coordinate_valid :: "coordinate \<Rightarrow> bool" where
  "coordinate_valid c \<longleftrightarrow> target_id c \<noteq> [] \<and> 0 < horizon_value c \<and> coord_output c \<noteq> []"

definition mk_coordinate ::
  "target_kind \<Rightarrow> string \<Rightarrow> horizon_kind \<Rightarrow> int \<Rightarrow> string \<Rightarrow> coordinate_error + coordinate" where
  "mk_coordinate tk tid hk h out =
     (if tid = [] then Inl Empty_target_id
      else if h \<le> 0 then Inl Horizon_not_positive
      else if out = [] then Inl Empty_output
      else Inr (Coordinate tk tid hk h out))"

definition subnet_asset :: "int \<Rightarrow> int \<Rightarrow> string \<Rightarrow> coordinate_error + coordinate" where
  "subnet_asset netuid horizon_seconds out =
     (if netuid < 0 then Inl (Negative_netuid netuid)
      else mk_coordinate Subnet_asset (str_int netuid) Seconds horizon_seconds out)"

definition equity_ticker :: "string \<Rightarrow> int \<Rightarrow> string \<Rightarrow> coordinate_error + coordinate" where
  "equity_ticker ticker horizon_trading_days out =
     mk_coordinate Equity_ticker ticker Trading_days horizon_trading_days out"

lemma mk_coordinate_Inr:
  "mk_coordinate tk tid hk h out = Inr c \<longleftrightarrow>
     c = Coordinate tk tid hk h out \<and> coordinate_valid c"
  by (auto simp: mk_coordinate_def coordinate_valid_def)

lemma subnet_asset_Inr:
  "subnet_asset n h out = Inr c \<longleftrightarrow>
     0 \<le> n \<and> 0 < h \<and> out \<noteq> [] \<and> c = Coordinate Subnet_asset (str_int n) Seconds h out"
  by (auto simp: subnet_asset_def mk_coordinate_Inr coordinate_valid_def)

lemma subnet_asset_inj:
  "subnet_asset n h out = Inr c \<Longrightarrow> subnet_asset n' h' out' = Inr c \<Longrightarrow>
     n = n' \<and> h = h' \<and> out = out'"
  by (auto simp: subnet_asset_Inr)

subsection \<open>Rows keyed by a coordinate\<close>

record consensus_row =
  cr_coordinate :: coordinate
  cr_value :: rat
  cr_dispersion :: rat
  cr_n_submitters :: int

record realized_target =
  rt_coordinate :: coordinate
  rt_value :: "rat option"
  rt_status :: string
  rt_payload_hash :: "string option"

record output_score =
  os_hotkey :: string
  os_coordinate :: coordinate
  os_score :: rat
  os_error :: "rat option"

record ema_state =
  es_hotkey :: string
  es_coordinate :: coordinate
  es_ema :: rat
  es_resolved_rounds :: int

record score_history_row =
  hr_hotkey :: string
  hr_coordinate :: coordinate
  hr_round_score :: rat
  hr_ema_after :: rat

datatype row_error =
    Negative_dispersion | No_submitters | Empty_status | Empty_hotkey | Negative_score
  | Negative_error | Negative_ema | Negative_resolved_rounds

definition mk_consensus_row ::
  "coordinate \<Rightarrow> rat \<Rightarrow> rat \<Rightarrow> int \<Rightarrow> row_error + consensus_row" where
  "mk_consensus_row c v d n =
     (if d < 0 then Inl Negative_dispersion
      else if n \<le> 0 then Inl No_submitters
      else Inr \<lparr>cr_coordinate = c, cr_value = v, cr_dispersion = d, cr_n_submitters = n\<rparr>)"

definition mk_realized_target ::
  "coordinate \<Rightarrow> rat option \<Rightarrow> string \<Rightarrow> string option \<Rightarrow> row_error + realized_target" where
  "mk_realized_target c v status h =
     (if status = [] then Inl Empty_status
      else Inr \<lparr>rt_coordinate = c, rt_value = v, rt_status = status, rt_payload_hash = h\<rparr>)"

definition mk_output_score ::
  "string \<Rightarrow> coordinate \<Rightarrow> rat \<Rightarrow> rat option \<Rightarrow> row_error + output_score" where
  "mk_output_score hk c s e =
     (if hk = [] then Inl Empty_hotkey
      else if s < 0 then Inl Negative_score
      else if (case e of None \<Rightarrow> False | Some e \<Rightarrow> e < 0) then Inl Negative_error
      else Inr \<lparr>os_hotkey = hk, os_coordinate = c, os_score = s, os_error = e\<rparr>)"

definition mk_ema_state ::
  "string \<Rightarrow> coordinate \<Rightarrow> rat \<Rightarrow> int \<Rightarrow> row_error + ema_state" where
  "mk_ema_state hk c e n =
     (if hk = [] then Inl Empty_hotkey
      else if e < 0 then Inl Negative_ema
      else if n < 0 then Inl Negative_resolved_rounds
      else Inr \<lparr>es_hotkey = hk, es_coordinate = c, es_ema = e, es_resolved_rounds = n\<rparr>)"

definition mk_score_history_row ::
  "string \<Rightarrow> coordinate \<Rightarrow> rat \<Rightarrow> rat \<Rightarrow> row_error + score_history_row" where
  "mk_score_history_row hk c s e =
     (if hk = [] then Inl Empty_hotkey
      else if s < 0 then Inl Negative_score
      else if e < 0 then Inl Negative_ema
      else Inr \<lparr>hr_hotkey = hk, hr_coordinate = c, hr_round_score = s, hr_ema_after = e\<rparr>)"

lemma mk_consensus_row_Inr:
  "mk_consensus_row c v d n = Inr r \<longleftrightarrow>
     0 \<le> d \<and> 0 < n \<and> r = \<lparr>cr_coordinate = c, cr_value = v, cr_dispersion = d, cr_n_submitters = n\<rparr>"
  by (auto simp: mk_consensus_row_def)

end
