(* ===== verification/Dates.thy ===== *)
theory Dates
  imports Text
begin

text \<open>
  Calendar dates and instants as the sources use \<open>datetime\<close>.  A date is its proleptic Gregorian
  ordinal, as \<open>date.toordinal\<close> gives it; its year, month and day are computed from it, and
  \<open>date.isoformat\<close> and \<open>date.fromisoformat\<close> are the text of those three.  An aware \<open>datetime\<close> in
  UTC is the integer number of microseconds since 0001-01-01T00:00Z, a \<open>timedelta\<close> a number of
  microseconds.  The lemmas: text and date determine each other, and the order of canonical texts
  is the order of the days.
\<close>

type_synonym date = int
type_synonym datetime = int
type_synonym timedelta = int

subsection \<open>Civil dates\<close>

definition is_leap :: "int \<Rightarrow> bool" where
  "is_leap y \<longleftrightarrow> y mod 4 = 0 \<and> (y mod 100 \<noteq> 0 \<or> y mod 400 = 0)"

text \<open>Days before January 1st of a year, and before the first of a month.\<close>

definition days_before_year :: "int \<Rightarrow> int" where
  "days_before_year y =
     (let p = y - 1 in p * 365 + p div 4 - p div 100 + p div 400)"

definition month_starts :: "bool \<Rightarrow> int list" where
  "month_starts leap =
     (if leap then [0, 31, 60, 91, 121, 152, 182, 213, 244, 274, 305, 335, 366]
      else [0, 31, 59, 90, 120, 151, 181, 212, 243, 273, 304, 334, 365])"

definition days_before_month :: "int \<Rightarrow> int \<Rightarrow> int" where
  "days_before_month y m = month_starts (is_leap y) ! nat (m - 1)"

definition days_in_month :: "int \<Rightarrow> int \<Rightarrow> int" where
  "days_in_month y m = month_starts (is_leap y) ! nat m - month_starts (is_leap y) ! nat (m - 1)"

text \<open>\<open>date(y, m, d)\<close>, which raises outside these bounds.\<close>

definition valid_ymd :: "int \<Rightarrow> int \<Rightarrow> int \<Rightarrow> bool" where
  "valid_ymd y m d \<longleftrightarrow>
     1 \<le> y \<and> y \<le> 9999 \<and> 1 \<le> m \<and> m \<le> 12 \<and> 1 \<le> d \<and> d \<le> days_in_month y m"

definition ymd_ordinal :: "int \<Rightarrow> int \<Rightarrow> int \<Rightarrow> date" where
  "ymd_ordinal y m d = days_before_year y + days_before_month y m + d"

text \<open>The year a day lies in: from a lower bound, up to the last year that starts before it.\<close>

function year_from :: "int \<Rightarrow> date \<Rightarrow> int" where
  "year_from y n = (if 1 \<le> y \<and> days_before_year (y + 1) < n then year_from (y + 1) n else y)"
  by pat_completeness auto
termination
proof (relation "measure (\<lambda>(y, n). nat (n - y))")
  fix y n :: int
  assume a: "1 \<le> y \<and> days_before_year (y + 1) < n"
  then have "y div 100 \<le> y div 4" "0 \<le> y div 400" by (simp_all add: zdiv_mono2 pos_imp_zdiv_nonneg_iff)
  with a have "y \<le> days_before_year (y + 1)" by (simp add: days_before_year_def)
  with a show "((y + 1, n), (y, n)) \<in> measure (\<lambda>(y, n). nat (n - y))" by auto
qed simp

declare year_from.simps [simp del]

definition date_year :: "date \<Rightarrow> int" where
  "date_year n = year_from (n div 366 + 1) n"

text \<open>The month: how many months of the year start before the day.\<close>

definition date_month :: "date \<Rightarrow> int" where
  "date_month n =
     (let y = date_year n; r = n - days_before_year y
      in int (length (takeWhile (\<lambda>s. s < r) (month_starts (is_leap y)))))"

definition date_day :: "date \<Rightarrow> int" where
  "date_day n = n - days_before_year (date_year n) - days_before_month (date_year n) (date_month n)"

definition valid_date :: "date \<Rightarrow> bool" where
  "valid_date n \<longleftrightarrow> 1 \<le> n \<and> n \<le> 3652059"

lemma div_pred:
  fixes y k :: int
  assumes "0 < k"
  shows "y div k = (y - 1) div k + (if y mod k = 0 then 1 else 0)"
proof (cases "y mod k = 0")
  case True
  have "(y - 1) div k = y div k - 1"
  proof (rule int_div_pos_eq)
    show "y - 1 = k * (y div k - 1) + (k - 1)"
      using mult_div_mod_eq [of k y] True by (simp add: algebra_simps)
  qed (use assms in auto)
  with True show ?thesis by simp
next
  case False
  have m: "0 \<le> y mod k" "y mod k < k" using assms by simp_all
  have "(y - 1) div k = y div k"
  proof (rule int_div_pos_eq)
    show "y - 1 = k * (y div k) + (y mod k - 1)"
      using mult_div_mod_eq [of k y] by (simp add: algebra_simps)
  qed (use m False in auto)
  with False show ?thesis by simp
qed

lemma year_length:
  "days_before_year (y + 1) = days_before_year y + (if is_leap y then 366 else 365)"
proof -
  define b4 b100 b400 where b: "b4 = (y mod 4 = 0)" "b100 = (y mod 100 = 0)" "b400 = (y mod 400 = 0)"
  have imp: "b100 \<longrightarrow> b4" "b400 \<longrightarrow> b100"
    unfolding b mod_eq_0_iff_dvd by (auto elim: dvd_trans [rotated])
  have leap: "is_leap y \<longleftrightarrow> b4 \<and> (\<not> b100 \<or> b400)" by (simp only: is_leap_def b)
  have d: "y div 4 = (y - 1) div 4 + (if b4 then 1 else 0)"
    "y div 100 = (y - 1) div 100 + (if b100 then 1 else 0)"
    "y div 400 = (y - 1) div 400 + (if b400 then 1 else 0)"
    unfolding b by (rule div_pred; simp only: zero_less_numeral)+
  have "days_before_year (y + 1) = y * 365 + y div 4 - y div 100 + y div 400"
    by (simp only: days_before_year_def Let_def add_diff_cancel_right')
  also have "\<dots> = days_before_year y + 365
      + (if b4 then 1 else 0) - (if b100 then 1 else 0) + (if b400 then 1 else 0)"
    unfolding d days_before_year_def Let_def by (simp only: left_diff_distrib)
  finally show ?thesis using imp unfolding leap by (cases b4; cases b100; cases b400) simp_all
qed

lemma days_before_year_mono: "x \<le> y \<Longrightarrow> days_before_year x \<le> days_before_year y"
  by (induction y rule: int_ge_induct) (auto simp: year_length)

lemma days_before_year_bounds:
  "1 \<le> y \<Longrightarrow> 365 * (y - 1) \<le> days_before_year y \<and> days_before_year y \<le> 366 * (y - 1)"
proof (induction y rule: int_ge_induct)
  case base
  show ?case by (simp add: days_before_year_def)
qed (auto simp: year_length)

lemma days_before_year_bounds2:
  "2 \<le> y \<Longrightarrow> days_before_year y < 366 * (y - 1)"
proof (induction y rule: int_ge_induct)
  case base
  show ?case by (simp add: days_before_year_def)
qed (auto simp: year_length)

lemma year_from_eq:
  "1 \<le> a \<Longrightarrow> a \<le> y \<Longrightarrow> days_before_year y < n \<Longrightarrow> n \<le> days_before_year (y + 1) \<Longrightarrow> year_from a n = y"
proof (induction a n rule: year_from.induct)
  case (1 a n)
  show ?case
  proof (cases "a = y")
    case True
    with 1 show ?thesis by (subst year_from.simps) simp
  next
    case False
    then have "a + 1 \<le> y" using 1 by simp
    then have "days_before_year (a + 1) < n" using days_before_year_mono 1 by fastforce
    with 1 \<open>a + 1 \<le> y\<close> show ?thesis by (subst year_from.simps) simp
  qed
qed

lemma date_year_eq:
  assumes "1 \<le> y" "days_before_year y < n" "n \<le> days_before_year (y + 1)"
  shows "date_year n = y"
proof -
  have "n < 366 * y" using days_before_year_bounds2 [of "y + 1"] assms by simp
  moreover have "1 \<le> n" using days_before_year_bounds [of y] assms by linarith
  ultimately have "1 \<le> n div 366 + 1" "n div 366 + 1 \<le> y"
  proof -
    define q where "q = n div 366"
    have q: "n = 366 * q + n mod 366" "0 \<le> n mod 366" "n mod 366 < 366"
      unfolding q_def by simp_all
    assume "n < 366 * y" "1 \<le> n"
    with q have "q < y" "0 \<le> q" by linarith+
    then show "1 \<le> n div 366 + 1" "n div 366 + 1 \<le> y" unfolding q_def by simp_all
  qed
  then show ?thesis unfolding date_year_def using assms by (intro year_from_eq)
qed

lemma date_year_exists:
  assumes "1 \<le> n"
  shows "\<exists>y \<ge> 1. days_before_year y < n \<and> n \<le> days_before_year (y + 1)"
proof -
  have "\<exists>z \<ge> 1. days_before_year z < n \<and> n \<le> days_before_year (z + 1)"
    if "1 \<le> y" "n \<le> days_before_year (y + 1)" for y
    using that
  proof (induction y rule: int_ge_induct)
    case base
    have "days_before_year 1 < n" using assms by (simp add: days_before_year_def)
    with base show ?case by auto
  next
    case (step y)
    show ?case
    proof (cases "n \<le> days_before_year (y + 1)")
      case True
      then show ?thesis by (rule step.IH)
    next
      case False
      then have "days_before_year (y + 1) < n" by simp
      with step show ?thesis by (intro exI [of _ "y + 1"]) simp
    qed
  qed
  moreover have "n \<le> days_before_year (n + 1)"
    using days_before_year_bounds [of "n + 1"] assms by simp
  ultimately show ?thesis using assms by blast
qed

lemma date_year_bounds:
  assumes "1 \<le> n"
  shows "1 \<le> date_year n" "days_before_year (date_year n) < n" "n \<le> days_before_year (date_year n + 1)"
  using date_year_exists [OF assms] date_year_eq by metis+

lemma date_year_less:
  "1 \<le> m \<Longrightarrow> 1 \<le> n \<Longrightarrow> date_year m < date_year n \<Longrightarrow> m < n"
  using date_year_bounds [of m] date_year_bounds [of n]
    days_before_year_mono [of "date_year m + 1" "date_year n"] by simp

lemma month_cases:
  assumes "1 \<le> m" "m \<le> 12"
  shows "m \<in> {1,2,3,4,5,6,7,8,9,10,11,12::int}"
proof -
  have "m \<in> set [1..12]" using assms by simp
  moreover have "[1..12] = [1,2,3,4,5,6,7,8,9,10,11,12::int]" by code_simp
  ultimately show ?thesis by simp
qed

lemma sorted_month_starts: "sorted (month_starts l)"
  by (simp add: month_starts_def)

lemma month_starts_mono: "i \<le> j \<Longrightarrow> j < 13 \<Longrightarrow> month_starts l ! i \<le> month_starts l ! j"
  by (intro sorted_nth_mono sorted_month_starts) (simp_all add: month_starts_def)

lemma month_starts_ends: "month_starts l ! 0 = 0" "month_starts l ! 12 = (if l then 366 else 365)"
  "length (month_starts l) = 13"
  by (simp_all add: month_starts_def)

lemma month_of_day:
  assumes "1 \<le> m" "m \<le> 12" "1 \<le> d"
    "d \<le> month_starts l ! nat m - month_starts l ! nat (m - 1)"
  shows "int (length (takeWhile (\<lambda>s. s < month_starts l ! nat (m - 1) + d) (month_starts l))) = m"
proof -
  have "takeWhile (\<lambda>s. s < month_starts l ! nat (m - 1) + d) (month_starts l)
      = take (nat m) (month_starts l)"
  proof (rule takeWhile_eq_take_P_nth)
    fix i assume "i < nat m"
    then have "i \<le> nat (m - 1)" "nat (m - 1) < 13" using assms by simp_all
    then have "month_starts l ! i \<le> month_starts l ! nat (m - 1)" by (rule month_starts_mono)
    with assms(3) show "month_starts l ! i < month_starts l ! nat (m - 1) + d" by simp
  next
    show "\<not> month_starts l ! nat m < month_starts l ! nat (m - 1) + d" using assms(4) by simp
  qed
  then show ?thesis using assms by (simp add: month_starts_ends)
qed

lemma day_of_year_bounds:
  assumes "1 \<le> m" "m \<le> 12" "1 \<le> d" "d \<le> days_in_month y m"
  shows "1 \<le> days_before_month y m + d"
    "days_before_month y m + d \<le> (if is_leap y then 366 else 365)"
proof -
  have "month_starts (is_leap y) ! 0 \<le> month_starts (is_leap y) ! nat (m - 1)"
    "month_starts (is_leap y) ! nat m \<le> month_starts (is_leap y) ! 12"
    using assms by (intro month_starts_mono; simp)+
  with assms(3,4) show "1 \<le> days_before_month y m + d"
    "days_before_month y m + d \<le> (if is_leap y then 366 else 365)"
    by (simp_all add: days_before_month_def days_in_month_def month_starts_ends split del: if_split)
qed

lemma ymd_of_ordinal:
  assumes "valid_ymd y m d"
  shows "date_year (ymd_ordinal y m d) = y" "date_month (ymd_ordinal y m d) = m"
    "date_day (ymd_ordinal y m d) = d"
proof -
  have b: "1 \<le> y" "1 \<le> m" "m \<le> 12" "1 \<le> d" "d \<le> days_in_month y m"
    using assms by (simp_all add: valid_ymd_def)
  show year: "date_year (ymd_ordinal y m d) = y"
    using day_of_year_bounds [OF b(2-5)] b(1)
    by (intro date_year_eq) (simp_all add: ymd_ordinal_def year_length)
  show month: "date_month (ymd_ordinal y m d) = m"
    using month_of_day [OF b(2,3,4), of "is_leap y"] b(5)
    by (simp add: date_month_def year) (simp add: ymd_ordinal_def days_before_month_def days_in_month_def)
  show "date_day (ymd_ordinal y m d) = d"
    by (simp add: date_day_def year month) (simp add: ymd_ordinal_def)
qed

lemma day_in_month_exists:
  assumes "1 \<le> r" "r \<le> (if l then 366 else 365)"
  shows "\<exists>m d. 1 \<le> m \<and> m \<le> 12 \<and> 1 \<le> d \<and> r = month_starts l ! nat (m - 1) + d
      \<and> d \<le> month_starts l ! nat m - month_starts l ! nat (m - 1)"
proof -
  define ms where "ms = month_starts l"
  have "\<exists>k < 12. ms ! k < r \<and> r \<le> ms ! Suc k"
  proof (rule ccontr)
    assume no: "\<not> (\<exists>k < 12. ms ! k < r \<and> r \<le> ms ! Suc k)"
    have "k \<le> 12 \<longrightarrow> ms ! k < r" for k
    proof (induction k)
      case 0
      show ?case using assms(1) by (simp add: ms_def month_starts_def)
    next
      case (Suc k)
      with no show ?case by (meson Suc_leD Suc_le_lessD linorder_not_le)
    qed
    from this [of 12] assms(2) show False
      by (auto simp: ms_def month_starts_def split: if_splits)
  qed
  then obtain k where k: "k < 12" "ms ! k < r" "r \<le> ms ! Suc k" by auto
  then show ?thesis
    by (intro exI [of _ "int k + 1"] exI [of _ "r - ms ! k"])
      (simp add: ms_def nat_add_distrib)
qed

lemma valid_ymd_of_date:
  assumes "valid_date n"
  shows "valid_ymd (date_year n) (date_month n) (date_day n)
       \<and> ymd_ordinal (date_year n) (date_month n) (date_day n) = n"
proof -
  define y where "y = date_year n"
  have n: "1 \<le> n" "n \<le> 3652059" using assms by (simp_all add: valid_date_def)
  note yb = date_year_bounds [OF n(1), folded y_def]
  have "y \<le> 9999"
  proof (rule ccontr)
    assume "\<not> y \<le> 9999"
    then have "days_before_year 10000 \<le> days_before_year y" by (intro days_before_year_mono) simp
    moreover have "days_before_year 10000 = 3652059" by code_simp
    ultimately show False using yb n by simp
  qed
  have "1 \<le> n - days_before_year y" "n - days_before_year y \<le> (if is_leap y then 366 else 365)"
    using yb by (simp_all add: year_length)
  then obtain m d where md: "1 \<le> m" "m \<le> 12" "1 \<le> d"
    "n - days_before_year y = month_starts (is_leap y) ! nat (m - 1) + d"
    "d \<le> month_starts (is_leap y) ! nat m - month_starts (is_leap y) ! nat (m - 1)"
    using day_in_month_exists by metis
  then have v: "valid_ymd y m d" "n = ymd_ordinal y m d"
    using yb \<open>y \<le> 9999\<close>
    by (simp_all add: valid_ymd_def days_in_month_def ymd_ordinal_def days_before_month_def)
  with ymd_of_ordinal [OF v(1)] show ?thesis by simp
qed

subsection \<open>ISO texts\<close>

definition isoformat :: "date \<Rightarrow> string" where
  "isoformat n =
     zero_pad 4 (date_year n) @ ''-'' @ zero_pad 2 (date_month n) @ ''-'' @ zero_pad 2 (date_day n)"

text \<open>
  \<open>date.fromisoformat\<close> on the extended format.  The other formats it accepts (basic and week
  dates) never equal the \<open>isoformat\<close> of the date they name, and every use in the sources compares
  the two, so here they are \<open>None\<close>, the outcome of a text that raises.
\<close>

definition fromisoformat :: "string \<Rightarrow> date option" where
  "fromisoformat s =
     (let y = take 4 s; m = take 2 (drop 5 s); d = take 2 (drop 8 s)
      in if length s = 10 \<and> s ! 4 = CHR ''-'' \<and> s ! 7 = CHR ''-''
            \<and> list_all is_digit (y @ m @ d)
            \<and> valid_ymd (int_of_digits y) (int_of_digits m) (int_of_digits d)
         then Some (ymd_ordinal (int_of_digits y) (int_of_digits m) (int_of_digits d))
         else None)"


text \<open>A decimal text of fixed width orders as the number it denotes.\<close>

lemma int_of_digits_Cons:
  "int_of_digits (c # s) = digit_val c * 10 ^ length s + int_of_digits s"
proof (induction s rule: rev_induct)
  case (snoc d s)
  have "int_of_digits (c # s @ [d]) = 10 * int_of_digits (c # s) + digit_val d"
    using int_of_digits_append [of "c # s" d] by simp
  with snoc show ?case by (simp add: int_of_digits_append algebra_simps)
qed (simp add: int_of_digits_def)

lemma int_of_digits_less: "list_all is_digit s \<Longrightarrow> int_of_digits s < 10 ^ length s"
proof (induction s)
  case (Cons c s)
  then have "digit_val c * 10 ^ length s \<le> 9 * 10 ^ length s"
    by (intro mult_right_mono) (auto simp: is_digit_def)
  moreover have "int_of_digits s < 10 ^ length s" using Cons by simp
  ultimately have "digit_val c * 10 ^ length s + int_of_digits s < 10 * 10 ^ length s" by linarith
  then show ?case by (simp add: int_of_digits_Cons)
qed (simp add: int_of_digits_def)

lemma digit_less: "c < d \<longleftrightarrow> digit_val c < digit_val d"
  by (simp add: digit_val_def less_char_def)

lemma digits_less_iff:
  "length s = length t \<Longrightarrow> list_all is_digit s \<Longrightarrow> list_all is_digit t \<Longrightarrow>
     s < t \<longleftrightarrow> int_of_digits s < int_of_digits t"
proof (induction s t rule: list_induct2)
  case (Cons c s d t)
  then have IH: "s < t \<longleftrightarrow> int_of_digits s < int_of_digits t" by simp
  have b: "0 \<le> int_of_digits s" "int_of_digits s < 10 ^ length t"
    "0 \<le> int_of_digits t" "int_of_digits t < 10 ^ length t"
    using Cons.prems Cons.hyps int_of_digits_less [of s] int_of_digits_less [of t]
    by (auto simp: int_of_digits_nonneg)
  consider "digit_val c < digit_val d" | "c = d" | "digit_val d < digit_val c"
    by (metis digit_less neqE)
  then show ?case
  proof cases
    case 1
    then have "(digit_val c + 1) * 10 ^ length t \<le> digit_val d * 10 ^ length t"
      by (intro mult_right_mono) auto
    with 1 b Cons.hyps show ?thesis by (simp add: int_of_digits_Cons digit_less algebra_simps)
  next
    case 2
    with IH Cons.hyps show ?thesis by (simp add: int_of_digits_Cons)
  next
    case 3
    then have "(digit_val d + 1) * 10 ^ length t \<le> digit_val c * 10 ^ length t"
      by (intro mult_right_mono) auto
    with 3 b Cons.hyps show ?thesis
      by (auto simp: int_of_digits_Cons digit_less algebra_simps)
  qed
qed simp

lemma append_less_iff:
  fixes s t :: "'a::linorder list"
  shows "length s = length t \<Longrightarrow> s @ u < t @ v \<longleftrightarrow> s < t \<or> s = t \<and> u < v"
  by (induction s t rule: list_induct2) auto

lemma str_nat_bound: "0 \<le> n \<Longrightarrow> n < 10 ^ w \<Longrightarrow> 0 < w \<Longrightarrow> length (str_nat n) \<le> w"
proof (induction w arbitrary: n)
  case (Suc w)
  show ?case
  proof (cases "n < 10")
    case False
    with Suc.prems have "n div 10 < 10 ^ w" "0 \<le> n div 10" by auto
    moreover have "0 < w" using False Suc.prems by (cases w) auto
    ultimately have "length (str_nat (n div 10)) \<le> w" by (intro Suc.IH)
    with False show ?thesis by (simp add: str_nat.simps [of n])
  qed (simp add: str_nat.simps [of n])
qed simp

lemma zero_pad_digits:
  assumes "0 \<le> n" "n < 10 ^ w" "0 < w"
  shows "length (zero_pad w n) = w" "list_all is_digit (zero_pad w n)" "int_of_digits (zero_pad w n) = n"
proof -
  have z: "is_digit (CHR ''0'')" "digit_val (CHR ''0'') = 0" by code_simp+
  have "int_of_digits (replicate k (CHR ''0'') @ s) = int_of_digits s" for k s
    by (induction k) (simp_all add: int_of_digits_Cons z)
  moreover have "list_all is_digit (replicate k (CHR ''0''))" for k
    by (induction k) (simp_all add: z)
  ultimately show "length (zero_pad w n) = w" "list_all is_digit (zero_pad w n)"
    "int_of_digits (zero_pad w n) = n"
    using str_nat_bound [OF assms] str_nat_digits [OF assms(1)] assms
    by (simp_all add: zero_pad_def Let_def str_int_def)
qed

lemma digits_inj:
  "list_all is_digit s \<Longrightarrow> list_all is_digit t \<Longrightarrow> length s = length t \<Longrightarrow>
     int_of_digits s = int_of_digits t \<Longrightarrow> s = t"
  by (metis digits_less_iff less_irrefl neqE)

lemma zero_pad_of_digits:
  "list_all is_digit s \<Longrightarrow> s \<noteq> [] \<Longrightarrow> zero_pad (length s) (int_of_digits s) = s"
  using zero_pad_digits [of "int_of_digits s" "length s"]
  by (intro digits_inj) (auto simp: int_of_digits_less int_of_digits_nonneg)

lemma ymd_widths:
  assumes "valid_ymd y m d"
  shows "0 \<le> y" "y < 10 ^ 4" "0 \<le> m" "m < 10 ^ 2" "0 \<le> d" "d < 10 ^ 2"
proof -
  have "1 \<le> m" "m \<le> 12" using assms by (simp_all add: valid_ymd_def)
  then have "m \<in> {1,2,3,4,5,6,7,8,9,10,11,12}" by (rule month_cases)
  then have "days_in_month y m \<le> 31" by (auto simp: days_in_month_def month_starts_def)
  with assms show "0 \<le> y" "y < 10 ^ 4" "0 \<le> m" "m < 10 ^ 2" "0 \<le> d" "d < 10 ^ 2"
    by (auto simp: valid_ymd_def)
qed

lemma fromisoformat_isoformat: "valid_date n \<Longrightarrow> fromisoformat (isoformat n) = Some n"
proof -
  assume "valid_date n"
  then have v: "valid_ymd (date_year n) (date_month n) (date_day n)"
    "ymd_ordinal (date_year n) (date_month n) (date_day n) = n"
    using valid_ymd_of_date by auto
  note w = ymd_widths [OF v(1)]
  note z = zero_pad_digits [OF w(1,2)] zero_pad_digits [OF w(3,4)] zero_pad_digits [OF w(5,6)]
  show ?thesis
    using z v by (simp add: fromisoformat_def isoformat_def Let_def nth_append)
qed

lemma ymd_ordinal_valid: "valid_ymd y m d \<Longrightarrow> valid_date (ymd_ordinal y m d)"
proof -
  assume v: "valid_ymd y m d"
  then have b: "1 \<le> y" "y \<le> 9999" "1 \<le> m" "m \<le> 12" "1 \<le> d" "d \<le> days_in_month y m"
    by (simp_all add: valid_ymd_def)
  have "days_before_year (y + 1) \<le> days_before_year 10000"
    using b by (intro days_before_year_mono) simp
  moreover have "days_before_year 10000 = 3652059" by code_simp
  ultimately show ?thesis
    using day_of_year_bounds [OF b(3-6)] days_before_year_bounds [OF b(1)] b(1)
    by (simp add: valid_date_def ymd_ordinal_def year_length split: if_splits)
qed

lemma fromisoformat_canonical:
  assumes "fromisoformat s = Some n"
  shows "isoformat n = s" "valid_date n"
proof -
  define y m d where "y = take 4 s" and "m = take 2 (drop 5 s)" and "d = take 2 (drop 8 s)"
  have p: "length s = 10" "s ! 4 = CHR ''-''" "s ! 7 = CHR ''-''" "list_all is_digit (y @ m @ d)"
    "valid_ymd (int_of_digits y) (int_of_digits m) (int_of_digits d)"
    "n = ymd_ordinal (int_of_digits y) (int_of_digits m) (int_of_digits d)"
    using assms by (auto simp: fromisoformat_def Let_def y_def m_def d_def split: if_splits)
  show "valid_date n" using p(5,6) by (simp add: ymd_ordinal_valid)
  have len: "length y = 4" "length m = 2" "length d = 2"
    using p(1) by (simp_all add: y_def m_def d_def)
  then have ne: "y \<noteq> []" "m \<noteq> []" "d \<noteq> []" by auto
  have "s = y @ [s ! 4] @ m @ [s ! 7] @ d"
    using p(1) unfolding y_def m_def d_def
    by (auto simp: list_eq_iff_nth_eq nth_append nth_Cons less_Suc_eq numeral_eq_Suc split: nat.splits)
  also have "\<dots> = isoformat n"
    using ymd_of_ordinal [OF p(5)] zero_pad_of_digits [of y] zero_pad_of_digits [of m]
      zero_pad_of_digits [of d] p(2-4,6) len ne
    by (simp add: isoformat_def)
  finally show "isoformat n = s" by simp
qed

text \<open>Round ids compare as texts: the order of the texts is the order of the days.\<close>

lemma ymd_ordinal_less:
  assumes "valid_ymd y m d" "valid_ymd y' m' d'"
    "y < y' \<or> y = y' \<and> (m < m' \<or> m = m' \<and> d < d')"
  shows "ymd_ordinal y m d < ymd_ordinal y' m' d'"
proof -
  have b: "1 \<le> y" "1 \<le> m" "m \<le> 12" "1 \<le> d" "d \<le> days_in_month y m"
    and b': "1 \<le> y'" "1 \<le> m'" "m' \<le> 12" "1 \<le> d'" "d' \<le> days_in_month y' m'"
    using assms(1,2) by (simp_all add: valid_ymd_def)
  consider "y < y'" | "y = y'" "m < m'" | "y = y'" "m = m'" "d < d'" using assms(3) by blast
  then show ?thesis
  proof cases
    case 1
    then have "days_before_year (y + 1) \<le> days_before_year y'" by (intro days_before_year_mono) simp
    with day_of_year_bounds [OF b(2-5)] day_of_year_bounds [OF b'(2-5)] show ?thesis
      by (simp add: ymd_ordinal_def year_length)
  next
    case 2
    have "nat m \<le> nat (m' - 1)" "nat (m' - 1) < 13" using 2(2) b'(3) b(2) by simp_all
    then have "month_starts (is_leap y) ! nat m \<le> month_starts (is_leap y) ! nat (m' - 1)"
      by (rule month_starts_mono)
    then have "days_before_month y m + days_in_month y m \<le> days_before_month y m'"
      by (simp add: days_before_month_def days_in_month_def)
    with 2 b b' show ?thesis by (simp add: ymd_ordinal_def)
  qed (simp add: ymd_ordinal_def)
qed

lemma isoformat_less:
  assumes "valid_date m" "valid_date n" "m < n"
  shows "isoformat m < isoformat n"
proof -
  have v: "valid_ymd (date_year m) (date_month m) (date_day m)"
    "valid_ymd (date_year n) (date_month n) (date_day n)"
    and o: "ymd_ordinal (date_year m) (date_month m) (date_day m) = m"
    "ymd_ordinal (date_year n) (date_month n) (date_day n) = n"
    using valid_ymd_of_date assms by auto
  have ord: "date_year m < date_year n \<or> date_year m = date_year n \<and>
      (date_month m < date_month n \<or> date_month m = date_month n \<and> date_day m < date_day n)"
    using ymd_ordinal_less [OF v(2,1)] o assms(3)
    by (metis less_asym less_irrefl linorder_less_linear)
  have less: "zero_pad w a < zero_pad w b \<longleftrightarrow> a < b" "zero_pad w a = zero_pad w b \<longleftrightarrow> a = b"
    "length (zero_pad w a) = length (zero_pad w b)"
    if "0 \<le> a" "a < 10 ^ w" "0 \<le> b" "b < 10 ^ w" "0 < w" for w a b
    using zero_pad_digits [OF that(1,2,5)] zero_pad_digits [OF that(3,4,5)] digits_less_iff
    by metis+
  note wm = ymd_widths [OF v(1)] and wn = ymd_widths [OF v(2)]
  show ?thesis
    unfolding isoformat_def
    using ord less [OF wm(1,2) wn(1,2)] less [OF wm(3,4) wn(3,4)] less [OF wm(5,6) wn(5,6)]
    by (simp add: append_less_iff)
qed

theorem isoformat_less_iff:
  "valid_date m \<Longrightarrow> valid_date n \<Longrightarrow> isoformat m < isoformat n \<longleftrightarrow> m < n"
  by (metis isoformat_less less_asym linorder_less_linear order_less_irrefl)

subsection \<open>Instants\<close>

definition second :: timedelta where
  "second = 1000000"

definition minute :: timedelta where
  "minute = 60 * second"

definition hour :: timedelta where
  "hour = 60 * minute"

definition day :: timedelta where
  "day = 24 * hour"

text \<open>\<open>datetime(d.year, d.month, d.day, h, tzinfo=UTC)\<close> and \<open>now.date()\<close> in UTC.\<close>

definition at_hour :: "date \<Rightarrow> int \<Rightarrow> datetime" where
  "at_hour d h = (d - 1) * day + h * hour"

definition utc_date :: "datetime \<Rightarrow> date" where
  "utc_date t = t div day + 1"

lemmas duration_defs = second_def minute_def hour_def day_def

lemma utc_date_at_hour: "0 \<le> h \<Longrightarrow> h < 24 \<Longrightarrow> utc_date (at_hour d h) = d"
  by (simp add: utc_date_def at_hour_def duration_defs)

lemma at_hour_mono: "d < e \<Longrightarrow> at_hour d h + day \<le> at_hour e h"
  by (simp add: at_hour_def duration_defs)

end
