(* ===== verification/Canonical.thy ===== *)
theory Canonical
  imports Text
begin

text \<open>
  Canonical serialisation and commit hashing (\<open>endure/protocol/canonical.py\<close>).  A payload is a
  \<open>node\<close>, a Python object of the kinds \<open>_validate\<close> tells apart; \<open>dumps\<close> is \<open>json.dumps\<close> with
  sorted keys, compact separators and \<open>ensure_ascii=False\<close>, \<open>loads\<close> is \<open>json.loads\<close>.  The main
  lemma is their round trip: the canonical text of a payload parses back to the payload.
  The digest \<open>blake2b\<close> is a parameter.
\<close>

subsection \<open>Payloads\<close>

datatype node =
    NNone | NBool bool | NInt int | NFloat string | NStr string
  | NList "node list" | NDict "(node \<times> node) list" | NOther string

datatype canonical_error =
    Float_value | Key_not_str | Unsupported_type | Int_too_long | Bad_nonce_length

text \<open>CPython refuses to convert an integer of more than 4300 digits to or from text.\<close>

definition max_int_digits :: nat where
  "max_int_digits = 4300"

fun validate :: "node \<Rightarrow> canonical_error + unit"
  and validate_list :: "node list \<Rightarrow> canonical_error + unit"
  and validate_items :: "(node \<times> node) list \<Rightarrow> canonical_error + unit" where
  "validate (NFloat _) = Inl Float_value"
| "validate NNone = Inr ()"
| "validate (NBool _) = Inr ()"
| "validate (NInt _) = Inr ()"
| "validate (NStr _) = Inr ()"
| "validate (NList ns) = validate_list ns"
| "validate (NDict items) = validate_items items"
| "validate (NOther _) = Inl Unsupported_type"
| "validate_list [] = Inr ()"
| "validate_list (n # ns) = ebind (validate n) (\<lambda>_. validate_list ns)"
| "validate_items [] = Inr ()"
| "validate_items ((k, v) # items) =
     (case k of NStr _ \<Rightarrow> ebind (validate v) (\<lambda>_. validate_items items) | _ \<Rightarrow> Inl Key_not_str)"

fun key_text :: "node \<Rightarrow> string" where
  "key_text (NStr s) = s"
| "key_text _ = []"

subsection \<open>Serialisation\<close>

definition hex4 :: "nat \<Rightarrow> string" where
  "hex4 n = [hex_digit (n div 4096 mod 16), hex_digit (n div 256 mod 16),
             hex_digit (n div 16 mod 16), hex_digit (n mod 16)]"

text \<open>The escapes of \<open>ensure_ascii=False\<close>: quote, backslash and the control characters.\<close>

definition quote :: char where
  "quote = CHR 0x22"

definition backslash :: char where
  "backslash = CHR 0x5C"

definition escape_char :: "char \<Rightarrow> string" where
  "escape_char c =
     (if c = quote \<or> c = backslash then [backslash, c]
      else if c = CHR 0x08 then [backslash, CHR ''b'']
      else if c = CHR 0x0C then [backslash, CHR ''f'']
      else if c = CHR 0x0A then [backslash, CHR ''n'']
      else if c = CHR 0x0D then [backslash, CHR ''r'']
      else if c = CHR 0x09 then [backslash, CHR ''t'']
      else if (of_char c :: nat) < 32 then backslash # CHR ''u'' # hex4 (of_char c)
      else [c])"

definition dump_string :: "string \<Rightarrow> string" where
  "dump_string s = quote # concat (map escape_char s) @ [quote]"

text \<open>\<open>sort_keys=True\<close> at every level.\<close>

fun sort_keys :: "node \<Rightarrow> node" where
  "sort_keys (NList ns) = NList (map sort_keys ns)"
| "sort_keys (NDict items) =
     NDict (sort_key (\<lambda>kv. key_text (fst kv)) (map (\<lambda>kv. (fst kv, sort_keys (snd kv))) items))"
| "sort_keys n = n"

fun dumps :: "node \<Rightarrow> string"
  and dumps_list :: "node list \<Rightarrow> string"
  and dumps_items :: "(node \<times> node) list \<Rightarrow> string" where
  "dumps NNone = ''null''"
| "dumps (NBool True) = ''true''"
| "dumps (NBool False) = ''false''"
| "dumps (NInt i) = str_int i"
| "dumps (NFloat t) = t"
| "dumps (NStr s) = dump_string s"
| "dumps (NList []) = ''[]''"
| "dumps (NList (n # ns)) = CHR ''['' # dumps n @ dumps_list ns"
| "dumps (NDict []) = ''{}''"
| "dumps (NDict ((k, v) # items)) =
     CHR ''{'' # dump_string (key_text k) @ CHR '':'' # dumps v @ dumps_items items"
| "dumps (NOther t) = t"
| "dumps_list [] = '']''"
| "dumps_list (n # ns) = CHR '','' # dumps n @ dumps_list ns"
| "dumps_items [] = ''}''"
| "dumps_items ((k, v) # items) =
     CHR '','' # dump_string (key_text k) @ CHR '':'' # dumps v @ dumps_items items"

fun ints_printable :: "node \<Rightarrow> bool" where
  "ints_printable (NInt i) \<longleftrightarrow> length (str_int \<bar>i\<bar>) \<le> max_int_digits"
| "ints_printable (NList ns) \<longleftrightarrow> list_all ints_printable ns"
| "ints_printable (NDict items) \<longleftrightarrow> list_all (\<lambda>kv. ints_printable (snd kv)) items"
| "ints_printable _ \<longleftrightarrow> True"

definition canonical_text :: "node \<Rightarrow> canonical_error + string" where
  "canonical_text payload =
     ebind (validate payload) (\<lambda>_.
     if ints_printable payload then Inr (dumps (sort_keys payload)) else Inl Int_too_long)"

definition canonical_bundle_bytes :: "node \<Rightarrow> canonical_error + bytes" where
  "canonical_bundle_bytes payload = ebind (canonical_text payload) (\<lambda>t. Inr (utf8 t))"

subsection \<open>Parsing\<close>

definition is_ws :: "char \<Rightarrow> bool" where
  "is_ws c \<longleftrightarrow> c = CHR '' '' \<or> c = CHR 0x09 \<or> c = CHR 0x0A \<or> c = CHR 0x0D"

definition skip_ws :: "string \<Rightarrow> string" where
  "skip_ws s = dropWhile is_ws s"

fun hex4_val :: "string \<Rightarrow> nat option" where
  "hex4_val [a, b, c, d] =
     (case (hex_val a, hex_val b, hex_val c, hex_val d) of
        (Some x, Some y, Some z, Some w) \<Rightarrow> Some (((x * 16 + y) * 16 + z) * 16 + w)
      | _ \<Rightarrow> None)"
| "hex4_val _ = None"

definition simple_escape :: "char \<Rightarrow> char option" where
  "simple_escape c =
     (if c = quote then Some quote else if c = backslash then Some backslash
      else if c = CHR ''/'' then Some (CHR ''/'')
      else if c = CHR ''b'' then Some (CHR 0x08) else if c = CHR ''f'' then Some (CHR 0x0C)
      else if c = CHR ''n'' then Some (CHR 0x0A) else if c = CHR ''r'' then Some (CHR 0x0D)
      else if c = CHR ''t'' then Some (CHR 0x09) else None)"

text \<open>
  \<open>scanstring\<close> after the opening quote, strict: a control character is an error.  A \<open>\u\<close> escape
  of a code point above 255 is outside the alphabet of \<open>string\<close> and rejected.
\<close>

function scan_string :: "string \<Rightarrow> (string \<times> string) option" where
  "scan_string s =
     (case s of
        [] \<Rightarrow> None
      | c # r \<Rightarrow>
          if c = quote then Some ([], r)
          else if c = backslash then
            (case r of
               [] \<Rightarrow> None
             | e # r' \<Rightarrow>
                 if e = CHR ''u'' then
                   (case hex4_val (take 4 r') of
                      Some n \<Rightarrow> if n < 256
                        then map_option (\<lambda>(t, u). (char_of n # t, u)) (scan_string (drop 4 r'))
                        else None
                    | None \<Rightarrow> None)
                 else
                   (case simple_escape e of
                      Some d \<Rightarrow> map_option (\<lambda>(t, u). (d # t, u)) (scan_string r')
                    | None \<Rightarrow> None))
          else if (of_char c :: nat) < 32 then None
          else map_option (\<lambda>(t, u). (c # t, u)) (scan_string r))"
  by pat_completeness auto
termination
  by (relation "measure length") auto

declare scan_string.simps [simp del]

text \<open>\<open>NUMBER_RE\<close>: sign, integer part, and a fraction or exponent that makes it a float.\<close>

definition split_digits :: "string \<Rightarrow> string \<times> string" where
  "split_digits s = (takeWhile is_digit s, dropWhile is_digit s)"

definition scan_frac :: "string \<Rightarrow> string \<times> string" where
  "scan_frac s =
     (case s of
        c # r \<Rightarrow> if c = CHR ''.'' \<and> fst (split_digits r) \<noteq> []
                 then (c # fst (split_digits r), snd (split_digits r)) else ([], s)
      | [] \<Rightarrow> ([], s))"

definition scan_exp :: "string \<Rightarrow> string \<times> string" where
  "scan_exp s =
     (case s of
        c # r \<Rightarrow>
          if c = CHR ''e'' \<or> c = CHR ''E'' then
            (let (sg, r') = (case r of d # q \<Rightarrow> if d = CHR ''+'' \<or> d = CHR ''-'' then ([d], q) else ([], r)
                             | [] \<Rightarrow> ([], r))
             in if fst (split_digits r') \<noteq> []
                then (c # sg @ fst (split_digits r'), snd (split_digits r')) else ([], s))
          else ([], s)
      | [] \<Rightarrow> ([], s))"

definition scan_sign :: "string \<Rightarrow> bool \<times> string" where
  "scan_sign s = (case s of c # q \<Rightarrow> if c = CHR ''-'' then (True, q) else (False, s) | [] \<Rightarrow> (False, s))"

definition scan_int :: "string \<Rightarrow> string \<times> string" where
  "scan_int s = (case s of c # q \<Rightarrow> if c = CHR ''0'' then ([c], q) else split_digits s | [] \<Rightarrow> ([], s))"

definition scan_number :: "string \<Rightarrow> (node \<times> string) option" where
  "scan_number s =
     (let (neg, r) = scan_sign s; (ds, r1) = scan_int r; (fr, r2) = scan_frac r1; (ex, r3) = scan_exp r2
      in if ds = [] then None
         else if fr \<noteq> [] \<or> ex \<noteq> [] then Some (NFloat (take (length s - length r3) s), r3)
         else if max_int_digits < length ds then None
         else Some (NInt (if neg then - int_of_digits ds else int_of_digits ds), r3))"

definition starts_with :: "string \<Rightarrow> string \<Rightarrow> bool" where
  "starts_with p s \<longleftrightarrow> take (length p) s = p"

text \<open>
  \<open>scan_once\<close>.  The first argument bounds the nesting (\<open>RecursionError\<close>), the second the number of
  steps; \<open>loads\<close> passes twice the length of the text, which is never exhausted.
\<close>

fun scan_value :: "nat \<Rightarrow> nat \<Rightarrow> string \<Rightarrow> (node \<times> string) option"
  and scan_elems :: "nat \<Rightarrow> nat \<Rightarrow> string \<Rightarrow> (node list \<times> string) option"
  and scan_members :: "nat \<Rightarrow> nat \<Rightarrow> string \<Rightarrow> ((node \<times> node) list \<times> string) option" where
  "scan_value d 0 s = None"
| "scan_value d (Suc n) s =
     (case s of
        [] \<Rightarrow> None
      | c # r \<Rightarrow>
          if c = quote then map_option (\<lambda>(t, u). (NStr t, u)) (scan_string r)
          else if c = CHR ''{'' then
            (if d = 0 then None
             else case skip_ws r of
               [] \<Rightarrow> None
             | c' # r' \<Rightarrow>
                 if c' = CHR ''}'' then Some (NDict [], r')
                 else map_option (\<lambda>(items, u). (NDict (foldl (\<lambda>m (k, v). dict_set k v m) [] items), u))
                        (scan_members (d - 1) n (c' # r')))
          else if c = CHR ''['' then
            (if d = 0 then None
             else case skip_ws r of
               [] \<Rightarrow> None
             | c' # r' \<Rightarrow>
                 if c' = CHR '']'' then Some (NList [], r')
                 else map_option (\<lambda>(ns, u). (NList ns, u)) (scan_elems (d - 1) n (c' # r')))
          else if starts_with ''null'' s then Some (NNone, drop 4 s)
          else if starts_with ''true'' s then Some (NBool True, drop 4 s)
          else if starts_with ''false'' s then Some (NBool False, drop 5 s)
          else if starts_with ''NaN'' s then Some (NFloat ''NaN'', drop 3 s)
          else if starts_with ''Infinity'' s then Some (NFloat ''Infinity'', drop 8 s)
          else if starts_with ''-Infinity'' s then Some (NFloat ''-Infinity'', drop 9 s)
          else scan_number s)"
| "scan_elems d 0 s = None"
| "scan_elems d (Suc n) s =
     (case scan_value d n s of
        None \<Rightarrow> None
      | Some (v, r) \<Rightarrow>
          (case skip_ws r of
             [] \<Rightarrow> None
           | c # r' \<Rightarrow>
               if c = CHR '']'' then Some ([v], r')
               else if c = CHR '','' then
                 map_option (\<lambda>(vs, u). (v # vs, u)) (scan_elems d n (skip_ws r'))
               else None))"
| "scan_members d 0 s = None"
| "scan_members d (Suc n) s =
     (case s of
        [] \<Rightarrow> None
      | q # r0 \<Rightarrow>
          if q \<noteq> quote then None
          else case scan_string r0 of
            None \<Rightarrow> None
          | Some (k, r1) \<Rightarrow>
              (case skip_ws r1 of
                 [] \<Rightarrow> None
               | c # r2 \<Rightarrow>
                   if c \<noteq> CHR '':'' then None
                   else case scan_value d n (skip_ws r2) of
                     None \<Rightarrow> None
                   | Some (v, r3) \<Rightarrow>
                       (case skip_ws r3 of
                          [] \<Rightarrow> None
                        | c' # r4 \<Rightarrow>
                            if c' = CHR ''}'' then Some ([(NStr k, v)], r4)
                            else if c' = CHR '','' then
                              map_option (\<lambda>(items, u). ((NStr k, v) # items, u))
                                (scan_members d n (skip_ws r4))
                            else None)))"

definition loads :: "nat \<Rightarrow> string \<Rightarrow> node option" where
  "loads depth s =
     (case scan_value depth (2 * length s + 2) (skip_ws s) of
        Some (v, r) \<Rightarrow> if skip_ws r = [] then Some v else None
      | None \<Rightarrow> None)"

subsection \<open>Commit hashes\<close>

definition commit_digest_size :: nat where
  "commit_digest_size = 32"

definition commit_nonce_bytes :: nat where
  "commit_nonce_bytes = 16"

text \<open>\<open>blake2b\<close> of \<open>bundle || nonce || hotkey\<close>, in hexadecimal.\<close>

definition commit_hash :: "(bytes \<Rightarrow> bytes) \<Rightarrow> bytes \<Rightarrow> bytes \<Rightarrow> string \<Rightarrow> string" where
  "commit_hash blake2b bundle nonce hotkey = hex (blake2b (bundle @ nonce @ utf8 hotkey))"

record assembled_submission =
  asm_bundle_json :: string
  asm_nonce_hex :: string
  asm_bundle_hash :: string

text \<open>\<open>assemble_bundle\<close> with its nonce given; the payload is the bundle's \<open>to_canonical_payload\<close>.\<close>

definition assemble_bundle ::
  "(bytes \<Rightarrow> bytes) \<Rightarrow> node \<Rightarrow> string \<Rightarrow> bytes \<Rightarrow> canonical_error + assembled_submission" where
  "assemble_bundle blake2b payload hotkey nonce =
     ebind (canonical_text payload) (\<lambda>t.
     if length nonce \<noteq> commit_nonce_bytes then Inl Bad_nonce_length
     else Inr \<lparr>asm_bundle_json = t, asm_nonce_hex = hex nonce,
               asm_bundle_hash = commit_hash blake2b (utf8 t) nonce hotkey\<rparr>)"

subsection \<open>The round trip\<close>

lemma skip_ws_Cons [simp]: "skip_ws (c # s) = (if is_ws c then skip_ws s else c # s)"
  by (simp add: skip_ws_def)

lemma skip_ws_Nil [simp]: "skip_ws [] = []"
  by (simp add: skip_ws_def)

lemma hex4_val_hex4: "n < 256 \<Longrightarrow> hex4_val (hex4 n) = Some n"
proof -
  assume n: "n < 256"
  then have "n div 4096 = 0" "n div 256 = 0" "n div 16 < 16" by simp_all
  then show ?thesis by (simp add: hex4_def)
qed

lemma backslash_not_quote [simp]: "backslash \<noteq> quote"
  by (simp add: quote_def backslash_def)

lemma scan_simple_escape:
  "simple_escape e = Some d \<Longrightarrow> e \<noteq> CHR ''u'' \<Longrightarrow>
     scan_string (backslash # e # s) = map_option (\<lambda>(t, u). (d # t, u)) (scan_string s)"
  by (simp add: scan_string.simps [of "backslash # _"])

lemma scan_string_escape:
  "scan_string (escape_char c @ s) = map_option (\<lambda>(t, u). (c # t, u)) (scan_string s)"
proof -
  consider "c = quote \<or> c = backslash
      \<or> c = CHR 0x08 \<or> c = CHR 0x0C \<or> c = CHR 0x0A \<or> c = CHR 0x0D \<or> c = CHR 0x09"
    | "escape_char c = backslash # CHR ''u'' # hex4 (of_char c)"
    | "escape_char c = [c]" "c \<noteq> quote" "c \<noteq> backslash" "\<not> (of_char c :: nat) < 32"
    unfolding escape_char_def by argo
  then show ?thesis
  proof cases
    case 1
    then obtain e where e: "escape_char c = [backslash, e]" "simple_escape e = Some c" "e \<noteq> CHR ''u''"
      by (elim disjE) (simp_all add: escape_char_def simple_escape_def quote_def backslash_def)
    then show ?thesis by (simp add: scan_simple_escape)
  next
    case 2
    have "take 4 (hex4 n @ s) = hex4 n" "drop 4 (hex4 n @ s) = s" for n by (simp_all add: hex4_def)
    with 2 hex4_val_hex4 [of "of_char c"] show ?thesis
      by (simp add: scan_string.simps [of "backslash # _"])
  next
    case 3
    then show ?thesis by (simp add: scan_string.simps [of "c # _"])
  qed
qed

lemma scan_string_dump: "scan_string (concat (map escape_char s) @ quote # r) = Some (s, r)"
proof (induction s)
  case Nil
  show ?case by (subst scan_string.simps) simp
qed (simp add: scan_string_escape)

definition num_end :: "string \<Rightarrow> bool" where
  "num_end r \<longleftrightarrow> (case r of [] \<Rightarrow> True
     | c # _ \<Rightarrow> \<not> is_digit c \<and> c \<noteq> CHR ''.'' \<and> c \<noteq> CHR ''e'' \<and> c \<noteq> CHR ''E'')"

lemma digit_not_minus: "is_digit c \<Longrightarrow> c \<noteq> CHR ''-''"
  by (auto simp: is_digit_def digit_val_def)

lemma num_end_split: "num_end r \<Longrightarrow> list_all is_digit ds \<Longrightarrow> split_digits (ds @ r) = (ds, r)"
  by (induction ds) (auto simp: num_end_def split_digits_def split: list.splits)

lemma num_end_scan: "num_end r \<Longrightarrow> scan_frac r = ([], r) \<and> scan_exp r = ([], r)"
  by (auto simp: num_end_def scan_frac_def scan_exp_def split: list.splits)

lemma str_nat_zero_head: "0 \<le> n \<Longrightarrow> hd (str_nat n) = CHR ''0'' \<Longrightarrow> n = 0"
proof (induction n rule: str_nat.induct)
  case (1 n)
  have d0: "digit_char m = CHR ''0'' \<Longrightarrow> 0 \<le> m \<Longrightarrow> m \<le> 9 \<Longrightarrow> m = 0" for m
  proof -
    have "digit_val (CHR ''0'') = 0" by code_simp
    then show "digit_char m = CHR ''0'' \<Longrightarrow> 0 \<le> m \<Longrightarrow> m \<le> 9 \<Longrightarrow> m = 0"
      by (metis digit_val_digit_char)
  qed
  show ?case
  proof (cases "n < 10")
    case True
    with 1 d0 [of n] show ?thesis by (simp add: str_nat.simps [of n])
  next
    case False
    with 1(2,3) str_nat_digits [of "n div 10"] have "hd (str_nat (n div 10)) = CHR ''0''"
      by (simp add: str_nat.simps [of n] hd_append)
    with 1(1) False 1(2) have "n div 10 = 0" by simp
    with False 1(2) show ?thesis by simp
  qed
qed

lemma scan_number_nat:
  assumes "num_end r" "0 \<le> n" "length (str_nat n) \<le> max_int_digits"
  shows "scan_int (str_nat n @ r) = (str_nat n, r)"
proof -
  obtain c q where cq: "str_nat n = c # q" using str_nat_digits [OF assms(2)] by (cases "str_nat n") auto
  show ?thesis
  proof (cases "c = CHR ''0''")
    case True
    with cq have "n = 0" using str_nat_zero_head [OF assms(2)] by simp
    then have "str_nat n = [digit_char 0]" by (simp add: str_nat_eq_digit)
    with cq True show ?thesis by (simp add: scan_int_def)
  next
    case False
    with cq show ?thesis
      using num_end_split [OF assms(1), of "str_nat n"] str_nat_digits [OF assms(2)]
      by (simp add: scan_int_def)
  qed
qed

lemma scan_number_str_int:
  assumes "num_end r" "length (str_int \<bar>i\<bar>) \<le> max_int_digits"
  shows "scan_number (str_int i @ r) = Some (NInt i, r)"
proof -
  define m where "m = \<bar>i\<bar>"
  have m: "0 \<le> m" by (simp add: m_def)
  have len: "length (str_nat m) \<le> max_int_digits" using assms(2) by (simp add: str_int_def m_def)
  have ne: "str_nat m \<noteq> []" using str_nat_digits [OF m] by simp
  note sn = scan_number_nat [OF assms(1) m len]
  have hd: "str_nat m = c # q \<Longrightarrow> c \<noteq> CHR ''-''" for c q
    using str_nat_digits [OF m] digit_not_minus by auto
  show ?thesis
  proof (cases "i < 0")
    case True
    then have "str_int i = CHR ''-'' # str_nat m" "- m = i" by (simp_all add: str_int_def m_def)
    with sn num_end_scan [OF assms(1)] ne len m show ?thesis
      by (simp add: scan_number_def scan_sign_def)
  next
    case False
    then have "str_int i = str_nat m" "m = i" by (simp_all add: str_int_def m_def)
    moreover have "scan_sign (str_nat m @ r) = (False, str_nat m @ r)"
      using ne hd by (cases "str_nat m") (auto simp: scan_sign_def)
    ultimately show ?thesis using sn num_end_scan [OF assms(1)] ne len m
      by (simp add: scan_number_def)
  qed
qed


text \<open>
  The payloads the round trip covers: what \<open>_validate\<close> passes, with printable integers and no
  key twice in an object.
\<close>

fun clean :: "node \<Rightarrow> bool" where
  "clean (NInt i) \<longleftrightarrow> length (str_int \<bar>i\<bar>) \<le> max_int_digits"
| "clean (NList ns) \<longleftrightarrow> list_all clean ns"
| "clean (NDict items) \<longleftrightarrow>
     distinct (map fst items) \<and> list_all (\<lambda>kv. (\<exists>s. fst kv = NStr s) \<and> clean (snd kv)) items"
| "clean (NFloat _) \<longleftrightarrow> False"
| "clean (NOther _) \<longleftrightarrow> False"
| "clean _ \<longleftrightarrow> True"

fun node_depth :: "node \<Rightarrow> nat" where
  "node_depth (NList ns) = Suc (Max (insert 0 (set (map node_depth ns))))"
| "node_depth (NDict items) = Suc (Max (insert 0 (set (map (\<lambda>kv. node_depth (snd kv)) items))))"
| "node_depth _ = 0"

lemma node_depth_elem:
  "node_depth (NList ns) \<le> d \<longleftrightarrow> 0 < d \<and> (\<forall>v \<in> set ns. node_depth v \<le> d - 1)"
  "node_depth (NDict items) \<le> d \<longleftrightarrow> 0 < d \<and> (\<forall>kv \<in> set items. node_depth (snd kv) \<le> d - 1)"
  by (auto simp: Max_le_iff Suc_le_eq less_Suc_eq_le [symmetric])

text \<open>The first character of a value's text, which no whitespace or closing bracket can be.\<close>

definition value_start :: "char \<Rightarrow> bool" where
  "value_start c \<longleftrightarrow> \<not> is_ws c \<and> c \<noteq> CHR '']''"

lemma str_int_start: "\<exists>c t. str_int i = c # t \<and> (is_digit c \<or> c = CHR ''-'')"
proof (cases "i < 0")
  case False
  then have "str_nat i \<noteq> []" "list_all is_digit (str_nat i)" using str_nat_digits [of i] by auto
  with False show ?thesis by (cases "str_nat i") (auto simp: str_int_def)
qed (simp add: str_int_def)

lemma is_digit_iff: "is_digit c \<longleftrightarrow> CHR ''0'' \<le> c \<and> c \<le> CHR ''9''"
proof -
  have "of_char (CHR ''0'') = (48 :: nat)" "of_char (CHR ''9'') = (57 :: nat)" by code_simp+
  then show ?thesis by (auto simp: is_digit_def digit_val_def less_eq_char_def)
qed

lemma digit_facts:
  "is_digit c \<Longrightarrow> \<not> is_ws c \<and> c \<noteq> CHR '']'' \<and> c \<noteq> quote \<and> c \<noteq> CHR ''['' \<and> c \<noteq> CHR ''{''
     \<and> c \<noteq> CHR ''n'' \<and> c \<noteq> CHR ''t'' \<and> c \<noteq> CHR ''f'' \<and> c \<noteq> CHR ''N'' \<and> c \<noteq> CHR ''I''"
  unfolding is_digit_def digit_val_def is_ws_def quote_def by auto

lemma dumps_start: "clean j \<Longrightarrow> \<exists>c t. dumps j = c # t \<and> value_start c"
proof (cases j)
  case (NInt i)
  obtain c t where "str_int i = c # t" "is_digit c \<or> c = CHR ''-''" using str_int_start by metis
  with NInt show ?thesis using digit_facts [of c] by (auto simp: value_start_def is_ws_def)
next
  case (NBool b)
  then show ?thesis by (cases b) (auto simp: value_start_def is_ws_def)
next
  case (NList ns)
  then show ?thesis by (cases ns) (auto simp: value_start_def is_ws_def)
next
  case (NDict items)
  then show ?thesis by (cases items) (auto simp: value_start_def is_ws_def)
qed (auto simp: value_start_def is_ws_def dump_string_def quote_def)

lemma skip_ws_dumps: "clean j \<Longrightarrow> skip_ws (dumps j @ r) = dumps j @ r"
  using dumps_start [of j] by (auto simp: value_start_def)

lemma starts_with_simps [simp]:
  "starts_with [] s" "\<not> starts_with (p # ps) []"
  "starts_with (p # ps) (c # s) \<longleftrightarrow> c = p \<and> starts_with ps s"
  by (auto simp: starts_with_def)

lemma str_int_minus: "str_int i = CHR ''-'' # t \<Longrightarrow> \<exists>c u. t = c # u \<and> is_digit c"
proof -
  assume t: "str_int i = CHR ''-'' # t"
  have neg: "i < 0"
  proof (rule ccontr)
    assume "\<not> i < 0"
    with t have "list_all is_digit (CHR ''-'' # t)" using str_nat_digits [of i] by (simp add: str_int_def)
    then show False using digit_not_minus by auto
  qed
  with t have "t = str_nat (- i)" by (simp add: str_int_def)
  moreover obtain c u where "str_nat (- i) = c # u"
    using neg str_nat_digits [of "- i"] by (cases "str_nat (- i)") auto
  ultimately show ?thesis using neg str_nat_digits [of "- i"] by auto
qed

lemma scan_value_int:
  assumes "length (str_int \<bar>i\<bar>) \<le> max_int_digits" "num_end r"
  shows "scan_value d (Suc n) (str_int i @ r) = Some (NInt i, r)"
proof -
  obtain c t where ct: "str_int i = c # t" "is_digit c \<or> c = CHR ''-''" using str_int_start by metis
  have num: "scan_number (c # t @ r) = Some (NInt i, r)"
    using scan_number_str_int [OF assms(2,1)] ct(1) by simp
  show ?thesis
  proof (cases "c = CHR ''-''")
    case True
    obtain e u where e: "t = e # u" "is_digit e" using ct(1) True str_int_minus by metis
    have "e \<noteq> CHR ''I''" using digit_facts [OF e(2)] by simp
    with num e True show ?thesis by (simp add: ct(1) quote_def)
  next
    case False
    with ct have "is_digit c" by simp
    from num digit_facts [OF this] False show ?thesis by (simp add: ct(1))
  qed
qed

lemma num_end_closers [simp]:
  "num_end []" "num_end (CHR '','' # r)" "num_end (CHR '']'' # r)" "num_end (CHR ''}'' # r)"
  by (auto simp: num_end_def is_digit_def digit_val_def)

lemma num_end_dumps_tail: "num_end (dumps_list ns @ r)" "num_end (dumps_items items @ r)"
  by (cases ns; simp) (cases items; force)

text \<open>What \<open>scan_value\<close> does on the text of one value; the lists follow from it.\<close>

definition scans :: "node \<Rightarrow> bool" where
  "scans v \<longleftrightarrow> (\<forall>d n r. node_depth v \<le> d \<longrightarrow> length (dumps v) \<le> n \<longrightarrow> num_end r \<longrightarrow>
     scan_value d n (dumps v @ r) = Some (v, r))"

lemma scansD:
  "scans v \<Longrightarrow> node_depth v \<le> d \<Longrightarrow> length (dumps v) \<le> n \<Longrightarrow> num_end r \<Longrightarrow>
     scan_value d n (dumps v @ r) = Some (v, r)"
  by (simp add: scans_def)

lemma dumps_nonempty: "clean v \<Longrightarrow> 0 < length (dumps v)"
  using dumps_start by fastforce

lemma scan_elems_dumps:
  assumes "\<forall>v \<in> set (v # ns). scans v \<and> clean v \<and> node_depth v \<le> d"
    "length (dumps v @ dumps_list ns) \<le> n"
  shows "scan_elems d n (dumps v @ dumps_list ns @ r) = Some (v # ns, r)"
  using assms
proof (induction ns arbitrary: v n)
  case Nil
  then obtain n' where n: "n = Suc n'" by (cases n) auto
  have "scan_value d n' (dumps v @ CHR '']'' # r) = Some (v, CHR '']'' # r)"
    using Nil n by (intro scansD) auto
  then show ?case by (simp add: n is_ws_def)
next
  case (Cons w ns)
  then obtain n' where n: "n = Suc n'" by (cases n) auto
  have "scan_value d n' (dumps v @ CHR '','' # dumps w @ dumps_list ns @ r)
      = Some (v, CHR '','' # dumps w @ dumps_list ns @ r)"
    using Cons.prems n by (intro scansD) auto
  moreover have "scan_elems d n' (dumps w @ dumps_list ns @ r) = Some (w # ns, r)"
    using Cons.prems n by (intro Cons.IH) auto
  moreover have "skip_ws (dumps w @ dumps_list ns @ r) = dumps w @ dumps_list ns @ r"
    using Cons.prems by (intro skip_ws_dumps) auto
  ultimately show ?case by (simp add: n is_ws_def)
qed

lemma scan_members_dumps:
  assumes "\<forall>kv \<in> set ((k, v) # items). (\<exists>s. fst kv = NStr s) \<and> scans (snd kv) \<and> clean (snd kv)
      \<and> node_depth (snd kv) \<le> d"
    "length (dump_string (key_text k) @ CHR '':'' # dumps v @ dumps_items items) \<le> n"
  shows "scan_members d n (dump_string (key_text k) @ CHR '':'' # dumps v @ dumps_items items @ r)
    = Some ((k, v) # items, r)"
  using assms
proof (induction items arbitrary: k v n)
  case Nil
  then obtain n' t where n: "n = Suc n'" "k = NStr t" by (cases n) auto
  have "scan_value d n' (dumps v @ CHR ''}'' # r) = Some (v, CHR ''}'' # r)"
    using Nil n by (intro scansD) auto
  moreover have "skip_ws (dumps v @ CHR ''}'' # r) = dumps v @ CHR ''}'' # r"
    using Nil by (intro skip_ws_dumps) auto
  ultimately show ?case by (simp add: n dump_string_def scan_string_dump is_ws_def)
next
  case (Cons kv items)
  obtain k' v' where kv: "kv = (k', v')" by force
  from Cons.prems obtain n' t where n: "n = Suc n'" "k = NStr t" by (cases n) auto
  define rest where "rest = dump_string (key_text k') @ CHR '':'' # dumps v' @ dumps_items items @ r"
  have "scan_value d n' (dumps v @ CHR '','' # rest) = Some (v, CHR '','' # rest)"
    using Cons.prems n by (intro scansD) auto
  moreover have "scan_members d n' rest = Some ((k', v') # items, r)"
    unfolding rest_def using Cons.prems n kv by (intro Cons.IH) auto
  moreover have "skip_ws (dumps v @ CHR '','' # rest) = dumps v @ CHR '','' # rest"
    using Cons.prems by (intro skip_ws_dumps) auto
  moreover have "skip_ws rest = rest" by (simp add: rest_def dump_string_def quote_def is_ws_def)
  ultimately show ?case
    by (simp add: n kv rest_def [symmetric]) (simp add: dump_string_def scan_string_dump is_ws_def rest_def)
qed

text \<open>A dictionary literal with distinct keys is rebuilt in order.\<close>

lemma dict_set_new: "k \<notin> fst ` set m \<Longrightarrow> dict_set k v m = m @ [(k, v)]"
  by (induction m) auto

lemma foldl_dict_set:
  "distinct (map fst (m @ items)) \<Longrightarrow> foldl (\<lambda>m (k, v). dict_set k v m) m items = m @ items"
proof (induction items arbitrary: m)
  case (Cons kv items)
  obtain k v where kv: "kv = (k, v)" by force
  have "dict_set k v m = m @ [(k, v)]" using Cons.prems by (intro dict_set_new) (auto simp: kv)
  with Cons.IH [of "m @ [(k, v)]"] Cons.prems show ?case by (simp add: kv)
qed simp

lemma clean_scans: "clean v \<Longrightarrow> scans v"
proof (induction v)
  case (NDict items)
  show ?case unfolding scans_def
  proof (intro allI impI)
    fix d n r
    assume d: "node_depth (NDict items) \<le> d" and n: "length (dumps (NDict items)) \<le> n" and "num_end r"
    have el: "\<forall>kv \<in> set items. (\<exists>s. fst kv = NStr s) \<and> scans (snd kv) \<and> clean (snd kv)
        \<and> node_depth (snd kv) \<le> d - 1"
      using NDict d by (auto simp: node_depth_elem(2) list_all_iff simp del: node_depth.simps)
    have d0: "0 < d" using d by simp
    show "scan_value d n (dumps (NDict items) @ r) = Some (NDict items, r)"
    proof (cases items)
      case Nil
      with n d0 show ?thesis by (cases n) (auto simp: quote_def is_ws_def)
    next
      case (Cons kv rest)
      obtain k v where kv: "kv = (k, v)" by force
      from n Cons kv obtain n' where n': "n = Suc n'" by (cases n) auto
      have m: "scan_members (d - 1) n' (dump_string (key_text k) @ CHR '':'' # dumps v @ dumps_items rest @ r)
          = Some ((k, v) # rest, r)"
        using el n n' Cons kv by (intro scan_members_dumps) auto
      have "foldl (\<lambda>m (k, v). dict_set k v m) [] items = items"
        using foldl_dict_set [of "[]" items] NDict.prems by simp
      moreover obtain t where t: "dump_string (key_text k) = quote # t" by (simp add: dump_string_def)
      ultimately show ?thesis
        using m d0 by (simp add: Cons kv n') (simp add: quote_def is_ws_def)
    qed
  qed
next
  case (NList ns)
  show ?case unfolding scans_def
  proof (intro allI impI)
    fix d n r
    assume d: "node_depth (NList ns) \<le> d" and n: "length (dumps (NList ns)) \<le> n" and "num_end r"
    have el: "\<forall>v \<in> set ns. scans v \<and> clean v \<and> node_depth v \<le> d - 1"
      using NList d by (auto simp: node_depth_elem(1) list_all_iff simp del: node_depth.simps)
    have d0: "0 < d" using d by simp
    show "scan_value d n (dumps (NList ns) @ r) = Some (NList ns, r)"
    proof (cases ns)
      case Nil
      with n d0 show ?thesis by (cases n) (auto simp: quote_def is_ws_def)
    next
      case (Cons v rest)
      from n Cons obtain n' where n': "n = Suc n'" by (cases n) auto
      have m: "scan_elems (d - 1) n' (dumps v @ dumps_list rest @ r) = Some (v # rest, r)"
        using el n n' Cons by (intro scan_elems_dumps) auto
      obtain c t where c: "dumps v = c # t" "value_start c" using dumps_start el Cons by force
      with m d0 show ?thesis by (simp add: Cons n' value_start_def quote_def)
    qed
  qed
next
  case (NInt i)
  show ?case unfolding scans_def
  proof (intro allI impI)
    fix d n r
    assume "length (dumps (NInt i)) \<le> n" and r: "num_end r"
    then obtain n' where "n = Suc n'" using str_int_nonempty [of i] by (cases n) auto
    with NInt r show "scan_value d n (dumps (NInt i) @ r) = Some (NInt i, r)"
      by (simp only: dumps.simps clean.simps scan_value_int)
  qed
next
  case (NBool b)
  show ?case unfolding scans_def
    by (cases b) (auto simp: quote_def dest!: Suc_le_D)
next
  case (NStr s)
  show ?case unfolding scans_def
    by (auto simp: dump_string_def scan_string_dump dest!: Suc_le_D)
next
  case NNone
  show ?case unfolding scans_def
    by (auto simp: quote_def dest!: Suc_le_D)
qed simp_all

theorem loads_dumps:
  assumes "clean v" "node_depth v \<le> depth"
  shows "loads depth (dumps v) = Some v"
proof -
  have "scan_value depth (2 * length (dumps v) + 2) (dumps v @ []) = Some (v, [])"
    using clean_scans [OF assms(1)] assms(2) by (intro scansD) auto
  moreover have "skip_ws (dumps v) = dumps v" using skip_ws_dumps [OF assms(1), of "[]"] by simp
  ultimately show ?thesis by (simp add: loads_def)
qed

end
