(* ===== verification/Wire.thy ===== *)
theory Wire
  imports Coordinates Dates Canonical
begin

text \<open>
  The wire helpers the assessment schemas share (\<open>endure/assessment/schemas/wire.py\<close>): parameter
  specifications and the validators of a submitted output value.  An output is a value of any
  type \<open>'o\<close> with a wire name; a validator returns its argument, possibly normalised, or the error
  it raises.  The errors of the structured out-of-bounds type are \<open>Out_of_bounds\<close>.
\<close>

datatype aggressive_direction = Higher | Lower

datatype deviation_mode = Absolute | Relative

record 'o parameter_spec =
  ps_output :: 'o
  scoring_weight :: rat
  grace_band :: int
  cutoff :: int
  aggressive_direction :: aggressive_direction
  lenient_multiplier :: rat
  deviation_mode :: deviation_mode
  ps_unit :: string
  confidence_floor_bps :: int
  scored_live :: bool
  min_value :: int
  max_value :: "int option"

datatype wire_error =
    Out_of_bounds string int
  | Scoring_weight_not_positive | Negative_grace_band | Cutoff_not_above_grace
  | Lenient_multiplier_below_one | Confidence_floor_outside | Negative_min_value
  | Max_below_min | Specs_not_in_enum_order
  | Too_many_reason_codes | Duplicate_reason_codes | Reason_code_too_long | Invalid_reason_code string
  | Wrong_horizon int | Wrong_unit string | Duplicate_netuid
  | Duplicate_output | Outputs_missing | Outputs_empty | Cross_output_invariant
  | Bad_netuid int | Not_iso_date | Not_canonical_date | Assets_empty | Too_many_assets
  | Missing_field string | Extra_field string | Wrong_type string | Unknown_literal string

fun is_out_of_bounds :: "wire_error \<Rightarrow> bool" where
  "is_out_of_bounds (Out_of_bounds _ _) = True"
| "is_out_of_bounds _ = False"

definition max_confidence_bps :: int where
  "max_confidence_bps = 10000"

text \<open>\<open>BaseParameterSpec.__post_init__\<close>, that is \<open>validate_parameter_bounds\<close>.\<close>

definition validate_parameter_bounds :: "'o parameter_spec \<Rightarrow> wire_error + unit" where
  "validate_parameter_bounds s =
     ebind (echeck (0 < scoring_weight s) Scoring_weight_not_positive) (\<lambda>_.
     ebind (echeck (0 \<le> grace_band s) Negative_grace_band) (\<lambda>_.
     ebind (echeck (grace_band s < cutoff s) Cutoff_not_above_grace) (\<lambda>_.
     ebind (echeck (1 \<le> lenient_multiplier s) Lenient_multiplier_below_one) (\<lambda>_.
     ebind (echeck (0 \<le> confidence_floor_bps s \<and> confidence_floor_bps s \<le> max_confidence_bps)
        Confidence_floor_outside) (\<lambda>_.
     ebind (echeck (0 \<le> min_value s) Negative_min_value) (\<lambda>_.
     echeck (case max_value s of None \<Rightarrow> True | Some m \<Rightarrow> min_value s \<le> m) Max_below_min))))))"

definition spec_ok :: "'o parameter_spec \<Rightarrow> bool" where
  "spec_ok s \<longleftrightarrow> validate_parameter_bounds s = Inr ()"

lemma spec_okD:
  assumes "spec_ok s"
  shows "0 < scoring_weight s" "0 \<le> grace_band s" "grace_band s < cutoff s"
    "1 \<le> lenient_multiplier s" "0 \<le> min_value s"
  using assms by (auto simp: spec_ok_def validate_parameter_bounds_def)

subsection \<open>Submitted values\<close>

record 'o output_value =
  ov_output :: 'o
  ov_value :: int
  ov_confidence :: int
  ov_reason_codes :: "string list"
  ov_horizon :: int
  ov_unit :: string

definition max_reason_codes :: nat where
  "max_reason_codes = 8"

definition max_reason_code_length :: nat where
  "max_reason_code_length = 64"

definition is_lower :: "char \<Rightarrow> bool" where
  "is_lower c \<longleftrightarrow> CHR ''a'' \<le> c \<and> c \<le> CHR ''z''"

text \<open>\<open>^[a-z][a-z0-9_]*$\<close> under \<open>fullmatch\<close>.\<close>

fun reason_code_matches :: "string \<Rightarrow> bool" where
  "reason_code_matches [] = False"
| "reason_code_matches (c # s) \<longleftrightarrow>
     is_lower c \<and> list_all (\<lambda>d. is_lower d \<or> is_digit d \<or> d = CHR ''_'') s"

definition validate_confidence_bps :: "int \<Rightarrow> wire_error + int" where
  "validate_confidence_bps v =
     (if 0 \<le> v \<and> v \<le> max_confidence_bps then Inr v
      else Inl (Out_of_bounds ''confidence_bps'' v))"

fun check_reason_codes :: "string list \<Rightarrow> wire_error + unit" where
  "check_reason_codes [] = Inr ()"
| "check_reason_codes (r # rs) =
     (if max_reason_code_length < length r then Inl Reason_code_too_long
      else if \<not> reason_code_matches r then Inl (Invalid_reason_code r)
      else check_reason_codes rs)"

definition validate_reason_codes :: "string list \<Rightarrow> wire_error + string list" where
  "validate_reason_codes rs =
     (if max_reason_codes < length rs then Inl Too_many_reason_codes
      else if \<not> distinct rs then Inl Duplicate_reason_codes
      else ebind (check_reason_codes rs) (\<lambda>_. Inr (sort rs)))"

definition validate_against_spec :: "string \<Rightarrow> 'o output_value \<Rightarrow> 'o parameter_spec \<Rightarrow> wire_error + unit" where
  "validate_against_spec name v s =
     (if ov_unit v \<noteq> ps_unit s then Inl (Wrong_unit (ov_unit v))
      else if ov_confidence v < confidence_floor_bps s then Inl (Out_of_bounds ''confidence_bps'' (ov_confidence v))
      else if ov_value v < min_value s then Inl (Out_of_bounds name (ov_value v))
      else if (case max_value s of None \<Rightarrow> False | Some m \<Rightarrow> m < ov_value v)
        then Inl (Out_of_bounds name (ov_value v))
      else Inr ())"

definition validate_unique_netuids :: "int list \<Rightarrow> wire_error + unit" where
  "validate_unique_netuids ns = echeck (distinct ns) Duplicate_netuid"

lemma check_reason_codes_Inr:
  "check_reason_codes rs = Inr () \<longleftrightarrow>
     (\<forall>r \<in> set rs. length r \<le> max_reason_code_length \<and> reason_code_matches r)"
  by (induction rs) auto

lemma validate_reason_codes_Inr:
  "validate_reason_codes rs = Inr ss \<longleftrightarrow>
     length rs \<le> max_reason_codes \<and> distinct rs
     \<and> (\<forall>r \<in> set rs. length r \<le> max_reason_code_length \<and> reason_code_matches r) \<and> ss = sort rs"
  by (auto simp: validate_reason_codes_def check_reason_codes_Inr)

lemma validate_reason_codes_idem:
  "validate_reason_codes rs = Inr ss \<Longrightarrow> validate_reason_codes ss = Inr ss"
  by (auto simp: validate_reason_codes_Inr sort_key_id_if_sorted)

lemma validate_against_spec_Inr:
  "validate_against_spec name v s = Inr () \<longleftrightarrow>
     ov_unit v = ps_unit s \<and> confidence_floor_bps s \<le> ov_confidence v \<and> min_value s \<le> ov_value v
     \<and> (case max_value s of None \<Rightarrow> True | Some m \<Rightarrow> ov_value v \<le> m)"
  by (auto simp: validate_against_spec_def split: option.splits)

subsection \<open>Bundles\<close>

record 'o asset_submission =
  as_netuid :: int
  as_outputs :: "'o output_value list"

record 'o submission_bundle =
  sb_round_id :: string
  sb_schema_id :: string
  sb_assets :: "'o asset_submission list"

text \<open>
  What a schema module declares: its outputs in enum order with their wire names, the
  specification of each, the check of the horizon, the validator of an asset's outputs, the
  validator that runs on the whole asset, its id, and the sort key of its canonical payload.
\<close>

record 'o schema_model =
  sm_outputs :: "(string \<times> 'o) list"
  sm_name :: "'o \<Rightarrow> string"
  sm_spec :: "'o \<Rightarrow> 'o parameter_spec"
  sm_horizon_ok :: "int \<Rightarrow> bool"
  sm_check_outputs :: "'o output_value list \<Rightarrow> wire_error + unit"
  sm_check_asset :: "'o output_value list \<Rightarrow> wire_error + unit"
  sm_schema_id :: string
  sm_output_key :: "'o output_value \<Rightarrow> int \<times> string"

definition max_assets_per_bundle :: nat where
  "max_assets_per_bundle = 256"

text \<open>
  A pydantic model collects the errors of all its fields: an applicative over lists of errors.
  \<open>raising\<close> turns a validator that raises into it, \<open>pbind\<close> is an after validator, which
  runs only on a value the inner validation passed.
\<close>

type_synonym 'a parsed = "wire_error list + 'a"

definition pap :: "('a \<Rightarrow> 'b) parsed \<Rightarrow> 'a parsed \<Rightarrow> 'b parsed" where
  "pap f x =
     (case (f, x) of
        (Inr g, Inr a) \<Rightarrow> Inr (g a)
      | (Inl e, Inl e') \<Rightarrow> Inl (e @ e')
      | (Inl e, Inr _) \<Rightarrow> Inl e
      | (Inr _, Inl e) \<Rightarrow> Inl e)"

definition raising :: "wire_error + 'a \<Rightarrow> 'a parsed" where
  "raising r = (case r of Inl e \<Rightarrow> Inl [e] | Inr a \<Rightarrow> Inr a)"

fun parse_all :: "('n \<Rightarrow> 'a parsed) \<Rightarrow> 'n list \<Rightarrow> 'a list parsed" where
  "parse_all f [] = Inr []"
| "parse_all f (n # ns) = pap (pap (Inr (#)) (f n)) (parse_all f ns)"

definition parse_list :: "(node \<Rightarrow> 'a parsed) \<Rightarrow> node \<Rightarrow> 'a list parsed" where
  "parse_list f n = (case n of NList ns \<Rightarrow> parse_all f ns | _ \<Rightarrow> Inl [Wrong_type ''tuple''])"

definition strict_int :: "node \<Rightarrow> int parsed" where
  "strict_int n = (case n of NInt i \<Rightarrow> Inr i | _ \<Rightarrow> Inl [Wrong_type ''int''])"

definition parse_str :: "node \<Rightarrow> string parsed" where
  "parse_str n = (case n of NStr s \<Rightarrow> Inr s | _ \<Rightarrow> Inl [Wrong_type ''str''])"

definition parse_enum :: "(string \<times> 'o) list \<Rightarrow> node \<Rightarrow> 'o parsed" where
  "parse_enum names n =
     (case n of
        NStr s \<Rightarrow> (case map_of names s of Some v \<Rightarrow> Inr v | None \<Rightarrow> Inl [Unknown_literal s])
      | _ \<Rightarrow> Inl [Wrong_type ''enum''])"

definition required :: "string \<Rightarrow> (node \<times> node) list \<Rightarrow> (node \<Rightarrow> 'a parsed) \<Rightarrow> 'a parsed" where
  "required name items f =
     (case map_of items (NStr name) of Some n \<Rightarrow> f n | None \<Rightarrow> Inl [Missing_field name])"

text \<open>\<open>extra="forbid"\<close>.\<close>

definition no_extra :: "string list \<Rightarrow> (node \<times> node) list \<Rightarrow> unit parsed" where
  "no_extra names items =
     (case filter (\<lambda>kv. fst kv \<notin> NStr ` set names) items of
        [] \<Rightarrow> Inr ()
      | extra \<Rightarrow> Inl (map (\<lambda>kv. Extra_field (key_text (fst kv))) extra))"

definition parse_model ::
  "((node \<times> node) list \<Rightarrow> 'a parsed) \<Rightarrow> ('a \<Rightarrow> wire_error + unit) \<Rightarrow> node \<Rightarrow> 'a parsed" where
  "parse_model flds after n =
     (case n of
        NDict items \<Rightarrow> ebind (flds items) (\<lambda>v. ebind (raising (after v)) (\<lambda>_. Inr v))
      | _ \<Rightarrow> Inl [Wrong_type ''object''])"

definition horizon_validator :: "'o schema_model \<Rightarrow> int \<Rightarrow> wire_error + int" where
  "horizon_validator m h = (if sm_horizon_ok m h then Inr h else Inl (Wrong_horizon h))"

definition output_fields :: "'o schema_model \<Rightarrow> (node \<times> node) list \<Rightarrow> 'o output_value parsed" where
  "output_fields m items =
     pap (pap (pap (pap (pap (pap (pap
       (Inr (\<lambda>out v c rs h u _. \<lparr>ov_output = out, ov_value = v, ov_confidence = c,
               ov_reason_codes = rs, ov_horizon = h, ov_unit = u\<rparr>))
       (required ''output'' items (parse_enum (sm_outputs m))))
       (required ''value'' items strict_int))
       (required ''confidence_bps'' items
          (\<lambda>n. ebind (strict_int n) (\<lambda>v. raising (validate_confidence_bps v)))))
       (required ''reason_codes'' items
          (\<lambda>n. ebind (parse_list parse_str n) (\<lambda>rs. raising (validate_reason_codes rs)))))
       (required ''horizon_seconds'' items
          (\<lambda>n. ebind (strict_int n) (\<lambda>h. raising (horizon_validator m h)))))
       (required ''unit'' items parse_str))
       (no_extra [''output'', ''value'', ''confidence_bps'', ''reason_codes'', ''horizon_seconds'', ''unit''] items)"

definition parse_output_value :: "'o schema_model \<Rightarrow> node \<Rightarrow> 'o output_value parsed" where
  "parse_output_value m =
     parse_model (output_fields m)
       (\<lambda>v. validate_against_spec (sm_name m (ov_output v)) v (sm_spec m (ov_output v)))"

definition netuid_validator :: "int \<Rightarrow> wire_error + int" where
  "netuid_validator n = (if n < 0 then Inl (Bad_netuid n) else Inr n)"

definition asset_fields :: "'o schema_model \<Rightarrow> (node \<times> node) list \<Rightarrow> 'o asset_submission parsed" where
  "asset_fields m items =
     pap (pap (pap
       (Inr (\<lambda>n outs _. \<lparr>as_netuid = n, as_outputs = outs\<rparr>))
       (required ''netuid'' items (\<lambda>n. ebind (strict_int n) (\<lambda>i. raising (netuid_validator i)))))
       (required ''outputs'' items
          (\<lambda>n. ebind (parse_list (parse_output_value m) n)
             (\<lambda>outs. raising (ebind (sm_check_outputs m outs) (\<lambda>_. Inr outs))))))
       (no_extra [''netuid'', ''outputs''] items)"

definition parse_asset :: "'o schema_model \<Rightarrow> node \<Rightarrow> 'o asset_submission parsed" where
  "parse_asset m = parse_model (asset_fields m) (\<lambda>a. sm_check_asset m (as_outputs a))"

text \<open>\<open>_validate_round_id\<close> and \<open>_validate_assets\<close>.\<close>

definition round_id_validator :: "string \<Rightarrow> wire_error + string" where
  "round_id_validator s =
     (case fromisoformat s of
        None \<Rightarrow> Inl Not_iso_date
      | Some d \<Rightarrow> if s \<noteq> isoformat d then Inl Not_canonical_date else Inr s)"

definition assets_validator ::
  "'o asset_submission list \<Rightarrow> wire_error + 'o asset_submission list" where
  "assets_validator assets =
     (if assets = [] then Inl Assets_empty
      else if max_assets_per_bundle < length assets then Inl Too_many_assets
      else ebind (validate_unique_netuids (map as_netuid assets)) (\<lambda>_. Inr assets))"

definition bundle_fields :: "'o schema_model \<Rightarrow> (node \<times> node) list \<Rightarrow> 'o submission_bundle parsed" where
  "bundle_fields m items =
     pap (pap (pap (pap
       (Inr (\<lambda>r i as _. \<lparr>sb_round_id = r, sb_schema_id = i, sb_assets = as\<rparr>))
       (required ''round_id'' items (\<lambda>n. ebind (parse_str n) (\<lambda>s. raising (round_id_validator s)))))
       (required ''schema_id'' items (parse_enum [(sm_schema_id m, sm_schema_id m)])))
       (required ''assets'' items
          (\<lambda>n. ebind (parse_list (parse_asset m) n) (\<lambda>as. raising (assets_validator as)))))
       (no_extra [''round_id'', ''schema_id'', ''assets''] items)"

definition parse_bundle :: "'o schema_model \<Rightarrow> node \<Rightarrow> 'o submission_bundle parsed" where
  "parse_bundle m = parse_model (bundle_fields m) (\<lambda>_. Inr ())"

subsection \<open>The canonical payload\<close>

text \<open>\<open>model_dump(mode="json")\<close>, then \<open>canonical_assets_payload\<close> and \<open>to_canonical_payload\<close>.\<close>

definition output_payload :: "'o schema_model \<Rightarrow> 'o output_value \<Rightarrow> node" where
  "output_payload m v =
     NDict [(NStr ''output'', NStr (sm_name m (ov_output v))),
            (NStr ''value'', NInt (ov_value v)),
            (NStr ''confidence_bps'', NInt (ov_confidence v)),
            (NStr ''reason_codes'', NList (map NStr (ov_reason_codes v))),
            (NStr ''horizon_seconds'', NInt (ov_horizon v)),
            (NStr ''unit'', NStr (ov_unit v))]"

definition canonical_assets_payload :: "'o schema_model \<Rightarrow> 'o asset_submission list \<Rightarrow> node" where
  "canonical_assets_payload m assets =
     NList (map (\<lambda>a. NDict [(NStr ''netuid'', NInt (as_netuid a)),
         (NStr ''outputs'', NList (map (output_payload m) (sort_key (sm_output_key m) (as_outputs a))))])
       (sort_key as_netuid assets))"

definition to_canonical_payload :: "'o schema_model \<Rightarrow> 'o submission_bundle \<Rightarrow> node" where
  "to_canonical_payload m b =
     NDict [(NStr ''round_id'', NStr (sb_round_id b)),
            (NStr ''schema_id'', NStr (sb_schema_id b)),
            (NStr ''assets'', canonical_assets_payload m (sb_assets b))]"

subsection \<open>Parsing inverts the canonical payload\<close>

lemma pap_Inr [simp]: "pap f x = Inr b \<longleftrightarrow> (\<exists>g a. f = Inr g \<and> x = Inr a \<and> b = g a)"
  by (auto simp: pap_def split: sum.splits)

lemma pap_simp [simp]: "pap (Inr g) (Inr a) = Inr (g a)"
  by (simp add: pap_def)

lemma raising_Inr [simp]: "raising r = Inr a \<longleftrightarrow> r = Inr a"
  by (auto simp: raising_def split: sum.splits)

lemma raising_simp [simp]: "raising (Inr a) = Inr a"
  by (simp add: raising_def)

lemma parse_all_Inr: "parse_all f ns = Inr vs \<longleftrightarrow> list_all2 (\<lambda>n v. f n = Inr v) ns vs"
proof (induction ns arbitrary: vs)
  case (Cons n ns)
  show ?case by (cases vs) (auto simp: Cons.IH)
qed auto

lemma parse_all_map: "(\<And>v. v \<in> set vs \<Longrightarrow> f (g v) = Inr v) \<Longrightarrow> parse_all f (map g vs) = Inr vs"
  by (induction vs) auto

lemma required_Inr:
  "required name items f = Inr a \<longleftrightarrow> (\<exists>n. map_of items (NStr name) = Some n \<and> f n = Inr a)"
  by (auto simp: required_def split: option.splits)

lemma no_extra_Inr: "no_extra names items = Inr () \<longleftrightarrow> fst ` set items \<subseteq> NStr ` set names"
proof -
  have "filter (\<lambda>kv. fst kv \<notin> NStr ` set names) items = [] \<longleftrightarrow> fst ` set items \<subseteq> NStr ` set names"
    by (auto simp: filter_empty_conv)
  then show ?thesis by (auto simp: no_extra_def split: list.splits)
qed

lemma parse_model_Inr:
  "parse_model flds after n = Inr v \<longleftrightarrow>
     (\<exists>items. n = NDict items \<and> flds items = Inr v \<and> after v = Inr ())"
  by (auto simp: parse_model_def split: node.splits)

lemma strict_int_Inr [simp]: "strict_int n = Inr i \<longleftrightarrow> n = NInt i"
  by (auto simp: strict_int_def split: node.splits)

lemma parse_str_Inr [simp]: "parse_str n = Inr s \<longleftrightarrow> n = NStr s"
  by (auto simp: parse_str_def split: node.splits)

lemma parse_list_Inr:
  "parse_list f n = Inr vs \<longleftrightarrow> (\<exists>ns. n = NList ns \<and> list_all2 (\<lambda>n v. f n = Inr v) ns vs)"
  by (auto simp: parse_list_def parse_all_Inr split: node.splits)

lemma parse_enum_Inr:
  "parse_enum names n = Inr v \<longleftrightarrow> (\<exists>s. n = NStr s \<and> map_of names s = Some v)"
  by (auto simp: parse_enum_def split: node.splits option.splits)

lemma round_id_validator_Inr:
  "round_id_validator s = Inr t \<longleftrightarrow> t = s \<and> (\<exists>d. fromisoformat s = Some d)"
  using fromisoformat_canonical by (auto simp: round_id_validator_def split: option.splits)

lemma assets_validator_Inr:
  "assets_validator as = Inr bs \<longleftrightarrow>
     bs = as \<and> as \<noteq> [] \<and> length as \<le> max_assets_per_bundle \<and> distinct (map as_netuid as)"
  by (auto simp: assets_validator_def validate_unique_netuids_def)

text \<open>The values a schema's models hold.\<close>

definition output_ok :: "'o schema_model \<Rightarrow> 'o output_value \<Rightarrow> bool" where
  "output_ok m v \<longleftrightarrow>
     map_of (sm_outputs m) (sm_name m (ov_output v)) = Some (ov_output v)
     \<and> 0 \<le> ov_confidence v \<and> ov_confidence v \<le> max_confidence_bps
     \<and> validate_reason_codes (ov_reason_codes v) = Inr (ov_reason_codes v)
     \<and> sm_horizon_ok m (ov_horizon v)
     \<and> validate_against_spec (sm_name m (ov_output v)) v (sm_spec m (ov_output v)) = Inr ()"

definition asset_ok :: "'o schema_model \<Rightarrow> 'o asset_submission \<Rightarrow> bool" where
  "asset_ok m a \<longleftrightarrow>
     0 \<le> as_netuid a \<and> (\<forall>v \<in> set (as_outputs a). output_ok m v)
     \<and> sm_check_outputs m (as_outputs a) = Inr () \<and> sm_check_asset m (as_outputs a) = Inr ()"

definition bundle_ok :: "'o schema_model \<Rightarrow> 'o submission_bundle \<Rightarrow> bool" where
  "bundle_ok m b \<longleftrightarrow>
     fromisoformat (sb_round_id b) \<noteq> None \<and> sb_schema_id b = sm_schema_id m
     \<and> sb_assets b \<noteq> [] \<and> length (sb_assets b) \<le> max_assets_per_bundle
     \<and> distinct (map as_netuid (sb_assets b)) \<and> (\<forall>a \<in> set (sb_assets b). asset_ok m a)"

definition canon_asset :: "'o schema_model \<Rightarrow> 'o asset_submission \<Rightarrow> 'o asset_submission" where
  "canon_asset m a = a\<lparr>as_outputs := sort_key (sm_output_key m) (as_outputs a)\<rparr>"

definition canon_bundle :: "'o schema_model \<Rightarrow> 'o submission_bundle \<Rightarrow> 'o submission_bundle" where
  "canon_bundle m b = b\<lparr>sb_assets := map (canon_asset m) (sort_key as_netuid (sb_assets b))\<rparr>"

lemma sort_output_payload:
  "sort_keys (output_payload m v) =
     NDict [(NStr ''confidence_bps'', NInt (ov_confidence v)),
            (NStr ''horizon_seconds'', NInt (ov_horizon v)),
            (NStr ''output'', NStr (sm_name m (ov_output v))),
            (NStr ''reason_codes'', NList (map NStr (ov_reason_codes v))),
            (NStr ''unit'', NStr (ov_unit v)),
            (NStr ''value'', NInt (ov_value v))]"
  by (simp add: output_payload_def comp_def)

lemma parse_list_strs [simp]: "parse_list parse_str (NList (map NStr rs)) = Inr rs"
  by (simp add: parse_list_def parse_all_map)

lemma parse_output_payload:
  assumes "output_ok m v"
  shows "parse_output_value m (sort_keys (output_payload m v)) = Inr v"
proof -
  have v: "\<lparr>ov_output = ov_output v, ov_value = ov_value v, ov_confidence = ov_confidence v,
      ov_reason_codes = ov_reason_codes v, ov_horizon = ov_horizon v, ov_unit = ov_unit v\<rparr> = v"
    by simp
  show ?thesis using assms
  by (simp add: parse_output_value_def parse_model_def sort_output_payload output_fields_def
      required_def parse_enum_def no_extra_def output_ok_def validate_confidence_bps_def
      horizon_validator_def strict_int_def parse_str_def v del: output_value.surjective)
qed

lemma sort_asset_payload:
  "sort_keys (NDict [(NStr ''netuid'', NInt n), (NStr ''outputs'', NList vs)]) =
     NDict [(NStr ''netuid'', NInt n), (NStr ''outputs'', NList (map sort_keys vs))]"
  by simp

lemma sort_bundle_payload:
  "sort_keys (to_canonical_payload m b) =
     NDict [(NStr ''assets'', sort_keys (canonical_assets_payload m (sb_assets b))),
            (NStr ''round_id'', NStr (sb_round_id b)),
            (NStr ''schema_id'', NStr (sb_schema_id b))]"
  by (simp add: to_canonical_payload_def)

lemma sort_key_outputs_ok:
  "sort_key k xs = ys \<Longrightarrow> set ys = set xs \<and> mset ys = mset xs \<and> length ys = length xs"
  by auto

text \<open>
  The interface of a schema: wire names are coherent with the outputs, and the validators of an
  asset do not look at the order of its outputs.
\<close>

locale assessment_schema =
  fixes m :: "'o schema_model"
  assumes names: "map_of (sm_outputs m) s = Some out \<Longrightarrow> sm_name m out = s"
    and outputs_perm: "mset xs = mset ys \<Longrightarrow> sm_check_outputs m xs = Inr () \<Longrightarrow> sm_check_outputs m ys = Inr ()"
    and asset_perm: "mset xs = mset ys \<Longrightarrow> sm_check_outputs m xs = Inr () \<Longrightarrow>
      sm_check_asset m xs = Inr () \<Longrightarrow> sm_check_asset m ys = Inr ()"
begin

lemma parse_output_ok:
  assumes "parse_output_value m n = Inr v"
  shows "output_ok m v"
proof -
  from assms obtain items where n: "n = NDict items" and f: "output_fields m items = Inr v"
    and "validate_against_spec (sm_name m (ov_output v)) v (sm_spec m (ov_output v)) = Inr ()"
    by (auto simp: parse_output_value_def parse_model_Inr)
  with f show ?thesis
    by (auto simp: output_fields_def required_Inr parse_enum_Inr output_ok_def names
        validate_confidence_bps_def horizon_validator_def validate_reason_codes_idem
        split: if_splits)
qed

lemma parse_asset_ok:
  assumes "parse_asset m n = Inr a"
  shows "asset_ok m a"
proof -
  from assms obtain items where n: "n = NDict items" and f: "asset_fields m items = Inr a"
    and "sm_check_asset m (as_outputs a) = Inr ()"
    by (auto simp: parse_asset_def parse_model_Inr)
  moreover have "list_all2 (\<lambda>n v. parse_output_value m n = Inr v) ns vs \<Longrightarrow> v \<in> set vs \<Longrightarrow> output_ok m v"
    for ns vs v using parse_output_ok by (auto simp: list_all2_conv_all_nth in_set_conv_nth)
  ultimately show ?thesis
    by (auto simp: asset_fields_def required_Inr asset_ok_def netuid_validator_def parse_list_Inr
        split: if_splits)
qed

theorem parse_bundle_ok:
  assumes "parse_bundle m n = Inr b"
  shows "bundle_ok m b"
proof -
  from assms obtain items where f: "bundle_fields m items = Inr b"
    by (auto simp: parse_bundle_def parse_model_Inr)
  moreover have "list_all2 (\<lambda>n v. parse_asset m n = Inr v) ns as \<Longrightarrow> a \<in> set as \<Longrightarrow> asset_ok m a"
    for ns as a using parse_asset_ok by (auto simp: list_all2_conv_all_nth in_set_conv_nth)
  ultimately show ?thesis
    by (auto simp: bundle_fields_def required_Inr bundle_ok_def round_id_validator_Inr
        assets_validator_Inr parse_list_Inr parse_enum_Inr split: if_splits)
qed

lemma canon_asset_ok: "asset_ok m a \<Longrightarrow> asset_ok m (canon_asset m a)"
  using outputs_perm [of "as_outputs a" "sort_key (sm_output_key m) (as_outputs a)"]
    asset_perm [of "as_outputs a" "sort_key (sm_output_key m) (as_outputs a)"]
  by (auto simp: asset_ok_def canon_asset_def)

lemma canon_bundle_ok: "bundle_ok m b \<Longrightarrow> bundle_ok m (canon_bundle m b)"
proof -
  have "map as_netuid (map (canon_asset m) xs) = map as_netuid xs" for xs
    by (simp add: canon_asset_def)
  moreover have "distinct (map as_netuid (sort_key as_netuid xs)) = distinct (map as_netuid xs)" for xs :: "'o asset_submission list"
    by (simp add: distinct_map)
  moreover have "sort_key as_netuid xs = [] \<longleftrightarrow> xs = []" for xs :: "'o asset_submission list"
    by (metis length_0_conv length_sort)
  ultimately show "bundle_ok m b \<Longrightarrow> bundle_ok m (canon_bundle m b)"
    by (auto simp: bundle_ok_def canon_bundle_def canon_asset_ok simp del: map_map)
qed

lemma parse_asset_payload:
  assumes "asset_ok m a"
  shows "parse_asset m (NDict [(NStr ''netuid'', NInt (as_netuid a)),
      (NStr ''outputs'', NList (map (\<lambda>v. sort_keys (output_payload m v)) (as_outputs a)))]) = Inr a"
proof -
  have "parse_all (parse_output_value m) (map (\<lambda>v. sort_keys (output_payload m v)) (as_outputs a))
      = Inr (as_outputs a)"
    using assms by (intro parse_all_map parse_output_payload) (auto simp: asset_ok_def)
  with assms show ?thesis
    by (simp add: parse_asset_def parse_model_def asset_fields_def required_def no_extra_def
        parse_list_def strict_int_def asset_ok_def netuid_validator_def not_less [symmetric])
qed

theorem parse_canonical_payload:
  assumes "bundle_ok m b"
  shows "parse_bundle m (sort_keys (to_canonical_payload m b)) = Inr (canon_bundle m b)"
proof -
  define f where "f a = NDict [(NStr ''netuid'', NInt (as_netuid a)),
      (NStr ''outputs'', NList (map (\<lambda>v. sort_keys (output_payload m v)) (as_outputs a)))]"
    for a :: "'o asset_submission"
  have "sort_keys (canonical_assets_payload m (sb_assets b))
      = NList (map f (map (canon_asset m) (sort_key as_netuid (sb_assets b))))"
    by (simp add: canonical_assets_payload_def f_def canon_asset_def comp_def)
  moreover have "parse_all (parse_asset m) (map f (map (canon_asset m) (sort_key as_netuid (sb_assets b))))
      = Inr (map (canon_asset m) (sort_key as_netuid (sb_assets b)))"
  proof (rule parse_all_map)
    fix a assume "a \<in> set (map (canon_asset m) (sort_key as_netuid (sb_assets b)))"
    then have "asset_ok m a" using assms by (auto simp: bundle_ok_def canon_asset_ok)
    then show "parse_asset m (f a) = Inr a" unfolding f_def by (rule parse_asset_payload)
  qed
  moreover have "raising (assets_validator (sb_assets (canon_bundle m b))) = Inr (sb_assets (canon_bundle m b))"
    "raising (round_id_validator (sb_round_id b)) = Inr (sb_round_id b)" "sb_schema_id b = sm_schema_id m"
    using canon_bundle_ok [OF assms] assms
    by (auto simp: bundle_ok_def assets_validator_Inr round_id_validator_Inr)
  ultimately show ?thesis
    unfolding parse_bundle_def parse_model_def sort_bundle_payload
    by (simp add: bundle_fields_def required_def no_extra_def parse_list_def parse_str_def
        parse_enum_def canon_bundle_def)
qed

end

text \<open>Canonicalisation does not change the canonical payload.\<close>

lemma payload_canon_bundle:
  "to_canonical_payload m (canon_bundle m b) = to_canonical_payload m b"
proof -
  have s: "sorted (map as_netuid (map (canon_asset m) (sort_key as_netuid as)))" for as
  proof -
    have "map as_netuid (map (canon_asset m) (sort_key as_netuid as)) = map as_netuid (sort_key as_netuid as)"
      by (simp add: canon_asset_def)
    then show ?thesis by (simp only: sorted_sort_key)
  qed
  have "sort_key as_netuid (map (canon_asset m) (sort_key as_netuid as))
      = map (canon_asset m) (sort_key as_netuid as)" for as
    using s [of as] by (simp only: sort_key_id_if_sorted)
  moreover have "sort_key (sm_output_key m) (as_outputs (canon_asset m a)) = as_outputs (canon_asset m a)" for a
    by (simp add: canon_asset_def sort_key_id_if_sorted)
  ultimately show ?thesis
    by (simp add: to_canonical_payload_def canonical_assets_payload_def canon_bundle_def comp_def)
      (simp add: canon_asset_def)
qed

subsection \<open>The payload is clean JSON\<close>

lemma clean_sort_keys: "clean n \<Longrightarrow> clean (sort_keys n)"
proof (induction n)
  case (NDict items)
  let ?f = "\<lambda>kv. (fst kv, sort_keys (snd kv))"
  have "distinct (map fst (sort_key (\<lambda>kv. key_text (fst kv)) (map ?f items)))"
  proof -
    have "mset (map fst (sort_key (\<lambda>kv. key_text (fst kv)) (map ?f items))) = mset (map fst items)"
      by (simp add: image_mset.compositionality comp_def)
    then show ?thesis using NDict.prems by (metis clean.simps(3) mset_eq_imp_distinct_iff)
  qed
  with NDict show ?case
    by (fastforce simp: list_all_iff)
qed (auto simp: list_all_iff)

lemma node_depth_sort_keys: "node_depth (sort_keys n) = node_depth n"
proof (induction n)
  case (NDict items)
  have "(\<lambda>kv. node_depth (snd kv)) ` (\<lambda>kv. (fst kv, sort_keys (snd kv))) ` set items
      = (\<lambda>kv. node_depth (snd kv)) ` set items"
    using NDict by (force simp: image_image)
  then show ?case by simp
next
  case (NList ns)
  then have "(\<lambda>n. node_depth (sort_keys n)) ` set ns = node_depth ` set ns" by force
  then show ?case by simp
qed simp_all

lemma payload_clean: "ints_printable (to_canonical_payload m b) \<Longrightarrow> clean (to_canonical_payload m b)"
  by (simp add: to_canonical_payload_def canonical_assets_payload_def output_payload_def list_all_iff)

lemma payload_depth: "node_depth (to_canonical_payload m b) \<le> 6"
proof -
  have "node_depth (output_payload m v) \<le> 2" for v
    by (auto simp: output_payload_def node_depth_elem simp del: node_depth.simps(1,2))
  then show ?thesis
    by (auto simp: to_canonical_payload_def canonical_assets_payload_def node_depth_elem
        simp del: node_depth.simps(1,2))
qed

lemma canonical_text_Inr:
  "canonical_text p = Inr t \<longleftrightarrow> validate p = Inr () \<and> ints_printable p \<and> t = dumps (sort_keys p)"
  by (auto simp: canonical_text_def)

lemma loads_canonical_text:
  assumes "canonical_text (to_canonical_payload m b) = Inr t" "6 \<le> depth"
  shows "loads depth t = Some (sort_keys (to_canonical_payload m b))"
proof -
  have "clean (sort_keys (to_canonical_payload m b))"
    using assms(1) by (simp add: canonical_text_Inr payload_clean clean_sort_keys)
  moreover have "node_depth (sort_keys (to_canonical_payload m b)) \<le> depth"
    using payload_depth [of m b] assms(2) by (simp add: node_depth_sort_keys)
  ultimately show ?thesis using assms(1) by (simp add: canonical_text_Inr loads_dumps)
qed

end
