(* ===== verification/Risk_Schema.thy ===== *)
theory Risk_Schema
  imports Wire
begin

text \<open>
  The Alpha Risk V1 schema (\<open>endure/assessment/schemas/subnet_alpha_risk.py\<close>): the four outputs, their
  specifications and bands, and the validators of an asset and of a bundle.  The interpretation
  of \<open>assessment_schema\<close> gives the schema its parse and canonical-payload lemmas.
\<close>

definition risk_schema_id :: string where
  "risk_schema_id = ''risk.v1.subnet_alpha''"

definition horizon_5d_seconds :: int where
  "horizon_5d_seconds = 5 * 24 * 60 * 60"

definition horizon_30d_seconds :: int where
  "horizon_30d_seconds = 30 * 24 * 60 * 60"

definition risk_horizons :: "int list" where
  "risk_horizons = [horizon_5d_seconds, horizon_30d_seconds]"

definition default_confidence_floor_bps :: int where
  "default_confidence_floor_bps = 1000"

definition risk_value_max_int64 :: int where
  "risk_value_max_int64 = 2 ^ 63 - 1"

text \<open>\<open>SubnetAlphaTarget(netuid=...)\<close>.\<close>

definition subnet_alpha_target :: "int \<Rightarrow> wire_error + int" where
  "subnet_alpha_target n = netuid_validator n"

datatype risk_output = Max_drawdown | Realized_volatility | Twap_price | Liquidity_depth

definition risk_outputs :: "risk_output list" where
  "risk_outputs = [Max_drawdown, Realized_volatility, Twap_price, Liquidity_depth]"

fun risk_output_name :: "risk_output \<Rightarrow> string" where
  "risk_output_name Max_drawdown = ''max_drawdown''"
| "risk_output_name Realized_volatility = ''realized_volatility''"
| "risk_output_name Twap_price = ''twap_price''"
| "risk_output_name Liquidity_depth = ''liquidity_depth''"

definition max_drawdown_spec :: "risk_output parameter_spec" where
  "max_drawdown_spec =
     \<lparr>ps_output = Max_drawdown, scoring_weight = 1, grace_band = 200, cutoff = 2000,
      aggressive_direction = Lower, lenient_multiplier = 3, deviation_mode = Absolute,
      ps_unit = ''bps'', confidence_floor_bps = default_confidence_floor_bps, scored_live = True,
      min_value = 0, max_value = Some 10000\<rparr>"

definition realized_volatility_spec :: "risk_output parameter_spec" where
  "realized_volatility_spec =
     \<lparr>ps_output = Realized_volatility, scoring_weight = 1, grace_band = 500, cutoff = 5000,
      aggressive_direction = Lower, lenient_multiplier = 3, deviation_mode = Absolute,
      ps_unit = ''bps'', confidence_floor_bps = default_confidence_floor_bps, scored_live = True,
      min_value = 0, max_value = Some 1000000\<rparr>"

definition twap_price_spec :: "risk_output parameter_spec" where
  "twap_price_spec =
     \<lparr>ps_output = Twap_price, scoring_weight = 1, grace_band = 200, cutoff = 2000,
      aggressive_direction = Higher, lenient_multiplier = 3, deviation_mode = Relative,
      ps_unit = ''rao_per_alpha'', confidence_floor_bps = default_confidence_floor_bps,
      scored_live = True, min_value = 1, max_value = Some risk_value_max_int64\<rparr>"

definition liquidity_depth_spec :: "risk_output parameter_spec" where
  "liquidity_depth_spec =
     \<lparr>ps_output = Liquidity_depth, scoring_weight = 1, grace_band = 500, cutoff = 5000,
      aggressive_direction = Higher, lenient_multiplier = 3, deviation_mode = Relative,
      ps_unit = ''rao'', confidence_floor_bps = default_confidence_floor_bps,
      scored_live = True, min_value = 0, max_value = Some risk_value_max_int64\<rparr>"

definition risk_parameter_specs :: "risk_output parameter_spec list" where
  "risk_parameter_specs =
     [max_drawdown_spec, realized_volatility_spec, twap_price_spec, liquidity_depth_spec]"

text \<open>\<open>RISK_SPECS_BY_OUTPUT\<close>.\<close>

definition risk_spec :: "risk_output \<Rightarrow> risk_output parameter_spec" where
  "risk_spec out = the (select_one (\<lambda>s. ps_output s = out) risk_parameter_specs)"

definition assert_specs_cover_all_outputs ::
  "'o list \<Rightarrow> 'o parameter_spec list \<Rightarrow> wire_error + unit" where
  "assert_specs_cover_all_outputs outs specs = echeck (map ps_output specs = outs) Specs_not_in_enum_order"

lemmas risk_spec_defs =
  max_drawdown_spec_def realized_volatility_spec_def twap_price_spec_def liquidity_depth_spec_def
  default_confidence_floor_bps_def risk_value_max_int64_def

lemma risk_spec_simps [simp]:
  "risk_spec Max_drawdown = max_drawdown_spec"
  "risk_spec Realized_volatility = realized_volatility_spec"
  "risk_spec Twap_price = twap_price_spec"
  "risk_spec Liquidity_depth = liquidity_depth_spec"
  by (simp_all add: risk_spec_def risk_parameter_specs_def risk_spec_defs)

lemma risk_specs_ok: "spec_ok (risk_spec out)"
  by (cases out)
    (simp_all add: spec_ok_def validate_parameter_bounds_def max_confidence_bps_def risk_spec_defs)

lemma risk_specs_in_enum_order:
  "assert_specs_cover_all_outputs risk_outputs risk_parameter_specs = Inr ()"
  by (simp add: assert_specs_cover_all_outputs_def risk_outputs_def risk_parameter_specs_def
      risk_spec_defs)

text \<open>\<open>RiskAssetSubmission._validate_outputs\<close>.\<close>

definition risk_output_keys :: "(risk_output \<times> int) list" where
  "risk_output_keys = concat (map (\<lambda>out. map (\<lambda>h. (out, h)) risk_horizons) risk_outputs)"

definition validate_risk_outputs :: "risk_output output_value list \<Rightarrow> wire_error + unit" where
  "validate_risk_outputs vs =
     (let seen = map (\<lambda>v. (ov_output v, ov_horizon v)) vs
      in if card (set seen) \<noteq> length vs then Inl Duplicate_output
         else if set seen \<noteq> set risk_output_keys then Inl Outputs_missing
         else Inr ())"

definition risk_model :: "risk_output schema_model" where
  "risk_model =
     \<lparr>sm_outputs = map (\<lambda>out. (risk_output_name out, out)) risk_outputs,
      sm_name = risk_output_name, sm_spec = risk_spec,
      sm_horizon_ok = (\<lambda>h. h \<in> set risk_horizons),
      sm_check_outputs = validate_risk_outputs, sm_check_asset = (\<lambda>_. Inr ()),
      sm_schema_id = risk_schema_id,
      sm_output_key = (\<lambda>v. (ov_horizon v, risk_output_name (ov_output v)))\<rparr>"

lemma validate_risk_outputs_Inr:
  "validate_risk_outputs vs = Inr () \<longleftrightarrow>
     distinct (map (\<lambda>v. (ov_output v, ov_horizon v)) vs)
     \<and> (\<lambda>v. (ov_output v, ov_horizon v)) ` set vs = set risk_output_keys"
proof -
  have "card (set xs) = length xs \<longleftrightarrow> distinct xs" for xs :: "(risk_output \<times> int) list"
    using card_distinct distinct_card by metis
  from this [of "map (\<lambda>v. (ov_output v, ov_horizon v)) vs"] show ?thesis
    by (auto simp: validate_risk_outputs_def Let_def)
qed

interpretation risk: assessment_schema risk_model
proof
  show "sm_name risk_model out = s" if "map_of (sm_outputs risk_model) s = Some out" for s out
    using that by (auto simp: risk_model_def risk_outputs_def split: if_splits)
  show "sm_check_outputs risk_model ys = Inr ()"
    if eq: "mset xs = mset ys" and "sm_check_outputs risk_model xs = Inr ()" for xs ys
  proof -
    have "mset (map f xs) = mset (map f ys)" for f :: "risk_output output_value \<Rightarrow> risk_output \<times> int"
      using eq by simp
    then have "distinct (map f xs) = distinct (map f ys)"
      for f :: "risk_output output_value \<Rightarrow> risk_output \<times> int"
      by (metis mset_eq_imp_distinct_iff)
    moreover have "set xs = set ys" using eq by (rule mset_eq_setD)
    ultimately show ?thesis using that(2)
      by (simp add: risk_model_def validate_risk_outputs_Inr)
  qed
qed (simp add: risk_model_def)

text \<open>A valid asset has exactly one value per output and horizon: eight of them.\<close>

lemma risk_output_keys_distinct: "distinct risk_output_keys" "length risk_output_keys = 8"
  by code_simp+

lemma risk_asset_outputs:
  assumes "asset_ok risk_model a"
  shows "length (as_outputs a) = 8"
    "out \<in> set risk_outputs \<Longrightarrow> h \<in> set risk_horizons \<Longrightarrow>
       \<exists>!v. v \<in> set (as_outputs a) \<and> ov_output v = out \<and> ov_horizon v = h"
proof -
  define f where "f = (\<lambda>v :: risk_output output_value. (ov_output v, ov_horizon v))"
  have d: "distinct (map f (as_outputs a))" and s: "f ` set (as_outputs a) = set risk_output_keys"
    using assms by (simp_all add: asset_ok_def risk_model_def validate_risk_outputs_Inr f_def)
  have "length (as_outputs a) = card (set (map f (as_outputs a)))" using d by (metis distinct_card length_map)
  also have "\<dots> = card (set risk_output_keys)" using s by simp
  finally show "length (as_outputs a) = 8"
    using risk_output_keys_distinct by (simp add: distinct_card)
  assume "out \<in> set risk_outputs" "h \<in> set risk_horizons"
  then have "(out, h) \<in> f ` set (as_outputs a)" unfolding s by (auto simp: risk_output_keys_def)
  then obtain v where v: "v \<in> set (as_outputs a)" "f v = (out, h)" by auto
  have "inj_on f (set (as_outputs a))" using d by (simp add: distinct_map)
  then show "\<exists>!v. v \<in> set (as_outputs a) \<and> ov_output v = out \<and> ov_horizon v = h"
    using v by (intro ex1I [of _ v]) (auto simp: f_def dest: inj_onD)
qed

end
