(* ===== verification/Lending_Schema.thy ===== *)
theory Lending_Schema
  imports Risk_Schema
begin

text \<open>
  The dormant Forge lending V1 schema (\<open>endure/assessment/schemas/forge_lending.py\<close>): seven outputs at
  one horizon, only the collateral factor scored live, and the invariant across outputs that the
  collateral factor never exceeds the liquidation threshold.
\<close>

definition forge_lending_schema_id :: string where
  "forge_lending_schema_id = ''lending.v1.subnet_asset''"

definition lending_horizon_seconds :: int where
  "lending_horizon_seconds = 5 * 24 * 60 * 60"

definition one_e18 :: int where
  "one_e18 = 10 ^ 18"

text \<open>\<open>SubnetAssetTarget(netuid=...)\<close>.\<close>

definition subnet_asset_target :: "int \<Rightarrow> wire_error + int" where
  "subnet_asset_target n = netuid_validator n"

datatype lending_output =
    Safe_asset_price | Collateral_factor | Liquidation_threshold | Liquidation_incentive | Supply_cap | Borrow_cap | Risk_tier

definition lending_outputs :: "lending_output list" where
  "lending_outputs =
     [Safe_asset_price, Collateral_factor, Liquidation_threshold, Liquidation_incentive, Supply_cap, Borrow_cap, Risk_tier]"

fun lending_output_name :: "lending_output \<Rightarrow> string" where
  "lending_output_name Safe_asset_price = ''safe_asset_price''"
| "lending_output_name Collateral_factor = ''collateral_factor''"
| "lending_output_name Liquidation_threshold = ''liquidation_threshold''"
| "lending_output_name Liquidation_incentive = ''liquidation_incentive''"
| "lending_output_name Supply_cap = ''supply_cap''"
| "lending_output_name Borrow_cap = ''borrow_cap''"
| "lending_output_name Risk_tier = ''risk_tier''"

definition safe_asset_price_spec :: "lending_output parameter_spec" where
  "safe_asset_price_spec =
     \<lparr>ps_output = Safe_asset_price, scoring_weight = 1, grace_band = 50, cutoff = 1000,
      aggressive_direction = Higher, lenient_multiplier = 3, deviation_mode = Relative,
      ps_unit = ''price_1e18'', confidence_floor_bps = default_confidence_floor_bps, scored_live = False,
      min_value = 1, max_value = Some (10 ^ 30)\<rparr>"

definition collateral_factor_spec :: "lending_output parameter_spec" where
  "collateral_factor_spec =
     \<lparr>ps_output = Collateral_factor, scoring_weight = 1, grace_band = 200, cutoff = 1500,
      aggressive_direction = Higher, lenient_multiplier = 3, deviation_mode = Absolute,
      ps_unit = ''ltv_bps'', confidence_floor_bps = default_confidence_floor_bps, scored_live = True,
      min_value = 1, max_value = Some (10000)\<rparr>"

definition liquidation_threshold_spec :: "lending_output parameter_spec" where
  "liquidation_threshold_spec =
     \<lparr>ps_output = Liquidation_threshold, scoring_weight = 1/2, grace_band = 200, cutoff = 1500,
      aggressive_direction = Higher, lenient_multiplier = 3, deviation_mode = Absolute,
      ps_unit = ''ltv_bps'', confidence_floor_bps = default_confidence_floor_bps, scored_live = False,
      min_value = 1, max_value = Some (10000)\<rparr>"

definition liquidation_incentive_spec :: "lending_output parameter_spec" where
  "liquidation_incentive_spec =
     \<lparr>ps_output = Liquidation_incentive, scoring_weight = 1/4, grace_band = 50, cutoff = 500,
      aggressive_direction = Lower, lenient_multiplier = 2, deviation_mode = Relative,
      ps_unit = ''mantissa_1e18'', confidence_floor_bps = default_confidence_floor_bps, scored_live = False,
      min_value = one_e18, max_value = Some (2 * one_e18)\<rparr>"

definition supply_cap_spec :: "lending_output parameter_spec" where
  "supply_cap_spec =
     \<lparr>ps_output = Supply_cap, scoring_weight = 1, grace_band = 500, cutoff = 5000,
      aggressive_direction = Higher, lenient_multiplier = 3, deviation_mode = Relative,
      ps_unit = ''underlying_units'', confidence_floor_bps = default_confidence_floor_bps, scored_live = False,
      min_value = 0, max_value = Some (10 ^ 30)\<rparr>"

definition borrow_cap_spec :: "lending_output parameter_spec" where
  "borrow_cap_spec =
     \<lparr>ps_output = Borrow_cap, scoring_weight = 1/2, grace_band = 500, cutoff = 5000,
      aggressive_direction = Higher, lenient_multiplier = 3, deviation_mode = Relative,
      ps_unit = ''tao_units'', confidence_floor_bps = default_confidence_floor_bps, scored_live = False,
      min_value = 0, max_value = Some (10 ^ 30)\<rparr>"

definition risk_tier_spec :: "lending_output parameter_spec" where
  "risk_tier_spec =
     \<lparr>ps_output = Risk_tier, scoring_weight = 1, grace_band = 0, cutoff = 3,
      aggressive_direction = Lower, lenient_multiplier = 2, deviation_mode = Absolute,
      ps_unit = ''ordinal'', confidence_floor_bps = default_confidence_floor_bps, scored_live = False,
      min_value = 1, max_value = Some (6)\<rparr>"

definition lending_parameter_specs :: "lending_output parameter_spec list" where
  "lending_parameter_specs =
     [safe_asset_price_spec,
      collateral_factor_spec,
      liquidation_threshold_spec,
      liquidation_incentive_spec,
      supply_cap_spec,
      borrow_cap_spec,
      risk_tier_spec]"

definition lending_spec :: "lending_output \<Rightarrow> lending_output parameter_spec" where
  "lending_spec out = the (select_one (\<lambda>s. ps_output s = out) lending_parameter_specs)"

lemmas lending_spec_defs =
  safe_asset_price_spec_def
  collateral_factor_spec_def
  liquidation_threshold_spec_def
  liquidation_incentive_spec_def
  supply_cap_spec_def
  borrow_cap_spec_def
  risk_tier_spec_def
  default_confidence_floor_bps_def one_e18_def

lemma lending_specs_ok: "spec_ok (lending_spec out)"
  by (cases out)
    (simp_all add: spec_ok_def validate_parameter_bounds_def max_confidence_bps_def lending_spec_def
      lending_parameter_specs_def lending_spec_defs)

lemma lending_specs_in_enum_order:
  "assert_specs_cover_all_outputs lending_outputs lending_parameter_specs = Inr ()"
  by (simp add: assert_specs_cover_all_outputs_def lending_outputs_def lending_parameter_specs_def
      lending_spec_defs)

text \<open>\<open>LendingAssetSubmission._validate_outputs\<close> and the model validator after it.\<close>

definition validate_lending_outputs :: "lending_output output_value list \<Rightarrow> wire_error + unit" where
  "validate_lending_outputs vs =
     (if vs = [] then Inl Outputs_empty
      else let seen = map ov_output vs
      in if card (set seen) \<noteq> length vs then Inl Duplicate_output
         else if set seen \<noteq> set lending_outputs then Inl Outputs_missing
         else Inr ())"

text \<open>\<open>{item.output: item.value for item in outputs}\<close>: the last value of an output.\<close>

definition lending_values :: "lending_output output_value list \<Rightarrow> lending_output \<Rightarrow> int option" where
  "lending_values vs = map_of (rev (map (\<lambda>v. (ov_output v, ov_value v)) vs))"

definition validate_cross_output :: "lending_output output_value list \<Rightarrow> wire_error + unit" where
  "validate_cross_output vs =
     echeck (\<not> the (lending_values vs Liquidation_threshold) < the (lending_values vs Collateral_factor))
       Cross_output_invariant"

definition lending_model :: "lending_output schema_model" where
  "lending_model =
     \<lparr>sm_outputs = map (\<lambda>out. (lending_output_name out, out)) lending_outputs,
      sm_name = lending_output_name, sm_spec = lending_spec,
      sm_horizon_ok = (\<lambda>h. h = lending_horizon_seconds),
      sm_check_outputs = validate_lending_outputs, sm_check_asset = validate_cross_output,
      sm_schema_id = forge_lending_schema_id,
      sm_output_key = (\<lambda>v. (0, lending_output_name (ov_output v)))\<rparr>"

lemma validate_lending_outputs_Inr:
  "validate_lending_outputs vs = Inr () \<longleftrightarrow>
     vs \<noteq> [] \<and> distinct (map ov_output vs) \<and> ov_output ` set vs = set lending_outputs"
proof -
  have "card (set xs) = length xs \<longleftrightarrow> distinct xs" for xs :: "lending_output list"
    using card_distinct distinct_card by metis
  from this [of "map ov_output vs"] show ?thesis
    by (auto simp: validate_lending_outputs_def Let_def)
qed

lemma lending_values_perm:
  assumes "mset xs = mset ys" "distinct (map ov_output xs)"
  shows "lending_values xs = lending_values ys"
proof -
  define f where "f = (\<lambda>v :: lending_output output_value. (ov_output v, ov_value v))"
  have "mset (map ov_output xs) = mset (map ov_output ys)" using assms(1) by simp
  then have "distinct (map ov_output ys)" using assms(2) by (metis mset_eq_imp_distinct_iff)
  then have "distinct (map fst (rev (map f xs)))" "distinct (map fst (rev (map f ys)))"
    using assms(2) by (simp_all add: f_def comp_def rev_map [symmetric])
  moreover have "set (rev (map f xs)) = set (rev (map f ys))"
    using mset_eq_setD [OF assms(1)] by simp
  ultimately show ?thesis unfolding lending_values_def f_def [symmetric]
    by (rule map_of_inject_set [THEN iffD2])
qed

interpretation lending: assessment_schema lending_model
proof
  show "sm_name lending_model out = s" if "map_of (sm_outputs lending_model) s = Some out" for s out
    using that by (auto simp: lending_model_def lending_outputs_def split: if_splits)
  show "sm_check_outputs lending_model ys = Inr ()"
    if eq: "mset xs = mset ys" and "sm_check_outputs lending_model xs = Inr ()" for xs ys
  proof -
    have "mset (map ov_output xs) = mset (map ov_output ys)" using eq by simp
    then have "distinct (map ov_output xs) = distinct (map ov_output ys)"
      by (metis mset_eq_imp_distinct_iff)
    moreover have "set xs = set ys" "xs = [] \<longleftrightarrow> ys = []" using eq by (auto dest: mset_eq_setD)
    ultimately show ?thesis using that(2)
      by (simp add: lending_model_def validate_lending_outputs_Inr)
  qed
  show "sm_check_asset lending_model ys = Inr ()"
    if "mset xs = mset ys" "sm_check_outputs lending_model xs = Inr ()"
      "sm_check_asset lending_model xs = Inr ()" for xs ys
    using that lending_values_perm [of xs ys]
    by (simp add: lending_model_def validate_lending_outputs_Inr validate_cross_output_def)
qed

end
