(* ===== verification/Universe.thy ===== *)
theory Universe
  imports Lending_Schema
begin

text \<open>
  Target universes (\<open>endure/assessment/universe.py\<close>, \<open>subnet_alpha_universe.py\<close>,
  \<open>lending_universe.py\<close>): the frozen members of a round as texts, the providers that produce
  them from a whitelist, and the parser that admits a submission's netuids.  \<open>sha256\<close> is a
  parameter.
\<close>

record universe_snapshot =
  us_round_id :: string
  us_tickers :: "string list"
  us_source_hash :: string

text \<open>
  \<open>Bad_target\<close> and \<open>Member_too_long\<close> are plain \<open>ValueError\<close>s, the others the module's own
  universe error, the one its membership check catches.
\<close>

datatype universe_error =
    Tickers_not_unique | Whitelist_not_unique | Invalid_member string | Duplicate_members
  | Too_many_targets nat | Bad_target wire_error | Member_too_long

definition mk_universe_snapshot ::
  "string \<Rightarrow> string list \<Rightarrow> string \<Rightarrow> universe_error + universe_snapshot" where
  "mk_universe_snapshot round_id tickers h =
     (if \<not> distinct tickers then Inl Tickers_not_unique
      else Inr \<lparr>us_round_id = round_id, us_tickers = tickers, us_source_hash = h\<rparr>)"

text \<open>Both universe modules share the bodies below, each with its own target type.\<close>

definition canonical_members ::
  "(int \<Rightarrow> wire_error + int) \<Rightarrow> int list \<Rightarrow> universe_error + string list" where
  "canonical_members target netuids =
     (case etraverse target netuids of
        Inl e \<Rightarrow> Inl (Bad_target e)
      | Inr ts \<Rightarrow>
          if card (set ts) \<noteq> length ts then Inl Whitelist_not_unique
          else Inr (map str_int (sort ts)))"

text \<open>\<open>"\n".join(members)\<close>.\<close>

fun join_lines :: "string list \<Rightarrow> string" where
  "join_lines [] = []"
| "join_lines [s] = s"
| "join_lines (s # t # ss) = s @ CHR 0x0A # join_lines (t # ss)"

definition source_hash :: "(bytes \<Rightarrow> bytes) \<Rightarrow> string list \<Rightarrow> string" where
  "source_hash sha256 members = hex (sha256 (utf8 (join_lines members)))"

definition parse_member :: "(int \<Rightarrow> wire_error + int) \<Rightarrow> string \<Rightarrow> universe_error + int" where
  "parse_member target s =
     (if \<not> is_decimal s then Inl (Invalid_member s)
      else if max_int_digits < length s then Inl Member_too_long
      else if str_int (int_of_digits s) \<noteq> s then Inl (Invalid_member s)
      else case target (int_of_digits s) of Inl e \<Rightarrow> Inl (Bad_target e) | Inr n \<Rightarrow> Inr n)"

definition parse_members :: "(int \<Rightarrow> wire_error + int) \<Rightarrow> string list \<Rightarrow> universe_error + int set" where
  "parse_members target members =
     ebind (etraverse (parse_member target) members) (\<lambda>parsed.
     if card (set parsed) \<noteq> length parsed then Inl Duplicate_members else Inr (set parsed))"

definition membership ::
  "(int \<Rightarrow> wire_error + int) \<Rightarrow> int list \<Rightarrow> string list \<Rightarrow> universe_error + bool" where
  "membership target netuids universe =
     (case parse_members target universe of
        Inl (Bad_target e) \<Rightarrow> Inl (Bad_target e)
      | Inl Member_too_long \<Rightarrow> Inl Member_too_long
      | Inl _ \<Rightarrow> Inr False
      | Inr members \<Rightarrow> Inr (\<forall>n \<in> set netuids. n \<in> members))"

subsection \<open>Alpha Risk\<close>

definition alpha_risk_whitelisted_netuids :: "int list" where
  "alpha_risk_whitelisted_netuids = [3, 4, 8, 9, 30, 34, 44, 50, 51, 53, 56, 64, 68, 107, 120]"

definition max_alpha_risk_targets_per_round :: nat where
  "max_alpha_risk_targets_per_round = length alpha_risk_whitelisted_netuids"

definition canonical_alpha_risk_universe_members :: "int list \<Rightarrow> universe_error + string list" where
  "canonical_alpha_risk_universe_members = canonical_members subnet_alpha_target"

definition alpha_risk_universe_source_hash :: "(bytes \<Rightarrow> bytes) \<Rightarrow> string list \<Rightarrow> string" where
  "alpha_risk_universe_source_hash sha256 members = source_hash sha256 members"

definition parse_alpha_risk_universe_members :: "string list \<Rightarrow> universe_error + int set" where
  "parse_alpha_risk_universe_members = parse_members subnet_alpha_target"

definition validate_alpha_risk_netuid_membership :: "int list \<Rightarrow> string list \<Rightarrow> universe_error + bool" where
  "validate_alpha_risk_netuid_membership = membership subnet_alpha_target"

record static_provider =
  sp_netuids :: "int list"
  sp_max_targets :: nat

definition fetch_with ::
  "(int list \<Rightarrow> universe_error + string list) \<Rightarrow> (string list \<Rightarrow> string) \<Rightarrow> static_provider \<Rightarrow> string
     \<Rightarrow> universe_error + universe_snapshot" where
  "fetch_with canonical hash p round_id =
     ebind (canonical (sp_netuids p)) (\<lambda>members.
     if sp_max_targets p < length members then Inl (Too_many_targets (length members))
     else mk_universe_snapshot round_id members (hash members))"

definition alpha_risk_provider :: static_provider where
  "alpha_risk_provider =
     \<lparr>sp_netuids = alpha_risk_whitelisted_netuids, sp_max_targets = max_alpha_risk_targets_per_round\<rparr>"

definition fetch_alpha_risk_universe ::
  "(bytes \<Rightarrow> bytes) \<Rightarrow> static_provider \<Rightarrow> string \<Rightarrow> universe_error + universe_snapshot" where
  "fetch_alpha_risk_universe sha256 =
     fetch_with canonical_alpha_risk_universe_members (alpha_risk_universe_source_hash sha256)"

subsection \<open>Forge lending\<close>

definition forge_lending_whitelisted_netuids :: "int list" where
  "forge_lending_whitelisted_netuids = [8, 44, 288, 333, 418]"

definition max_lending_targets_per_round :: nat where
  "max_lending_targets_per_round = length forge_lending_whitelisted_netuids"

definition canonical_lending_universe_members :: "int list \<Rightarrow> universe_error + string list" where
  "canonical_lending_universe_members = canonical_members subnet_asset_target"

definition lending_universe_source_hash :: "(bytes \<Rightarrow> bytes) \<Rightarrow> string list \<Rightarrow> string" where
  "lending_universe_source_hash sha256 members = source_hash sha256 members"

definition parse_lending_universe_members :: "string list \<Rightarrow> universe_error + int set" where
  "parse_lending_universe_members = parse_members subnet_asset_target"

definition validate_lending_netuid_membership :: "int list \<Rightarrow> string list \<Rightarrow> universe_error + bool" where
  "validate_lending_netuid_membership = membership subnet_asset_target"

definition lending_provider :: static_provider where
  "lending_provider =
     \<lparr>sp_netuids = forge_lending_whitelisted_netuids, sp_max_targets = max_lending_targets_per_round\<rparr>"

definition fetch_lending_universe ::
  "(bytes \<Rightarrow> bytes) \<Rightarrow> static_provider \<Rightarrow> string \<Rightarrow> universe_error + universe_snapshot" where
  "fetch_lending_universe sha256 =
     fetch_with canonical_lending_universe_members (lending_universe_source_hash sha256)"

subsection \<open>Members and netuids\<close>

lemma card_distinct_iff: "card (set xs) = length xs \<longleftrightarrow> distinct xs"
  using card_distinct distinct_card by metis

lemma netuid_validator_Inr: "netuid_validator n = Inr m \<longleftrightarrow> m = n \<and> 0 \<le> n"
  by (auto simp: netuid_validator_def)

lemma etraverse_netuid_validator:
  "etraverse netuid_validator ns = Inr ts \<longleftrightarrow> ts = ns \<and> (\<forall>n \<in> set ns. 0 \<le> n)"
proof (induction ns arbitrary: ts)
  case (Cons n ns)
  then show ?case by (auto simp: netuid_validator_Inr)
qed auto

lemma canonical_members_Inr:
  "canonical_members netuid_validator ns = Inr ms \<longleftrightarrow>
     distinct ns \<and> (\<forall>n \<in> set ns. 0 \<le> n) \<and> ms = map str_int (sort ns)"
proof (cases "\<forall>n \<in> set ns. 0 \<le> n")
  case True
  then have "etraverse netuid_validator ns = Inr ns" by (simp add: etraverse_netuid_validator)
  with True show ?thesis by (auto simp: canonical_members_def card_distinct_iff)
next
  case False
  then have "\<nexists>ts. etraverse netuid_validator ns = Inr ts" by (auto simp: etraverse_netuid_validator)
  with False show ?thesis by (auto simp: canonical_members_def split: sum.splits)
qed

lemma parse_member_str_int:
  "0 \<le> n \<Longrightarrow> length (str_int n) \<le> max_int_digits \<Longrightarrow> parse_member netuid_validator (str_int n) = Inr n"
  by (simp add: parse_member_def is_decimal_str_int netuid_validator_def)

lemma parse_member_Inr:
  "parse_member netuid_validator s = Inr n \<longleftrightarrow> 0 \<le> n \<and> s = str_int n \<and> length s \<le> max_int_digits"
proof
  assume "parse_member netuid_validator s = Inr n"
  then show "0 \<le> n \<and> s = str_int n \<and> length s \<le> max_int_digits"
    by (auto simp: parse_member_def netuid_validator_def split: if_splits)
qed (auto intro: parse_member_str_int)

lemma parse_members_Inr:
  "parse_members netuid_validator ms = Inr N \<longleftrightarrow>
     distinct ms \<and> (\<exists>ns. ms = map str_int ns \<and> N = set ns \<and>
       (\<forall>n \<in> set ns. 0 \<le> n \<and> length (str_int n) \<le> max_int_digits))"
proof -
  have tr: "etraverse (parse_member netuid_validator) ms = Inr ns \<longleftrightarrow>
      ms = map str_int ns \<and> (\<forall>n \<in> set ns. 0 \<le> n \<and> length (str_int n) \<le> max_int_digits)" for ns
    unfolding etraverse_Inr_iff parse_member_Inr
  proof (induction ms arbitrary: ns)
    case (Cons m ms)
    show ?case by (cases ns) (auto simp: Cons.IH)
  qed auto
  have "distinct (map str_int ns) = distinct ns" for ns
    by (simp add: distinct_map inj_on_def)
  with tr show ?thesis
    by (auto simp: parse_members_def card_distinct_iff)
qed

theorem parse_canonical_members:
  assumes "canonical_members netuid_validator ns = Inr ms"
    "\<And>n. n \<in> set ns \<Longrightarrow> length (str_int n) \<le> max_int_digits"
  shows "parse_members netuid_validator ms = Inr (set ns)"
proof -
  have c: "distinct ns" "\<forall>n \<in> set ns. 0 \<le> n" "ms = map str_int (sort ns)"
    using assms(1) by (auto simp: canonical_members_Inr)
  then have "distinct ms" by (simp add: distinct_map inj_on_def)
  with c assms(2) show ?thesis
    unfolding parse_members_Inr by (auto intro!: exI [of _ "sort ns"])
qed

end
