(* ===== verification/Registry.thy ===== *)
theory Registry
  imports Universe
begin

text \<open>
  The schema registry (\<open>endure/assessment/registry.py\<close>): schema ids to entries, in registration
  order, and the two schemas of this build.  A parsed bundle is a value of the schema's model.
\<close>

datatype wire_bundle =
    Risk_bundle "risk_output submission_bundle"
  | Lending_bundle "lending_output submission_bundle"

fun bundle_round_id :: "wire_bundle \<Rightarrow> string" where
  "bundle_round_id (Risk_bundle b) = sb_round_id b"
| "bundle_round_id (Lending_bundle b) = sb_round_id b"

fun bundle_schema_id :: "wire_bundle \<Rightarrow> string" where
  "bundle_schema_id (Risk_bundle b) = sb_schema_id b"
| "bundle_schema_id (Lending_bundle b) = sb_schema_id b"

fun bundle_payload :: "wire_bundle \<Rightarrow> node" where
  "bundle_payload (Risk_bundle b) = to_canonical_payload risk_model b"
| "bundle_payload (Lending_bundle b) = to_canonical_payload lending_model b"

datatype serving_status = Registered_unserved | Served

datatype scheduler_kind = Fixed_utc | Nyse

record registry_entry =
  re_schema_id :: string
  re_bundle_model :: "node \<Rightarrow> wire_bundle parsed"
  re_serving_status :: serving_status
  re_universe_provider :: "(string \<Rightarrow> universe_error + universe_snapshot) option"
  re_membership_valid :: "(wire_bundle \<Rightarrow> string list \<Rightarrow> universe_error + bool) option"
  re_scheduler_kind :: scheduler_kind
  re_max_targets :: "nat option"
  re_horizons_seconds :: "int list"

type_synonym registry = "(string \<times> registry_entry) list"

datatype registry_error = Duplicate_schema string | Unknown_schema string

definition register :: "registry \<Rightarrow> registry_entry \<Rightarrow> registry_error + registry" where
  "register r entry =
     (let schema_id = re_schema_id entry
      in if schema_id \<in> fst ` set r then Inl (Duplicate_schema schema_id)
         else Inr (r @ [(schema_id, entry)]))"

definition registry_get :: "registry \<Rightarrow> string \<Rightarrow> registry_error + registry_entry" where
  "registry_get r schema_id =
     (case map_of r schema_id of Some e \<Rightarrow> Inr e | None \<Rightarrow> Inl (Unknown_schema schema_id))"

definition schema_ids :: "registry \<Rightarrow> string list" where
  "schema_ids r = map fst r"

fun risk_membership_valid :: "wire_bundle \<Rightarrow> string list \<Rightarrow> universe_error + bool" where
  "risk_membership_valid (Risk_bundle b) universe =
     validate_alpha_risk_netuid_membership (map as_netuid (sb_assets b)) universe"
| "risk_membership_valid (Lending_bundle _) _ = Inr True"

fun lending_membership_valid :: "wire_bundle \<Rightarrow> string list \<Rightarrow> universe_error + bool" where
  "lending_membership_valid (Lending_bundle b) universe =
     validate_lending_netuid_membership (map as_netuid (sb_assets b)) universe"
| "lending_membership_valid (Risk_bundle _) _ = Inr True"

definition parse_risk_bundle :: "node \<Rightarrow> wire_bundle parsed" where
  "parse_risk_bundle n = ebind (parse_bundle risk_model n) (\<lambda>b. Inr (Risk_bundle b))"

definition parse_lending_bundle :: "node \<Rightarrow> wire_bundle parsed" where
  "parse_lending_bundle n = ebind (parse_bundle lending_model n) (\<lambda>b. Inr (Lending_bundle b))"

definition lending_entry :: "(bytes \<Rightarrow> bytes) \<Rightarrow> registry_entry" where
  "lending_entry sha256 =
     \<lparr>re_schema_id = forge_lending_schema_id, re_bundle_model = parse_lending_bundle,
      re_serving_status = Registered_unserved,
      re_universe_provider = Some (fetch_lending_universe sha256 lending_provider),
      re_membership_valid = Some lending_membership_valid, re_scheduler_kind = Nyse,
      re_max_targets = None, re_horizons_seconds = [lending_horizon_seconds]\<rparr>"

definition risk_entry :: "(bytes \<Rightarrow> bytes) \<Rightarrow> registry_entry" where
  "risk_entry sha256 =
     \<lparr>re_schema_id = risk_schema_id, re_bundle_model = parse_risk_bundle,
      re_serving_status = Served,
      re_universe_provider = Some (fetch_alpha_risk_universe sha256 alpha_risk_provider),
      re_membership_valid = Some risk_membership_valid, re_scheduler_kind = Fixed_utc,
      re_max_targets = Some max_alpha_risk_targets_per_round, re_horizons_seconds = risk_horizons\<rparr>"

definition default_registry :: "(bytes \<Rightarrow> bytes) \<Rightarrow> registry_error + registry" where
  "default_registry sha256 =
     ebind (register [] (lending_entry sha256)) (\<lambda>r. register r (risk_entry sha256))"

definition the_registry :: "(bytes \<Rightarrow> bytes) \<Rightarrow> registry" where
  "the_registry sha256 =
     [(forge_lending_schema_id, lending_entry sha256), (risk_schema_id, risk_entry sha256)]"

lemma entry_ids [simp]:
  "re_schema_id (lending_entry sha256) = forge_lending_schema_id"
  "re_schema_id (risk_entry sha256) = risk_schema_id"
  "forge_lending_schema_id \<noteq> risk_schema_id" "risk_schema_id \<noteq> forge_lending_schema_id"
  by (simp_all add: lending_entry_def risk_entry_def forge_lending_schema_id_def risk_schema_id_def)

lemma default_registry_eq: "default_registry sha256 = Inr (the_registry sha256)"
  by (simp add: default_registry_def register_def the_registry_def Let_def entry_ids)

definition registry_ok :: "registry \<Rightarrow> bool" where
  "registry_ok r \<longleftrightarrow> distinct (map fst r) \<and> (\<forall>(k, e) \<in> set r. re_schema_id e = k)"

lemma register_ok: "registry_ok r \<Longrightarrow> register r e = Inr r' \<Longrightarrow> registry_ok r'"
  by (auto simp: registry_ok_def register_def Let_def split: if_splits)

lemma register_get:
  assumes "register r e = Inr r'"
  shows "registry_get r' s = (if s = re_schema_id e then Inr e else registry_get r s)"
proof -
  have new: "re_schema_id e \<notin> fst ` set r" and r': "r' = r @ [(re_schema_id e, e)]"
    using assms by (auto simp: register_def Let_def split: if_splits)
  have "map_of r (re_schema_id e) = None" using new by (simp add: map_of_eq_None_iff)
  then show ?thesis by (auto simp: registry_get_def r' map_add_def split: option.splits)
qed

lemma the_registry_get:
  "registry_get (the_registry sha256) s =
     (if s = forge_lending_schema_id then Inr (lending_entry sha256)
      else if s = risk_schema_id then Inr (risk_entry sha256) else Inl (Unknown_schema s))"
  by (auto simp: registry_get_def the_registry_def)

lemma the_registry_ok: "registry_ok (the_registry sha256)"
  by (simp add: registry_ok_def the_registry_def)

text \<open>A model's own canonical text parses back to its canonical bundle.\<close>

definition canon :: "wire_bundle \<Rightarrow> wire_bundle" where
  "canon b = (case b of
     Risk_bundle r \<Rightarrow> Risk_bundle (canon_bundle risk_model r)
   | Lending_bundle l \<Rightarrow> Lending_bundle (canon_bundle lending_model l))"

definition entry_faithful :: "registry_entry \<Rightarrow> bool" where
  "entry_faithful e \<longleftrightarrow>
     (\<forall>n b. re_bundle_model e n = Inr b \<longrightarrow>
        re_bundle_model e (sort_keys (bundle_payload b)) = Inr (canon b)
        \<and> bundle_schema_id b = re_schema_id e)"

lemma canon_simps [simp]:
  "bundle_payload (canon b) = bundle_payload b" "bundle_round_id (canon b) = bundle_round_id b"
  "bundle_schema_id (canon b) = bundle_schema_id b"
proof -
  show "bundle_payload (canon b) = bundle_payload b"
    by (cases b) (simp_all only: canon_def wire_bundle.case bundle_payload.simps payload_canon_bundle)
  show "bundle_round_id (canon b) = bundle_round_id b" "bundle_schema_id (canon b) = bundle_schema_id b"
    by (cases b; simp add: canon_def canon_bundle_def)+
qed

lemma entries_faithful: "entry_faithful (lending_entry sha256)" "entry_faithful (risk_entry sha256)"
proof -
  have model: "re_bundle_model (lending_entry sha256) = parse_lending_bundle"
    "re_bundle_model (risk_entry sha256) = parse_risk_bundle"
    by (simp_all add: lending_entry_def risk_entry_def)
  have ids: "sm_schema_id lending_model = forge_lending_schema_id"
    "sm_schema_id risk_model = risk_schema_id"
    by (simp_all add: lending_model_def risk_model_def)
  show "entry_faithful (lending_entry sha256)"
    unfolding entry_faithful_def model entry_ids
  proof (intro allI impI)
    fix n b assume "parse_lending_bundle n = Inr b"
    then obtain l where "b = Lending_bundle l" "bundle_ok lending_model l"
      by (auto simp: parse_lending_bundle_def dest: lending.parse_bundle_ok)
    then show "parse_lending_bundle (sort_keys (bundle_payload b)) = Inr (canon b)
        \<and> bundle_schema_id b = forge_lending_schema_id"
      by (simp add: parse_lending_bundle_def lending.parse_canonical_payload canon_def)
        (simp add: bundle_ok_def ids)
  qed
  show "entry_faithful (risk_entry sha256)"
    unfolding entry_faithful_def model entry_ids
  proof (intro allI impI)
    fix n b assume "parse_risk_bundle n = Inr b"
    then obtain l where "b = Risk_bundle l" "bundle_ok risk_model l"
      by (auto simp: parse_risk_bundle_def dest: risk.parse_bundle_ok)
    then show "parse_risk_bundle (sort_keys (bundle_payload b)) = Inr (canon b)
        \<and> bundle_schema_id b = risk_schema_id"
      by (simp add: parse_risk_bundle_def risk.parse_canonical_payload canon_def)
        (simp add: bundle_ok_def ids)
  qed
qed

end
