(* ===== verification/Validation.thy ===== *)
theory Validation
  imports Registry
begin

text \<open>
  The verdict functions (\<open>endure/protocol/validation.py\<close>), the wire messages
  (\<open>endure/protocol/synapses.py\<close>) and the blacklist rule (\<open>endure/protocol/admission.py\<close>).  A verdict
  function returns a verdict, or the exception it does not catch.  The registry, \<open>blake2b\<close> and the
  nesting depth at which \<open>json.loads\<close> raises \<open>RecursionError\<close> are its environment.
\<close>

datatype rejection_code =
    Version_mismatch | Unknown_schema_code | Late_commit | No_commit | Late_reveal | Hash_mismatch
  | Invalid_ticker | Out_of_bounds_code | Malformed_bundle | Payload_too_large | Rate_limited
  | Round_unavailable

fun rejection_text :: "rejection_code \<Rightarrow> string" where
  "rejection_text Version_mismatch = ''VERSION_MISMATCH''"
| "rejection_text Unknown_schema_code = ''UNKNOWN_SCHEMA''"
| "rejection_text Late_commit = ''LATE_COMMIT''"
| "rejection_text No_commit = ''NO_COMMIT''"
| "rejection_text Late_reveal = ''LATE_REVEAL''"
| "rejection_text Hash_mismatch = ''HASH_MISMATCH''"
| "rejection_text Invalid_ticker = ''INVALID_TICKER''"
| "rejection_text Out_of_bounds_code = ''OUT_OF_BOUNDS''"
| "rejection_text Malformed_bundle = ''MALFORMED_BUNDLE''"
| "rejection_text Payload_too_large = ''PAYLOAD_TOO_LARGE''"
| "rejection_text Rate_limited = ''RATE_LIMITED''"
| "rejection_text Round_unavailable = ''ROUND_UNAVAILABLE''"

record submit_commit =
  sc_round_id :: string
  sc_schema_id :: string
  sc_spec_version :: int
  sc_bundle_hash :: string
  sc_accepted :: bool
  sc_rejection_code :: "string option"

record submit_reveal =
  sv_round_id :: string
  sv_schema_id :: string
  sv_spec_version :: int
  sv_bundle_json :: string
  sv_nonce_hex :: string
  sv_accepted :: bool
  sv_rejection_code :: "string option"

record verdict =
  vd_accepted :: bool
  vd_rejection_code :: "rejection_code option"
  vd_bundle :: "wire_bundle option"

definition reject :: "rejection_code \<Rightarrow> verdict" where
  "reject code = \<lparr>vd_accepted = False, vd_rejection_code = Some code, vd_bundle = None\<rparr>"

definition accept :: "wire_bundle option \<Rightarrow> verdict" where
  "accept b = \<lparr>vd_accepted = True, vd_rejection_code = None, vd_bundle = b\<rparr>"

datatype uncaught = Universe_raised universe_error | Canonical_raised canonical_error

record validation_env =
  ve_registry :: registry
  ve_blake2b :: "bytes \<Rightarrow> bytes"
  ve_depth :: nat

definition current_version_key :: int where
  "current_version_key = 2044"

definition max_reveal_bundle_bytes :: nat where
  "max_reveal_bundle_bytes = 262144"

definition max_nonce_bytes :: nat where
  "max_nonce_bytes = 32"

definition max_round_id_length :: nat where
  "max_round_id_length = 64"

definition reveal_payload_rejection :: "string \<Rightarrow> string \<Rightarrow> rejection_code option" where
  "reveal_payload_rejection bundle_json nonce_hex =
     (if max_reveal_bundle_bytes < length (utf8 bundle_json) \<or> max_nonce_bytes * 2 < length nonce_hex
      then Some Payload_too_large else None)"

definition registry_entry_of :: "string \<Rightarrow> registry \<Rightarrow> registry_entry option" where
  "registry_entry_of schema_id r =
     (case registry_get r schema_id of Inr e \<Rightarrow> Some e | Inl _ \<Rightarrow> None)"

text \<open>A character \<open>str.lower\<close> changes.\<close>

definition is_upper :: "char \<Rightarrow> bool" where
  "is_upper c =
     (let n = of_char c :: nat
      in (65 \<le> n \<and> n \<le> 90) \<or> (192 \<le> n \<and> n \<le> 222 \<and> n \<noteq> 215))"

definition is_hex_digest :: "string \<Rightarrow> bool" where
  "is_hex_digest s \<longleftrightarrow>
     length s = commit_digest_size * 2 \<and> \<not> list_ex is_upper s \<and> fromhex s \<noteq> None"

definition is_canonical_round_id :: "string \<Rightarrow> bool" where
  "is_canonical_round_id s \<longleftrightarrow>
     \<not> max_round_id_length < length s
     \<and> (case fromisoformat s of None \<Rightarrow> False | Some d \<Rightarrow> isoformat d = s)"

definition validate_commit ::
  "validation_env \<Rightarrow> string \<Rightarrow> string \<Rightarrow> int \<Rightarrow> string \<Rightarrow> datetime \<Rightarrow> datetime \<Rightarrow> datetime \<Rightarrow> verdict" where
  "validate_commit env round_id schema_id spec_version bundle_hash now c_open c_close =
     (if \<not> is_canonical_round_id round_id then reject Malformed_bundle
      else if spec_version \<noteq> current_version_key then reject Version_mismatch
      else if registry_entry_of schema_id (ve_registry env) = None then reject Unknown_schema_code
      else if \<not> (c_open \<le> now \<and> now \<le> c_close) then reject Late_commit
      else if \<not> is_hex_digest bundle_hash then reject Malformed_bundle
      else accept None)"

definition classify_validation_error :: "wire_error list \<Rightarrow> rejection_code" where
  "classify_validation_error es =
     (if list_ex is_out_of_bounds es then Out_of_bounds_code else Malformed_bundle)"

definition validate_reveal_bundle ::
  "validation_env \<Rightarrow> registry_entry \<Rightarrow> string \<Rightarrow> string \<Rightarrow> string \<Rightarrow> string list \<Rightarrow> uncaught + verdict" where
  "validate_reveal_bundle env entry round_id schema_id bundle_json universe =
     (case loads (ve_depth env) bundle_json of
        None \<Rightarrow> Inr (reject Malformed_bundle)
      | Some payload \<Rightarrow>
     (case re_bundle_model entry payload of
        Inl es \<Rightarrow> Inr (reject (classify_validation_error es))
      | Inr b \<Rightarrow>
          if bundle_round_id b \<noteq> round_id \<or> bundle_schema_id b \<noteq> schema_id
          then Inr (reject Malformed_bundle)
          else
     (case canonical_bundle_bytes (bundle_payload b) of
        Inl e \<Rightarrow> Inl (Canonical_raised e)
      | Inr bs \<Rightarrow>
          if bs \<noteq> utf8 bundle_json then Inr (reject Malformed_bundle)
          else
     (case re_membership_valid entry of
        None \<Rightarrow> Inr (accept (Some b))
      | Some valid \<Rightarrow>
     (case valid b universe of
        Inl e \<Rightarrow> Inl (Universe_raised e)
      | Inr ok \<Rightarrow> if ok then Inr (accept (Some b)) else Inr (reject Invalid_ticker))))))"

definition validate_reveal ::
  "validation_env \<Rightarrow> string \<Rightarrow> string \<Rightarrow> int \<Rightarrow> string \<Rightarrow> string \<Rightarrow> string option \<Rightarrow> string
     \<Rightarrow> datetime \<Rightarrow> datetime \<Rightarrow> datetime \<Rightarrow> string list \<Rightarrow> uncaught + verdict" where
  "validate_reveal env round_id schema_id spec_version bundle_json nonce_hex committed hotkey
       now r_open r_close universe =
     (if \<not> is_canonical_round_id round_id then Inr (reject Malformed_bundle)
      else if spec_version \<noteq> current_version_key then Inr (reject Version_mismatch)
      else
     (case registry_entry_of schema_id (ve_registry env) of
        None \<Rightarrow> Inr (reject Unknown_schema_code)
      | Some entry \<Rightarrow>
     (case reveal_payload_rejection bundle_json nonce_hex of
        Some code \<Rightarrow> Inr (reject code)
      | None \<Rightarrow>
          if \<not> (r_open \<le> now \<and> now \<le> r_close) then Inr (reject Late_reveal)
          else
     (case committed of
        None \<Rightarrow> Inr (reject No_commit)
      | Some h \<Rightarrow>
     (case fromhex nonce_hex of
        None \<Rightarrow> Inr (reject Malformed_bundle)
      | Some nonce \<Rightarrow>
          if length nonce < commit_nonce_bytes then Inr (reject Malformed_bundle)
          else if commit_hash (ve_blake2b env) (utf8 bundle_json) nonce hotkey \<noteq> h
            then Inr (reject Hash_mismatch)
          else validate_reveal_bundle env entry round_id schema_id bundle_json universe)))))"

subsection \<open>Admission\<close>

definition miner_admission ::
  "string option \<Rightarrow> string list \<Rightarrow> (nat \<Rightarrow> rat) \<Rightarrow> rat \<Rightarrow> bool \<times> string" where
  "miner_admission hotkey registered stake_weight min_stake =
     (case hotkey of
        None \<Rightarrow> (True, ''Missing dendrite or hotkey'')
      | Some h \<Rightarrow>
     (case index_where (\<lambda>r. r = h) registered of
        None \<Rightarrow> (True, ''Unrecognized hotkey'')
      | Some uid \<Rightarrow>
          if 0 < min_stake \<and> stake_weight uid < min_stake then (True, ''Insufficient stake'')
          else (False, ''Hotkey recognized'')))"

subsection \<open>What a verdict means\<close>

lemma verdict_simps [simp]:
  "vd_accepted (reject c) = False" "vd_rejection_code (reject c) = Some c"
  "vd_accepted (accept b) = True" "vd_rejection_code (accept b) = None" "vd_bundle (accept b) = b"
  by (simp_all add: reject_def accept_def)

lemma is_canonical_round_id_iff:
  "is_canonical_round_id s \<longleftrightarrow> (\<exists>d. valid_date d \<and> s = isoformat d)"
proof
  assume "is_canonical_round_id s"
  then obtain d where "fromisoformat s = Some d" "isoformat d = s"
    by (auto simp: is_canonical_round_id_def split: option.splits)
  then show "\<exists>d. valid_date d \<and> s = isoformat d" using fromisoformat_canonical(2) by blast
next
  assume "\<exists>d. valid_date d \<and> s = isoformat d"
  then obtain d where d: "valid_date d" "s = isoformat d" by blast
  then have "fromisoformat s = Some d" by (simp add: fromisoformat_isoformat)
  moreover from this have "length s = 10"
    by (auto simp: fromisoformat_def Let_def split: if_splits)
  ultimately show "is_canonical_round_id s"
    using d by (simp add: is_canonical_round_id_def max_round_id_length_def)
qed

lemma validate_commit_accepts:
  "vd_accepted (validate_commit env rid sid v h now co cc) \<longleftrightarrow>
     is_canonical_round_id rid \<and> v = current_version_key
     \<and> registry_entry_of sid (ve_registry env) \<noteq> None \<and> co \<le> now \<and> now \<le> cc \<and> is_hex_digest h"
  by (auto simp: validate_commit_def)

lemma validate_reveal_bundle_accepts:
  "validate_reveal_bundle env e rid sid bj u = Inr v \<Longrightarrow> vd_accepted v \<Longrightarrow>
     \<exists>n b. loads (ve_depth env) bj = Some n \<and> re_bundle_model e n = Inr b
       \<and> bundle_round_id b = rid \<and> bundle_schema_id b = sid
       \<and> canonical_bundle_bytes (bundle_payload b) = Inr (utf8 bj)
       \<and> (\<forall>valid. re_membership_valid e = Some valid \<longrightarrow> valid b u = Inr True)
       \<and> v = accept (Some b)"
  by (auto simp: validate_reveal_bundle_def split: option.splits sum.splits if_splits)

lemma validate_reveal_accepts:
  assumes "validate_reveal env rid sid sv bj nh c hk now ro rc u = Inr v" "vd_accepted v"
  shows "\<exists>e h nonce. is_canonical_round_id rid \<and> sv = current_version_key
     \<and> registry_entry_of sid (ve_registry env) = Some e \<and> ro \<le> now \<and> now \<le> rc
     \<and> reveal_payload_rejection bj nh = None
     \<and> c = Some h \<and> fromhex nh = Some nonce \<and> commit_nonce_bytes \<le> length nonce
     \<and> commit_hash (ve_blake2b env) (utf8 bj) nonce hk = h
     \<and> validate_reveal_bundle env e rid sid bj u = Inr v"
  using assms by (auto simp: validate_reveal_def split: option.splits if_splits)

text \<open>The rejections of a reveal, in the order of the checks.\<close>

lemma validate_reveal_rejections:
  assumes "is_canonical_round_id rid" "sv = current_version_key"
    "registry_entry_of sid (ve_registry env) = Some e" "reveal_payload_rejection bj nh = None"
  shows "\<not> (ro \<le> now \<and> now \<le> rc) \<Longrightarrow>
      validate_reveal env rid sid sv bj nh c hk now ro rc u = Inr (reject Late_reveal)"
    "ro \<le> now \<Longrightarrow> now \<le> rc \<Longrightarrow>
      validate_reveal env rid sid sv bj nh None hk now ro rc u = Inr (reject No_commit)"
    "ro \<le> now \<Longrightarrow> now \<le> rc \<Longrightarrow> fromhex nh = Some nonce \<Longrightarrow> commit_nonce_bytes \<le> length nonce \<Longrightarrow>
      commit_hash (ve_blake2b env) (utf8 bj) nonce hk \<noteq> h \<Longrightarrow>
      validate_reveal env rid sid sv bj nh (Some h) hk now ro rc u = Inr (reject Hash_mismatch)"
  using assms by (auto simp: validate_reveal_def)

subsection \<open>An honest submission\<close>

lemma loads_bundle_payload:
  assumes "canonical_text (bundle_payload b) = Inr t" "6 \<le> depth"
  shows "loads depth t = Some (sort_keys (bundle_payload b))"
  using assms by (cases b) (simp_all add: loads_canonical_text)

definition membership_canonical :: "registry_entry \<Rightarrow> bool" where
  "membership_canonical e \<longleftrightarrow>
     (\<forall>valid b u. re_membership_valid e = Some valid \<longrightarrow> valid (canon b) u = valid b u)"

lemma set_netuids_canon: "set (map as_netuid (sb_assets (canon_bundle m b))) = set (map as_netuid (sb_assets b))"
  by (auto simp: canon_bundle_def canon_asset_def image_iff)

lemma membership_cong: "set ns = set ms \<Longrightarrow> membership target ns u = membership target ms u"
  by (simp add: membership_def cong: sum.case_cong universe_error.case_cong)

lemma entries_membership_canonical:
  "membership_canonical (lending_entry sha256)" "membership_canonical (risk_entry sha256)"
proof -
  have "lending_membership_valid (canon b) u = lending_membership_valid b u" for b u
    by (cases b) (simp_all add: canon_def validate_lending_netuid_membership_def
        membership_cong [OF set_netuids_canon] del: set_map)
  moreover have "risk_membership_valid (canon b) u = risk_membership_valid b u" for b u
    by (cases b) (simp_all add: canon_def validate_alpha_risk_netuid_membership_def
        membership_cong [OF set_netuids_canon] del: set_map)
  ultimately show "membership_canonical (lending_entry sha256)"
    "membership_canonical (risk_entry sha256)"
    by (simp_all add: membership_canonical_def lending_entry_def risk_entry_def)
qed

lemma honest_reveal_bundle:
  assumes "entry_faithful e" "membership_canonical e" "re_bundle_model e n = Inr b"
    and "canonical_text (bundle_payload b) = Inr t" "6 \<le> ve_depth env"
    and "re_membership_valid e = Some valid" "valid b u = Inr True"
  shows "validate_reveal_bundle env e (bundle_round_id b) (re_schema_id e) t u
    = Inr (accept (Some (canon b)))"
proof -
  have model: "re_bundle_model e (sort_keys (bundle_payload b)) = Inr (canon b)"
    "bundle_schema_id b = re_schema_id e"
    using assms(1,3) by (auto simp: entry_faithful_def)
  have "valid (canon b) u = Inr True" using assms(2,6,7) by (simp add: membership_canonical_def)
  moreover have "canonical_bundle_bytes (bundle_payload b) = Inr (utf8 t)"
    using assms(4) by (simp add: canonical_bundle_bytes_def)
  ultimately show ?thesis
    using model assms(5,6) loads_bundle_payload [OF assms(4,5)]
    by (simp add: validate_reveal_bundle_def)
qed

lemma assemble_bundleD:
  assumes "assemble_bundle blake2b p hk nonce = Inr a"
  shows "canonical_text p = Inr (asm_bundle_json a)" "length nonce = commit_nonce_bytes"
    "asm_nonce_hex a = hex nonce"
    "asm_bundle_hash a = commit_hash blake2b (utf8 (asm_bundle_json a)) nonce hk"
  using assms by (auto simp: assemble_bundle_def ebind_def split: sum.splits if_splits)

lemma honest_reveal:
  assumes e: "registry_entry_of sid (ve_registry env) = Some e" "re_schema_id e = sid"
      "entry_faithful e" "membership_canonical e" "re_bundle_model e n = Inr b"
    and a: "assemble_bundle (ve_blake2b env) (bundle_payload b) hk nonce = Inr a"
      "length (utf8 (asm_bundle_json a)) \<le> max_reveal_bundle_bytes" "6 \<le> ve_depth env"
    and m: "re_membership_valid e = Some valid" "valid b u = Inr True"
    and t: "is_canonical_round_id (bundle_round_id b)" "ro \<le> now" "now \<le> rc"
  shows "validate_reveal env (bundle_round_id b) sid current_version_key (asm_bundle_json a)
      (asm_nonce_hex a) (Some (asm_bundle_hash a)) hk now ro rc u = Inr (accept (Some (canon b)))"
proof -
  note d = assemble_bundleD [OF a(1)]
  have "reveal_payload_rejection (asm_bundle_json a) (asm_nonce_hex a) = None"
    using a(2) d(2) by (simp add: d(3) reveal_payload_rejection_def commit_nonce_bytes_def max_nonce_bytes_def)
  then show ?thesis
    using honest_reveal_bundle [OF e(3,4,5) d(1) a(3) m] e(1,2) t d(2)
    by (simp add: validate_reveal_def d(3,4))
qed

lemma hex_digit_not_upper: "n < 16 \<Longrightarrow> \<not> is_upper (hex_digit n)"
  by (cases "n < 10") (auto simp: is_upper_def hex_digit_def Let_def)

lemma assembled_hash_is_digest:
  assumes "assemble_bundle blake2b p hk nonce = Inr a" "\<And>x. length (blake2b x) = commit_digest_size"
  shows "is_hex_digest (asm_bundle_hash a)"
proof -
  have "\<not> is_upper c" if "c \<in> set (hex bs)" for c bs
  proof -
    from that obtain b where "b \<in> set bs" "c = hex_digit (unat b div 16) \<or> c = hex_digit (unat b mod 16)"
      by (auto simp: hex_def)
    moreover have "unat b div 16 < 16" "unat b mod 16 < 16" for b :: "8 word"
      using unat_byte_less [of b] by simp_all
    ultimately show ?thesis using hex_digit_not_upper by metis
  qed
  then show ?thesis
    by (auto simp: is_hex_digest_def assemble_bundleD [OF assms(1)] commit_hash_def assms(2) list_ex_iff)
qed

end
