(* ===== verification/Round_Engine.thy ===== *)
theory Round_Engine
  imports Registry
begin

text \<open>
  Round windows, the phase function and the three schedulers (\<open>endure/protocol/round_engine.py\<close>,
  \<open>endure/protocol/schedulers.py\<close>, \<open>endure/scoring/oracle/trading_days.py\<close>).  Instants are
  microseconds in UTC.  The NYSE calendar of \<open>exchange_calendars\<close> and the New York date of an
  instant are parameters.
\<close>

subsection \<open>Windows\<close>

record window_offsets =
  commit_open_before_close :: timedelta
  commit_close_before_close :: timedelta
  reveal_open_after_close :: timedelta
  reveal_close_after_close :: timedelta

datatype round_error =
    Commit_window_inverted | Reveal_window_inverted | Not_a_session date | Negative_count
  | Bad_session_text | Unknown_scheduler registry_error

definition mk_window_offsets ::
  "timedelta \<Rightarrow> timedelta \<Rightarrow> timedelta \<Rightarrow> timedelta \<Rightarrow> round_error + window_offsets" where
  "mk_window_offsets co cc ro rc =
     (if co \<le> cc then Inl Commit_window_inverted
      else if rc \<le> ro then Inl Reveal_window_inverted
      else Inr \<lparr>commit_open_before_close = co, commit_close_before_close = cc,
                reveal_open_after_close = ro, reveal_close_after_close = rc\<rparr>)"

definition default_offsets :: window_offsets where
  "default_offsets =
     \<lparr>commit_open_before_close = 9 * hour, commit_close_before_close = 30 * minute,
      reveal_open_after_close = 30 * minute, reveal_close_after_close = 4 * hour\<rparr>"

record round_windows =
  rw_round_id :: string
  commit_open :: datetime
  commit_close :: datetime
  t0_close :: datetime
  reveal_open :: datetime
  reveal_close :: datetime

text \<open>The boundaries around a close, as both window functions compute them.\<close>

definition windows_around :: "window_offsets \<Rightarrow> date \<Rightarrow> datetime \<Rightarrow> round_windows" where
  "windows_around offs d close =
     \<lparr>rw_round_id = isoformat d,
      commit_open = close - commit_open_before_close offs,
      commit_close = close - commit_close_before_close offs,
      t0_close = close,
      reveal_open = close + reveal_open_after_close offs,
      reveal_close = close + reveal_close_after_close offs\<rparr>"

subsection \<open>Trading days\<close>

record calendar =
  cal_is_session :: "date \<Rightarrow> bool"
  cal_session_close :: "date \<Rightarrow> datetime"
  cal_sessions_in_range :: "date \<Rightarrow> date \<Rightarrow> date list"
  cal_session_offset :: "date \<Rightarrow> nat \<Rightarrow> date"

definition is_trading_session :: "calendar \<Rightarrow> date \<Rightarrow> bool" where
  "is_trading_session cal d = cal_is_session cal d"

definition trading_sessions :: "calendar \<Rightarrow> date \<Rightarrow> date \<Rightarrow> date list" where
  "trading_sessions cal start finish = cal_sessions_in_range cal start finish"

definition session_close :: "calendar \<Rightarrow> date \<Rightarrow> round_error + datetime" where
  "session_close cal d =
     (if \<not> is_trading_session cal d then Inl (Not_a_session d) else Inr (cal_session_close cal d))"

definition add_trading_days :: "calendar \<Rightarrow> date \<Rightarrow> int \<Rightarrow> round_error + date" where
  "add_trading_days cal d n =
     (if n < 0 then Inl Negative_count
      else if \<not> is_trading_session cal d then Inl (Not_a_session d)
      else if n = 0 then Inr d
      else Inr (cal_session_offset cal d (nat n)))"

definition compute_windows :: "calendar \<Rightarrow> window_offsets \<Rightarrow> date \<Rightarrow> round_error + round_windows" where
  "compute_windows cal offs session =
     (if \<not> is_trading_session cal session then Inl (Not_a_session session)
      else ebind (session_close cal session) (\<lambda>close. Inr (windows_around offs session close)))"

definition compute_fixed_utc_windows :: "window_offsets \<Rightarrow> date \<Rightarrow> round_windows" where
  "compute_fixed_utc_windows offs anchor_day = windows_around offs anchor_day (at_hour anchor_day 20)"

subsection \<open>Phases\<close>

datatype round_phase = Pre_open | Commit | Awaiting_close | Reveal | Closed

definition phase_at :: "datetime \<Rightarrow> round_windows \<Rightarrow> round_phase" where
  "phase_at now w =
     (if now < commit_open w then Pre_open
      else if now \<le> commit_close w then Commit
      else if now < reveal_open w then Awaiting_close
      else if now \<le> reveal_close w then Reveal
      else Closed)"

fun phase_rank :: "round_phase \<Rightarrow> nat" where
  "phase_rank Pre_open = 0"
| "phase_rank Commit = 1"
| "phase_rank Awaiting_close = 2"
| "phase_rank Reveal = 3"
| "phase_rank Closed = 4"

definition windows_ordered :: "round_windows \<Rightarrow> bool" where
  "windows_ordered w \<longleftrightarrow>
     commit_open w < commit_close w \<and> commit_close w < reveal_open w \<and> reveal_open w < reveal_close w"

lemma phase_at_mono: "now \<le> now' \<Longrightarrow> phase_rank (phase_at now w) \<le> phase_rank (phase_at now' w)"
  by (auto simp: phase_at_def)

lemma phase_at_Commit:
  "phase_at now w = Commit \<longleftrightarrow> commit_open w \<le> now \<and> now \<le> commit_close w"
  by (auto simp: phase_at_def)

lemma phase_at_Reveal:
  "windows_ordered w \<Longrightarrow> phase_at now w = Reveal \<longleftrightarrow> reveal_open w \<le> now \<and> now \<le> reveal_close w"
  by (auto simp: phase_at_def windows_ordered_def)

subsection \<open>Schedulers\<close>

definition nyse_active_window ::
  "calendar \<Rightarrow> (datetime \<Rightarrow> date) \<Rightarrow> window_offsets \<Rightarrow> datetime \<Rightarrow> round_error + round_windows option" where
  "nyse_active_window cal ny_date offs now =
     (let session = ny_date now
      in if \<not> is_trading_session cal session then Inr None
         else ebind (compute_windows cal offs session) (\<lambda>w.
           if commit_open w \<le> now \<and> now \<le> reveal_close w then Inr (Some w) else Inr None))"

definition nyse_publication_available_at ::
  "calendar \<Rightarrow> window_offsets \<Rightarrow> round_windows \<Rightarrow> round_error + datetime" where
  "nyse_publication_available_at cal offs w =
     (case fromisoformat (rw_round_id w) of
        None \<Rightarrow> Inl Bad_session_text
      | Some d \<Rightarrow>
          ebind (add_trading_days cal d 1) (\<lambda>next_session.
          ebind (compute_windows cal offs next_session) (\<lambda>w'. Inr (commit_close w'))))"

definition fixed_active_window :: "window_offsets \<Rightarrow> datetime \<Rightarrow> round_windows option" where
  "fixed_active_window offs now =
     (let w = compute_fixed_utc_windows offs (utc_date now)
      in if commit_open w \<le> now \<and> now \<le> reveal_close w then Some w else None)"

definition fixed_publication_available_at :: "round_windows \<Rightarrow> datetime" where
  "fixed_publication_available_at w = commit_close w + day"

definition scheduler_for_schema :: "registry \<Rightarrow> string \<Rightarrow> registry_error + scheduler_kind" where
  "scheduler_for_schema r schema_id =
     ebind (registry_get r schema_id) (\<lambda>e. Inr (re_scheduler_kind e))"

text \<open>
  The compressed clock.  \<open>total_seconds() // period\<close> is a division of floats; for spans below 270
  years it is the division of the microseconds it is computed from.
\<close>

record synthetic_scheduler =
  ss_sessions :: "date list"
  ss_epoch :: datetime
  ss_period_seconds :: int

definition period_start :: "synthetic_scheduler \<Rightarrow> nat \<Rightarrow> datetime" where
  "period_start s i = ss_epoch s + int i * ss_period_seconds s * second"

definition synthetic_windows :: "synthetic_scheduler \<Rightarrow> nat \<Rightarrow> round_windows" where
  "synthetic_windows s i =
     (let start = period_start s i;
          frac = (\<lambda>pct. start + ss_period_seconds s * pct div 100 * second)
      in \<lparr>rw_round_id = isoformat (ss_sessions s ! i), commit_open = start, commit_close = frac 40,
          t0_close = frac 50, reveal_open = frac 55, reveal_close = frac 70\<rparr>)"

definition synthetic_active_window :: "synthetic_scheduler \<Rightarrow> datetime \<Rightarrow> round_windows option" where
  "synthetic_active_window s now =
     (if now < ss_epoch s then None
      else let i = nat ((now - ss_epoch s) div (ss_period_seconds s * second))
           in if length (ss_sessions s) \<le> i then None else Some (synthetic_windows s i))"

definition synthetic_publication_available_at :: "synthetic_scheduler \<Rightarrow> round_windows \<Rightarrow> datetime" where
  "synthetic_publication_available_at s w = commit_close w + ss_period_seconds s * second"

subsection \<open>The fixed clock\<close>

lemmas fixed_windows_defs =
  compute_fixed_utc_windows_def windows_around_def default_offsets_def at_hour_def duration_defs

lemma windows_around_ordered:
  assumes "mk_window_offsets co cc ro rc = Inr offs" "- cc < ro"
  shows "windows_ordered (windows_around offs d close)"
  using assms by (auto simp: mk_window_offsets_def windows_ordered_def windows_around_def split: if_splits)

lemma default_offsets_valid:
  "mk_window_offsets (9 * hour) (30 * minute) (30 * minute) (4 * hour) = Inr default_offsets"
  by (simp add: mk_window_offsets_def default_offsets_def duration_defs)

text \<open>Rounds of different days never overlap, and their windows lie in the order of the days.\<close>

lemma fixed_rounds_disjoint:
  assumes "d < e"
  shows "reveal_close (compute_fixed_utc_windows default_offsets d)
       < commit_open (compute_fixed_utc_windows default_offsets e)"
  using at_hour_mono [OF assms, of 20]
  by (simp add: compute_fixed_utc_windows_def windows_around_def default_offsets_def duration_defs)

text \<open>The clock finds the round of an instant, but for the last microsecond of its reveal window.\<close>

lemma fixed_active_window_iff:
  assumes "now < reveal_close (compute_fixed_utc_windows default_offsets d)"
  shows "fixed_active_window default_offsets now = Some (compute_fixed_utc_windows default_offsets d)
    \<longleftrightarrow> commit_open (compute_fixed_utc_windows default_offsets d) \<le> now"
proof
  let ?w = "compute_fixed_utc_windows default_offsets"
  assume "fixed_active_window default_offsets now = Some (?w d)"
  then have "?w (utc_date now) = ?w d" "commit_open (?w (utc_date now)) \<le> now"
    by (auto simp: fixed_active_window_def Let_def split: if_splits)
  then show "commit_open (?w d) \<le> now" by simp
next
  let ?w = "compute_fixed_utc_windows default_offsets"
  assume open_at: "commit_open (?w d) \<le> now"
  have "(d - 1) * day \<le> now" "now < d * day"
    using assms open_at by (simp_all add: fixed_windows_defs)
  then have "now div day = d - 1"
    by (intro int_div_pos_eq [of _ _ _ "now - (d - 1) * day"]) (simp_all add: duration_defs)
  then have "utc_date now = d" by (simp add: utc_date_def)
  with assms open_at show "fixed_active_window default_offsets now = Some (?w d)"
    by (simp add: fixed_active_window_def Let_def)
qed

lemma fixed_misses_close:
  "fixed_active_window default_offsets (reveal_close (compute_fixed_utc_windows default_offsets d)) = None"
proof -
  let ?w = "compute_fixed_utc_windows default_offsets"
  have t: "reveal_close (?w d) = d * day" by (simp add: fixed_windows_defs)
  have "utc_date (d * day) = d + 1" by (simp add: utc_date_def duration_defs)
  then show ?thesis
    unfolding t fixed_active_window_def by (simp add: fixed_windows_defs)
qed

lemma fixed_publication_after_close:
  "reveal_close (compute_fixed_utc_windows default_offsets d)
     < fixed_publication_available_at (compute_fixed_utc_windows default_offsets d)"
  by (simp add: fixed_publication_available_at_def fixed_windows_defs)

subsection \<open>The compressed clock\<close>

lemma synthetic_windows_simps [simp]:
  "commit_open (synthetic_windows s i) = period_start s i"
  "commit_close (synthetic_windows s i) = period_start s i + ss_period_seconds s * 40 div 100 * second"
  "reveal_open (synthetic_windows s i) = period_start s i + ss_period_seconds s * 55 div 100 * second"
  "reveal_close (synthetic_windows s i) = period_start s i + ss_period_seconds s * 70 div 100 * second"
  by (simp_all add: synthetic_windows_def Let_def)

lemma synthetic_windows_order:
  assumes "0 < ss_period_seconds s"
  shows "commit_open (synthetic_windows s i) \<le> commit_close (synthetic_windows s i)"
    "commit_close (synthetic_windows s i) \<le> reveal_open (synthetic_windows s i)"
    "reveal_open (synthetic_windows s i) \<le> reveal_close (synthetic_windows s i)"
    "reveal_close (synthetic_windows s i) < commit_open (synthetic_windows s (Suc i))"
proof -
  define p where "p = ss_period_seconds s"
  have d: "0 \<le> p * 40 div 100" "p * 40 div 100 \<le> p * 55 div 100" "p * 55 div 100 \<le> p * 70 div 100"
    "p * 70 div 100 < p"
    using assms unfolding p_def [symmetric] by (auto intro: zdiv_mono1 simp: pos_imp_zdiv_nonneg_iff)
  have "period_start s (Suc i) = period_start s i + p * second"
    by (simp add: period_start_def p_def algebra_simps)
  moreover have "0 < second" by (simp add: second_def)
  ultimately show "commit_open (synthetic_windows s i) \<le> commit_close (synthetic_windows s i)"
    "commit_close (synthetic_windows s i) \<le> reveal_open (synthetic_windows s i)"
    "reveal_open (synthetic_windows s i) \<le> reveal_close (synthetic_windows s i)"
    "reveal_close (synthetic_windows s i) < commit_open (synthetic_windows s (Suc i))"
    using d by (simp_all add: p_def [symmetric] mult_right_mono)
qed

lemma synthetic_active_window_period:
  assumes "synthetic_active_window s now = Some w" "0 < ss_period_seconds s"
  shows "\<exists>i < length (ss_sessions s). w = synthetic_windows s i
     \<and> period_start s i \<le> now \<and> now < period_start s (Suc i)"
proof -
  define q where "q = ss_period_seconds s * second"
  define i where "i = nat ((now - ss_epoch s) div q)"
  have q: "0 < q" using assms(2) by (simp add: q_def second_def)
  have now: "ss_epoch s \<le> now" "i < length (ss_sessions s)" "w = synthetic_windows s i"
    using assms(1) by (auto simp: synthetic_active_window_def Let_def q_def i_def split: if_splits)
  have "int i = (now - ss_epoch s) div q" using now(1) q by (simp add: i_def pos_imp_zdiv_nonneg_iff)
  then have "q * int i + (now - ss_epoch s) mod q = now - ss_epoch s" by simp
  moreover have "0 \<le> (now - ss_epoch s) mod q" "(now - ss_epoch s) mod q < q" using q by simp_all
  ultimately have "int i * q \<le> now - ss_epoch s" "now - ss_epoch s < (int i + 1) * q"
    by (simp_all only: mult.commute distrib_left mult_1_right)
  then show ?thesis using now(2,3)
    by (intro exI [of _ i]) (simp add: period_start_def q_def algebra_simps)
qed

end
