(* ===== verification/Storage.thy ===== *)
theory Storage
  imports Round_Engine
begin

text \<open>
  The round, submission and snapshot tables and the transactions over them
  (\<open>endure/storage/tables.py\<close>, first half of \<open>endure/storage/repository.py\<close>).  A table is the list of
  its rows in insertion order; a transaction is a function on the record of the tables, which is
  how SQLite runs it under its writer lock (\<open>BEGIN IMMEDIATE\<close> or a single statement).  Timestamps
  are instants, not their ISO texts.  \<open>storage_ok\<close> is the invariant the unique and foreign keys
  state; every operation keeps it.
\<close>

datatype round_state = Round_open | Round_revealed | Round_partially_scored | Round_closed

definition post_embargo_round_states :: "round_state set" where
  "post_embargo_round_states = {Round_revealed, Round_partially_scored, Round_closed}"

definition post_embargo :: "round_state \<Rightarrow> bool" where
  "post_embargo s \<longleftrightarrow> s \<noteq> Round_open"

lemma post_embargo_states: "s \<in> post_embargo_round_states \<longleftrightarrow> post_embargo s"
  by (cases s) (simp_all add: post_embargo_round_states_def post_embargo_def)

datatype verdict_state = Committed | Accepted | Rejected

record round_row =
  rr_round_id :: string
  rr_schema_id :: string
  rr_state :: round_state
  rr_universe_stale :: bool
  rr_degraded :: bool
  rr_windows :: round_windows
  rr_publication_at :: datetime
  rr_created_at :: datetime
  rr_updated_at :: datetime

record universe_row =
  ur_round_id :: string
  ur_schema_id :: string
  ur_tickers :: "string list"
  ur_source_hash :: string
  ur_fetched_at :: datetime

record submission_row =
  sr_round_id :: string
  sr_schema_id :: string
  sr_hotkey :: string
  sr_commit_hash :: "string option"
  sr_commit_count :: int
  sr_reveal_count :: int
  sr_nonce_hex :: "string option"
  sr_committed_at :: "datetime option"
  sr_revealed_at :: "datetime option"
  sr_bundle_json :: "string option"
  sr_verdict :: verdict_state
  sr_rejection :: "string option"

record snapshot_row =
  sn_round_id :: string
  sn_schema_id :: string
  sn_hotkey :: string
  sn_bundle_json :: string
  sn_at :: datetime

record db =
  db_rounds :: "round_row list"
  db_universes :: "universe_row list"
  db_submissions :: "submission_row list"
  db_snapshots :: "snapshot_row list"

definition empty_db :: db where
  "empty_db = \<lparr>db_rounds = [], db_universes = [], db_submissions = [], db_snapshots = []\<rparr>"

datatype storage_error = Publication_before_close | Invalid_state | Integrity_error | Empty_coordinates

type_synonym round_key = "string \<times> string"

definition round_key :: "round_row \<Rightarrow> round_key" where
  "round_key r = (rr_round_id r, rr_schema_id r)"

definition universe_key :: "universe_row \<Rightarrow> round_key" where
  "universe_key u = (ur_round_id u, ur_schema_id u)"

definition submission_key :: "submission_row \<Rightarrow> round_key \<times> string" where
  "submission_key s = ((sr_round_id s, sr_schema_id s), sr_hotkey s)"

definition snapshot_key :: "snapshot_row \<Rightarrow> round_key \<times> string" where
  "snapshot_key s = ((sn_round_id s, sn_schema_id s), sn_hotkey s)"

subsection \<open>Rounds\<close>

definition round_of :: "'a db_scheme \<Rightarrow> round_key \<Rightarrow> round_row option" where
  "round_of d k = select_one (\<lambda>r. round_key r = k) (db_rounds d)"

definition round_state :: "'a db_scheme \<Rightarrow> round_key \<Rightarrow> round_state option" where
  "round_state d k = map_option rr_state (round_of d k)"

definition round_windows :: "'a db_scheme \<Rightarrow> round_key \<Rightarrow> round_windows option" where
  "round_windows d k = map_option rr_windows (round_of d k)"

definition open_round ::
  "round_windows \<Rightarrow> string \<Rightarrow> universe_snapshot option \<Rightarrow> datetime \<Rightarrow> datetime option \<Rightarrow> 'a db_scheme
     \<Rightarrow> storage_error + 'a db_scheme" where
  "open_round w schema_id universe now publication d =
     (let publication_at = (case publication of Some p \<Rightarrow> p | None \<Rightarrow> reveal_close w);
          k = (rw_round_id w, schema_id)
      in if publication_at < reveal_close w then Inl Publication_before_close
         else if round_of d k \<noteq> None then Inr d
         else
           let d1 = (case universe of
                 None \<Rightarrow> d
               | Some u \<Rightarrow> d\<lparr>db_universes := db_universes d @
                   [\<lparr>ur_round_id = rw_round_id w, ur_schema_id = schema_id, ur_tickers = us_tickers u,
                     ur_source_hash = us_source_hash u, ur_fetched_at = now\<rparr>]\<rparr>)
           in if universe \<noteq> None \<and> k \<in> universe_key ` set (db_universes d) then Inl Integrity_error
              else Inr (d1\<lparr>db_rounds := db_rounds d1 @
                [\<lparr>rr_round_id = rw_round_id w, rr_schema_id = schema_id, rr_state = Round_open,
                  rr_universe_stale = (universe = None), rr_degraded = False, rr_windows = w,
                  rr_publication_at = publication_at, rr_created_at = now, rr_updated_at = now\<rparr>]\<rparr>))"

definition unfinished_rounds :: "'a db_scheme \<Rightarrow> string \<Rightarrow> string list" where
  "unfinished_rounds d schema_id =
     sort (map rr_round_id
       (filter (\<lambda>r. rr_schema_id r = schema_id \<and> rr_state r \<noteq> Round_closed) (db_rounds d)))"

definition revealed_round_ids :: "'a db_scheme \<Rightarrow> string \<Rightarrow> nat \<Rightarrow> string list" where
  "revealed_round_ids d schema_id limit =
     take limit (rev (sort (map rr_round_id
       (filter (\<lambda>r. rr_schema_id r = schema_id \<and> post_embargo (rr_state r)) (db_rounds d)))))"

definition post_embargo_rounds :: "'a db_scheme \<Rightarrow> string \<Rightarrow> datetime \<Rightarrow> string list" where
  "post_embargo_rounds d schema_id now =
     map rr_round_id (filter (\<lambda>r. rr_schema_id r = schema_id \<and> post_embargo (rr_state r)
       \<and> rr_publication_at r < now) (db_rounds d))"

definition list_rounds ::
  "'a db_scheme \<Rightarrow> string \<Rightarrow> round_state option \<Rightarrow> nat \<Rightarrow> string option \<Rightarrow> round_row list" where
  "list_rounds d schema_id state limit before =
     take limit (rev (sort_key rr_round_id (filter (\<lambda>r. rr_schema_id r = schema_id
       \<and> (case state of None \<Rightarrow> True | Some s \<Rightarrow> rr_state r = s)
       \<and> (case before of None \<Rightarrow> True | Some b \<Rightarrow> rr_round_id r < b)) (db_rounds d))))"

definition universe_for :: "'a db_scheme \<Rightarrow> round_key \<Rightarrow> universe_error + universe_snapshot option" where
  "universe_for d k =
     (case select_one (\<lambda>u. universe_key u = k) (db_universes d) of
        None \<Rightarrow> Inr None
      | Some u \<Rightarrow> ebind (mk_universe_snapshot (fst k) (ur_tickers u) (ur_source_hash u)) (\<lambda>s. Inr (Some s)))"

subsection \<open>Commits\<close>

definition submission_of :: "'a db_scheme \<Rightarrow> round_key \<Rightarrow> string \<Rightarrow> submission_row option" where
  "submission_of d k hotkey = select_one (\<lambda>s. submission_key s = (k, hotkey)) (db_submissions d)"

definition new_submission :: "round_key \<Rightarrow> string \<Rightarrow> submission_row" where
  "new_submission k hotkey =
     \<lparr>sr_round_id = fst k, sr_schema_id = snd k, sr_hotkey = hotkey, sr_commit_hash = None,
      sr_commit_count = 0, sr_reveal_count = 0, sr_nonce_hex = None, sr_committed_at = None,
      sr_revealed_at = None, sr_bundle_json = None, sr_verdict = Committed, sr_rejection = None\<rparr>"

text \<open>The \<open>UPDATE\<close> of \<open>record_commit\<close>: its row predicate, then its values.\<close>

definition commit_updatable :: "round_key \<Rightarrow> string \<Rightarrow> string \<Rightarrow> int option \<Rightarrow> submission_row \<Rightarrow> bool" where
  "commit_updatable k hotkey h max_commits s \<longleftrightarrow>
     submission_key s = (k, hotkey) \<and> sr_commit_hash s \<noteq> Some h \<and> sr_verdict s \<noteq> Accepted
     \<and> (case max_commits of None \<Rightarrow> True | Some m \<Rightarrow> sr_commit_count s < m)"

definition commit_values :: "string \<Rightarrow> datetime \<Rightarrow> submission_row \<Rightarrow> submission_row" where
  "commit_values h now s =
     s\<lparr>sr_commit_hash := Some h, sr_committed_at := Some now,
       sr_commit_count := sr_commit_count s + 1, sr_verdict := Committed\<rparr>"

definition record_commit ::
  "round_key \<Rightarrow> string \<Rightarrow> string \<Rightarrow> datetime \<Rightarrow> int option \<Rightarrow> 'a db_scheme \<Rightarrow> 'a db_scheme \<times> bool" where
  "record_commit k hotkey h now max_commits d =
     (if round_state d k \<noteq> Some Round_open then (d, False)
      else if \<exists>s \<in> set (db_submissions d). commit_updatable k hotkey h max_commits s
        then (d\<lparr>db_submissions := update_where (commit_updatable k hotkey h max_commits)
                 (commit_values h now) (db_submissions d)\<rparr>, True)
      else case submission_of d k hotkey of
        Some s \<Rightarrow> (d, sr_commit_hash s = Some h)
      | None \<Rightarrow>
          (d\<lparr>db_submissions := db_submissions d @
             [(new_submission k hotkey)\<lparr>sr_commit_hash := Some h, sr_committed_at := Some now,
                sr_commit_count := 1, sr_verdict := Committed\<rparr>]\<rparr>, True))"

definition committed_hash :: "'a db_scheme \<Rightarrow> round_key \<Rightarrow> string \<Rightarrow> string option" where
  "committed_hash d k hotkey = Option.bind (submission_of d k hotkey) sr_commit_hash"

definition commit_count :: "'a db_scheme \<Rightarrow> round_key \<Rightarrow> string \<Rightarrow> int" where
  "commit_count d k hotkey =
     (case submission_of d k hotkey of None \<Rightarrow> 0 | Some s \<Rightarrow> sr_commit_count s)"

subsection \<open>Reveals\<close>

definition attempt_updatable :: "'a db_scheme \<Rightarrow> round_key \<Rightarrow> string \<Rightarrow> int option \<Rightarrow> submission_row \<Rightarrow> bool" where
  "attempt_updatable d k hotkey max_reveals s \<longleftrightarrow>
     submission_key s = (k, hotkey) \<and> sr_commit_hash s \<noteq> None \<and> round_state d k = Some Round_open
     \<and> (case max_reveals of None \<Rightarrow> True | Some m \<Rightarrow> sr_reveal_count s < m)"

definition record_reveal_attempt :: "round_key \<Rightarrow> string \<Rightarrow> int option \<Rightarrow> 'a db_scheme \<Rightarrow> 'a db_scheme \<times> bool" where
  "record_reveal_attempt k hotkey max_reveals d =
     (d\<lparr>db_submissions := update_where (attempt_updatable d k hotkey max_reveals)
          (\<lambda>s. s\<lparr>sr_reveal_count := sr_reveal_count s + 1\<rparr>) (db_submissions d)\<rparr>,
      \<exists>s \<in> set (db_submissions d). attempt_updatable d k hotkey max_reveals s)"

definition reveal_count :: "'a db_scheme \<Rightarrow> round_key \<Rightarrow> string \<Rightarrow> int" where
  "reveal_count d k hotkey =
     (case submission_of d k hotkey of None \<Rightarrow> 0 | Some s \<Rightarrow> sr_reveal_count s)"

definition frozen_member :: "'a db_scheme \<Rightarrow> submission_row \<Rightarrow> bool" where
  "frozen_member d s \<longleftrightarrow>
     (\<exists>n \<in> set (db_snapshots d). snapshot_key n = submission_key s
        \<and> sr_bundle_json s = Some (sn_bundle_json n))"

definition accepted_reveal :: "'a db_scheme \<Rightarrow> round_key \<Rightarrow> string \<Rightarrow> (string \<times> string) option" where
  "accepted_reveal d k hotkey =
     (case select_one (\<lambda>s. submission_key s = (k, hotkey) \<and> sr_verdict s = Accepted
             \<and> round_of d k \<noteq> None
             \<and> (round_state d k = Some Round_open \<or> frozen_member d s)) (db_submissions d) of
        None \<Rightarrow> None
      | Some s \<Rightarrow> (case (sr_bundle_json s, sr_nonce_hex s) of
          (Some b, Some n) \<Rightarrow> Some (b, n) | _ \<Rightarrow> None))"

definition reveal_values ::
  "string \<Rightarrow> string \<Rightarrow> bool \<Rightarrow> string option \<Rightarrow> datetime \<Rightarrow> submission_row \<Rightarrow> submission_row" where
  "reveal_values bundle nonce accepted code now s =
     s\<lparr>sr_revealed_at := Some now, sr_bundle_json := Some bundle, sr_nonce_hex := Some nonce,
       sr_verdict := (if accepted then Accepted else Rejected), sr_rejection := code\<rparr>"

definition record_reveal ::
  "round_key \<Rightarrow> string \<Rightarrow> string \<Rightarrow> string \<Rightarrow> bool \<Rightarrow> string option \<Rightarrow> datetime \<Rightarrow> 'a db_scheme \<Rightarrow> 'a db_scheme \<times> bool" where
  "record_reveal k hotkey bundle nonce accepted code now d =
     (if round_state d k \<noteq> Some Round_open then (d, False)
      else case submission_of d k hotkey of
        None \<Rightarrow>
          (d\<lparr>db_submissions := db_submissions d @
             [reveal_values bundle nonce accepted code now (new_submission k hotkey)]\<rparr>, True)
      | Some s \<Rightarrow>
          if sr_verdict s = Accepted then (d, False)
          else if sr_verdict s = (if accepted then Accepted else Rejected)
                \<and> sr_bundle_json s = Some bundle \<and> sr_nonce_hex s = Some nonce
                \<and> sr_rejection s = code
            then (d, False)
          else (d\<lparr>db_submissions := update_where (\<lambda>s. submission_key s = (k, hotkey))
                   (reveal_values bundle nonce accepted code now) (db_submissions d)\<rparr>, True))"

subsection \<open>Closing a round\<close>

definition accepted_bundles :: "'a db_scheme \<Rightarrow> round_key \<Rightarrow> (string \<times> string) list" where
  "accepted_bundles d k =
     map (\<lambda>s. (sr_hotkey s, case sr_bundle_json s of Some b \<Rightarrow> b | None \<Rightarrow> []))
       (sort_key sr_hotkey (filter (\<lambda>s. fst (submission_key s) = k \<and> sr_verdict s = Accepted)
          (db_submissions d)))"

definition consensus_bundles :: "'a db_scheme \<Rightarrow> round_key \<Rightarrow> (string \<times> string) list" where
  "consensus_bundles d k =
     map (\<lambda>n. (sn_hotkey n, sn_bundle_json n))
       (sort_key sn_hotkey (filter (\<lambda>n. fst (snapshot_key n) = k) (db_snapshots d)))"

text \<open>\<open>INSERT ... ON CONFLICT DO NOTHING\<close> on the snapshot table.\<close>

definition insert_snapshot :: "round_key \<Rightarrow> datetime \<Rightarrow> string \<times> string \<Rightarrow> snapshot_row list \<Rightarrow> snapshot_row list" where
  "insert_snapshot k now hb rows =
     (if (k, fst hb) \<in> snapshot_key ` set rows then rows
      else rows @ [\<lparr>sn_round_id = fst k, sn_schema_id = snd k, sn_hotkey = fst hb,
                    sn_bundle_json = snd hb, sn_at = now\<rparr>])"

definition snapshot_if_open :: "round_key \<Rightarrow> datetime \<Rightarrow> 'a db_scheme \<Rightarrow> 'a db_scheme \<times> (string \<times> string) list" where
  "snapshot_if_open k now d =
     (if round_state d k \<noteq> Some Round_open then (d, consensus_bundles d k)
      else if consensus_bundles d k \<noteq> [] then (d, consensus_bundles d k)
      else
        let d' = d\<lparr>db_snapshots := fold (insert_snapshot k now) (accepted_bundles d k) (db_snapshots d)\<rparr>
        in (d', consensus_bundles d' k))"

definition update_round :: "(round_row \<Rightarrow> bool) \<Rightarrow> (round_row \<Rightarrow> round_row) \<Rightarrow> 'a db_scheme \<Rightarrow> 'a db_scheme" where
  "update_round p f d = d\<lparr>db_rounds := update_where p f (db_rounds d)\<rparr>"

definition flip_round_revealed :: "round_key \<Rightarrow> datetime \<Rightarrow> 'a db_scheme \<Rightarrow> 'a db_scheme" where
  "flip_round_revealed k now d =
     update_round (\<lambda>r. round_key r = k \<and> rr_state r = Round_open)
       (\<lambda>r. r\<lparr>rr_state := Round_revealed, rr_updated_at := now\<rparr>) d"

definition set_round_state :: "round_key \<Rightarrow> round_state \<Rightarrow> datetime \<Rightarrow> 'a db_scheme \<Rightarrow> 'a db_scheme" where
  "set_round_state k state now d =
     (let d' = (if post_embargo state then fst (snapshot_if_open k now d) else d)
      in update_round (\<lambda>r. round_key r = k) (\<lambda>r. r\<lparr>rr_state := state, rr_updated_at := now\<rparr>) d')"

definition page :: "nat option \<Rightarrow> int \<Rightarrow> 'b list \<Rightarrow> 'b list" where
  "page limit offset xs =
     (let start = nat (max 0 offset)
      in case limit of None \<Rightarrow> drop start xs | Some n \<Rightarrow> take n (drop start xs))"

definition scoring_bundles :: "'a db_scheme \<Rightarrow> round_key \<Rightarrow> nat option \<Rightarrow> int \<Rightarrow> (string \<times> string) list" where
  "scoring_bundles d k limit offset =
     (let bundles = (case round_state d k of
          Some s \<Rightarrow> if post_embargo s then consensus_bundles d k else accepted_bundles d k
        | None \<Rightarrow> accepted_bundles d k)
      in page limit offset bundles)"

definition accepted_submission_count :: "'a db_scheme \<Rightarrow> round_key \<Rightarrow> nat" where
  "accepted_submission_count d k =
     length (filter (\<lambda>s. fst (submission_key s) = k \<and> sr_verdict s = Accepted) (db_submissions d))"

text \<open>Hotkeys with an accepted reveal no later than the round; round ids compare as texts.\<close>

definition hotkeys_eligible_for_round :: "'a db_scheme \<Rightarrow> string \<Rightarrow> string \<Rightarrow> string set" where
  "hotkeys_eligible_for_round d schema_id round_id =
     sr_hotkey ` set (filter (\<lambda>s. sr_schema_id s = schema_id \<and> sr_verdict s = Accepted
       \<and> sr_round_id s \<le> round_id) (db_submissions d))"

definition has_unfinished_submission :: "'a db_scheme \<Rightarrow> string \<Rightarrow> string \<Rightarrow> bool" where
  "has_unfinished_submission d schema_id hotkey \<longleftrightarrow>
     (\<exists>s \<in> set (db_submissions d). sr_schema_id s = schema_id \<and> sr_hotkey s = hotkey
        \<and> sr_verdict s = Accepted
        \<and> (\<exists>r \<in> set (db_rounds d). round_key r = fst (submission_key s) \<and> rr_state r \<noteq> Round_closed))"

end
