(* ===== verification/Storage_Rounds.thy ===== *)
theory Storage_Rounds
  imports Storage
begin

text \<open>
  The round life cycle as a state machine: \<open>storage_step\<close> is one transaction of the repository on
  the round tables, where \<open>set_round_state\<close> is called as the service calls it (\<open>Round_Service\<close> shows that
  it does).  \<open>transaction\<close> drops that restriction.  \<open>storage_ok\<close> and \<open>frozen_ok\<close> are its invariants, and \<open>abs_round\<close> is the contract of a round, a map of accepted reveals that
  only grows while the round is open and never changes once it is closed; the steps simulate it.
\<close>

subsection \<open>Looking up after an update\<close>

lemma round_of_other [simp]:
  "round_of (d\<lparr>db_submissions := x\<rparr>) k = round_of d k"
  "round_of (d\<lparr>db_snapshots := y\<rparr>) k = round_of d k"
  "round_of (d\<lparr>db_universes := z\<rparr>) k = round_of d k"
  by (simp_all add: round_of_def)

lemma round_state_other [simp]:
  "round_state (d\<lparr>db_submissions := x\<rparr>) k = round_state d k"
  "round_state (d\<lparr>db_snapshots := y\<rparr>) k = round_state d k"
  "round_state (d\<lparr>db_universes := z\<rparr>) k = round_state d k"
  by (simp_all add: round_state_def)

lemma round_of_update_round:
  "(\<And>r. round_key (f r) = round_key r) \<Longrightarrow>
     round_of (update_round p f d) k = map_option (\<lambda>r. if p r then f r else r) (round_of d k)"
  by (simp add: round_of_def update_round_def select_one_update_where)

lemma round_of_append:
  "db_rounds d' = db_rounds d @ [r] \<Longrightarrow> round_of d' k =
     (case round_of d k of Some x \<Rightarrow> Some x | None \<Rightarrow> if round_key r = k then Some r else None)"
  by (auto simp: round_of_def select_one_append split: option.splits dest: select_one_SomeD)

lemma round_of_Some: "round_of d k = Some r \<Longrightarrow> r \<in> set (db_rounds d) \<and> round_key r = k"
  unfolding round_of_def by (drule select_one_SomeD) simp

lemma round_of_None: "round_of d k = None \<longleftrightarrow> k \<notin> round_key ` set (db_rounds d)"
  by (force simp: round_of_def image_iff)

lemma submission_of_other [simp]:
  "submission_of (d\<lparr>db_rounds := x\<rparr>) k h = submission_of d k h"
  "submission_of (d\<lparr>db_snapshots := y\<rparr>) k h = submission_of d k h"
  "submission_of (d\<lparr>db_universes := z\<rparr>) k h = submission_of d k h"
  "submission_of (update_round p f d) k h = submission_of d k h"
  by (simp_all add: submission_of_def update_round_def)

lemma submission_of_update:
  "(\<And>s. submission_key (f s) = submission_key s) \<Longrightarrow>
     submission_of (d\<lparr>db_submissions := update_where p f (db_submissions d)\<rparr>) k h =
       map_option (\<lambda>s. if p s then f s else s) (submission_of d k h)"
  by (simp add: submission_of_def select_one_update_where)

lemma submission_of_append:
  "submission_of (d\<lparr>db_submissions := db_submissions d @ [s]\<rparr>) k h =
     (case submission_of d k h of Some x \<Rightarrow> Some x
      | None \<Rightarrow> if submission_key s = (k, h) then Some s else None)"
  by (auto simp: submission_of_def select_one_append split: option.splits dest: select_one_SomeD)

lemma submission_of_Some:
  "submission_of d k h = Some s \<Longrightarrow> s \<in> set (db_submissions d) \<and> submission_key s = (k, h)"
  unfolding submission_of_def by (drule select_one_SomeD) simp

lemma submission_of_None: "submission_of d k h = None \<longleftrightarrow> (k, h) \<notin> submission_key ` set (db_submissions d)"
  by (force simp: submission_of_def image_iff)

lemma submission_of_member:
  "unique_on submission_key (db_submissions d) \<Longrightarrow> s \<in> set (db_submissions d) \<Longrightarrow>
     submission_of d (fst (submission_key s)) (snd (submission_key s)) = Some s"
  unfolding submission_of_def by (rule select_one_unique) simp_all

lemma key_values [simp]:
  "submission_key (commit_values h now s) = submission_key s"
  "submission_key (reveal_values b n a c now s) = submission_key s"
  "submission_key (s\<lparr>sr_reveal_count := i\<rparr>) = submission_key s"
  "submission_key (new_submission k h) = (k, h)"
  "submission_key ((new_submission k h)\<lparr>sr_commit_hash := ch, sr_committed_at := t,
      sr_commit_count := i, sr_verdict := v\<rparr>) = (k, h)"
  by (simp_all add: submission_key_def commit_values_def reveal_values_def new_submission_def)

subsection \<open>The invariants\<close>

definition row_ok :: "submission_row \<Rightarrow> bool" where
  "row_ok s \<longleftrightarrow> (sr_verdict s = Accepted \<longrightarrow> sr_bundle_json s \<noteq> None \<and> sr_nonce_hex s \<noteq> None)"

definition storage_ok :: "'a db_scheme \<Rightarrow> bool" where
  "storage_ok d \<longleftrightarrow>
     unique_on round_key (db_rounds d) \<and> unique_on universe_key (db_universes d)
     \<and> unique_on submission_key (db_submissions d) \<and> unique_on snapshot_key (db_snapshots d)
     \<and> (\<forall>s \<in> set (db_submissions d). row_ok s \<and> fst (submission_key s) \<in> round_key ` set (db_rounds d))
     \<and> (\<forall>n \<in> set (db_snapshots d). fst (snapshot_key n) \<in> round_key ` set (db_rounds d))"

definition frozen_ok :: "'a db_scheme \<Rightarrow> bool" where
  "frozen_ok d \<longleftrightarrow>
     (\<forall>k. case round_state d k of
        None \<Rightarrow> True
      | Some s \<Rightarrow> if s = Round_open then consensus_bundles d k = []
                 else consensus_bundles d k = accepted_bundles d k)"

lemma storage_ok_submissions:
  "storage_ok d \<Longrightarrow> unique_on submission_key subs \<Longrightarrow>
     (\<And>s. s \<in> set subs \<Longrightarrow> row_ok s \<and> fst (submission_key s) \<in> round_key ` set (db_rounds d)) \<Longrightarrow>
     storage_ok (d\<lparr>db_submissions := subs\<rparr>)"
  by (simp add: storage_ok_def)

lemma storage_ok_update_submissions:
  assumes "storage_ok d" "\<And>s. submission_key (f s) = submission_key s"
    "\<And>s. p s \<Longrightarrow> row_ok s \<Longrightarrow> row_ok (f s)"
  shows "storage_ok (d\<lparr>db_submissions := update_where p f (db_submissions d)\<rparr>)"
proof (rule storage_ok_submissions [OF assms(1)])
  show "unique_on submission_key (update_where p f (db_submissions d))"
    using assms(1,2) by (intro unique_on_update_where) (simp_all add: storage_ok_def)
  show "row_ok s \<and> fst (submission_key s) \<in> round_key ` set (db_rounds d)"
    if "s \<in> set (update_where p f (db_submissions d))" for s
    using that assms by (auto simp: storage_ok_def set_update_where)
qed

lemma storage_ok_append_submission:
  assumes "storage_ok d" "submission_of d k h = None" "submission_key s = (k, h)" "row_ok s"
    "round_of d k \<noteq> None"
  shows "storage_ok (d\<lparr>db_submissions := db_submissions d @ [s]\<rparr>)"
proof (rule storage_ok_submissions [OF assms(1)])
  show "unique_on submission_key (db_submissions d @ [s])"
    using assms by (auto simp: storage_ok_def submission_of_None)
  show "row_ok t \<and> fst (submission_key t) \<in> round_key ` set (db_rounds d)"
    if "t \<in> set (db_submissions d @ [s])" for t
    using that assms by (auto simp: storage_ok_def round_of_None)
qed

lemma storage_ok_update_round:
  assumes "storage_ok d" "\<And>r. round_key (f r) = round_key r"
  shows "storage_ok (update_round p f d)"
proof -
  have "map round_key (update_where p f (db_rounds d)) = map round_key (db_rounds d)"
    using assms(2) by (rule update_where_key)
  then have "round_key ` set (update_where p f (db_rounds d)) = round_key ` set (db_rounds d)"
    by (metis list.set_map)
  with assms show ?thesis
    by (simp add: storage_ok_def update_round_def unique_on_update_where)
qed

lemma storage_ok_append_snapshots:
  "storage_ok d \<Longrightarrow> unique_on snapshot_key ns \<Longrightarrow>
     snapshot_key ` set (db_snapshots d) \<inter> snapshot_key ` set ns = {} \<Longrightarrow>
     (\<And>n. n \<in> set ns \<Longrightarrow> fst (snapshot_key n) \<in> round_key ` set (db_rounds d)) \<Longrightarrow>
     storage_ok (d\<lparr>db_snapshots := db_snapshots d @ ns\<rparr>)"
  unfolding storage_ok_def by (simp add: ball_Un)

lemma open_round_ok:
  assumes "open_round w schema_id u now p d = Inr d'" "storage_ok d"
  shows "storage_ok d'"
  using assms
  by (auto simp: open_round_def Let_def storage_ok_def round_of_None round_key_def universe_key_def
      split: if_splits option.splits)

lemma record_commit_ok:
  assumes "record_commit k h ch now m d = (d', b)" "storage_ok d"
  shows "storage_ok d'"
proof -
  have "storage_ok (d\<lparr>db_submissions := update_where (commit_updatable k h ch m) (commit_values ch now)
      (db_submissions d)\<rparr>)"
    using assms(2) by (rule storage_ok_update_submissions) (simp, simp add: row_ok_def commit_values_def)
  moreover have "storage_ok (d\<lparr>db_submissions := db_submissions d @
      [(new_submission k h)\<lparr>sr_commit_hash := Some ch, sr_committed_at := Some now,
        sr_commit_count := 1, sr_verdict := Committed\<rparr>]\<rparr>)"
    if "submission_of d k h = None" "round_state d k = Some Round_open"
    using assms(2) that by (intro storage_ok_append_submission) (auto simp: row_ok_def round_state_def)
  ultimately show ?thesis
    using assms by (auto simp: record_commit_def split: if_splits option.splits)
qed

lemma record_reveal_attempt_ok:
  assumes "record_reveal_attempt k h m d = (d', b)" "storage_ok d"
  shows "storage_ok d'"
  using assms by (auto simp: record_reveal_attempt_def row_ok_def intro!: storage_ok_update_submissions)

lemma row_ok_reveal_values [simp]: "row_ok (reveal_values b n a c now s)"
  by (simp add: row_ok_def reveal_values_def)

lemma record_reveal_ok:
  assumes "record_reveal k h b n a c now d = (d', r)" "storage_ok d"
  shows "storage_ok d'"
proof -
  have "storage_ok (d\<lparr>db_submissions := update_where (\<lambda>s. submission_key s = (k, h))
      (reveal_values b n a c now) (db_submissions d)\<rparr>)"
    using assms(2) by (rule storage_ok_update_submissions) simp_all
  moreover have "storage_ok (d\<lparr>db_submissions := db_submissions d @
      [reveal_values b n a c now (new_submission k h)]\<rparr>)"
    if "submission_of d k h = None" "round_state d k = Some Round_open"
    using assms(2) that by (intro storage_ok_append_submission) (auto simp: round_state_def)
  ultimately show ?thesis
    using assms by (auto simp: record_reveal_def split: if_splits option.splits)
qed

subsection \<open>Closing\<close>

definition close_round :: "round_key \<Rightarrow> datetime \<Rightarrow> 'a db_scheme \<Rightarrow> 'a db_scheme" where
  "close_round k now d = flip_round_revealed k now (fst (snapshot_if_open k now d))"

definition snapshot_of :: "round_key \<Rightarrow> datetime \<Rightarrow> string \<times> string \<Rightarrow> snapshot_row" where
  "snapshot_of k now hb =
     \<lparr>sn_round_id = fst k, sn_schema_id = snd k, sn_hotkey = fst hb, sn_bundle_json = snd hb, sn_at = now\<rparr>"

lemma snapshot_key_snapshot_of [simp]: "snapshot_key (snapshot_of k now hb) = (k, fst hb)"
  by (simp add: snapshot_key_def snapshot_of_def)

lemma frozen_okD:
  assumes "frozen_ok d"
  shows "round_state d k = Some Round_open \<Longrightarrow> consensus_bundles d k = []"
    "round_state d k = Some s \<Longrightarrow> s \<noteq> Round_open \<Longrightarrow> consensus_bundles d k = accepted_bundles d k"
  using spec [OF assms [unfolded frozen_ok_def], of k] by simp_all

lemma sort_key_Nil_iff: "sort_key f xs = [] \<longleftrightarrow> xs = []"
  by (metis length_0_conv length_sort)

lemma consensus_bundles_Nil:
  "consensus_bundles d k = [] \<longleftrightarrow> filter (\<lambda>n. fst (snapshot_key n) = k) (db_snapshots d) = []"
  by (simp add: consensus_bundles_def sort_key_Nil_iff)

lemma fold_insert_snapshot:
  "distinct (map fst hbs) \<Longrightarrow> (\<forall>hb \<in> set hbs. (k, fst hb) \<notin> snapshot_key ` set rows) \<Longrightarrow>
     fold (insert_snapshot k now) hbs rows = rows @ map (snapshot_of k now) hbs"
proof (induction hbs arbitrary: rows)
  case (Cons hb hbs)
  have "insert_snapshot k now hb rows = rows @ [snapshot_of k now hb]"
    using Cons.prems by (simp add: insert_snapshot_def snapshot_of_def)
  moreover have "fold (insert_snapshot k now) hbs (rows @ [snapshot_of k now hb])
      = (rows @ [snapshot_of k now hb]) @ map (snapshot_of k now) hbs"
  proof (rule Cons.IH)
    show "distinct (map fst hbs)" using Cons.prems(1) by simp
    show "\<forall>hb' \<in> set hbs. (k, fst hb') \<notin> snapshot_key ` set (rows @ [snapshot_of k now hb])"
    proof
      fix hb' assume hb': "hb' \<in> set hbs"
      then have "fst hb' \<in> fst ` set hbs" by simp
      moreover have "fst hb \<notin> fst ` set hbs" using Cons.prems(1) by simp
      ultimately have "fst hb' \<noteq> fst hb" by metis
      with Cons.prems(2) hb' show "(k, fst hb') \<notin> snapshot_key ` set (rows @ [snapshot_of k now hb])"
        by simp
    qed
  qed
  ultimately show ?case by simp
qed simp

lemma unique_hotkeys:
  "unique_on submission_key subs \<Longrightarrow>
     distinct (map sr_hotkey (filter (\<lambda>s. fst (submission_key s) = k \<and> P s) subs))"
proof (induction subs)
  case (Cons s subs)
  have "sr_hotkey s \<notin> sr_hotkey ` set (filter (\<lambda>s. fst (submission_key s) = k \<and> P s) subs)"
    if "fst (submission_key s) = k"
  proof
    assume "sr_hotkey s \<in> sr_hotkey ` set (filter (\<lambda>s. fst (submission_key s) = k \<and> P s) subs)"
    then obtain t where "t \<in> set subs" "fst (submission_key t) = k" "sr_hotkey t = sr_hotkey s" by auto
    then have "submission_key s = submission_key t" using that by (simp add: submission_key_def)
    with \<open>t \<in> set subs\<close> Cons.prems show False by simp
  qed
  with Cons show ?case by simp
qed simp

lemma accepted_hotkeys_distinct:
  "storage_ok d \<Longrightarrow> distinct (map fst (accepted_bundles d k))"
  using unique_hotkeys [of "db_submissions d" k "\<lambda>s. sr_verdict s = Accepted"]
  by (simp add: accepted_bundles_def comp_def storage_ok_def distinct_map)

lemma accepted_sorted: "sorted (map fst (accepted_bundles d k))"
  by (simp add: accepted_bundles_def comp_def)

lemma sort_key_map: "sort_key f (map g xs) = map g (sort_key (\<lambda>x. f (g x)) xs)"
proof -
  have ins: "insort_key f (g x) (map g ys) = map g (insort_key (\<lambda>x. f (g x)) x ys)" for x ys
    by (induction ys) auto
  show ?thesis by (induction xs) (simp_all add: ins)
qed

lemma consensus_bundles_snapshot:
  assumes "consensus_bundles d k = []" "sorted (map fst hbs)"
  shows "consensus_bundles (d\<lparr>db_snapshots := db_snapshots d @ map (snapshot_of k now) hbs\<rparr>) k = hbs"
proof -
  have "filter (\<lambda>n. fst (snapshot_key n) = k) (db_snapshots d) = []"
    using assms(1) by (simp only: consensus_bundles_Nil)
  then have "filter (\<lambda>n. fst (snapshot_key n) = k) (db_snapshots d @ map (snapshot_of k now) hbs)
      = map (snapshot_of k now) hbs" by simp
  moreover have "sort_key sn_hotkey (map (snapshot_of k now) hbs) = map (snapshot_of k now) hbs"
  proof -
    have "sn_hotkey (snapshot_of k now hb) = fst hb" for hb by (simp add: snapshot_of_def)
    with assms(2) show ?thesis by (simp add: sort_key_map sort_key_id_if_sorted)
  qed
  ultimately show ?thesis by (simp add: consensus_bundles_def snapshot_of_def comp_def)
qed

lemma snapshot_if_open_open:
  assumes "storage_ok d" "frozen_ok d" "round_state d k = Some Round_open"
  shows "snapshot_if_open k now d =
    (d\<lparr>db_snapshots := db_snapshots d @ map (snapshot_of k now) (accepted_bundles d k)\<rparr>, accepted_bundles d k)"
proof -
  have none: "consensus_bundles d k = []"
    using assms(2,3) by (rule frozen_okD(1))
  then have "filter (\<lambda>n. fst (snapshot_key n) = k) (db_snapshots d) = []"
    by (simp only: consensus_bundles_Nil)
  then have "\<forall>hb \<in> set (accepted_bundles d k). (k, fst hb) \<notin> snapshot_key ` set (db_snapshots d)"
    by (auto simp: filter_empty_conv) (metis fst_conv)
  then have "fold (insert_snapshot k now) (accepted_bundles d k) (db_snapshots d)
      = db_snapshots d @ map (snapshot_of k now) (accepted_bundles d k)"
    using accepted_hotkeys_distinct [OF assms(1)] by (intro fold_insert_snapshot) auto
  with none assms(3) show ?thesis
    by (simp add: snapshot_if_open_def Let_def consensus_bundles_snapshot accepted_sorted)
qed

lemma snapshot_if_open_closed:
  "round_state d k \<noteq> Some Round_open \<Longrightarrow> snapshot_if_open k now d = (d, consensus_bundles d k)"
  by (simp add: snapshot_if_open_def)

lemma bundles_other [simp]:
  "accepted_bundles (d\<lparr>db_snapshots := x\<rparr>) k = accepted_bundles d k"
  "accepted_bundles (d\<lparr>db_rounds := y\<rparr>) k = accepted_bundles d k"
  "accepted_bundles (d\<lparr>db_universes := z\<rparr>) k = accepted_bundles d k"
  "consensus_bundles (d\<lparr>db_submissions := u\<rparr>) k = consensus_bundles d k"
  "consensus_bundles (d\<lparr>db_rounds := v\<rparr>) k = consensus_bundles d k"
  "consensus_bundles (d\<lparr>db_universes := w\<rparr>) k = consensus_bundles d k"
  "accepted_bundles (update_round p f d) k = accepted_bundles d k"
  "consensus_bundles (update_round p f d) k = consensus_bundles d k"
  by (simp_all add: accepted_bundles_def consensus_bundles_def update_round_def)

lemma round_state_flip:
  "round_state (flip_round_revealed k now d) k' =
     (if k' = k \<and> round_state d k = Some Round_open then Some Round_revealed else round_state d k')"
proof -
  have "round_of (flip_round_revealed k now d) k' =
      map_option (\<lambda>r. if round_key r = k \<and> rr_state r = Round_open
        then r\<lparr>rr_state := Round_revealed, rr_updated_at := now\<rparr> else r) (round_of d k')"
    unfolding flip_round_revealed_def by (rule round_of_update_round) (simp add: round_key_def)
  then show ?thesis
    by (cases "round_of d k'"; cases "k' = k") (auto simp: round_state_def dest: round_of_Some)
qed

lemma consensus_bundles_other_key:
  assumes "k' \<noteq> k"
  shows "consensus_bundles (d\<lparr>db_snapshots := db_snapshots d @ map (snapshot_of k now) hbs\<rparr>) k'
    = consensus_bundles d k'"
proof -
  have "filter (\<lambda>n. fst (snapshot_key n) = k') (map (snapshot_of k now) hbs) = []"
    using assms by (induction hbs) simp_all
  then show ?thesis by (simp add: consensus_bundles_def)
qed

lemma close_round_state:
  assumes "storage_ok d" "frozen_ok d"
  shows "round_state (close_round k now d) k' =
     (if k' = k \<and> round_state d k = Some Round_open then Some Round_revealed else round_state d k')"
  using assms
  by (cases "round_state d k = Some Round_open")
    (auto simp: close_round_def round_state_flip snapshot_if_open_open snapshot_if_open_closed)

lemma close_round_consensus:
  assumes "storage_ok d" "frozen_ok d"
  shows "consensus_bundles (close_round k now d) k' =
     (if k' = k \<and> round_state d k = Some Round_open then accepted_bundles d k else consensus_bundles d k')"
proof (cases "round_state d k = Some Round_open")
  case True
  then have "consensus_bundles d k = []" using assms(2) by (intro frozen_okD(1))
  with True assms show ?thesis
    by (auto simp: close_round_def flip_round_revealed_def snapshot_if_open_open
        consensus_bundles_snapshot accepted_sorted consensus_bundles_other_key)
qed (simp add: close_round_def flip_round_revealed_def snapshot_if_open_closed)

lemma close_round_submissions [simp]: "db_submissions (close_round k now d) = db_submissions d"
  by (simp add: close_round_def flip_round_revealed_def update_round_def snapshot_if_open_def Let_def)

subsection \<open>The steps\<close>

inductive storage_step :: "'a db_scheme \<Rightarrow> 'a db_scheme \<Rightarrow> bool" where
  St_open: "open_round w schema_id u now p d = Inr d' \<Longrightarrow> storage_step d d'"
| St_commit: "record_commit k h ch now m d = (d', b) \<Longrightarrow> storage_step d d'"
| St_attempt: "record_reveal_attempt k h m d = (d', b) \<Longrightarrow> storage_step d d'"
| St_reveal: "record_reveal k h bj n acc code now d = (d', b) \<Longrightarrow> storage_step d d'"
| St_close: "d' = close_round k now d \<Longrightarrow> storage_step d d'"
| St_score: "round_state d k \<in> {Some Round_revealed, Some Round_partially_scored} \<Longrightarrow>
     st \<in> {Round_partially_scored, Round_closed} \<Longrightarrow> d' = set_round_state k st now d \<Longrightarrow>
     storage_step d d'"

inductive reachable :: "db \<Rightarrow> bool" where
  Reach_empty: "reachable empty_db"
| Reach_step: "reachable d \<Longrightarrow> storage_step d d' \<Longrightarrow> reachable d'"

text \<open>Outside the new round, and the closed round, a transaction leaves the rounds alone.\<close>

lemma open_round_effect:
  assumes "open_round w schema_id u now p d = Inr d'"
  shows "d' = d \<or> (round_of d (rw_round_id w, schema_id) = None
    \<and> round_state d' (rw_round_id w, schema_id) = Some Round_open
    \<and> (\<forall>k. k \<noteq> (rw_round_id w, schema_id) \<longrightarrow> round_state d' k = round_state d k)
    \<and> db_submissions d' = db_submissions d \<and> db_snapshots d' = db_snapshots d)"
proof -
  let ?k = "(rw_round_id w, schema_id)"
  have "d' = d \<or> (round_of d ?k = None \<and> db_submissions d' = db_submissions d
      \<and> db_snapshots d' = db_snapshots d
      \<and> (\<exists>r. db_rounds d' = db_rounds d @ [r] \<and> round_key r = ?k \<and> rr_state r = Round_open))"
    using assms by (auto simp: open_round_def Let_def round_key_def split: if_splits option.splits)
  then show ?thesis
    by (auto simp: round_state_def round_of_append split: option.splits)
qed

lemma set_round_state_effect:
  assumes "round_state d k \<in> {Some Round_revealed, Some Round_partially_scored}"
  shows "round_state (set_round_state k st now d) k' = (if k' = k then Some st else round_state d k')"
    "db_submissions (set_round_state k st now d) = db_submissions d"
    "db_snapshots (set_round_state k st now d) = db_snapshots d"
proof -
  have "round_of (update_round (\<lambda>r. round_key r = k) (\<lambda>r. r\<lparr>rr_state := st, rr_updated_at := now\<rparr>) d) k'
      = map_option (\<lambda>r. if round_key r = k then r\<lparr>rr_state := st, rr_updated_at := now\<rparr> else r) (round_of d k')"
    by (rule round_of_update_round) (simp add: round_key_def)
  moreover have "snapshot_if_open k now d = (d, consensus_bundles d k)"
    using assms by (intro snapshot_if_open_closed) auto
  ultimately show "round_state (set_round_state k st now d) k' = (if k' = k then Some st else round_state d k')"
    using assms by (cases "round_of d k'"; cases "k' = k")
      (auto simp: set_round_state_def Let_def round_state_def dest: round_of_Some)
  show "db_submissions (set_round_state k st now d) = db_submissions d"
    "db_snapshots (set_round_state k st now d) = db_snapshots d"
    using \<open>snapshot_if_open k now d = (d, consensus_bundles d k)\<close>
    by (simp_all add: set_round_state_def Let_def update_round_def)
qed

lemma bundles_cong:
  "db_submissions d' = db_submissions d \<Longrightarrow> accepted_bundles d' k = accepted_bundles d k"
  "db_snapshots d' = db_snapshots d \<Longrightarrow> consensus_bundles d' k = consensus_bundles d k"
  "db_submissions d' = db_submissions d \<Longrightarrow> submission_of d' k h = submission_of d k h"
  by (simp_all add: accepted_bundles_def consensus_bundles_def submission_of_def)

text \<open>A submission write touches one row, of an open round.\<close>

lemma accepted_bundles_update_other:
  assumes "\<And>s. submission_key (f s) = submission_key s" "\<And>s. p s \<Longrightarrow> fst (submission_key s) \<noteq> k"
  shows "accepted_bundles (d\<lparr>db_submissions := update_where p f (db_submissions d)\<rparr>) k = accepted_bundles d k"
proof -
  have "filter (\<lambda>s. fst (submission_key s) = k \<and> P s) (update_where p f subs)
      = filter (\<lambda>s. fst (submission_key s) = k \<and> P s) subs" for P subs
    using assms by (induction subs) auto
  then show ?thesis by (simp add: accepted_bundles_def)
qed

lemma accepted_bundles_append_other:
  assumes "fst (submission_key s) \<noteq> k"
  shows "accepted_bundles (d\<lparr>db_submissions := db_submissions d @ [s]\<rparr>) k = accepted_bundles d k"
  using assms by (simp add: accepted_bundles_def)

lemma record_commit_frame:
  assumes "record_commit k h ch now m d = (d', b)"
  shows "round_state d' k' = round_state d k'" "consensus_bundles d' k' = consensus_bundles d k'"
    "round_state d k' \<noteq> Some Round_open \<Longrightarrow> accepted_bundles d' k' = accepted_bundles d k'"
  using assms
  by (auto simp: record_commit_def commit_updatable_def accepted_bundles_update_other
      accepted_bundles_append_other split: if_splits option.splits
      intro!: accepted_bundles_update_other accepted_bundles_append_other)

lemma record_reveal_attempt_frame:
  assumes "record_reveal_attempt k h m d = (d', b)"
  shows "round_state d' k' = round_state d k'" "consensus_bundles d' k' = consensus_bundles d k'"
    "round_state d k' \<noteq> Some Round_open \<Longrightarrow> accepted_bundles d' k' = accepted_bundles d k'"
  using assms
  by (auto simp: record_reveal_attempt_def attempt_updatable_def intro!: accepted_bundles_update_other)

lemma record_reveal_frame:
  assumes "record_reveal k h bj n a c now d = (d', b)"
  shows "round_state d' k' = round_state d k'" "consensus_bundles d' k' = consensus_bundles d k'"
    "round_state d k' \<noteq> Some Round_open \<Longrightarrow> accepted_bundles d' k' = accepted_bundles d k'"
  using assms
  by (auto simp: record_reveal_def split: if_splits option.splits
      intro!: accepted_bundles_update_other accepted_bundles_append_other)

lemma storage_step_ok:
  assumes "storage_step d d'" "storage_ok d" "frozen_ok d"
  shows "storage_ok d'"
  using assms
proof (induction rule: storage_step.induct)
  case (St_close d' k now d)
  have "storage_ok (fst (snapshot_if_open k now d))"
  proof (cases "round_state d k = Some Round_open")
    case True
    have "unique_on snapshot_key (map (snapshot_of k now) (accepted_bundles d k))"
      using accepted_hotkeys_distinct [OF St_close(2), of k]
      by (simp add: unique_on_def comp_def distinct_map inj_on_def)
    moreover have "consensus_bundles d k = []" using St_close(3) True by (rule frozen_okD(1))
    then have "\<forall>n \<in> set (db_snapshots d). fst (snapshot_key n) \<noteq> k"
      by (simp add: consensus_bundles_Nil filter_empty_conv)
    then have "snapshot_key ` set (db_snapshots d)
        \<inter> snapshot_key ` set (map (snapshot_of k now) (accepted_bundles d k)) = {}"
      by auto (metis fst_conv)
    moreover have "k \<in> round_key ` set (db_rounds d)"
      using True round_of_None [of d k] by (auto simp: round_state_def)
    ultimately show ?thesis
      using St_close True
      by (simp only: snapshot_if_open_open fst_conv) (rule storage_ok_append_snapshots; auto)
  qed (simp add: snapshot_if_open_closed St_close)
  then show ?case
    by (simp add: St_close close_round_def flip_round_revealed_def storage_ok_update_round round_key_def)
next
  case (St_score d k st d' now)
  then show ?case
    by (auto simp: set_round_state_def Let_def snapshot_if_open_closed round_key_def
        intro!: storage_ok_update_round)
qed (blast intro: open_round_ok record_commit_ok record_reveal_attempt_ok record_reveal_ok)+

lemma storage_step_frozen:
  assumes "storage_step d d'" "storage_ok d" "frozen_ok d"
  shows "frozen_ok d'"
  using assms
proof (induction rule: storage_step.induct)
  case (St_open w schema_id u now p d d')
  let ?k = "(rw_round_id w, schema_id)"
  show ?case
  proof (cases "d' = d")
    case False
    then have e: "round_of d ?k = None" "round_state d' ?k = Some Round_open"
      "\<And>k. k \<noteq> ?k \<Longrightarrow> round_state d' k = round_state d k"
      "db_submissions d' = db_submissions d" "db_snapshots d' = db_snapshots d"
      using open_round_effect [OF St_open(1)] by auto
    have "?k \<notin> round_key ` set (db_rounds d)" using e(1) by (simp add: round_of_None)
    then have "\<forall>n \<in> set (db_snapshots d). fst (snapshot_key n) \<noteq> ?k"
      using St_open(2) unfolding storage_ok_def by metis
    then have "consensus_bundles d ?k = []" by (simp add: consensus_bundles_Nil filter_empty_conv)
    show ?thesis unfolding frozen_ok_def bundles_cong(1) [OF e(4)] bundles_cong(2) [OF e(5)]
    proof
      fix k'
      note fd = frozen_okD [OF St_open(3), of k']
      have "k' \<noteq> ?k \<Longrightarrow> round_state d' k' = round_state d k'" by (rule e(3))
      with fd e(2) \<open>consensus_bundles d ?k = []\<close> show "case round_state d' k' of None \<Rightarrow> True
        | Some s \<Rightarrow> if s = Round_open then consensus_bundles d k' = []
                   else consensus_bundles d k' = accepted_bundles d k'"
        by (cases "k' = ?k") (auto split: option.splits)
    qed
  qed (use St_open in simp)
next
  case (St_commit k h ch now m d d' b)
  then show ?case using record_commit_frame [OF St_commit(1)]
    by (auto simp: frozen_ok_def split: option.splits)
next
  case (St_attempt k h m d d' b)
  then show ?case using record_reveal_attempt_frame [OF St_attempt(1)]
    by (auto simp: frozen_ok_def split: option.splits)
next
  case (St_reveal k h bj n acc code now d d' b)
  then show ?case using record_reveal_frame [OF St_reveal(1)]
    by (auto simp: frozen_ok_def split: option.splits)
next
  case (St_close d' k now d)
  show ?case unfolding frozen_ok_def
  proof
    fix k'
    have "accepted_bundles d' k' = accepted_bundles d k'"
      by (rule bundles_cong(1)) (simp add: St_close(1))
    with frozen_okD [OF St_close(3), of k']
    show "case round_state d' k' of None \<Rightarrow> True
      | Some s \<Rightarrow> if s = Round_open then consensus_bundles d' k' = []
                 else consensus_bundles d' k' = accepted_bundles d' k'"
      unfolding St_close(1) close_round_state [OF St_close(2,3)] close_round_consensus [OF St_close(2,3)]
      by (cases "k' = k \<and> round_state d k = Some Round_open"; cases "round_state d k'") auto
  qed
next
  case (St_score d k st d' now)
  note e = set_round_state_effect [OF St_score(1), of st now, folded St_score(3)]
  show ?case unfolding frozen_ok_def bundles_cong(1) [OF e(2)] bundles_cong(2) [OF e(3)] e(1)
  proof
    fix k'
    note fd = frozen_okD [OF St_score(5), of k']
    have "round_state d k = Some Round_revealed \<or> round_state d k = Some Round_partially_scored"
      "st \<noteq> Round_open" using St_score(1,2) by auto
    with fd show "case if k' = k then Some st else round_state d k' of None \<Rightarrow> True
      | Some s \<Rightarrow> if s = Round_open then consensus_bundles d k' = []
                 else consensus_bundles d k' = accepted_bundles d k'"
      by (cases "k' = k") (auto split: option.splits)
  qed
qed

lemma reachable_ok: "reachable d \<Longrightarrow> storage_ok d \<and> frozen_ok d"
proof (induction rule: reachable.induct)
  case Reach_empty
  show ?case
    by (simp add: storage_ok_def frozen_ok_def empty_db_def round_state_def round_of_def)
next
  case (Reach_step d d')
  then show ?case using storage_step_ok storage_step_frozen by blast
qed

subsection \<open>The contract of a round\<close>

text \<open>
  A round is absent, open with the map of its accepted reveals, or frozen with it.  The map grows
  at a hotkey that has no accepted reveal, only while the round is open.
\<close>

type_synonym reveals = "string \<Rightarrow> (string \<times> string) option"

datatype abs_round = Absent | Open_with reveals | Frozen_with reveals

inductive round_spec :: "abs_round \<Rightarrow> abs_round \<Rightarrow> bool" where
  Spec_stay: "round_spec a a"
| Spec_open: "round_spec Absent (Open_with (\<lambda>_. None))"
| Spec_accept: "m h = None \<Longrightarrow> round_spec (Open_with m) (Open_with (m(h \<mapsto> v)))"
| Spec_close: "round_spec (Open_with m) (Frozen_with m)"

inductive_cases round_spec_frozenE: "round_spec (Frozen_with m) a"
inductive_cases round_spec_openE: "round_spec (Open_with m) a"

definition accepted_of :: "'a db_scheme \<Rightarrow> round_key \<Rightarrow> reveals" where
  "accepted_of d k h =
     (case submission_of d k h of
        None \<Rightarrow> None
      | Some s \<Rightarrow> if sr_verdict s = Accepted
                 then Some (the (sr_bundle_json s), the (sr_nonce_hex s)) else None)"

definition abs_of :: "'a db_scheme \<Rightarrow> round_key \<Rightarrow> abs_round" where
  "abs_of d k =
     (case round_state d k of
        None \<Rightarrow> Absent
      | Some s \<Rightarrow> if s = Round_open then Open_with (accepted_of d k) else Frozen_with (accepted_of d k))"

lemma accepted_of_cong: "db_submissions d' = db_submissions d \<Longrightarrow> accepted_of d' k = accepted_of d k"
  by (simp add: accepted_of_def submission_of_def fun_eq_iff)

lemma abs_of_cong:
  "round_state d' k = round_state d k \<Longrightarrow> accepted_of d' k = accepted_of d k \<Longrightarrow> abs_of d' k = abs_of d k"
  by (simp only: abs_of_def)

lemma record_commit_accepted:
  assumes "record_commit k h ch now m d = (d', b)"
  shows "accepted_of d' k' = accepted_of d k'"
proof
  fix h'
  have upd: "accepted_of (d\<lparr>db_submissions := update_where (commit_updatable k h ch m)
      (commit_values ch now) (db_submissions d)\<rparr>) k' h' = accepted_of d k' h'"
    by (simp add: accepted_of_def submission_of_update split: option.splits)
      (simp add: commit_updatable_def commit_values_def)
  have app: "accepted_of (d\<lparr>db_submissions := db_submissions d @
      [(new_submission k h)\<lparr>sr_commit_hash := Some ch, sr_committed_at := Some now,
        sr_commit_count := 1, sr_verdict := Committed\<rparr>]\<rparr>) k' h' = accepted_of d k' h'"
    by (simp add: accepted_of_def submission_of_append split: option.splits)
  show "accepted_of d' k' h' = accepted_of d k' h'"
    using assms upd app by (auto simp: record_commit_def split: if_splits option.splits)
qed

lemma record_reveal_attempt_accepted:
  assumes "record_reveal_attempt k h m d = (d', b)"
  shows "accepted_of d' k' = accepted_of d k'"
proof
  fix h'
  show "accepted_of d' k' h' = accepted_of d k' h'"
    using assms
    by (cases "submission_of d k' h'")
      (auto simp: record_reveal_attempt_def accepted_of_def submission_of_update)
qed

text \<open>A reveal write adds at most its own, and only where nothing was accepted.\<close>

lemma reveal_values_sel [simp]:
  "sr_verdict (reveal_values b n a c now s) = (if a then Accepted else Rejected)"
  "sr_bundle_json (reveal_values b n a c now s) = Some b"
  "sr_nonce_hex (reveal_values b n a c now s) = Some n"
  by (simp_all add: reveal_values_def)

lemma record_reveal_accepted:
  assumes "record_reveal k h bj n acc code now d = (d', b)"
  shows "accepted_of d' k' = (if b \<and> acc \<and> k' = k then (accepted_of d k')(h \<mapsto> (bj, n)) else accepted_of d k')"
    "b \<Longrightarrow> round_state d k = Some Round_open \<and> accepted_of d k h = None"
proof -
  let ?new = "\<lambda>m. if acc \<and> k' = k then m(h \<mapsto> (bj, n)) else m"
  have upd: "accepted_of (d\<lparr>db_submissions := update_where (\<lambda>s. submission_key s = (k, h))
      (reveal_values bj n acc code now) (db_submissions d)\<rparr>) k' = ?new (accepted_of d k')"
    if "submission_of d k h = Some s" "sr_verdict s \<noteq> Accepted" for s
  proof
    fix h'
    have "submission_of (d\<lparr>db_submissions := update_where (\<lambda>s. submission_key s = (k, h))
        (reveal_values bj n acc code now) (db_submissions d)\<rparr>) k' h' =
        map_option (\<lambda>s. if (k', h') = (k, h) then reveal_values bj n acc code now s else s)
          (submission_of d k' h')"
      by (cases "submission_of d k' h'") (auto simp: submission_of_update dest: submission_of_Some)
    with that show "accepted_of (d\<lparr>db_submissions := update_where (\<lambda>s. submission_key s = (k, h))
        (reveal_values bj n acc code now) (db_submissions d)\<rparr>) k' h' = ?new (accepted_of d k') h'"
      by (cases "submission_of d k' h'"; cases "k' = k"; cases "h' = h")
        (simp_all add: accepted_of_def)
  qed
  have app: "accepted_of (d\<lparr>db_submissions := db_submissions d @
      [reveal_values bj n acc code now (new_submission k h)]\<rparr>) k' = ?new (accepted_of d k')"
    if "submission_of d k h = None"
  proof
    fix h'
    from that show "accepted_of (d\<lparr>db_submissions := db_submissions d @
        [reveal_values bj n acc code now (new_submission k h)]\<rparr>) k' h' = ?new (accepted_of d k') h'"
      by (cases "submission_of d k' h'"; cases "k' = k"; cases "h' = h")
        (simp_all add: accepted_of_def submission_of_append)
  qed
  show "accepted_of d' k' = (if b \<and> acc \<and> k' = k then (accepted_of d k')(h \<mapsto> (bj, n)) else accepted_of d k')"
    using assms upd app by (auto simp: record_reveal_def split: if_splits option.splits)
  show "b \<Longrightarrow> round_state d k = Some Round_open \<and> accepted_of d k h = None"
    using assms by (auto simp: record_reveal_def accepted_of_def split: if_splits option.splits)
qed

lemma storage_step_refines:
  assumes "storage_step d d'" "storage_ok d" "frozen_ok d"
  shows "round_spec (abs_of d k) (abs_of d' k)"
  using assms
proof (induction rule: storage_step.induct)
  case (St_open w schema_id u now p d d')
  let ?k = "(rw_round_id w, schema_id)"
  show ?case
  proof (cases "d' = d \<or> k \<noteq> ?k")
    case True
    have "round_state d' k = round_state d k \<and> db_submissions d' = db_submissions d"
    proof (cases "d' = d")
      case False
      then have "\<forall>k. k \<noteq> ?k \<longrightarrow> round_state d' k = round_state d k" "db_submissions d' = db_submissions d"
        using open_round_effect [OF St_open(1)] by argo+
      with False True show ?thesis by blast
    qed simp
    then have "abs_of d' k = abs_of d k" by (intro abs_of_cong accepted_of_cong) auto
    then show ?thesis by (simp add: Spec_stay)
  next
    case False
    then have e: "round_of d k = None" "round_state d' k = Some Round_open"
      "db_submissions d' = db_submissions d"
      using open_round_effect [OF St_open(1)] by auto
    have "submission_of d k h = None" for h
    proof (rule ccontr)
      assume "submission_of d k h \<noteq> None"
      then obtain s where "s \<in> set (db_submissions d)" "submission_key s = (k, h)"
        using submission_of_Some by blast
      then have "k \<in> round_key ` set (db_rounds d)"
        using St_open(2) unfolding storage_ok_def by (metis fst_conv)
      then show False using e(1) by (simp add: round_of_None)
    qed
    then have "accepted_of d' k = (\<lambda>_. None)"
      unfolding accepted_of_cong [OF e(3)] by (simp add: accepted_of_def fun_eq_iff)
    with e(2) have "abs_of d' k = Open_with (\<lambda>_. None)" by (simp add: abs_of_def)
    moreover have "abs_of d k = Absent" using e(1) by (simp add: abs_of_def round_state_def)
    ultimately show ?thesis by (simp add: Spec_open)
  qed
next
  case (St_commit kc h ch now m d d' b)
  then have "abs_of d' k = abs_of d k"
    by (intro abs_of_cong record_commit_frame(1) [OF St_commit(1)] record_commit_accepted [OF St_commit(1)])
  then show ?case by (simp add: Spec_stay)
next
  case (St_attempt ka h m d d' b)
  then have "abs_of d' k = abs_of d k"
    by (intro abs_of_cong record_reveal_attempt_frame(1) [OF St_attempt(1)]
        record_reveal_attempt_accepted [OF St_attempt(1)])
  then show ?case by (simp add: Spec_stay)
next
  case (St_reveal kr h bj n acc code now d d' b)
  have st: "round_state d' k = round_state d k" by (rule record_reveal_frame(1) [OF St_reveal(1)])
  note ra = record_reveal_accepted [OF St_reveal(1)]
  show ?case
  proof (cases "b \<and> acc \<and> k = kr")
    case True
    with ra(1) [of k] ra(2) st have "abs_of d k = Open_with (accepted_of d k)"
      "abs_of d' k = Open_with ((accepted_of d k)(h \<mapsto> (bj, n)))" "accepted_of d k h = None"
      by (simp_all add: abs_of_def)
    then show ?thesis by (simp add: Spec_accept)
  next
    case False
    with ra(1) [of k] have "accepted_of d' k = accepted_of d k" by auto
    with st have "abs_of d' k = abs_of d k" by (rule abs_of_cong)
    then show ?thesis by (simp add: Spec_stay)
  qed
next
  case (St_close d' kc now d)
  have acc: "accepted_of d' k = accepted_of d k" by (rule accepted_of_cong) (simp add: St_close(1))
  have st: "round_state d' k = (if k = kc \<and> round_state d kc = Some Round_open
      then Some Round_revealed else round_state d k)"
    using close_round_state [OF St_close(2,3)] St_close(1) by simp
  show ?case
  proof (cases "k = kc \<and> round_state d kc = Some Round_open")
    case True
    then have "abs_of d k = Open_with (accepted_of d k)" "abs_of d' k = Frozen_with (accepted_of d k)"
      using acc st by (simp_all add: abs_of_def)
    then show ?thesis by (simp add: Spec_close)
  next
    case False
    then have "round_state d' k = round_state d k" using st by simp
    then have "abs_of d' k = abs_of d k" using acc by (rule abs_of_cong)
    then show ?thesis by (simp add: Spec_stay)
  qed
next
  case (St_score d kc st d' now)
  note e = set_round_state_effect [OF St_score(1), of st now, folded St_score(3)]
  have "abs_of d' k = abs_of d k"
  proof (cases "k = kc")
    case True
    with St_score(1,2) show ?thesis
      by (auto simp: abs_of_def e(1) accepted_of_cong [OF e(2)])
  next
    case False
    then show ?thesis by (intro abs_of_cong accepted_of_cong [OF e(2)]) (simp add: e(1))
  qed
  then show ?case by (simp add: Spec_stay)
qed

subsection \<open>What a round keeps\<close>

definition storage_inv :: "'a db_scheme \<Rightarrow> bool" where
  "storage_inv d \<longleftrightarrow> storage_ok d \<and> frozen_ok d"

lemma storage_inv_step: "storage_step d d' \<Longrightarrow> storage_inv d \<Longrightarrow> storage_inv d'"
  by (auto simp: storage_inv_def intro: storage_step_ok storage_step_frozen)

lemma storage_inv_steps: "storage_step\<^sup>*\<^sup>* d d' \<Longrightarrow> storage_inv d \<Longrightarrow> storage_inv d'"
  by (induction rule: rtranclp_induct) (auto intro: storage_inv_step)

lemma round_spec_steps:
  "storage_step\<^sup>*\<^sup>* d d' \<Longrightarrow> storage_inv d \<Longrightarrow> round_spec\<^sup>*\<^sup>* (abs_of d k) (abs_of d' k)"
proof (induction rule: rtranclp_induct)
  case (step d' d'')
  then have "storage_inv d'" by (auto intro: storage_inv_steps)
  with step show ?case
    by (auto simp: storage_inv_def intro: storage_step_refines rtranclp.rtrancl_into_rtrancl)
qed simp

fun abs_accepted :: "abs_round \<Rightarrow> reveals" where
  "abs_accepted Absent = (\<lambda>_. None)"
| "abs_accepted (Open_with m) = m"
| "abs_accepted (Frozen_with m) = m"

lemma round_spec_accepted: "round_spec a b \<Longrightarrow> abs_accepted a h = Some v \<Longrightarrow> abs_accepted b h = Some v"
  by (induction rule: round_spec.induct) auto

lemma round_spec_steps_accepted:
  "round_spec\<^sup>*\<^sup>* a b \<Longrightarrow> abs_accepted a h = Some v \<Longrightarrow> abs_accepted b h = Some v"
  by (induction rule: rtranclp_induct) (auto intro: round_spec_accepted)

lemma round_spec_steps_frozen: "round_spec\<^sup>*\<^sup>* (Frozen_with m) b \<Longrightarrow> b = Frozen_with m"
  by (induction rule: rtranclp_induct) (auto elim: round_spec_frozenE)

lemma abs_accepted_abs_of:
  "round_state d k \<noteq> None \<Longrightarrow> abs_accepted (abs_of d k) = accepted_of d k"
  by (auto simp: abs_of_def split: option.splits)

lemma accepted_has_round:
  assumes "storage_ok d" "accepted_of d k h = Some v"
  shows "round_state d k \<noteq> None"
proof -
  from assms(2) obtain s where "submission_of d k h = Some s"
    by (auto simp: accepted_of_def split: option.splits)
  then have "s \<in> set (db_submissions d)" "submission_key s = (k, h)"
    using submission_of_Some by blast+
  then have "k \<in> round_key ` set (db_rounds d)"
    using assms(1) unfolding storage_ok_def by (metis fst_conv)
  then show ?thesis using round_of_None [of d k] by (auto simp: round_state_def)
qed

lemma accepted_final:
  assumes "storage_step\<^sup>*\<^sup>* d d'" "storage_inv d" "accepted_of d k h = Some v"
  shows "accepted_of d' k h = Some v"
proof -
  have rs: "round_state d k \<noteq> None"
    using assms(2,3) by (intro accepted_has_round [of d k h v]) (simp_all add: storage_inv_def)
  then have "abs_accepted (abs_of d k) h = Some v"
    using assms(3) abs_accepted_abs_of [of d k] by simp
  then have "abs_accepted (abs_of d' k) h = Some v"
    by (rule round_spec_steps_accepted [OF round_spec_steps [OF assms(1,2)]])
  then show ?thesis by (auto simp: abs_of_def split: option.splits if_splits)
qed

lemma bundles_of_accepted:
  assumes "storage_ok d"
  shows "map_of (accepted_bundles d k) h = map_option fst (accepted_of d k h)"
proof -
  define rows where "rows = filter (\<lambda>s. fst (submission_key s) = k \<and> sr_verdict s = Accepted) (db_submissions d)"
  define f where "f s = (sr_hotkey s, case sr_bundle_json s of Some b \<Rightarrow> b | None \<Rightarrow> [])" for s :: submission_row
  have ab: "accepted_bundles d k = map f (sort_key sr_hotkey rows)"
    by (simp add: accepted_bundles_def rows_def f_def)
  have dist: "distinct (map fst (accepted_bundles d k))" using assms by (rule accepted_hotkeys_distinct)
  have u: "unique_on submission_key (db_submissions d)"
    and ok: "\<And>s. s \<in> set (db_submissions d) \<Longrightarrow> row_ok s"
    using assms by (auto simp: storage_ok_def)
  show ?thesis
  proof (cases "accepted_of d k h")
    case None
    have "h \<notin> fst ` set (accepted_bundles d k)"
    proof
      assume "h \<in> fst ` set (accepted_bundles d k)"
      then obtain s where s: "s \<in> set (db_submissions d)" "fst (submission_key s) = k"
        "sr_verdict s = Accepted" "sr_hotkey s = h"
        by (auto simp: ab rows_def f_def)
      then have "submission_of d k h = Some s"
        using submission_of_member [OF u s(1)] by (simp add: submission_key_def)
      with None s(3) show False by (simp add: accepted_of_def)
    qed
    with None show ?thesis by (simp add: map_of_eq_None_iff)
  next
    case (Some v)
    then obtain s where s: "submission_of d k h = Some s" "sr_verdict s = Accepted"
      "v = (the (sr_bundle_json s), the (sr_nonce_hex s))"
      by (auto simp: accepted_of_def split: option.splits if_splits)
    then have mem: "s \<in> set (db_submissions d)" "submission_key s = (k, h)"
      using submission_of_Some by blast+
    with s(2) have "s \<in> set rows" by (simp add: rows_def)
    moreover have "f s = (h, fst v)"
      using mem s(2,3) ok [of s] by (auto simp: f_def submission_key_def row_ok_def)
    ultimately have "(h, fst v) \<in> set (accepted_bundles d k)"
      unfolding ab set_map set_sort by (metis imageI)
    then show ?thesis using dist Some by (simp add: map_of_is_SomeI)
  qed
qed

text \<open>The scored bundles of a closed round are the frozen map, in hotkey order.\<close>

lemma sorted_assoc_eqI:
  fixes xs ys :: "(string \<times> 'v) list"
  assumes "sorted (map fst xs)" "distinct (map fst xs)" "sorted (map fst ys)" "distinct (map fst ys)"
    "map_of xs = map_of ys"
  shows "xs = ys"
proof -
  have "set xs = set ys" using map_of_inject_set [OF assms(2,4)] assms(5) by simp
  moreover have "inj_on fst (set xs)" using assms(2) by (simp add: distinct_map)
  ultimately show ?thesis using assms(1-4)
    by (intro map_sorted_distinct_set_unique [of fst xs ys]) simp_all
qed

lemma closed_round_frozen:
  assumes "storage_step\<^sup>*\<^sup>* d d'" "storage_inv d" "round_state d k = Some st" "st \<noteq> Round_open"
  shows "scoring_bundles d' k limit offset = scoring_bundles d k limit offset"
    "\<exists>st'. round_state d' k = Some st' \<and> st' \<noteq> Round_open"
proof -
  have abs: "abs_of d' k = abs_of d k"
    using round_spec_steps [OF assms(1,2), of k] assms(3,4) by (auto simp: abs_of_def dest: round_spec_steps_frozen)
  then obtain st' where st': "round_state d' k = Some st'" "st' \<noteq> Round_open" "accepted_of d' k = accepted_of d k"
    using assms(3,4) by (auto simp: abs_of_def split: option.splits if_splits)
  then show "\<exists>st'. round_state d' k = Some st' \<and> st' \<noteq> Round_open" by blast
  have ok: "storage_ok d" "storage_ok d'" "frozen_ok d" "frozen_ok d'"
    using assms(2) storage_inv_steps [OF assms(1,2)] by (simp_all add: storage_inv_def)
  have "accepted_bundles d' k = accepted_bundles d k"
    by (rule sorted_assoc_eqI)
      (simp_all add: accepted_sorted accepted_hotkeys_distinct ok bundles_of_accepted st'(3) fun_eq_iff)
  then have "consensus_bundles d' k = consensus_bundles d k"
    using frozen_okD(2) [OF ok(3) assms(3,4)] frozen_okD(2) [OF ok(4) st'(1,2)] by simp
  with assms(3,4) st' show "scoring_bundles d' k limit offset = scoring_bundles d k limit offset"
    by (simp add: scoring_bundles_def post_embargo_def)
qed

text \<open>The life cycle only moves forward.\<close>

fun round_state_rank :: "round_state option \<Rightarrow> nat" where
  "round_state_rank None = 0"
| "round_state_rank (Some Round_open) = 1"
| "round_state_rank (Some Round_revealed) = 2"
| "round_state_rank (Some Round_partially_scored) = 3"
| "round_state_rank (Some Round_closed) = 4"

lemma storage_step_rank:
  assumes "storage_step d d'" "storage_inv d"
  shows "round_state_rank (round_state d k) \<le> round_state_rank (round_state d' k)"
  using assms
proof (induction rule: storage_step.induct)
  case (St_open w schema_id u now p d d')
  show ?case
  proof (cases "d' = d")
    case False
    then have "round_of d (rw_round_id w, schema_id) = None"
      "\<forall>k. k \<noteq> (rw_round_id w, schema_id) \<longrightarrow> round_state d' k = round_state d k"
      using open_round_effect [OF St_open(1)] by argo+
    note new = this
    show ?thesis
    proof (cases "k = (rw_round_id w, schema_id)")
      case True
      with new(1) show ?thesis by (simp add: round_state_def)
    next
      case False
      with new(2) have "round_state d' k = round_state d k" by blast
      then show ?thesis by simp
    qed
  qed simp
next
  case (St_commit kc h ch now m d d' b)
  then show ?case using record_commit_frame(1) [OF St_commit(1)] by simp
next
  case (St_attempt ka h m d d' b)
  then show ?case using record_reveal_attempt_frame(1) [OF St_attempt(1)] by simp
next
  case (St_reveal kr h bj n acc code now d d' b)
  then show ?case using record_reveal_frame(1) [OF St_reveal(1)] by simp
next
  case (St_close d' kc now d)
  then show ?case by (auto simp: close_round_state storage_inv_def)
next
  case (St_score d kc st d' now)
  then show ?case
    using set_round_state_effect(1) [OF St_score(1), of st now k] by auto
qed

lemma storage_steps_rank:
  assumes "storage_step\<^sup>*\<^sup>* d d'" "storage_inv d"
  shows "round_state_rank (round_state d k) \<le> round_state_rank (round_state d' k)"
  using assms
proof (induction rule: rtranclp_induct)
  case (step d' d'')
  then show ?case using storage_step_rank storage_inv_steps order_trans by blast
qed simp

subsection \<open>A round on concrete inputs\<close>

definition demo_key :: round_key where
  "demo_key = (''2025-01-02'', ''risk.v1.subnet_alpha'')"

definition demo_windows :: round_windows where
  "demo_windows =
     \<lparr>rw_round_id = ''2025-01-02'', commit_open = 10, commit_close = 20, t0_close = 25,
      reveal_open = 30, reveal_close = 40\<rparr>"

definition demo_open :: db where
  "demo_open =
     (case open_round demo_windows (snd demo_key) None 10 None empty_db of Inr d \<Rightarrow> d | Inl _ \<Rightarrow> empty_db)"

definition demo_committed :: db where
  "demo_committed = fst (record_commit demo_key ''hk1'' ''aa'' 15 (Some 10) demo_open)"

definition demo_revealed :: db where
  "demo_revealed = fst (record_reveal demo_key ''hk1'' ''{}'' ''00'' True None 35 demo_committed)"

definition demo_closed :: db where
  "demo_closed = close_round demo_key 41 demo_revealed"

definition demo_late :: db where
  "demo_late = fst (record_reveal demo_key ''hk2'' ''[]'' ''11'' True None 42 demo_closed)"

lemma demo_open_step: "storage_step empty_db demo_open"
proof -
  have "open_round demo_windows (snd demo_key) None 10 None empty_db = Inr demo_open"
    by (simp add: demo_open_def open_round_def demo_windows_def Let_def empty_db_def round_of_def)
  then show ?thesis by (rule St_open)
qed

lemma demo_steps:
  "storage_step demo_open demo_committed" "storage_step demo_committed demo_revealed"
  "storage_step demo_revealed demo_closed" "storage_step demo_closed demo_late"
  unfolding demo_committed_def demo_revealed_def demo_closed_def demo_late_def
  by (rule St_commit St_reveal St_close, rule prod.collapse [symmetric] refl)+

lemma demo_runs:
  "storage_step\<^sup>*\<^sup>* demo_committed demo_closed" "storage_step\<^sup>*\<^sup>* demo_revealed demo_late"
  "storage_step\<^sup>*\<^sup>* demo_closed demo_late"
  using demo_steps by (blast intro: r_into_rtranclp rtranclp_trans)+

lemma demo_reachable: "reachable demo_committed" "reachable demo_revealed" "reachable demo_closed"
  using Reach_empty demo_open_step demo_steps by (blast intro: Reach_step)+

lemma demo_inv: "storage_inv demo_committed" "storage_inv demo_revealed" "storage_inv demo_closed"
  using demo_reachable reachable_ok by (auto simp: storage_inv_def)

lemma demo_values:
  "round_state demo_closed demo_key = Some Round_revealed"
  "accepted_of demo_revealed demo_key ''hk1'' = Some (''{}'', ''00'')"
  "scoring_bundles demo_closed demo_key None 0 = [(''hk1'', ''{}'')]"
  "round_state demo_revealed demo_key = Some Round_open"
  "accepted_of demo_committed demo_key ''hk1'' = None"
  by code_simp+

lemma accepted_reveal_eq:
  assumes "storage_inv d"
  shows "accepted_reveal d k h = accepted_of d k h"
proof -
  have ok: "storage_ok d" "frozen_ok d" using assms by (simp_all add: storage_inv_def)
  have u: "unique_on submission_key (db_submissions d)" using ok(1) by (simp add: storage_ok_def)
  let ?p = "\<lambda>s. submission_key s = (k, h) \<and> sr_verdict s = Accepted \<and> round_of d k \<noteq> None
      \<and> (round_state d k = Some Round_open \<or> frozen_member d s)"
  show ?thesis
  proof (cases "accepted_of d k h")
    case None
    have "\<not> ?p s" if "s \<in> set (db_submissions d)" for s
      using None that submission_of_member [OF u that] by (auto simp: accepted_of_def)
    then have "select_one ?p (db_submissions d) = None" by (simp only: select_one_None) blast
    then show ?thesis unfolding accepted_reveal_def None by (simp only: option.case)
  next
    case (Some v)
    then obtain s where s: "submission_of d k h = Some s" "sr_verdict s = Accepted"
      "v = (the (sr_bundle_json s), the (sr_nonce_hex s))"
      by (auto simp: accepted_of_def split: option.splits if_splits)
    then have mem: "s \<in> set (db_submissions d)" "submission_key s = (k, h)"
      using submission_of_Some by blast+
    have row: "row_ok s" using ok(1) mem(1) by (simp add: storage_ok_def)
    have rs: "round_state d k \<noteq> None" using ok(1) Some by (rule accepted_has_round)
    have "round_state d k = Some Round_open \<or> frozen_member d s"
    proof (cases "round_state d k = Some Round_open")
      case False
      with rs obtain st where "round_state d k = Some st" "st \<noteq> Round_open" by auto
      then have eq: "consensus_bundles d k = accepted_bundles d k" by (rule frozen_okD(2) [OF ok(2)])
      have "map_of (accepted_bundles d k) h = Some (fst v)"
        using Some by (simp add: bundles_of_accepted [OF ok(1)])
      then have "(h, fst v) \<in> set (consensus_bundles d k)" by (auto simp: eq dest: map_of_SomeD)
      then obtain n where "n \<in> set (db_snapshots d)" "snapshot_key n = (k, h)" "sn_bundle_json n = fst v"
        by (auto simp: consensus_bundles_def snapshot_key_def)
      with mem s row have "frozen_member d s" by (auto simp: frozen_member_def row_ok_def)
      then show ?thesis by simp
    qed simp
    then have p: "?p s" using mem s(2) rs by (simp add: round_state_def)
    then obtain t where t: "select_one ?p (db_submissions d) = Some t"
      using mem(1) select_one_None [of ?p "db_submissions d"] by (metis (no_types, lifting) option.exhaust)
    then have "t \<in> set (db_submissions d)" "submission_key t = (k, h)"
      using select_one_SomeD [OF t] by blast+
    then have "t = s" using unique_on_eq [OF u] mem by metis
    with t s row Some show ?thesis by (auto simp: accepted_reveal_def row_ok_def)
  qed
qed

lemma reachable_inv: "reachable d \<Longrightarrow> storage_inv d"
  by (simp add: storage_inv_def reachable_ok)

subsection \<open>Every transaction, with the state change as it stands\<close>

text \<open>
  \<open>set_round_state\<close> itself has no guard: here it may set any round to any state.  Even so a snapshot
  that holds a bundle is never changed, and it is taken by whatever transaction ends the embargo.
\<close>

inductive transaction :: "'a db_scheme \<Rightarrow> 'a db_scheme \<Rightarrow> bool" where
  Tx_open: "open_round w schema_id u now p d = Inr d' \<Longrightarrow> transaction d d'"
| Tx_commit: "record_commit k h ch now m d = (d', b) \<Longrightarrow> transaction d d'"
| Tx_attempt: "record_reveal_attempt k h m d = (d', b) \<Longrightarrow> transaction d d'"
| Tx_reveal: "record_reveal k h bj n acc code now d = (d', b) \<Longrightarrow> transaction d d'"
| Tx_close: "transaction d (close_round k now d)"
| Tx_state: "transaction d (set_round_state k st now d)"

text \<open>What a round is scored from when it leaves the embargo: an earlier snapshot, or else its accepted reveals.\<close>

definition bundles_at_close :: "'a db_scheme \<Rightarrow> round_key \<Rightarrow> (string \<times> string) list" where
  "bundles_at_close d k = (if consensus_bundles d k = [] then accepted_bundles d k else consensus_bundles d k)"

lemma snapshot_taken:
  assumes "storage_ok d"
  shows "storage_ok (fst (snapshot_if_open k now d))"
    "consensus_bundles (fst (snapshot_if_open k now d)) k' =
       (if k' = k \<and> round_state d k = Some Round_open then bundles_at_close d k else consensus_bundles d k')"
proof -
  let ?d = "d\<lparr>db_snapshots := db_snapshots d @ map (snapshot_of k now) (accepted_bundles d k)\<rparr>"
  have "storage_ok (fst (snapshot_if_open k now d)) \<and> consensus_bundles (fst (snapshot_if_open k now d)) k' =
       (if k' = k \<and> round_state d k = Some Round_open then bundles_at_close d k else consensus_bundles d k')"
  proof (cases "round_state d k = Some Round_open \<and> consensus_bundles d k = []")
    case False
    then have "fst (snapshot_if_open k now d) = d" by (auto simp: snapshot_if_open_def)
    then show ?thesis using False assms by (auto simp: bundles_at_close_def)
  next
    case True
    then have none: "filter (\<lambda>n. fst (snapshot_key n) = k) (db_snapshots d) = []"
      by (simp only: consensus_bundles_Nil)
    then have new: "\<forall>hb \<in> set (accepted_bundles d k). (k, fst hb) \<notin> snapshot_key ` set (db_snapshots d)"
      by (auto simp: filter_empty_conv) (metis fst_conv)
    have s: "fst (snapshot_if_open k now d) = ?d"
      using True fold_insert_snapshot [OF accepted_hotkeys_distinct [OF assms] new]
      by (simp add: snapshot_if_open_def Let_def)
    have "unique_on snapshot_key (map (snapshot_of k now) (accepted_bundles d k))"
      using accepted_hotkeys_distinct [OF assms, of k]
      by (simp add: unique_on_def comp_def distinct_map inj_on_def)
    moreover have "k \<in> round_key ` set (db_rounds d)"
      using True round_of_None [of d k] by (auto simp: round_state_def)
    ultimately have "storage_ok ?d"
      using new by (intro storage_ok_append_snapshots [OF assms]) auto
    moreover have "consensus_bundles ?d k' =
        (if k' = k \<and> round_state d k = Some Round_open then bundles_at_close d k else consensus_bundles d k')"
      using True by (auto simp: bundles_at_close_def consensus_bundles_snapshot accepted_sorted
          consensus_bundles_other_key)
    ultimately show ?thesis by (simp only: s)
  qed
  then show "storage_ok (fst (snapshot_if_open k now d))"
    "consensus_bundles (fst (snapshot_if_open k now d)) k' =
       (if k' = k \<and> round_state d k = Some Round_open then bundles_at_close d k else consensus_bundles d k')"
    by simp_all
qed

lemma state_written:
  "consensus_bundles (set_round_state k st now d) k' =
     (if post_embargo st then consensus_bundles (fst (snapshot_if_open k now d)) k' else consensus_bundles d k')"
  "round_state (set_round_state k st now d) k' =
     (if k' = k then map_option (\<lambda>_. st) (round_state d k) else round_state d k')"
proof -
  have "db_rounds (fst (snapshot_if_open k now d)) = db_rounds d" by (simp add: snapshot_if_open_def Let_def)
  then have r: "round_of (fst (snapshot_if_open k now d)) = round_of d" by (simp add: round_of_def fun_eq_iff)
  have "round_of (set_round_state k st now d) k' =
      map_option (\<lambda>r. if round_key r = k then r\<lparr>rr_state := st, rr_updated_at := now\<rparr> else r) (round_of d k')"
    unfolding set_round_state_def Let_def by (subst round_of_update_round) (simp_all add: round_key_def r)
  then show "round_state (set_round_state k st now d) k' =
     (if k' = k then map_option (\<lambda>_. st) (round_state d k) else round_state d k')"
    by (cases "round_of d k'") (auto simp: round_state_def dest: round_of_Some)
qed (simp add: set_round_state_def Let_def)

text \<open>A transaction keeps a snapshot that holds a bundle.\<close>

lemma transaction_keeps:
  assumes "transaction d d'" "storage_ok d"
  shows "storage_ok d'" "consensus_bundles d k \<noteq> [] \<Longrightarrow> consensus_bundles d' k = consensus_bundles d k"
proof -
  have "storage_ok d' \<and> (consensus_bundles d k \<noteq> [] \<longrightarrow> consensus_bundles d' k = consensus_bundles d k)"
    using assms(1)
  proof cases
    case (Tx_open w s u now p)
    have "d' = d \<or> db_snapshots d' = db_snapshots d" using open_round_effect [OF Tx_open] by blast
    then show ?thesis using open_round_ok [OF Tx_open assms(2)] bundles_cong(2) [of d' d k] by blast
  next
    case (Tx_commit kc h ch now m b)
    then show ?thesis using record_commit_frame(2) [OF Tx_commit] record_commit_ok [OF Tx_commit assms(2)] by simp
  next
    case (Tx_attempt ka h m b)
    then show ?thesis
      using record_reveal_attempt_frame(2) [OF Tx_attempt] record_reveal_attempt_ok [OF Tx_attempt assms(2)] by simp
  next
    case (Tx_reveal kr h bj n acc code now b)
    then show ?thesis using record_reveal_frame(2) [OF Tx_reveal] record_reveal_ok [OF Tx_reveal assms(2)] by simp
  next
    case (Tx_close kc now)
    have "storage_ok d'" unfolding Tx_close close_round_def flip_round_revealed_def
      by (intro storage_ok_update_round snapshot_taken(1) [OF assms(2)]) (simp add: round_key_def)
    then show ?thesis
      by (simp add: Tx_close close_round_def flip_round_revealed_def snapshot_taken(2) [OF assms(2)]
          bundles_at_close_def)
  next
    case (Tx_state kc st now)
    have "storage_ok d'" unfolding Tx_state set_round_state_def Let_def
      by (intro storage_ok_update_round) (simp_all add: round_key_def snapshot_taken(1) assms(2))
    then show ?thesis
      by (simp add: Tx_state state_written(1) snapshot_taken(2) [OF assms(2)] bundles_at_close_def)
  qed
  then show "storage_ok d'" "consensus_bundles d k \<noteq> [] \<Longrightarrow> consensus_bundles d' k = consensus_bundles d k"
    by blast+
qed

lemma transactions_keep:
  assumes "transaction\<^sup>*\<^sup>* d d'" "storage_ok d"
  shows "storage_ok d' \<and> (consensus_bundles d k \<noteq> [] \<longrightarrow> consensus_bundles d' k = consensus_bundles d k)"
  using assms(1)
proof (induction rule: rtranclp_induct)
  case (step d1 d2)
  then show ?case using transaction_keeps [OF step(2)] by auto
qed (simp add: assms(2))

text \<open>Only a close and a change of state end the embargo, and both take the snapshot first.\<close>

lemma transaction_closes:
  assumes "transaction d d'" "storage_ok d" "round_state d k = Some Round_open"
    and "round_state d' k = Some st" "post_embargo st"
  shows "consensus_bundles d' k = bundles_at_close d k"
  using assms(1)
proof cases
  case (Tx_open w s u now p)
  have "round_of d k \<noteq> None" using assms(3) by (auto simp: round_state_def)
  then have "round_state d' k = round_state d k" using open_round_effect [OF Tx_open] by metis
  then show ?thesis using assms(3-5) by (simp add: post_embargo_def)
next
  case (Tx_commit kc h ch now m b)
  then show ?thesis using record_commit_frame(1) [OF Tx_commit, of k] assms(3-5) by (simp add: post_embargo_def)
next
  case (Tx_attempt ka h m b)
  then show ?thesis using record_reveal_attempt_frame(1) [OF Tx_attempt, of k] assms(3-5) by (simp add: post_embargo_def)
next
  case (Tx_reveal kr h bj n acc code now b)
  then show ?thesis using record_reveal_frame(1) [OF Tx_reveal, of k] assms(3-5) by (simp add: post_embargo_def)
next
  case (Tx_close kc now)
  have "db_rounds (fst (snapshot_if_open kc now d)) = db_rounds d" by (simp add: snapshot_if_open_def Let_def)
  then have r: "round_state (fst (snapshot_if_open kc now d)) = round_state d"
    by (simp add: round_state_def round_of_def fun_eq_iff)
  have "kc = k" using assms(3-5) by (auto simp: Tx_close close_round_def round_state_flip r post_embargo_def split: if_splits)
  then show ?thesis
    using assms(3) by (simp add: Tx_close close_round_def flip_round_revealed_def snapshot_taken(2) [OF assms(2)])
next
  case (Tx_state kc x now)
  have "kc = k \<and> x = st" using assms(3-5) by (auto simp: Tx_state state_written(2) post_embargo_def split: if_splits)
  then show ?thesis
    using assms(3,5) by (simp add: Tx_state state_written(1) snapshot_taken(2) [OF assms(2)])
qed

text \<open>A round closed by the bare state change.\<close>

definition demo_forced :: db where
  "demo_forced = set_round_state demo_key Round_closed 41 demo_revealed"

definition demo_reopened :: db where
  "demo_reopened = fst (record_reveal demo_key ''hk2'' ''[]'' ''11'' True None 42
     (set_round_state demo_key Round_open 41 demo_forced))"


subsection \<open>Properties\<close>

text \<open>
  C1: Whatever sequence of repository transactions runs, each round follows its contract: absent,
  then open with a map of accepted reveals that only gains hotkeys it does not have, then frozen.  Here
  the state change is called as its only callers call it, on a round past its reveal.
\<close>

theorem round_steps_refine_contract:
  assumes "reachable d" "storage_step\<^sup>*\<^sup>* d d'"
  shows "round_spec\<^sup>*\<^sup>* (abs_of d k) (abs_of d' k)"
  by (rule round_spec_steps [OF assms(2) reachable_inv [OF assms(1)]])

lemma round_steps_refine_contract_witness:
  "round_spec\<^sup>*\<^sup>* (abs_of demo_committed demo_key) (abs_of demo_closed demo_key)
   \<and> abs_of demo_committed demo_key \<noteq> abs_of demo_closed demo_key"
proof -
  have "round_state demo_committed demo_key = Some Round_open" by code_simp
  then have "abs_of demo_committed demo_key \<noteq> abs_of demo_closed demo_key"
    by (simp add: abs_of_def demo_values)
  then show ?thesis
    using round_steps_refine_contract [OF demo_reachable(1) demo_runs(1)] by blast
qed

text \<open>
  C2: An accepted reveal is terminal: no later transaction, of any hotkey, in the open round or
  after its close, changes or withdraws it, so the retry identity \<open>accepted_reveal\<close> reports stays.
\<close>

theorem accepted_reveal_is_final:
  assumes "reachable d" "storage_step\<^sup>*\<^sup>* d d'" "accepted_reveal d k h = Some v"
  shows "accepted_reveal d' k h = Some v"
proof -
  have inv: "storage_inv d" by (rule reachable_inv [OF assms(1)])
  have inv': "storage_inv d'" by (rule storage_inv_steps [OF assms(2) inv])
  have "accepted_of d k h = Some v" using accepted_reveal_eq [OF inv] assms(3) by simp
  then have "accepted_of d' k h = Some v" by (rule accepted_final [OF assms(2) inv])
  then show ?thesis using accepted_reveal_eq [OF inv'] by simp
qed

lemma accepted_reveal_is_final_witness:
  "accepted_reveal demo_late demo_key ''hk1'' = Some (''{}'', ''00'')"
proof -
  have "accepted_reveal demo_revealed demo_key ''hk1'' = Some (''{}'', ''00'')" by code_simp
  then show ?thesis by (rule accepted_reveal_is_final [OF demo_reachable(2) demo_runs(2)])
qed

text \<open>
  C3: Whatever transaction ends the embargo of a round, the publication or a bare change of its state, a
  round with a reveal is from then on scored from the bundles accepted at that moment, or from its
  earlier snapshot: every page of \<open>scoring_bundles\<close> is the same after any further transactions, even if
  some of them reopen the round, take reveals and close it again.
\<close>

theorem closed_round_scores_from_snapshot:
  assumes "transaction\<^sup>*\<^sup>* empty_db d" "transaction d d1" "transaction\<^sup>*\<^sup>* d1 d'"
    and "round_state d k = Some Round_open" "round_state d1 k = Some st" "post_embargo st"
    and "round_state d' k = Some st'" "post_embargo st'" "bundles_at_close d k \<noteq> []"
  shows "scoring_bundles d' k limit offset = page limit offset (bundles_at_close d k)"
proof -
  have "storage_ok empty_db" by (simp add: storage_ok_def empty_db_def)
  then have ok: "storage_ok d" using transactions_keep [OF assms(1)] by blast
  have c: "consensus_bundles d1 k = bundles_at_close d k" by (rule transaction_closes [OF assms(2) ok assms(4-6)])
  have "consensus_bundles d' k = bundles_at_close d k"
    using transactions_keep [OF assms(3) transaction_keeps(1) [OF assms(2) ok]] c assms(9) by simp
  then show ?thesis using assms(7,8) by (simp add: scoring_bundles_def)
qed

lemma demo_transactions:
  "transaction\<^sup>*\<^sup>* empty_db demo_revealed" "transaction demo_revealed demo_forced"
  "transaction\<^sup>*\<^sup>* demo_forced (close_round demo_key 43 demo_reopened)"
proof -
  have o: "transaction empty_db demo_open"
    by (rule Tx_open [of demo_windows "snd demo_key" None 10 None])
      (simp add: demo_open_def open_round_def demo_windows_def Let_def empty_db_def round_of_def)
  have c: "transaction demo_open demo_committed" "transaction demo_committed demo_revealed"
    "transaction (set_round_state demo_key Round_open 41 demo_forced) demo_reopened"
    unfolding demo_committed_def demo_revealed_def demo_reopened_def
    by (rule Tx_commit Tx_reveal, rule prod.collapse [symmetric])+
  show "transaction\<^sup>*\<^sup>* empty_db demo_revealed" using o c(1,2) by (meson r_into_rtranclp rtranclp_trans)
  show "transaction demo_revealed demo_forced" unfolding demo_forced_def by (rule Tx_state)
  show "transaction\<^sup>*\<^sup>* demo_forced (close_round demo_key 43 demo_reopened)"
    using c(3) Tx_state [of demo_forced demo_key Round_open 41] Tx_close [of demo_reopened demo_key 43]
    by (meson r_into_rtranclp rtranclp_trans)
qed

lemma demo_forced_reads:
  "round_state demo_forced demo_key = Some Round_closed"
  "round_state (close_round demo_key 43 demo_reopened) demo_key = Some Round_revealed"
  "accepted_bundles demo_reopened demo_key = [(''hk1'', ''{}''), (''hk2'', ''[]'')]"
  "bundles_at_close demo_revealed demo_key = [(''hk1'', ''{}'')]"
  by code_simp+

lemma closed_round_scores_from_snapshot_witness:
  "scoring_bundles (close_round demo_key 43 demo_reopened) demo_key None 0 = [(''hk1'', ''{}'')]"
  using closed_round_scores_from_snapshot [OF demo_transactions(1-3) demo_values(4) demo_forced_reads(1) _
      demo_forced_reads(2), of None 0]
  by (simp add: post_embargo_def demo_forced_reads(4) page_def)

end
