(* ===== verification/Handlers.thy ===== *)
theory Handlers
  imports Validation Storage_Rounds
begin

text \<open>
  The axon handlers (\<open>endure/protocol/handlers.py\<close>).  A handler runs several repository transactions
  and other threads share the database, so each access is preceded by an interference \<open>g i\<close>: what
  other writers did to the database since the last access (the identity when there is none).  A
  reply is the message with its verdict fields set; an uncaught exception is \<open>Inl\<close>.
\<close>

record handler_config =
  hc_schema_id :: string
  hc_env :: validation_env
  hc_max_commits :: int
  hc_max_reveals :: int

definition max_commits_per_round :: int where
  "max_commits_per_round = 10"

definition max_reveals_per_round :: int where
  "max_reveals_per_round = 10"

type_synonym 'a interference = "nat \<Rightarrow> 'a db_scheme \<Rightarrow> 'a db_scheme"

definition apply_commit :: "submit_commit \<Rightarrow> verdict \<Rightarrow> submit_commit" where
  "apply_commit syn v =
     syn\<lparr>sc_accepted := vd_accepted v,
         sc_rejection_code := map_option rejection_text (vd_rejection_code v)\<rparr>"

definition apply_reveal :: "submit_reveal \<Rightarrow> verdict \<Rightarrow> submit_reveal" where
  "apply_reveal syn v =
     syn\<lparr>sv_accepted := vd_accepted v,
         sv_rejection_code := map_option rejection_text (vd_rejection_code v)\<rparr>"

definition commit_key :: "handler_config \<Rightarrow> submit_commit \<Rightarrow> round_key" where
  "commit_key cfg syn = (sc_round_id syn, hc_schema_id cfg)"

definition reveal_key :: "handler_config \<Rightarrow> submit_reveal \<Rightarrow> round_key" where
  "reveal_key cfg syn = (sv_round_id syn, hc_schema_id cfg)"

text \<open>The authoritative write of a valid commit, and the reply when it is refused.\<close>

definition settle_commit ::
  "handler_config \<Rightarrow> 'a interference \<Rightarrow> submit_commit \<Rightarrow> string \<Rightarrow> datetime \<Rightarrow> verdict \<Rightarrow> 'a db_scheme
     \<Rightarrow> 'a db_scheme \<times> verdict" where
  "settle_commit cfg g syn hotkey now v d =
     (let k = commit_key cfg syn
      in case record_commit k hotkey (sc_bundle_hash syn) now (Some (hc_max_commits cfg)) (g 3 d) of
        (d, recorded) \<Rightarrow>
          if recorded then (d, v)
          else let d = g 4 d
            in (d, reject (if round_state d k = Some Round_open then Rate_limited else Late_commit)))"

definition handle_commit ::
  "handler_config \<Rightarrow> 'a interference \<Rightarrow> submit_commit \<Rightarrow> string \<Rightarrow> datetime \<Rightarrow> 'a db_scheme
     \<Rightarrow> 'a db_scheme \<times> submit_commit" where
  "handle_commit cfg g syn hotkey now d =
     (let k = commit_key cfg syn; no = (\<lambda>code. apply_commit syn (reject code))
      in if sc_schema_id syn \<noteq> hc_schema_id cfg then (d, no Unknown_schema_code)
      else if \<not> is_canonical_round_id (sc_round_id syn) then (d, no Malformed_bundle)
      else let d = g 0 d in
      (case round_windows d k of
         None \<Rightarrow> (d, no Round_unavailable)
       | Some w \<Rightarrow>
      let d = g 1 d; capped = hc_max_commits cfg \<le> commit_count d k hotkey;
          d = (if capped then g 2 d else d);
          is_idempotent_retry = (capped \<and> committed_hash d k hotkey = Some (sc_bundle_hash syn))
      in if capped \<and> \<not> is_idempotent_retry then (d, no Rate_limited)
      else let v = validate_commit (hc_env cfg) (sc_round_id syn) (sc_schema_id syn)
             (sc_spec_version syn) (sc_bundle_hash syn) now (commit_open w) (commit_close w)
      in if vd_accepted v then
           (case settle_commit cfg g syn hotkey now v d of (d, v) \<Rightarrow> (d, apply_commit syn v))
         else (d, apply_commit syn v)))"

definition handler_validate ::
  "handler_config \<Rightarrow> submit_reveal \<Rightarrow> string option \<Rightarrow> string \<Rightarrow> datetime \<Rightarrow> round_windows \<Rightarrow> string list
     \<Rightarrow> uncaught + verdict" where
  "handler_validate cfg syn committed hotkey now w universe =
     validate_reveal (hc_env cfg) (sv_round_id syn) (sv_schema_id syn) (sv_spec_version syn)
       (sv_bundle_json syn) (sv_nonce_hex syn) committed hotkey now (reveal_open w) (reveal_close w)
       universe"

definition admit_reveal ::
  "handler_config \<Rightarrow> 'a interference \<Rightarrow> submit_reveal \<Rightarrow> string option \<Rightarrow> string \<Rightarrow> datetime \<Rightarrow> bool
     \<Rightarrow> round_windows \<Rightarrow> string list \<Rightarrow> 'a db_scheme \<Rightarrow> 'a db_scheme \<times> (uncaught + verdict)" where
  "admit_reveal cfg g syn committed hotkey now is_open_window w universe d =
     (let k = reveal_key cfg syn
      in if \<not> is_open_window \<or> committed = None
         then (d, handler_validate cfg syn committed hotkey now w universe)
      else (case record_reveal_attempt k hotkey (Some (hc_max_reveals cfg)) (g 4 d) of
        (d, charged) \<Rightarrow>
          if \<not> charged then
            let d = g 5 d
            in if accepted_reveal d k hotkey = Some (sv_bundle_json syn, sv_nonce_hex syn)
               then (d, Inr (accept None))
               else let d = g 6 d
                 in (d, Inr (reject (if round_state d k = Some Round_open then Rate_limited else Late_reveal)))
          else (d, handler_validate cfg syn committed hotkey now w universe)))"

definition settle_reveal ::
  "handler_config \<Rightarrow> 'a interference \<Rightarrow> submit_reveal \<Rightarrow> string \<Rightarrow> datetime \<Rightarrow> verdict \<Rightarrow> 'a db_scheme
     \<Rightarrow> 'a db_scheme \<times> verdict" where
  "settle_reveal cfg g syn hotkey now v d =
     (let k = reveal_key cfg syn
      in case record_reveal k hotkey (sv_bundle_json syn) (sv_nonce_hex syn) (vd_accepted v)
             (map_option rejection_text (vd_rejection_code v)) now (g 7 d) of
        (d, recorded) \<Rightarrow>
          if vd_accepted v \<and> \<not> recorded then
            let d = g 8 d
            in if accepted_reveal d k hotkey \<noteq> Some (sv_bundle_json syn, sv_nonce_hex syn)
               then (d, reject Late_reveal) else (d, v)
          else (d, v))"

definition handle_reveal ::
  "handler_config \<Rightarrow> 'a interference \<Rightarrow> submit_reveal \<Rightarrow> string \<Rightarrow> datetime \<Rightarrow> 'a db_scheme
     \<Rightarrow> 'a db_scheme \<times> (uncaught + submit_reveal)" where
  "handle_reveal cfg g syn hotkey now d =
     (let k = reveal_key cfg syn; no = (\<lambda>code. Inr (apply_reveal syn (reject code)))
      in if sv_schema_id syn \<noteq> hc_schema_id cfg then (d, no Unknown_schema_code)
      else if \<not> is_canonical_round_id (sv_round_id syn) then (d, no Malformed_bundle)
      else (case (if sv_spec_version syn \<noteq> current_version_key then Some Version_mismatch
                  else reveal_payload_rejection (sv_bundle_json syn) (sv_nonce_hex syn)) of
         Some code \<Rightarrow> (d, no code)
       | None \<Rightarrow>
      let d = g 0 d in
      (case round_windows d k of
         None \<Rightarrow> (d, no Round_unavailable)
       | Some w \<Rightarrow>
      let d = g 1 d in
      (case universe_for d k of
         Inl e \<Rightarrow> (d, Inl (Universe_raised e))
       | Inr None \<Rightarrow> (d, no Round_unavailable)
       | Inr (Some u) \<Rightarrow>
      let is_open_window = (reveal_open w \<le> now \<and> now \<le> reveal_close w);
          d = g 2 d; accepted = accepted_reveal d k hotkey;
          d = g 3 d; committed = committed_hash d k hotkey;
          is_accepted_retry =
            (is_open_window \<and> accepted = Some (sv_bundle_json syn, sv_nonce_hex syn))
      in (case (if is_accepted_retry then (d, Inr (accept None))
                else admit_reveal cfg g syn committed hotkey now is_open_window w (us_tickers u) d) of
         (d, Inl e) \<Rightarrow> (d, Inl e)
       | (d, Inr v) \<Rightarrow>
           if committed \<noteq> None \<and> is_open_window \<and> \<not> is_accepted_retry
              \<and> vd_rejection_code v \<noteq> Some Rate_limited
           then (case settle_reveal cfg g syn hotkey now v d of (d, v) \<Rightarrow> (d, Inr (apply_reveal syn v)))
           else (d, Inr (apply_reveal syn v)))))))"

subsection \<open>Handlers are repository transactions\<close>

definition benign :: "'a interference \<Rightarrow> bool" where
  "benign g \<longleftrightarrow> (\<forall>i d. storage_step\<^sup>*\<^sup>* d (g i d))"

lemma benignD: "benign g \<Longrightarrow> storage_step\<^sup>*\<^sup>* d d' \<Longrightarrow> storage_step\<^sup>*\<^sup>* d (g i d')"
  by (auto simp: benign_def intro: rtranclp_trans)

lemma benign_id: "benign (\<lambda>_ d. d)"
  by (simp add: benign_def)

text \<open>A predicate the transactions of a handler keep, and the interference too, holds after it.\<close>

lemma handle_commit_keeps:
  assumes "P d" and g: "\<And>i d. P d \<Longrightarrow> P (g i d)"
    and c: "\<And>k ch d. P d \<Longrightarrow> P (fst (record_commit k hk ch now (Some (hc_max_commits cfg)) d))"
  shows "P (fst (handle_commit cfg g syn hk now d))"
proof -
  have settle: "P (fst (settle_commit cfg g syn hk now v x))" if "P x" for v x
    using c [OF g [OF that, of 3], of "commit_key cfg syn" "sc_bundle_hash syn"] g
    by (cases "record_commit (commit_key cfg syn) hk (sc_bundle_hash syn) now
          (Some (hc_max_commits cfg)) (g 3 x)") (simp add: settle_commit_def Let_def)
  have body: "P (fst (case settle_commit cfg g syn hk now v x of (d, v) \<Rightarrow> (d, f v)))" if "P x" for v x f
    using settle [OF that, of v] by (auto split: prod.splits)
  show ?thesis
    using assms(1) by (auto simp: handle_commit_def Let_def intro!: body g split: option.splits)
qed

lemma admit_reveal_keeps:
  assumes "P d" and g: "\<And>i d. P d \<Longrightarrow> P (g i d)"
    and a: "\<And>k d. P d \<Longrightarrow> P (fst (record_reveal_attempt k hk (Some (hc_max_reveals cfg)) d))"
  shows "P (fst (admit_reveal cfg g syn c hk now ow w u d))"
  using a [OF g [OF assms(1), of 4], of "reveal_key cfg syn"] assms(1) g
  by (cases "record_reveal_attempt (reveal_key cfg syn) hk (Some (hc_max_reveals cfg)) (g 4 d)")
    (simp add: admit_reveal_def Let_def)

lemma settle_reveal_keeps:
  assumes "P d" and g: "\<And>i d. P d \<Longrightarrow> P (g i d)"
    and r: "\<And>k bj n acc code d. P d \<Longrightarrow> P (fst (record_reveal k hk bj n acc code now d))"
  shows "P (fst (settle_reveal cfg g syn hk now v d))"
proof -
  let ?r = "record_reveal (reveal_key cfg syn) hk (sv_bundle_json syn) (sv_nonce_hex syn)
      (vd_accepted v) (map_option rejection_text (vd_rejection_code v)) now (g 7 d)"
  have "P (fst ?r)" by (rule r [OF g [OF assms(1)]])
  with g show ?thesis by (cases ?r) (simp add: settle_reveal_def Let_def)
qed

lemma handle_reveal_keeps:
  assumes "P d" and g: "\<And>i d. P d \<Longrightarrow> P (g i d)"
    and a: "\<And>k d. P d \<Longrightarrow> P (fst (record_reveal_attempt k hk (Some (hc_max_reveals cfg)) d))"
    and r: "\<And>k bj n acc code d. P d \<Longrightarrow> P (fst (record_reveal k hk bj n acc code now d))"
  shows "P (fst (handle_reveal cfg g syn hk now d))"
proof -
  have settle: "P (fst (case settle_reveal cfg g syn hk now v x of (d, v) \<Rightarrow> (d, f v)))" if "P x" for v x f
    using settle_reveal_keeps [of P x g hk now cfg syn v] that g r by (auto split: prod.splits)
  have admit: "P (fst (admit_reveal cfg g syn c hk now ow w u x))" if "P x" for c ow w u x
    by (rule admit_reveal_keeps) (use that g a in auto)
  have body: "P (fst (case p of (d, Inl e) \<Rightarrow> (d, Inl e)
       | (d, Inr v) \<Rightarrow> if q v then (case settle_reveal cfg g syn hk now v d of (d, v) \<Rightarrow> (d, Inr (f v)))
           else (d, Inr (f v))))" if "P (fst p)" for p q f
    using that settle by (cases p; cases "snd p") auto
  show ?thesis
    using assms(1)
    by (auto simp: handle_reveal_def Let_def intro!: body admit g split: option.splits sum.splits)
qed

lemma handle_reveal_steps:
  assumes "benign g"
  shows "storage_step\<^sup>*\<^sup>* d (fst (handle_reveal cfg g syn hk now d))"
proof (rule handle_reveal_keeps)
  fix k x
  assume x: "storage_step\<^sup>*\<^sup>* d x"
  have "storage_step x (fst (record_reveal_attempt k hk (Some (hc_max_reveals cfg)) x))"
    by (rule St_attempt [OF prod.collapse [symmetric]])
  with x show "storage_step\<^sup>*\<^sup>* d (fst (record_reveal_attempt k hk (Some (hc_max_reveals cfg)) x))"
    by (rule rtranclp.rtrancl_into_rtrancl)
next
  fix k bj n acc code x
  assume x: "storage_step\<^sup>*\<^sup>* d x"
  have "storage_step x (fst (record_reveal k hk bj n acc code now x))"
    by (rule St_reveal [OF prod.collapse [symmetric]])
  with x show "storage_step\<^sup>*\<^sup>* d (fst (record_reveal k hk bj n acc code now x))"
    by (rule rtranclp.rtrancl_into_rtrancl)
qed (use assms benignD in auto)

lemma handle_commit_steps:
  assumes "benign g"
  shows "storage_step\<^sup>*\<^sup>* d (fst (handle_commit cfg g syn hk now d))"
proof (rule handle_commit_keeps)
  fix k ch x
  assume x: "storage_step\<^sup>*\<^sup>* d x"
  have "storage_step x (fst (record_commit k hk ch now (Some (hc_max_commits cfg)) x))"
    by (rule St_commit [OF prod.collapse [symmetric]])
  with x show "storage_step\<^sup>*\<^sup>* d (fst (record_commit k hk ch now (Some (hc_max_commits cfg)) x))"
    by (rule rtranclp.rtrancl_into_rtrancl)
qed (use assms benignD in auto)

subsection \<open>An accepted reply is durable\<close>

lemma accepted_reveal_stays:
  assumes "storage_inv d" "storage_step\<^sup>*\<^sup>* d d'" "accepted_reveal d k h = Some v"
  shows "accepted_reveal d' k h = Some v"
proof -
  have inv': "storage_inv d'" by (rule storage_inv_steps [OF assms(2,1)])
  have "accepted_of d k h = Some v" using accepted_reveal_eq [OF assms(1)] assms(3) by simp
  then have "accepted_of d' k h = Some v" by (rule accepted_final [OF assms(2,1)])
  then show ?thesis using accepted_reveal_eq [OF inv'] by simp
qed

lemma benign_inv: "benign g \<Longrightarrow> storage_inv d \<Longrightarrow> storage_inv (g i d)"
  by (meson benign_def storage_inv_steps)

lemma record_reveal_inv:
  assumes "storage_inv d" "record_reveal k h bj n acc code now d = (d', b)"
  shows "storage_inv d'"
  by (rule storage_inv_step [OF St_reveal [OF assms(2)] assms(1)])

lemma record_attempt_inv:
  assumes "storage_inv d" "record_reveal_attempt k h m d = (d', b)"
  shows "storage_inv d'"
  by (rule storage_inv_step [OF St_attempt [OF assms(2)] assms(1)])

lemma settle_reveal_durable:
  assumes "benign g" "storage_inv d" "settle_reveal cfg g syn hk now v d = (d', v')" "vd_accepted v'"
  shows "accepted_reveal d' (reveal_key cfg syn) hk = Some (sv_bundle_json syn, sv_nonce_hex syn)"
proof -
  let ?k = "reveal_key cfg syn" and ?bn = "(sv_bundle_json syn, sv_nonce_hex syn)"
  obtain d1 b where r: "record_reveal ?k hk (sv_bundle_json syn) (sv_nonce_hex syn) (vd_accepted v)
      (map_option rejection_text (vd_rejection_code v)) now (g 7 d) = (d1, b)" by fastforce
  have acc: "vd_accepted v" using assms(3,4) r by (auto simp: settle_reveal_def Let_def split: if_splits)
  show ?thesis
  proof (cases b)
    case True
    have "accepted_of d1 ?k = (accepted_of (g 7 d) ?k)(hk \<mapsto> ?bn)"
      using record_reveal_accepted(1) [OF r, of ?k] acc True by simp
    moreover have "storage_inv d1" using record_reveal_inv [OF benign_inv [OF assms(1,2)] r] .
    moreover have "d' = d1" using assms(3) r True by (simp add: settle_reveal_def)
    ultimately show ?thesis using accepted_reveal_eq [of d1 ?k hk] by simp
  next
    case False
    then show ?thesis using assms(3,4) r acc by (auto simp: settle_reveal_def Let_def split: if_splits)
  qed
qed

lemma admit_reveal_durable:
  assumes "admit_reveal cfg g syn c hk now ow w u d = (d', Inr v)" "vd_accepted v"
    "\<not> (c \<noteq> None \<and> ow \<and> vd_rejection_code v \<noteq> Some Rate_limited)"
    "ow \<longleftrightarrow> reveal_open w \<le> now \<and> now \<le> reveal_close w"
  shows False
  using assms
  by (auto simp: admit_reveal_def handler_validate_def Let_def split: if_splits prod.splits
      dest!: validate_reveal_accepts dest: validate_reveal_bundle_accepts)

lemma apply_reveal_sel [simp]:
  "sv_accepted (apply_reveal syn v) = vd_accepted v"
  "sv_rejection_code (apply_reveal syn v) = map_option rejection_text (vd_rejection_code v)"
  by (simp_all add: apply_reveal_def)

lemma apply_commit_sel [simp]:
  "sc_accepted (apply_commit syn v) = vd_accepted v"
  "sc_rejection_code (apply_commit syn v) = map_option rejection_text (vd_rejection_code v)"
  by (simp_all add: apply_commit_def)

text \<open>The two ways a reveal is accepted: the retry of an accepted one, and an admitted one.\<close>

lemma handle_reveal_acceptD:
  assumes "handle_reveal cfg g syn hk now d = (d', Inr reply)" "sv_accepted reply"
  defines "k \<equiv> reveal_key cfg syn" and "y \<equiv> g 3 (g 2 (g 1 (g 0 d)))"
  obtains w u where "round_windows (g 0 d) k = Some w" "universe_for (g 1 (g 0 d)) k = Inr (Some u)"
    "reveal_open w \<le> now" "now \<le> reveal_close w"
    "accepted_reveal (g 2 (g 1 (g 0 d))) k hk = Some (sv_bundle_json syn, sv_nonce_hex syn)" "d' = y"
  | w u z v ow where "round_windows (g 0 d) k = Some w" "universe_for (g 1 (g 0 d)) k = Inr (Some u)"
    "ow \<longleftrightarrow> reveal_open w \<le> now \<and> now \<le> reveal_close w"
    "admit_reveal cfg g syn (committed_hash y k hk) hk now ow w (us_tickers u) y = (z, Inr v)"
    "if committed_hash y k hk \<noteq> None \<and> ow \<and> vd_rejection_code v \<noteq> Some Rate_limited
     then \<exists>v'. settle_reveal cfg g syn hk now v z = (d', v') \<and> vd_accepted v'
     else d' = z \<and> vd_accepted v"
proof -
  let ?adm = "\<lambda>w u. admit_reveal cfg g syn (committed_hash y k hk) hk now
      (reveal_open w \<le> now \<and> now \<le> reveal_close w) w (us_tickers u) y"
  obtain w where w: "round_windows (g 0 d) k = Some w"
    using assms(1,2) by (auto simp: handle_reveal_def k_def Let_def split: if_splits option.splits)
  obtain u where u: "universe_for (g 1 (g 0 d)) k = Inr (Some u)"
    using assms(1,2) w
    by (auto simp: handle_reveal_def k_def Let_def split: if_splits option.splits sum.splits)
  show thesis
  proof (cases "reveal_open w \<le> now \<and> now \<le> reveal_close w
      \<and> accepted_reveal (g 2 (g 1 (g 0 d))) k hk = Some (sv_bundle_json syn, sv_nonce_hex syn)")
    case True
    then have "d' = y"
      using assms(1,2) w u
      by (auto simp: handle_reveal_def k_def [symmetric] y_def Let_def split: if_splits option.splits)
    with True w u that(1) show thesis by blast
  next
    case False
    have body: "(case ?adm w u of
         (d, Inl e) \<Rightarrow> (d, Inl e)
       | (d, Inr v) \<Rightarrow>
           if committed_hash y k hk \<noteq> None \<and> (reveal_open w \<le> now \<and> now \<le> reveal_close w)
              \<and> vd_rejection_code v \<noteq> Some Rate_limited
           then (case settle_reveal cfg g syn hk now v d of (d, v) \<Rightarrow> (d, Inr (apply_reveal syn v)))
           else (d, Inr (apply_reveal syn v))) = (d', Inr reply)"
      using assms(1,2) w u False
      by (auto simp: handle_reveal_def k_def y_def Let_def split: if_split_asm option.split_asm)
    obtain z v where z: "?adm w u = (z, Inr v)"
      using body by (cases "?adm w u"; cases "snd (?adm w u)") simp_all
    show thesis
      by (rule that(2) [OF w u refl z])
        (use body assms(2) in \<open>auto simp: z split: if_splits prod.splits\<close>)
  qed
qed

lemma handle_reveal_durable:
  assumes g: "benign g" and inv: "storage_inv d"
    and r: "handle_reveal cfg g syn hk now d = (d', Inr reply)" "sv_accepted reply"
  shows "accepted_reveal d' (reveal_key cfg syn) hk = Some (sv_bundle_json syn, sv_nonce_hex syn)"
  using r
proof (cases rule: handle_reveal_acceptD)
  case (1 w u)
  have "storage_inv (g 2 (g 1 (g 0 d)))" by (intro benign_inv [OF g] inv)
  moreover have "storage_step\<^sup>*\<^sup>* (g 2 (g 1 (g 0 d))) d'"
    unfolding 1(6) by (intro benignD [OF g] rtranclp.rtrancl_refl)
  ultimately show ?thesis using 1(5) by (rule accepted_reveal_stays)
next
  case (2 w u z v ow)
  let ?y = "g 3 (g 2 (g 1 (g 0 d)))"
  have inv_y: "storage_inv ?y" by (intro benign_inv [OF g] inv)
  show ?thesis
  proof (cases "committed_hash ?y (reveal_key cfg syn) hk \<noteq> None \<and> ow \<and> vd_rejection_code v \<noteq> Some Rate_limited")
    case True
    then obtain v' where s: "settle_reveal cfg g syn hk now v z = (d', v')" "vd_accepted v'"
      using 2(5) by auto
    have "storage_inv (fst (admit_reveal cfg g syn (committed_hash ?y (reveal_key cfg syn) hk) hk now ow w
        (us_tickers u) ?y))"
    proof (rule admit_reveal_keeps [where P = storage_inv])
      fix k x assume "storage_inv x"
      then show "storage_inv (fst (record_reveal_attempt k hk (Some (hc_max_reveals cfg)) x))"
        by (rule record_attempt_inv) (rule prod.collapse [symmetric])
    qed (use inv_y benign_inv [OF g] in auto)
    then have "storage_inv z" using 2(4) by simp
    then show ?thesis by (rule settle_reveal_durable [OF g _ s])
  next
    case False
    then have "vd_accepted v" using 2(5) by (simp split: if_splits)
    then show ?thesis using admit_reveal_durable [OF 2(4) _ False 2(3)] by blast
  qed
qed

subsection \<open>What a recorded commit leaves\<close>

lemma other_reads [simp]:
  "round_windows (d\<lparr>db_submissions := x\<rparr>) k = round_windows d k"
  "universe_for (d\<lparr>db_submissions := x\<rparr>) k = universe_for d k"
  by (simp_all add: round_windows_def universe_for_def)

lemma record_commit_reads:
  "round_windows (fst (record_commit k h ch now m d)) k' = round_windows d k'"
  "universe_for (fst (record_commit k h ch now m d)) k' = universe_for d k'"
  by (simp_all add: record_commit_def split: option.splits)

lemma record_reveal_attempt_reads:
  "round_windows (fst (record_reveal_attempt k h m d)) k' = round_windows d k'"
  "universe_for (fst (record_reveal_attempt k h m d)) k' = universe_for d k'"
  by (simp_all add: record_reveal_attempt_def)

lemma updatable_row:
  assumes "unique_on submission_key (db_submissions d)" "submission_of d k h = Some s"
    "t \<in> set (db_submissions d)" "submission_key t = (k, h)"
  shows "t = s"
  using unique_on_eq [OF assms(1)] submission_of_Some [OF assms(2)] assms(3,4) by metis

lemma commit_exists_updatable:
  assumes "unique_on submission_key (db_submissions d)" "submission_of d k h = Some s"
  shows "(\<exists>t \<in> set (db_submissions d). commit_updatable k h ch m t) \<longleftrightarrow> commit_updatable k h ch m s"
  using updatable_row [OF assms] submission_of_Some [OF assms(2)]
  by (auto simp: commit_updatable_def)

lemma commit_not_updatable_new:
  "submission_of d k h = None \<Longrightarrow> t \<in> set (db_submissions d) \<Longrightarrow> \<not> commit_updatable k h ch m t"
  by (force simp: commit_updatable_def submission_of_None)

lemma commit_values_sel [simp]:
  "sr_commit_hash (commit_values h now s) = Some h"
  "sr_commit_count (commit_values h now s) = sr_commit_count s + 1"
  "sr_reveal_count (commit_values h now s) = sr_reveal_count s"
  by (simp_all add: commit_values_def)

lemma record_commit_committed:
  assumes "unique_on submission_key (db_submissions d)" "record_commit k h ch now m d = (d', True)"
  shows "committed_hash d' k h = Some ch \<and> reveal_count d' k h = reveal_count d k h"
proof (cases "submission_of d k h")
  case None
  then have "\<not> (\<exists>t \<in> set (db_submissions d). commit_updatable k h ch m t)"
    using commit_not_updatable_new by blast
  with assms(2) None show ?thesis
    by (auto simp: record_commit_def committed_hash_def reveal_count_def submission_of_append
        new_submission_def submission_key_def split: if_splits)
next
  case (Some s)
  note row = commit_exists_updatable [OF assms(1) Some, of ch m]
  show ?thesis
  proof (cases "commit_updatable k h ch m s")
    case True
    with assms(2) row Some show ?thesis
      by (auto simp: record_commit_def committed_hash_def reveal_count_def submission_of_update
          split: if_splits)
  next
    case False
    with assms(2) row Some show ?thesis
      by (auto simp: record_commit_def committed_hash_def split: if_splits)
  qed
qed

lemma record_commit_succeeds:
  assumes "unique_on submission_key (db_submissions d)" "round_state d k = Some Round_open"
    "accepted_of d k h = None" "commit_count d k h < m"
  shows "snd (record_commit k h ch now (Some m) d)"
proof (cases "submission_of d k h")
  case (Some s)
  note row = commit_exists_updatable [OF assms(1) Some, of ch "Some m"]
  have "sr_verdict s \<noteq> Accepted" "sr_commit_count s < m"
    using assms(3,4) Some by (auto simp: accepted_of_def commit_count_def split: if_splits)
  then have "sr_commit_hash s \<noteq> Some ch \<Longrightarrow> commit_updatable k h ch (Some m) s"
    using submission_of_Some [OF Some] by (simp add: commit_updatable_def)
  with row Some assms(2) show ?thesis by (auto simp: record_commit_def)
qed (use assms(2) in \<open>auto simp: record_commit_def\<close>)

lemma record_reveal_attempt_charges:
  assumes "round_state d k = Some Round_open" "committed_hash d k h = Some ch" "reveal_count d k h < m"
  shows "snd (record_reveal_attempt k h (Some m) d)"
proof -
  obtain s where s: "submission_of d k h = Some s" "sr_commit_hash s = Some ch"
    using assms(2) by (auto simp: committed_hash_def bind_eq_Some_conv)
  then have "attempt_updatable d k h (Some m) s"
    using assms(1,3) submission_of_Some [OF s(1)] by (simp add: attempt_updatable_def reveal_count_def)
  then show ?thesis
    using submission_of_Some [OF s(1)] by (auto simp: record_reveal_attempt_def)
qed

lemma record_reveal_succeeds:
  assumes "round_state d k = Some Round_open" "accepted_of d k h = None"
  shows "snd (record_reveal k h bj n True code now d)"
  using assms by (auto simp: record_reveal_def accepted_of_def split: option.splits if_splits)

subsection \<open>The caps\<close>

definition caps_ok :: "int \<Rightarrow> int \<Rightarrow> 'a db_scheme \<Rightarrow> bool" where
  "caps_ok mc mr d \<longleftrightarrow>
     (\<forall>s \<in> set (db_submissions d). sr_commit_count s \<le> mc \<and> sr_reveal_count s \<le> mr)"

lemma caps_ok_update:
  assumes "caps_ok mc mr d"
    "\<And>s. s \<in> set (db_submissions d) \<Longrightarrow> p s \<Longrightarrow> sr_commit_count (f s) \<le> mc \<and> sr_reveal_count (f s) \<le> mr"
  shows "caps_ok mc mr (d\<lparr>db_submissions := update_where p f (db_submissions d)\<rparr>)"
  using assms by (auto simp: caps_ok_def set_update_where)

lemma record_commit_caps:
  assumes "caps_ok mc mr d" "1 \<le> mc" "0 \<le> mr"
  shows "caps_ok mc mr (fst (record_commit k h ch now (Some mc) d))"
proof -
  have "caps_ok mc mr (d\<lparr>db_submissions := update_where (commit_updatable k h ch (Some mc))
      (commit_values ch now) (db_submissions d)\<rparr>)"
    using assms(1) by (intro caps_ok_update) (auto simp: commit_updatable_def caps_ok_def)
  then show ?thesis
    using assms
    by (auto simp: record_commit_def caps_ok_def new_submission_def split: option.splits)
qed

lemma record_reveal_attempt_caps:
  assumes "caps_ok mc mr d"
  shows "caps_ok mc mr (fst (record_reveal_attempt k h (Some mr) d))"
  unfolding record_reveal_attempt_def fst_conv
  by (rule caps_ok_update [OF assms]) (use assms in \<open>auto simp: attempt_updatable_def caps_ok_def\<close>)

lemma record_reveal_caps:
  assumes "caps_ok mc mr d" "0 \<le> mc" "0 \<le> mr"
  shows "caps_ok mc mr (fst (record_reveal k h bj n acc code now d))"
proof -
  have "caps_ok mc mr (d\<lparr>db_submissions := update_where (\<lambda>s. submission_key s = (k, h))
      (reveal_values bj n acc code now) (db_submissions d)\<rparr>)"
    using assms(1) by (intro caps_ok_update) (auto simp: caps_ok_def reveal_values_def)
  then show ?thesis
    using assms
    by (auto simp: record_reveal_def caps_ok_def new_submission_def reveal_values_def split: option.splits)
qed


text \<open>The transactions of handlers with these caps, and those that leave submissions alone.\<close>

inductive capped_step :: "handler_config \<Rightarrow> 'a db_scheme \<Rightarrow> 'a db_scheme \<Rightarrow> bool" for cfg where
  Cap_commit: "record_commit k h ch now (Some (hc_max_commits cfg)) d = (d', b) \<Longrightarrow> capped_step cfg d d'"
| Cap_attempt: "record_reveal_attempt k h (Some (hc_max_reveals cfg)) d = (d', b) \<Longrightarrow> capped_step cfg d d'"
| Cap_reveal: "record_reveal k h bj n acc code now d = (d', b) \<Longrightarrow> capped_step cfg d d'"
| Cap_other: "storage_step d d' \<Longrightarrow> db_submissions d' = db_submissions d \<Longrightarrow> capped_step cfg d d'"

lemma capped_step_caps:
  assumes "capped_step cfg d d'" "caps_ok (hc_max_commits cfg) (hc_max_reveals cfg) d"
    "1 \<le> hc_max_commits cfg" "0 \<le> hc_max_reveals cfg"
  shows "caps_ok (hc_max_commits cfg) (hc_max_reveals cfg) d'"
  using assms(1)
proof cases
  case (Cap_commit k h ch now b)
  then show ?thesis using record_commit_caps [OF assms(2-4), of k h ch now] by simp
next
  case (Cap_attempt k h b)
  then show ?thesis using record_reveal_attempt_caps [OF assms(2), of k h] by simp
next
  case (Cap_reveal k h bj n acc code now b)
  then show ?thesis
    using record_reveal_caps [OF assms(2) _ assms(4), of k h bj n acc code now] assms(3) by simp
next
  case Cap_other
  then show ?thesis using assms(2) by (simp add: caps_ok_def)
qed

lemma capped_steps_caps:
  assumes "(capped_step cfg)\<^sup>*\<^sup>* d d'" "caps_ok (hc_max_commits cfg) (hc_max_reveals cfg) d"
    "1 \<le> hc_max_commits cfg" "0 \<le> hc_max_reveals cfg"
  shows "caps_ok (hc_max_commits cfg) (hc_max_reveals cfg) d'"
  using assms(1) by induction (use assms capped_step_caps in blast)+

lemma handle_commit_capped:
  assumes "\<And>i x. (capped_step cfg)\<^sup>*\<^sup>* x (g i x)"
  shows "(capped_step cfg)\<^sup>*\<^sup>* d (fst (handle_commit cfg g syn hk now d))"
proof (rule handle_commit_keeps)
  fix k ch x
  assume x: "(capped_step cfg)\<^sup>*\<^sup>* d x"
  have "capped_step cfg x (fst (record_commit k hk ch now (Some (hc_max_commits cfg)) x))"
    by (rule Cap_commit [OF prod.collapse [symmetric]])
  with x show "(capped_step cfg)\<^sup>*\<^sup>* d (fst (record_commit k hk ch now (Some (hc_max_commits cfg)) x))"
    by (rule rtranclp.rtrancl_into_rtrancl)
qed (use assms rtranclp_trans in \<open>auto intro: rtranclp_trans\<close>)

lemma handle_reveal_capped:
  assumes "\<And>i x. (capped_step cfg)\<^sup>*\<^sup>* x (g i x)"
  shows "(capped_step cfg)\<^sup>*\<^sup>* d (fst (handle_reveal cfg g syn hk now d))"
proof (rule handle_reveal_keeps)
  fix k x
  assume x: "(capped_step cfg)\<^sup>*\<^sup>* d x"
  have "capped_step cfg x (fst (record_reveal_attempt k hk (Some (hc_max_reveals cfg)) x))"
    by (rule Cap_attempt [OF prod.collapse [symmetric]])
  with x show "(capped_step cfg)\<^sup>*\<^sup>* d (fst (record_reveal_attempt k hk (Some (hc_max_reveals cfg)) x))"
    by (rule rtranclp.rtrancl_into_rtrancl)
next
  fix k bj n acc code x
  assume x: "(capped_step cfg)\<^sup>*\<^sup>* d x"
  have "capped_step cfg x (fst (record_reveal k hk bj n acc code now x))"
    by (rule Cap_reveal [OF prod.collapse [symmetric]])
  with x show "(capped_step cfg)\<^sup>*\<^sup>* d (fst (record_reveal k hk bj n acc code now x))"
    by (rule rtranclp.rtrancl_into_rtrancl)
qed (use assms in \<open>auto intro: rtranclp_trans\<close>)

lemma caps_ok_counts:
  assumes "caps_ok mc mr d" "0 \<le> mc" "0 \<le> mr"
  shows "commit_count d k h \<le> mc" "reveal_count d k h \<le> mr"
proof -
  have "sr_commit_count s \<le> mc \<and> sr_reveal_count s \<le> mr" if "submission_of d k h = Some s" for s
    using assms(1) submission_of_Some [OF that] by (simp add: caps_ok_def)
  then show "commit_count d k h \<le> mc" "reveal_count d k h \<le> mr"
    using assms(2,3) by (auto simp: commit_count_def reveal_count_def split: option.splits)
qed

subsection \<open>An honest submission\<close>

definition alone :: "'a interference" where
  "alone = (\<lambda>_ d. d)"

definition commit_message :: "handler_config \<Rightarrow> string \<Rightarrow> assembled_submission \<Rightarrow> submit_commit" where
  "commit_message cfg round_id a =
     \<lparr>sc_round_id = round_id, sc_schema_id = hc_schema_id cfg, sc_spec_version = current_version_key,
      sc_bundle_hash = asm_bundle_hash a, sc_accepted = False, sc_rejection_code = None\<rparr>"

definition reveal_message :: "handler_config \<Rightarrow> string \<Rightarrow> assembled_submission \<Rightarrow> submit_reveal" where
  "reveal_message cfg round_id a =
     \<lparr>sv_round_id = round_id, sv_schema_id = hc_schema_id cfg, sv_spec_version = current_version_key,
      sv_bundle_json = asm_bundle_json a, sv_nonce_hex = asm_nonce_hex a, sv_accepted = False,
      sv_rejection_code = None\<rparr>"

lemma alone_simp [simp]: "alone i d = d"
  by (simp add: alone_def)

lemma benign_alone: "benign alone"
  by (simp add: benign_def)

lemma commit_message_handled:
  assumes "unique_on submission_key (db_submissions d)" "round_state d k = Some Round_open"
    "round_windows d k = Some w" "accepted_of d k hk = None" "commit_count d k hk < hc_max_commits cfg"
    "vd_accepted (validate_commit (hc_env cfg) rid (hc_schema_id cfg) current_version_key
       (asm_bundle_hash a) now (commit_open w) (commit_close w))"
    "k = (rid, hc_schema_id cfg)"
  shows "\<exists>c. handle_commit cfg alone (commit_message cfg rid a) hk now d
       = (fst (record_commit k hk (asm_bundle_hash a) now (Some (hc_max_commits cfg)) d), c)
     \<and> sc_accepted c"
proof -
  have v: "is_canonical_round_id rid" using assms(6) by (simp add: validate_commit_accepts)
  obtain d1 where "record_commit k hk (asm_bundle_hash a) now (Some (hc_max_commits cfg)) d = (d1, True)"
    using record_commit_succeeds [OF assms(1,2,4,5), of "asm_bundle_hash a" now]
    by (cases "record_commit k hk (asm_bundle_hash a) now (Some (hc_max_commits cfg)) d") auto
  moreover have "\<not> hc_max_commits cfg \<le> commit_count d k hk" using assms(5) by simp
  ultimately show ?thesis
    using v assms(3,6,7)
    by (simp add: handle_commit_def settle_commit_def commit_message_def commit_key_def Let_def)
qed

lemma reveal_message_handled:
  assumes "round_state d k = Some Round_open" "round_windows d k = Some w"
    "universe_for d k = Inr (Some u)" "accepted_of d k hk = None" "storage_inv d"
    "committed_hash d k hk = Some (asm_bundle_hash a)" "reveal_count d k hk < hc_max_reveals cfg"
    "reveal_open w \<le> now" "now \<le> reveal_close w" "is_canonical_round_id rid"
    "reveal_payload_rejection (asm_bundle_json a) (asm_nonce_hex a) = None"
    "handler_validate cfg (reveal_message cfg rid a) (Some (asm_bundle_hash a)) hk now w (us_tickers u)
       = Inr (accept b)"
    "k = (rid, hc_schema_id cfg)"
  shows "\<exists>d' r. handle_reveal cfg alone (reveal_message cfg rid a) hk now d = (d', Inr r) \<and> sv_accepted r"
proof -
  let ?syn = "reveal_message cfg rid a"
  obtain d1 where d1: "record_reveal_attempt k hk (Some (hc_max_reveals cfg)) d = (d1, True)"
    using record_reveal_attempt_charges [OF assms(1,6,7)]
    by (cases "record_reveal_attempt k hk (Some (hc_max_reveals cfg)) d") auto
  have f: "sv_round_id ?syn = rid" "sv_schema_id ?syn = hc_schema_id cfg" "sv_bundle_json ?syn = asm_bundle_json a"
    "sv_nonce_hex ?syn = asm_nonce_hex a" "sv_spec_version ?syn = current_version_key"
    "reveal_key cfg ?syn = k"
    by (simp_all add: reveal_message_def reveal_key_def assms(13))
  have "round_state d1 k = Some Round_open" "accepted_of d1 k hk = None"
    using record_reveal_attempt_frame(1) [OF d1, of k] record_reveal_attempt_accepted [OF d1, of k]
      assms(1,4) by simp_all
  then obtain d2 where d2: "record_reveal k hk (asm_bundle_json a) (asm_nonce_hex a) True None now d1 = (d2, True)"
    using record_reveal_succeeds [of d1 k hk "asm_bundle_json a" "asm_nonce_hex a" None now]
    by (cases "record_reveal k hk (asm_bundle_json a) (asm_nonce_hex a) True None now d1") auto
  have adm: "admit_reveal cfg alone ?syn (Some (asm_bundle_hash a)) hk now True w (us_tickers u) d
      = (d1, Inr (accept b))"
    using d1 assms(12) by (simp add: admit_reveal_def f)
  have settle: "settle_reveal cfg alone ?syn hk now (accept b) d1 = (d2, accept b)"
    using d2 by (simp add: settle_reveal_def f)
  have none: "accepted_reveal d k hk = None"
    using accepted_reveal_eq [OF assms(5)] assms(4) by simp
  show ?thesis
    using assms(2,3,6,8-11) none adm settle
    by (simp add: handle_reveal_def f)
qed

end
