(* ===== verification/Submission.thy ===== *)
theory Submission
  imports Handlers
begin

text \<open>
  A submission end to end: what a miner assembles (\<open>endure/protocol/bundles.py\<close>), commits and reveals
  against the handlers of a validator, and what an accepted reply promises.
\<close>

subsection \<open>Registered schemas\<close>

lemma the_registry_entry:
  assumes "registry_entry_of sid (the_registry sha256) = Some e"
  shows "re_schema_id e = sid" "entry_faithful e" "membership_canonical e"
proof -
  have e: "sid = forge_lending_schema_id \<and> e = lending_entry sha256
      \<or> sid = risk_schema_id \<and> e = risk_entry sha256"
    using assms by (auto simp: registry_entry_of_def the_registry_get split: if_splits sum.splits)
  show "re_schema_id e = sid" using e entry_ids by auto
  show "entry_faithful e" "membership_canonical e"
    using e entries_faithful [of sha256] entries_membership_canonical [of sha256] by blast+
qed

text \<open>What an honest miner and the round it submits to must satisfy.\<close>

record honest_run =
  ho_bundle :: wire_bundle
  ho_payload :: node
  ho_nonce :: bytes
  ho_hotkey :: string
  ho_commit_at :: datetime
  ho_reveal_at :: datetime

definition run_key :: "handler_config \<Rightarrow> honest_run \<Rightarrow> round_key" where
  "run_key cfg r = (bundle_round_id (ho_bundle r), hc_schema_id cfg)"

definition bundle_admissible :: "handler_config \<Rightarrow> (bytes \<Rightarrow> bytes) \<Rightarrow> string list \<Rightarrow> honest_run \<Rightarrow> bool" where
  "bundle_admissible cfg sha256 universe r \<longleftrightarrow>
     (case registry_entry_of (hc_schema_id cfg) (the_registry sha256) of
        None \<Rightarrow> False
      | Some e \<Rightarrow>
          re_bundle_model e (ho_payload r) = Inr (ho_bundle r)
          \<and> (case re_membership_valid e of
               None \<Rightarrow> False | Some valid \<Rightarrow> valid (ho_bundle r) universe = Inr True))
     \<and> is_canonical_round_id (bundle_round_id (ho_bundle r))"

definition round_ready :: "handler_config \<Rightarrow> honest_run \<Rightarrow> round_windows \<Rightarrow> 'a db_scheme \<Rightarrow> bool" where
  "round_ready cfg r w d \<longleftrightarrow>
     round_state d (run_key cfg r) = Some Round_open \<and> round_windows d (run_key cfg r) = Some w
     \<and> commit_open w \<le> ho_commit_at r \<and> ho_commit_at r \<le> commit_close w
     \<and> reveal_open w \<le> ho_reveal_at r \<and> ho_reveal_at r \<le> reveal_close w
     \<and> accepted_reveal d (run_key cfg r) (ho_hotkey r) = None
     \<and> commit_count d (run_key cfg r) (ho_hotkey r) < hc_max_commits cfg
     \<and> reveal_count d (run_key cfg r) (ho_hotkey r) < hc_max_reveals cfg"

definition env_ok :: "(bytes \<Rightarrow> bytes) \<Rightarrow> validation_env \<Rightarrow> bool" where
  "env_ok sha256 env \<longleftrightarrow> ve_registry env = the_registry sha256 \<and> 6 \<le> ve_depth env"

lemma honest_run_accepted:
  assumes env: "env_ok sha256 (hc_env cfg)" "\<And>x. length (ve_blake2b (hc_env cfg) x) = commit_digest_size"
    and inv: "storage_inv d" and ready: "round_ready cfg r w d"
    and u: "universe_for d (run_key cfg r) = Inr (Some u)"
    and adm: "bundle_admissible cfg sha256 (us_tickers u) r"
    and a: "assemble_bundle (ve_blake2b (hc_env cfg)) (bundle_payload (ho_bundle r)) (ho_hotkey r)
        (ho_nonce r) = Inr a" "length (utf8 (asm_bundle_json a)) \<le> max_reveal_bundle_bytes"
    and run: "handle_commit cfg alone (commit_message cfg (fst (run_key cfg r)) a) (ho_hotkey r)
        (ho_commit_at r) d = (d1, c)"
      "handle_reveal cfg alone (reveal_message cfg (fst (run_key cfg r)) a) (ho_hotkey r)
        (ho_reveal_at r) d1 = (d2, reply)"
  shows "sc_accepted c" "\<exists>s. reply = Inr s \<and> sv_accepted s"
    "accepted_reveal d2 (run_key cfg r) (ho_hotkey r) = Some (asm_bundle_json a, asm_nonce_hex a)"
proof -
  let ?k = "run_key cfg r" and ?hk = "ho_hotkey r" and ?rid = "bundle_round_id (ho_bundle r)"
    and ?sid = "hc_schema_id cfg" and ?env = "hc_env cfg"
  obtain e valid where e: "registry_entry_of ?sid (the_registry sha256) = Some e"
      "re_bundle_model e (ho_payload r) = Inr (ho_bundle r)" "re_membership_valid e = Some valid"
      "valid (ho_bundle r) (us_tickers u) = Inr True" "is_canonical_round_id ?rid"
    using adm by (auto simp: bundle_admissible_def split: option.splits)
  have reg: "registry_entry_of ?sid (ve_registry ?env) = Some e" "6 \<le> ve_depth ?env"
    using env(1) e(1) by (simp_all add: env_ok_def)
  have open_d: "round_state d ?k = Some Round_open" "round_windows d ?k = Some w"
      "commit_open w \<le> ho_commit_at r" "ho_commit_at r \<le> commit_close w"
      "reveal_open w \<le> ho_reveal_at r" "ho_reveal_at r \<le> reveal_close w"
      "commit_count d ?k ?hk < hc_max_commits cfg" "reveal_count d ?k ?hk < hc_max_reveals cfg"
    using ready by (simp_all add: round_ready_def)
  have none: "accepted_of d ?k ?hk = None"
    using accepted_reveal_eq [OF inv, of ?k ?hk] ready by (simp add: round_ready_def)
  have k: "?k = (?rid, ?sid)" "fst ?k = ?rid" by (simp_all add: run_key_def)
  have uniq: "unique_on submission_key (db_submissions d)"
    using inv by (simp add: storage_inv_def storage_ok_def)
  have digest: "is_hex_digest (asm_bundle_hash a)"
    by (rule assembled_hash_is_digest [OF a(1) env(2)])
  have "vd_accepted (validate_commit ?env ?rid ?sid current_version_key (asm_bundle_hash a)
      (ho_commit_at r) (commit_open w) (commit_close w))"
    using e(5) reg(1) open_d(3,4) digest by (simp add: validate_commit_accepts)
  from commit_message_handled [OF uniq open_d(1,2) none open_d(7) this k(1)]
  have c: "d1 = fst (record_commit ?k ?hk (asm_bundle_hash a) (ho_commit_at r) (Some (hc_max_commits cfg)) d)"
    "sc_accepted c" using run(1) by (auto simp: k(2))
  show "sc_accepted c" by (rule c(2))
  have rc: "record_commit ?k ?hk (asm_bundle_hash a) (ho_commit_at r) (Some (hc_max_commits cfg)) d = (d1, True)"
    using c(1) record_commit_succeeds [OF uniq open_d(1) none open_d(7), of "asm_bundle_hash a" "ho_commit_at r"]
    by (simp add: prod_eq_iff)
  have com: "committed_hash d1 ?k ?hk = Some (asm_bundle_hash a)" "reveal_count d1 ?k ?hk < hc_max_reveals cfg"
    using record_commit_committed [OF uniq rc] open_d(8) by simp_all
  have reads: "round_windows d1 ?k = Some w" "universe_for d1 ?k = Inr (Some u)"
    using record_commit_reads [of ?k ?hk "asm_bundle_hash a" "ho_commit_at r" "Some (hc_max_commits cfg)" d ?k]
      rc open_d(2) u by simp_all
  have st: "round_state d1 ?k = Some Round_open" "accepted_of d1 ?k ?hk = None"
    using record_commit_frame(1) [OF rc, of ?k] record_commit_accepted [OF rc, of ?k] open_d(1) none by simp_all
  have inv1: "storage_inv d1" by (rule storage_inv_step [OF St_commit [OF rc] inv])
  note ent = the_registry_entry [OF e(1)]
  have honest: "validate_reveal ?env ?rid ?sid current_version_key (asm_bundle_json a) (asm_nonce_hex a)
      (Some (asm_bundle_hash a)) ?hk (ho_reveal_at r) (reveal_open w) (reveal_close w) (us_tickers u)
      = Inr (accept (Some (canon (ho_bundle r))))"
    by (rule honest_reveal [OF reg(1) ent e(2) a reg(2) e(3,4,5) open_d(5,6)])
  have size: "reveal_payload_rejection (asm_bundle_json a) (asm_nonce_hex a) = None"
    using a(2) assemble_bundleD(2,3) [OF a(1)]
    by (simp add: reveal_payload_rejection_def commit_nonce_bytes_def max_nonce_bytes_def)
  have "handler_validate cfg (reveal_message cfg ?rid a) (Some (asm_bundle_hash a)) ?hk (ho_reveal_at r) w
      (us_tickers u) = Inr (accept (Some (canon (ho_bundle r))))"
    using honest by (simp add: handler_validate_def reveal_message_def)
  from reveal_message_handled [OF st(1) reads st(2) inv1 com open_d(5,6) e(5) size this k(1)]
  obtain s where s: "reply = Inr s" "sv_accepted s"
    using run(2) by (auto simp: k(2))
  then show "\<exists>s. reply = Inr s \<and> sv_accepted s" by blast
  have "handle_reveal cfg alone (reveal_message cfg ?rid a) ?hk (ho_reveal_at r) d1 = (d2, Inr s)"
    using run(2) s(1) by (simp add: k(2))
  from handle_reveal_durable [OF benign_alone inv1 this s(2)]
  show "accepted_reveal d2 ?k ?hk = Some (asm_bundle_json a, asm_nonce_hex a)"
    by (simp add: reveal_message_def reveal_key_def k(1))
qed

text \<open>What an accepting verdict of the registered schemas proves.\<close>

lemma fromhex_length: "fromhex s = Some bs \<Longrightarrow> 2 * length bs \<le> length s"
  by (induction s arbitrary: bs rule: fromhex.induct)
    (fastforce split: if_splits list.splits option.splits)+

lemma validate_reveal_sound:
  assumes "validate_reveal env rid sid sv bj nh c hk now ro rc u = Inr v" "vd_accepted v"
    "env_ok sha256 env"
  shows "\<exists>e nonce b. registry_entry_of sid (the_registry sha256) = Some e
     \<and> vd_bundle v = Some b \<and> bundle_round_id b = rid \<and> bundle_schema_id b = sid
     \<and> canonical_text (bundle_payload b) = Inr bj
     \<and> (\<forall>valid. re_membership_valid e = Some valid \<longrightarrow> valid b u = Inr True)
     \<and> fromhex nh = Some nonce \<and> commit_nonce_bytes \<le> length nonce \<and> length nonce \<le> max_nonce_bytes
     \<and> c = Some (commit_hash (ve_blake2b env) (utf8 bj) nonce hk)
     \<and> length (utf8 bj) \<le> max_reveal_bundle_bytes \<and> ro \<le> now \<and> now \<le> rc"
proof -
  from validate_reveal_accepts [OF assms(1,2)] obtain e h nonce where
    a: "registry_entry_of sid (ve_registry env) = Some e" "ro \<le> now" "now \<le> rc"
      "reveal_payload_rejection bj nh = None" "c = Some h" "fromhex nh = Some nonce"
      "commit_nonce_bytes \<le> length nonce" "commit_hash (ve_blake2b env) (utf8 bj) nonce hk = h"
      "validate_reveal_bundle env e rid sid bj u = Inr v" by blast
  from validate_reveal_bundle_accepts [OF a(9) assms(2)] obtain b where
    b: "bundle_round_id b = rid" "bundle_schema_id b = sid" "v = accept (Some b)"
      "canonical_bundle_bytes (bundle_payload b) = Inr (utf8 bj)"
      "\<forall>valid. re_membership_valid e = Some valid \<longrightarrow> valid b u = Inr True" by blast
  have "canonical_text (bundle_payload b) = Inr bj"
    using b(4) by (auto simp: canonical_bundle_bytes_def ebind_def split: sum.splits)
  moreover have "length (utf8 bj) \<le> max_reveal_bundle_bytes" "length nonce \<le> max_nonce_bytes"
    using a(4) fromhex_length [OF a(6)] by (auto simp: reveal_payload_rejection_def split: if_splits)
  ultimately show ?thesis
    using a b assms(3) by (intro exI [of _ e] exI [of _ nonce] exI [of _ b]) (simp add: env_ok_def)
qed

lemma length_utf8_le: "length (utf8 s) \<le> 2 * length s"
proof (induction s)
  case (Cons c s)
  have "length (utf8_char c) \<le> 2" by (simp add: Let_def)
  then show ?case using Cons by (simp add: utf8_def)
qed (simp add: utf8_def)

text \<open>A payload of short integers prints.\<close>

fun ints_small :: "node \<Rightarrow> bool" where
  "ints_small (NInt i) \<longleftrightarrow> \<bar>i\<bar> < 1000000000"
| "ints_small (NList ns) \<longleftrightarrow> list_all ints_small ns"
| "ints_small (NDict items) \<longleftrightarrow> list_all (\<lambda>kv. ints_small (snd kv)) items"
| "ints_small _ \<longleftrightarrow> True"

lemma length_str_nat: "n < 10 ^ Suc k \<Longrightarrow> length (str_nat n) \<le> Suc k"
proof (induction k arbitrary: n)
  case 0
  then show ?case by (subst str_nat.simps) simp
next
  case (Suc k)
  have "n div 10 < 10 ^ Suc k" using Suc.prems by (simp add: div_less_iff_less_mult)
  from Suc.IH [OF this] show ?case by (subst str_nat.simps) simp
qed

lemma ints_small_printable: "ints_small n \<Longrightarrow> ints_printable n"
proof (induction n rule: ints_small.induct)
  case (1 i)
  then have "length (str_nat \<bar>i\<bar>) \<le> Suc 8" by (intro length_str_nat) simp
  then show ?case by (simp add: str_int_def max_int_digits_def)
qed (auto simp: list_all_iff)

subsection \<open>A run on concrete values\<close>

definition risk_demo_output :: "risk_output \<Rightarrow> int \<Rightarrow> risk_output output_value" where
  "risk_demo_output out h =
     \<lparr>ov_output = out, ov_value = 5000, ov_confidence = 5000, ov_reason_codes = [''ok''],
      ov_horizon = h, ov_unit = ps_unit (risk_spec out)\<rparr>"

definition risk_demo_bundle :: wire_bundle where
  "risk_demo_bundle = Risk_bundle
     \<lparr>sb_round_id = ''2026-07-20'', sb_schema_id = risk_schema_id,
      sb_assets = [\<lparr>as_netuid = 8,
        as_outputs = concat (map (\<lambda>h. map (\<lambda>out. risk_demo_output out h)
          [Liquidity_depth, Max_drawdown, Realized_volatility, Twap_price]) risk_horizons)\<rparr>]\<rparr>"

definition demo_cfg :: handler_config where
  "demo_cfg =
     \<lparr>hc_schema_id = risk_schema_id,
      hc_env = \<lparr>ve_registry = the_registry (\<lambda>x. x), ve_blake2b = (\<lambda>_. replicate 32 0), ve_depth = 100\<rparr>,
      hc_max_commits = max_commits_per_round, hc_max_reveals = max_reveals_per_round\<rparr>"

definition submission_windows :: round_windows where
  "submission_windows = compute_fixed_utc_windows default_offsets (ymd_ordinal 2026 7 20)"

definition submission_round :: db where
  "submission_round =
     (case open_round submission_windows risk_schema_id
         (Some \<lparr>us_round_id = ''2026-07-20'', us_tickers = [''3'', ''8''], us_source_hash = ''''\<rparr>)
         (commit_open submission_windows) None empty_db of Inr d \<Rightarrow> d | Inl _ \<Rightarrow> empty_db)"

definition demo_run :: honest_run where
  "demo_run =
     \<lparr>ho_bundle = risk_demo_bundle, ho_payload = bundle_payload risk_demo_bundle,
      ho_nonce = replicate 16 7, ho_hotkey = ''hk1'', ho_commit_at = commit_open submission_windows,
      ho_reveal_at = reveal_close submission_windows\<rparr>"

definition demo_assembled :: assembled_submission where
  "demo_assembled =
     (case assemble_bundle (ve_blake2b (hc_env demo_cfg)) (bundle_payload risk_demo_bundle) ''hk1''
         (replicate 16 7) of
        Inr a \<Rightarrow> a | Inl _ \<Rightarrow> \<lparr>asm_bundle_json = [], asm_nonce_hex = [], asm_bundle_hash = []\<rparr>)"

definition demo_after_commit :: db where
  "demo_after_commit = fst (handle_commit demo_cfg alone
     (commit_message demo_cfg ''2026-07-20'' demo_assembled) ''hk1'' (ho_commit_at demo_run) submission_round)"

lemma submission_round_step: "storage_step empty_db submission_round"
proof -
  have "case open_round submission_windows risk_schema_id
         (Some \<lparr>us_round_id = ''2026-07-20'', us_tickers = [''3'', ''8''], us_source_hash = ''''\<rparr>)
         (commit_open submission_windows) None empty_db of Inr d \<Rightarrow> True | Inl _ \<Rightarrow> False"
    by code_simp
  then have "open_round submission_windows risk_schema_id
         (Some \<lparr>us_round_id = ''2026-07-20'', us_tickers = [''3'', ''8''], us_source_hash = ''''\<rparr>)
         (commit_open submission_windows) None empty_db = Inr submission_round"
    by (simp add: submission_round_def split: sum.splits)
  then show ?thesis by (rule St_open)
qed

lemma submission_round_reachable: "reachable submission_round"
  by (rule Reach_step [OF Reach_empty submission_round_step])

lemma demo_text:
  "\<exists>t. canonical_text (bundle_payload risk_demo_bundle) = Inr t \<and> length t < 5000"
proof -
  have "validate (bundle_payload risk_demo_bundle) = Inr ()" "ints_small (bundle_payload risk_demo_bundle)"
    "int (length (dumps (sort_keys (bundle_payload risk_demo_bundle)))) < 5000" by code_simp+
  then show ?thesis by (simp add: canonical_text_Inr ints_small_printable)
qed

lemma demo_assembled:
  "assemble_bundle (ve_blake2b (hc_env demo_cfg)) (bundle_payload (ho_bundle demo_run)) (ho_hotkey demo_run)
     (ho_nonce demo_run) = Inr demo_assembled"
  "length (utf8 (asm_bundle_json demo_assembled)) \<le> max_reveal_bundle_bytes"
proof -
  obtain t where t: "canonical_text (bundle_payload risk_demo_bundle) = Inr t" "length t < 5000"
    using demo_text by blast
  then show "assemble_bundle (ve_blake2b (hc_env demo_cfg)) (bundle_payload (ho_bundle demo_run))
      (ho_hotkey demo_run) (ho_nonce demo_run) = Inr demo_assembled"
    by (simp add: demo_assembled_def demo_run_def assemble_bundle_def commit_nonce_bytes_def)
  have "asm_bundle_json demo_assembled = t"
    using t by (simp add: demo_assembled_def assemble_bundle_def commit_nonce_bytes_def)
  then show "length (utf8 (asm_bundle_json demo_assembled)) \<le> max_reveal_bundle_bytes"
    using length_utf8_le [of t] t(2) by (simp add: max_reveal_bundle_bytes_def)
qed

lemma demo_ready:
  "env_ok (\<lambda>x. x) (hc_env demo_cfg)" "length (ve_blake2b (hc_env demo_cfg) x) = commit_digest_size"
  "round_ready demo_cfg demo_run submission_windows submission_round"
  "universe_for submission_round (run_key demo_cfg demo_run)
     = Inr (Some \<lparr>us_round_id = ''2026-07-20'', us_tickers = [''3'', ''8''], us_source_hash = ''''\<rparr>)"
  "bundle_admissible demo_cfg (\<lambda>x. x) [''3'', ''8''] demo_run"
proof -
  show "env_ok (\<lambda>x. x) (hc_env demo_cfg)" "length (ve_blake2b (hc_env demo_cfg) x) = commit_digest_size"
    by (simp_all add: env_ok_def demo_cfg_def commit_digest_size_def)
  show "round_ready demo_cfg demo_run submission_windows submission_round" by code_simp
  show "universe_for submission_round (run_key demo_cfg demo_run)
     = Inr (Some \<lparr>us_round_id = ''2026-07-20'', us_tickers = [''3'', ''8''], us_source_hash = ''''\<rparr>)" by code_simp
  have e: "registry_entry_of (hc_schema_id demo_cfg) (the_registry (\<lambda>x. x)) = Some (risk_entry (\<lambda>x. x))"
    by (simp add: registry_entry_of_def the_registry_get demo_cfg_def)
  have "parse_risk_bundle (bundle_payload risk_demo_bundle) = Inr risk_demo_bundle"
    "risk_membership_valid risk_demo_bundle [''3'', ''8''] = Inr True"
    "is_canonical_round_id (bundle_round_id risk_demo_bundle)" by code_simp+
  then show "bundle_admissible demo_cfg (\<lambda>x. x) [''3'', ''8''] demo_run"
    unfolding bundle_admissible_def e
    by (simp add: risk_entry_def demo_run_def)
qed

lemma demo_run_ids:
  "fst (run_key demo_cfg demo_run) = ''2026-07-20''" "ho_hotkey demo_run = ''hk1''"
  by (simp_all add: run_key_def demo_run_def risk_demo_bundle_def)

definition demo_after_reveal :: db where
  "demo_after_reveal = fst (handle_reveal demo_cfg alone
     (reveal_message demo_cfg ''2026-07-20'' demo_assembled) ''hk1'' (ho_reveal_at demo_run) demo_after_commit)"

lemma demo_commit_run:
  "\<exists>c. handle_commit demo_cfg alone (commit_message demo_cfg (fst (run_key demo_cfg demo_run)) demo_assembled)
     (ho_hotkey demo_run) (ho_commit_at demo_run) submission_round = (demo_after_commit, c)"
  by (metis demo_after_commit_def demo_run_ids prod.collapse)

lemma demo_reachable_commit: "reachable demo_after_commit"
proof -
  have "storage_step\<^sup>*\<^sup>* submission_round demo_after_commit"
    unfolding demo_after_commit_def by (rule handle_commit_steps [OF benign_alone])
  then show ?thesis
    by induction (auto intro: submission_round_reachable Reach_step)
qed

lemma demo_reveal_run:
  "\<exists>s. handle_reveal demo_cfg alone (reveal_message demo_cfg (fst (run_key demo_cfg demo_run)) demo_assembled)
     (ho_hotkey demo_run) (ho_reveal_at demo_run) demo_after_commit = (demo_after_reveal, Inr s) \<and> sv_accepted s"
proof -
  let ?h = "handle_reveal demo_cfg alone (reveal_message demo_cfg (fst (run_key demo_cfg demo_run)) demo_assembled)
     (ho_hotkey demo_run) (ho_reveal_at demo_run) demo_after_commit"
  obtain c where c: "handle_commit demo_cfg alone (commit_message demo_cfg (fst (run_key demo_cfg demo_run))
      demo_assembled) (ho_hotkey demo_run) (ho_commit_at demo_run) submission_round = (demo_after_commit, c)"
    using demo_commit_run by blast
  have "\<exists>s. snd ?h = Inr s \<and> sv_accepted s"
    by (rule honest_run_accepted(2) [OF demo_ready(1,2) reachable_inv [OF submission_round_reachable]
        demo_ready(3,4) _ demo_assembled c prod.collapse [symmetric]])
      (simp add: demo_ready(5))
  moreover have "fst ?h = demo_after_reveal" by (simp add: demo_after_reveal_def demo_run_ids)
  ultimately show ?thesis by (metis prod.collapse)
qed

lemma demo_reveal_verdict:
  "validate_reveal (hc_env demo_cfg) ''2026-07-20'' risk_schema_id current_version_key
     (asm_bundle_json demo_assembled) (asm_nonce_hex demo_assembled) (Some (asm_bundle_hash demo_assembled))
     ''hk1'' 5 0 10 [''3'', ''8''] = Inr (accept (Some (canon risk_demo_bundle)))"
proof -
  have e: "registry_entry_of risk_schema_id (the_registry (\<lambda>x. x)) = Some (risk_entry (\<lambda>x. x))"
    by (simp add: registry_entry_of_def the_registry_get)
  have env: "ve_registry (hc_env demo_cfg) = the_registry (\<lambda>x. x)" "6 \<le> ve_depth (hc_env demo_cfg)"
    using demo_ready(1) by (simp_all add: env_ok_def)
  have id: "bundle_round_id risk_demo_bundle = ''2026-07-20''" by (simp add: risk_demo_bundle_def)
  have "hc_schema_id demo_cfg = risk_schema_id" by (simp add: demo_cfg_def)
  then have b: "re_bundle_model (risk_entry (\<lambda>x. x)) (ho_payload demo_run) = Inr risk_demo_bundle"
    "re_membership_valid (risk_entry (\<lambda>x. x)) = Some risk_membership_valid"
    "risk_membership_valid risk_demo_bundle [''3'', ''8''] = Inr True" "is_canonical_round_id ''2026-07-20''"
    using demo_ready(5) by (simp_all add: bundle_admissible_def e demo_run_def id risk_entry_def)
  show ?thesis
    using honest_reveal [OF e [folded env(1)] the_registry_entry [OF e] b(1) _ demo_assembled(2) env(2)
        b(2,3), of "''hk1''" "replicate 16 7" 0 5 10] demo_assembled(1) b(4)
    by (simp add: id demo_run_def)
qed

subsection \<open>Handlers at their caps\<close>

text \<open>With one commit and one reveal attempt allowed, a first of each goes through: the message commits
  to a hash, the reveal opens another one.\<close>

definition tight_cfg :: handler_config where
  "tight_cfg = demo_cfg\<lparr>hc_max_commits := 1, hc_max_reveals := 1\<rparr>"

definition tight_submission :: "char \<Rightarrow> assembled_submission" where
  "tight_submission c = \<lparr>asm_bundle_json = ''{}'', asm_nonce_hex = replicate 32 CHR ''7'',
     asm_bundle_hash = replicate 64 c\<rparr>"

definition tight_key :: round_key where
  "tight_key = (''2026-07-20'', risk_schema_id)"

definition tight_committed :: db where
  "tight_committed = fst (record_commit tight_key ''hk1'' (replicate 64 CHR ''a'')
     (commit_open submission_windows) (Some 1) submission_round)"

definition tight_revealed :: db where
  "tight_revealed = fst (record_reveal tight_key ''hk1'' ''{}'' (replicate 32 CHR ''7'') False
     (Some ''HASH_MISMATCH'') (reveal_close submission_windows)
     (fst (record_reveal_attempt tight_key ''hk1'' (Some 1) tight_committed)))"

lemma tight_reads:
  "round_state submission_round tight_key = Some Round_open"
  "round_windows submission_round tight_key = Some submission_windows"
  "accepted_of submission_round tight_key ''hk1'' = None"
  "commit_count submission_round tight_key ''hk1'' = 0"
  "is_canonical_round_id ''2026-07-20''" "is_hex_digest (replicate 64 CHR ''a'')"
  "commit_open submission_windows \<le> commit_close submission_windows"
  by code_simp+

lemma tight_fields:
  "hc_max_commits tight_cfg = 1" "hc_max_reveals tight_cfg = 1" "hc_schema_id tight_cfg = risk_schema_id"
  "hc_env tight_cfg = hc_env demo_cfg"
  "registry_entry_of risk_schema_id (ve_registry (hc_env demo_cfg)) = Some (risk_entry (\<lambda>x. x))"
  by (simp_all add: tight_cfg_def demo_cfg_def registry_entry_of_def the_registry_get)

lemma tight_commit_run:
  "fst (handle_commit tight_cfg alone (commit_message tight_cfg ''2026-07-20'' (tight_submission CHR ''a'')) ''hk1''
     (commit_open submission_windows) submission_round) = tight_committed"
proof -
  have u: "unique_on submission_key (db_submissions submission_round)"
    using reachable_inv [OF submission_round_reachable] by (simp add: storage_inv_def storage_ok_def)
  have v: "vd_accepted (validate_commit (hc_env tight_cfg) ''2026-07-20'' (hc_schema_id tight_cfg) current_version_key
      (asm_bundle_hash (tight_submission CHR ''a'')) (commit_open submission_windows)
      (commit_open submission_windows) (commit_close submission_windows))"
    by (simp add: validate_commit_accepts tight_fields tight_reads tight_submission_def)
  have c: "commit_count submission_round tight_key ''hk1'' < hc_max_commits tight_cfg"
    by (simp add: tight_reads tight_fields)
  have k: "tight_key = (''2026-07-20'', hc_schema_id tight_cfg)" by (simp add: tight_key_def tight_fields)
  show ?thesis
    using commit_message_handled [OF u tight_reads(1,2,3) c v k]
    by (auto simp: tight_committed_def tight_fields tight_submission_def)
qed

lemma tight_committed_reads:
  "round_windows tight_committed tight_key = Some submission_windows"
  "universe_for tight_committed tight_key = Inr (Some \<lparr>us_round_id = ''2026-07-20'', us_tickers = [''3'', ''8''], us_source_hash = ''''\<rparr>)"
  "committed_hash tight_committed tight_key ''hk1'' = Some (replicate 64 CHR ''a'')"
  "commit_count tight_committed tight_key ''hk1'' = 1"
  "accepted_reveal tight_committed tight_key ''hk1'' = None"
  "snd (record_reveal_attempt tight_key ''hk1'' (Some 1) tight_committed)"
  "reveal_open submission_windows \<le> reveal_close submission_windows"
  "fromhex (replicate 32 CHR ''7'') = Some (replicate 16 119)"
  "reveal_count tight_revealed tight_key ''hk1'' = 1"
  by code_simp+

lemma tight_payload: "reveal_payload_rejection ''{}'' (replicate 32 CHR ''7'') = None"
  by (simp add: reveal_payload_rejection_def max_reveal_bundle_bytes_def max_nonce_bytes_def utf8_def)

lemma tight_verdict:
  "validate_reveal (hc_env demo_cfg) ''2026-07-20'' risk_schema_id current_version_key ''{}'' (replicate 32 CHR ''7'')
     (Some (replicate 64 CHR ''a'')) ''hk1'' (reveal_close submission_windows) (reveal_open submission_windows)
     (reveal_close submission_windows) [''3'', ''8''] = Inr (reject Hash_mismatch)"
proof -
  have "commit_hash (ve_blake2b (hc_env demo_cfg)) (utf8 ''{}'') (replicate 16 119) ''hk1'' = hex (replicate 32 0)"
    by (simp add: demo_cfg_def commit_hash_def)
  moreover have "hex (replicate 32 0) \<noteq> replicate 64 CHR ''a''" by code_simp
  ultimately show ?thesis
    by (simp add: validate_reveal_def tight_fields tight_reads tight_committed_reads tight_payload commit_nonce_bytes_def)
qed

lemma tight_reveal_run:
  "fst (handle_reveal tight_cfg alone (reveal_message tight_cfg ''2026-07-20'' (tight_submission CHR ''a'')) ''hk1''
     (reveal_close submission_windows) tight_committed) = tight_revealed"
proof -
  obtain d1 where d1: "record_reveal_attempt tight_key ''hk1'' (Some 1) tight_committed = (d1, True)"
    using tight_committed_reads(6) by (metis prod.collapse)
  have r: "tight_revealed = fst (record_reveal tight_key ''hk1'' ''{}'' (replicate 32 CHR ''7'') False
     (Some ''HASH_MISMATCH'') (reveal_close submission_windows) d1)"
    by (simp add: tight_revealed_def d1)
  let ?syn = "reveal_message tight_cfg ''2026-07-20'' (tight_submission CHR ''a'')"
  have f: "sv_round_id ?syn = ''2026-07-20''" "sv_schema_id ?syn = risk_schema_id" "sv_bundle_json ?syn = ''{}''"
    "sv_nonce_hex ?syn = replicate 32 CHR ''7''" "sv_spec_version ?syn = current_version_key"
    "reveal_key tight_cfg ?syn = tight_key"
    by (simp_all add: reveal_message_def reveal_key_def tight_submission_def tight_fields tight_key_def)
  have "admit_reveal tight_cfg alone ?syn (Some (replicate 64 CHR ''a'')) ''hk1'' (reveal_close submission_windows) True
      submission_windows [''3'', ''8''] tight_committed = (d1, Inr (reject Hash_mismatch))"
    by (simp only: admit_reveal_def handler_validate_def f tight_fields Let_def alone_simp d1 tight_verdict) simp
  moreover have "settle_reveal tight_cfg alone ?syn ''hk1'' (reveal_close submission_windows) (reject Hash_mismatch) d1
      = (tight_revealed, reject Hash_mismatch)"
    by (simp add: settle_reveal_def f r split: prod.split)
  ultimately show ?thesis
    by (simp add: handle_reveal_def f tight_fields tight_reads(5) tight_committed_reads tight_payload)
qed

subsection \<open>The digest check\<close>

text \<open>Lower-case digit pairs with whitespace before, between and after them.\<close>

inductive spaced_hex :: "string \<Rightarrow> bytes \<Rightarrow> bool" where
  Hex_end: "spaced_hex [] []"
| Hex_gap: "is_space c \<Longrightarrow> spaced_hex s bs \<Longrightarrow> spaced_hex (c # s) bs"
| Hex_byte: "spaced_hex s bs \<Longrightarrow> spaced_hex (hex [b] @ s) (b # bs)"

lemma hex_digit_class:
  "n < 16 \<Longrightarrow> \<not> is_upper (hex_digit n)" "is_space c \<Longrightarrow> \<not> is_upper c"
  by (auto simp: hex_digit_def is_upper_def is_space_def Let_def)

lemma hex_val_lower: "hex_val c = Some h \<Longrightarrow> \<not> is_upper c \<Longrightarrow> h < 16 \<and> c = hex_digit h"
  by (auto simp: hex_val_def is_upper_def hex_digit_def Let_def split: if_splits)

lemma hex_simps:
  "hex [] = []" "hex (b # bs) = hex_digit (unat b div 16) # hex_digit (unat b mod 16) # hex bs"
  by (simp_all add: hex_def)

lemma nibbles: "unat (b :: 8 word) div 16 < 16" "unat b mod 16 < 16"
  using unat_byte_less [of b] by auto

lemma hex_of_nibbles:
  assumes "h < 16" "l < 16"
  shows "hex [byte_of (16 * h + l)] = [hex_digit h, hex_digit l]"
proof -
  have "16 * h + l < 256" using assms by simp
  then have "unat (byte_of (16 * h + l)) = 16 * h + l" by (rule unat_byte_of)
  then show ?thesis using assms by (simp add: hex_simps)
qed

lemma spaced_hex_parsed: "spaced_hex s bs \<Longrightarrow> fromhex s = Some bs \<and> \<not> list_ex is_upper s"
proof (induction rule: spaced_hex.induct)
  case (Hex_byte s bs b)
  have "byte_of (16 * (unat b div 16) + unat b mod 16) = b" by (simp add: byte_of_def)
  then show ?case using Hex_byte nibbles [of b] by (simp add: hex_simps hex_digit_class)
qed (simp_all add: hex_digit_class)

lemma parsed_spaced_hex: "fromhex s = Some bs \<Longrightarrow> \<not> list_ex is_upper s \<Longrightarrow> spaced_hex s bs"
proof (induction s arbitrary: bs rule: fromhex.induct)
  case (2 c s)
  show ?case
  proof (cases "is_space c")
    case True
    then show ?thesis using 2 by (auto intro: Hex_gap)
  next
    case False
    then obtain d r h l cs where p: "s = d # r" "hex_val c = Some h" "hex_val d = Some l" "fromhex r = Some cs"
        "bs = byte_of (16 * h + l) # cs"
      using 2(3) by (auto split: list.splits option.splits)
    then have v: "h < 16 \<and> c = hex_digit h" "l < 16 \<and> d = hex_digit l" using 2(4) hex_val_lower by auto
    have "spaced_hex r cs" using 2(2) [OF False p(1)] p(2-4) 2(4) by (simp add: p(1))
    then have "spaced_hex (hex [byte_of (16 * h + l)] @ r) bs" unfolding p(5) by (rule Hex_byte)
    then show ?thesis using v by (simp only: p(1) hex_of_nibbles append_Cons append_Nil)
  qed
qed (simp add: Hex_end)

lemma spaced_hex_dense: "spaced_hex s bs \<Longrightarrow> \<not> list_ex is_space s \<Longrightarrow> s = hex bs"
  by (induction rule: spaced_hex.induct) (simp_all add: hex_simps)

lemma hex_dense: "spaced_hex (hex bs) bs" "\<not> list_ex is_space (hex bs)"
proof -
  show "spaced_hex (hex bs) bs" 
  proof (induction bs)
    case (Cons b bs)
    from Hex_byte [OF this, of b] show ?case by (simp add: hex_simps)
  qed (simp add: Hex_end hex_simps)
  show "\<not> list_ex is_space (hex bs)"
    by (induction bs) (simp_all add: hex_simps nibbles)
qed

lemma is_hex_digest_iff: "is_hex_digest s \<longleftrightarrow> length s = 64 \<and> (\<exists>bs. spaced_hex s bs)"
proof -
  have "fromhex s \<noteq> None \<and> \<not> list_ex is_upper s \<longleftrightarrow> (\<exists>bs. spaced_hex s bs)"
  proof
    assume a: "fromhex s \<noteq> None \<and> \<not> list_ex is_upper s"
    then obtain bs where "fromhex s = Some bs" by (cases "fromhex s") blast+
    then have "spaced_hex s bs" by (rule parsed_spaced_hex) (rule conjunct2 [OF a])
    then show "\<exists>bs. spaced_hex s bs" ..
  next
    assume "\<exists>bs. spaced_hex s bs"
    then obtain bs where "spaced_hex s bs" ..
    from spaced_hex_parsed [OF this] show "fromhex s \<noteq> None \<and> \<not> list_ex is_upper s" by simp
  qed
  moreover have "commit_digest_size * 2 = 64" by (simp add: commit_digest_size_def)
  ultimately show ?thesis unfolding is_hex_digest_def by argo
qed

subsection \<open>Properties\<close>

text \<open>
  C5: An honest submission goes through: a miner whose bundle parses and lies in the round's
  universe, which commits in the commit window and reveals in the reveal window of an open round
  with attempts left, is accepted both times, and its reveal is the round's record.
\<close>

theorem honest_submission_accepted:
  assumes "env_ok sha256 (hc_env cfg)" "\<And>x. length (ve_blake2b (hc_env cfg) x) = commit_digest_size"
    and "reachable d" "round_ready cfg r w d" "universe_for d (run_key cfg r) = Inr (Some u)"
    and "bundle_admissible cfg sha256 (us_tickers u) r"
    and "assemble_bundle (ve_blake2b (hc_env cfg)) (bundle_payload (ho_bundle r)) (ho_hotkey r)
        (ho_nonce r) = Inr a"
    and "length (utf8 (asm_bundle_json a)) \<le> max_reveal_bundle_bytes"
    and "handle_commit cfg alone (commit_message cfg (fst (run_key cfg r)) a) (ho_hotkey r)
        (ho_commit_at r) d = (d1, c)"
    and "handle_reveal cfg alone (reveal_message cfg (fst (run_key cfg r)) a) (ho_hotkey r)
        (ho_reveal_at r) d1 = (d2, reply)"
  shows "sc_accepted c \<and> (\<exists>s. reply = Inr s \<and> sv_accepted s)
    \<and> accepted_reveal d2 (run_key cfg r) (ho_hotkey r) = Some (asm_bundle_json a, asm_nonce_hex a)"
  using honest_run_accepted [OF assms(1,2) reachable_inv [OF assms(3)] assms(4-10)] by blast

lemma honest_submission_accepted_witness:
  "accepted_reveal demo_after_reveal (run_key demo_cfg demo_run) (ho_hotkey demo_run)
     = Some (asm_bundle_json demo_assembled, asm_nonce_hex demo_assembled)"
proof -
  obtain c s where "handle_commit demo_cfg alone (commit_message demo_cfg (fst (run_key demo_cfg demo_run))
      demo_assembled) (ho_hotkey demo_run) (ho_commit_at demo_run) submission_round = (demo_after_commit, c)"
    and "handle_reveal demo_cfg alone (reveal_message demo_cfg (fst (run_key demo_cfg demo_run)) demo_assembled)
      (ho_hotkey demo_run) (ho_reveal_at demo_run) demo_after_commit = (demo_after_reveal, Inr s)"
    using demo_commit_run demo_reveal_run by blast
  then show ?thesis
    using honest_submission_accepted [OF demo_ready(1,2) submission_round_reachable demo_ready(3,4) _
        demo_assembled] demo_ready(5) by simp
qed

text \<open>
  C6: An accepting reply to a reveal is durable: whatever other writers did between the
  transactions of the handler and whatever happens later, the bundle and the nonce of the message
  are the accepted reveal of its hotkey.
\<close>

theorem accepted_reply_is_durable:
  assumes "benign g" "reachable d" "handle_reveal cfg g syn hk now d = (d', Inr reply)"
    "sv_accepted reply" "storage_step\<^sup>*\<^sup>* d' d''"
  shows "accepted_reveal d'' (reveal_key cfg syn) hk = Some (sv_bundle_json syn, sv_nonce_hex syn)"
proof -
  have inv: "storage_inv d" by (rule reachable_inv [OF assms(2)])
  have "storage_step\<^sup>*\<^sup>* d d'" using handle_reveal_steps [OF assms(1), of d cfg syn hk now] assms(3) by simp
  then have "storage_inv d'" by (rule storage_inv_steps [OF _ inv])
  then show ?thesis
    by (rule accepted_reveal_stays [OF _ assms(5) handle_reveal_durable [OF assms(1) inv assms(3,4)]])
qed

lemma accepted_reply_is_durable_witness:
  "accepted_reveal demo_after_reveal
     (reveal_key demo_cfg (reveal_message demo_cfg (fst (run_key demo_cfg demo_run)) demo_assembled))
     (ho_hotkey demo_run)
   = Some (sv_bundle_json (reveal_message demo_cfg (fst (run_key demo_cfg demo_run)) demo_assembled),
       sv_nonce_hex (reveal_message demo_cfg (fst (run_key demo_cfg demo_run)) demo_assembled))"
proof -
  obtain s where "handle_reveal demo_cfg alone (reveal_message demo_cfg (fst (run_key demo_cfg demo_run))
      demo_assembled) (ho_hotkey demo_run) (ho_reveal_at demo_run) demo_after_commit = (demo_after_reveal, Inr s)"
    "sv_accepted s" using demo_reveal_run by blast
  then show ?thesis
    by (rule accepted_reply_is_durable [OF benign_alone demo_reachable_commit _ _ rtranclp.rtrancl_refl])
qed

text \<open>
  C7: A verdict accepts a reveal only for the bytes and nonce its hotkey committed to: the text is
  the canonical encoding of a bundle of the named round and schema whose targets lie in the
  universe, its hash with the nonce and the hotkey is the commitment, and it came in the window.
\<close>

theorem accepted_reveal_matches_commitment:
  assumes "validate_reveal env rid sid sv bj nh c hk now ro rc u = Inr v" "vd_accepted v"
    "env_ok sha256 env"
  shows "\<exists>e nonce b. registry_entry_of sid (the_registry sha256) = Some e
     \<and> vd_bundle v = Some b \<and> bundle_round_id b = rid \<and> bundle_schema_id b = sid
     \<and> canonical_text (bundle_payload b) = Inr bj
     \<and> (\<forall>valid. re_membership_valid e = Some valid \<longrightarrow> valid b u = Inr True)
     \<and> fromhex nh = Some nonce \<and> commit_nonce_bytes \<le> length nonce \<and> length nonce \<le> max_nonce_bytes
     \<and> c = Some (commit_hash (ve_blake2b env) (utf8 bj) nonce hk)
     \<and> length (utf8 bj) \<le> max_reveal_bundle_bytes \<and> ro \<le> now \<and> now \<le> rc"
  by (rule validate_reveal_sound [OF assms])

lemma accepted_reveal_matches_commitment_witness:
  "\<exists>nonce. fromhex (asm_nonce_hex demo_assembled) = Some nonce
     \<and> asm_bundle_hash demo_assembled
         = commit_hash (ve_blake2b (hc_env demo_cfg)) (utf8 (asm_bundle_json demo_assembled)) nonce ''hk1''"
  using accepted_reveal_matches_commitment [OF demo_reveal_verdict _ demo_ready(1)] by auto

text \<open>
  C8: No interleaving of handlers gets past the caps: a hotkey's commits and its reveal attempts
  in a round stay within the configured numbers.
\<close>

theorem handlers_respect_caps:
  assumes "(capped_step cfg)\<^sup>*\<^sup>* empty_db d" "\<And>i x. (capped_step cfg)\<^sup>*\<^sup>* x (g i x)"
    "1 \<le> hc_max_commits cfg" "0 \<le> hc_max_reveals cfg"
  shows "commit_count (fst (handle_commit cfg g cm hk now d)) k h \<le> hc_max_commits cfg
    \<and> reveal_count (fst (handle_reveal cfg g rv hk now d)) k h \<le> hc_max_reveals cfg"
proof -
  have caps: "caps_ok (hc_max_commits cfg) (hc_max_reveals cfg) x" if "(capped_step cfg)\<^sup>*\<^sup>* empty_db x" for x
    by (rule capped_steps_caps [OF that _ assms(3,4)]) (simp add: caps_ok_def empty_db_def)
  have "(capped_step cfg)\<^sup>*\<^sup>* empty_db (fst (handle_commit cfg g cm hk now d))"
    "(capped_step cfg)\<^sup>*\<^sup>* empty_db (fst (handle_reveal cfg g rv hk now d))"
    using handle_commit_capped [of cfg g d cm hk now, OF assms(2)]
      handle_reveal_capped [of cfg g d rv hk now, OF assms(2)]
    by (auto intro: rtranclp_trans [OF assms(1)])
  then show ?thesis
    using caps_ok_counts [OF caps] assms(3,4) by simp
qed

lemma handlers_respect_caps_witness:
  "commit_count tight_committed tight_key ''hk1'' = 1 \<and> reveal_count tight_revealed tight_key ''hk1'' = 1
   \<and> commit_count (fst (handle_commit tight_cfg alone (commit_message tight_cfg ''2026-07-20'' (tight_submission CHR ''b''))
       ''hk1'' (commit_close submission_windows) tight_committed)) tight_key ''hk1'' \<le> 1
   \<and> reveal_count (fst (handle_reveal tight_cfg alone (reveal_message tight_cfg ''2026-07-20'' (tight_submission CHR ''b''))
       ''hk1'' (reveal_close submission_windows) tight_revealed)) tight_key ''hk1'' \<le> 1"
proof -
  have self: "(capped_step tight_cfg)\<^sup>*\<^sup>* x (alone i x)" for i and x :: db by simp
  have "db_submissions submission_round = db_submissions empty_db" by code_simp
  then have "capped_step tight_cfg empty_db submission_round" by (rule Cap_other [OF submission_round_step])
  then have "(capped_step tight_cfg)\<^sup>*\<^sup>* empty_db submission_round" by blast
  then have c: "(capped_step tight_cfg)\<^sup>*\<^sup>* empty_db tight_committed"
    unfolding tight_commit_run [symmetric] by (rule rtranclp_trans [OF _ handle_commit_capped [OF self]])
  then have r: "(capped_step tight_cfg)\<^sup>*\<^sup>* empty_db tight_revealed"
    unfolding tight_reveal_run [symmetric] by (rule rtranclp_trans [OF _ handle_reveal_capped [OF self]])
  have caps: "1 \<le> hc_max_commits tight_cfg" "0 \<le> hc_max_reveals tight_cfg" by (simp_all add: tight_fields)
  note w = handlers_respect_caps [where g = alone, OF _ self caps, unfolded tight_fields]
  show ?thesis
    using w [OF c, THEN conjunct1] w [OF r, THEN conjunct2] tight_committed_reads(4,9) by blast
qed

text \<open>
  C40: The digest check accepts exactly the texts of 64 characters that are lower-case digit pairs with any
  whitespace around them: without whitespace these are the digits of 32 bytes and nothing else, but
  \<open>bytes.fromhex\<close> also lets texts with whitespace through, and a commitment to one can never be opened:
  no reveal against it is accepted.
\<close>

theorem digest_check_admits_whitespace:
  "(is_hex_digest s \<longleftrightarrow> length s = 64 \<and> (\<exists>bs. spaced_hex s bs))
   \<and> (is_hex_digest s \<and> \<not> list_ex is_space s \<longleftrightarrow> (\<exists>bs. length bs = 32 \<and> s = hex bs))
   \<and> (list_ex is_space s \<and> validate_reveal env rid sid sv bj nh (Some s) hk now ro rc u = Inr v \<longrightarrow> \<not> vd_accepted v)"
proof -
  have "is_hex_digest s \<and> \<not> list_ex is_space s \<longleftrightarrow> (\<exists>bs. length bs = 32 \<and> s = hex bs)"
  proof
    assume s: "is_hex_digest s \<and> \<not> list_ex is_space s"
    then obtain bs where "spaced_hex s bs" "length s = 64" by (auto simp: is_hex_digest_iff)
    then show "\<exists>bs. length bs = 32 \<and> s = hex bs" using s spaced_hex_dense [of s bs] length_hex [of bs] by auto
  next
    assume "\<exists>bs. length bs = 32 \<and> s = hex bs"
    then show "is_hex_digest s \<and> \<not> list_ex is_space s" using hex_dense by (auto simp: is_hex_digest_iff)
  qed
  moreover have "\<not> vd_accepted v"
    if gap: "list_ex is_space s" "validate_reveal env rid sid sv bj nh (Some s) hk now ro rc u = Inr v"
  proof -
    have "commit_hash (ve_blake2b env) x y hk \<noteq> s" for x y
      using gap(1) hex_dense(2) by (auto simp: commit_hash_def)
    then show ?thesis using gap(2)
      by (auto simp: validate_reveal_def split: if_splits option.splits)
  qed
  ultimately show ?thesis using is_hex_digest_iff by blast
qed

definition spaced_digest :: string where
  "spaced_digest = replicate 62 CHR ''a'' @ ''  ''"

lemma digest_check_admits_whitespace_witness:
  "vd_accepted (validate_commit (hc_env demo_cfg) ''2026-07-20'' risk_schema_id current_version_key spaced_digest 5 0 10)
   \<and> validate_reveal (hc_env demo_cfg) ''2026-07-20'' risk_schema_id current_version_key
        (asm_bundle_json demo_assembled) (asm_nonce_hex demo_assembled) (Some spaced_digest) ''hk1'' 5 0 10 [''3'', ''8'']
      \<noteq> Inr (accept (Some (canon risk_demo_bundle)))"
proof -
  have d: "is_hex_digest spaced_digest" "list_ex is_space spaced_digest" "is_canonical_round_id ''2026-07-20''"
    by code_simp+
  have "registry_entry_of risk_schema_id (ve_registry (hc_env demo_cfg)) \<noteq> None"
    by (simp add: demo_cfg_def registry_entry_of_def the_registry_get)
  then have "vd_accepted (validate_commit (hc_env demo_cfg) ''2026-07-20'' risk_schema_id current_version_key
      spaced_digest 5 0 10)"
    using d by (simp add: validate_commit_accepts)
  then show ?thesis
    using digest_check_admits_whitespace [of spaced_digest "hc_env demo_cfg" "''2026-07-20''" risk_schema_id
        current_version_key "asm_bundle_json demo_assembled" "asm_nonce_hex demo_assembled" "''hk1''" 5 0 10
        "[''3'', ''8'']" "accept (Some (canon risk_demo_bundle))"] d(2) by auto
qed

end
