(* ===== verification/Consensus.thy ===== *)
theory Consensus
  imports Registry Decimal28 "HOL-Library.Product_Lexorder"
begin

text \<open>
  Consensus over the accepted bundles of a round (\<open>endure/aggregation/consensus.py\<close>,
  \<open>assessment_consensus.py\<close>): the weighted median of each coordinate's submissions and a
  weighted-MAD dispersion, in the 28 digit decimal context.  \<open>None\<close> is the \<open>ValueError\<close> of a median
  of nothing.
\<close>

definition min_consensus_weight :: rat where
  "min_consensus_weight = 1 / 100"

fun median_scan :: "rat \<Rightarrow> rat \<Rightarrow> (int \<times> rat) list \<Rightarrow> int option" where
  "median_scan half cumulative [] = None"
| "median_scan half cumulative ((v, w) # rest) =
     (let cumulative = dadd cumulative w
      in if half \<le> cumulative then Some v else median_scan half cumulative rest)"

definition weighted_median :: "(int \<times> rat) list \<Rightarrow> int option" where
  "weighted_median values =
     (if values = [] then None
      else
        let ordered = sort values; total = dsum (map snd ordered)
        in if total \<le> 0 then Some (fst (ordered ! ((length ordered - 1) div 2)))
           else (case median_scan (ddiv total 2) 0 ordered of
               Some v \<Rightarrow> Some v
             | None \<Rightarrow> Some (fst (last ordered))))"

definition weighted_mad :: "(int \<times> rat) list \<Rightarrow> int \<Rightarrow> int option" where
  "weighted_mad values median = weighted_median (map (\<lambda>(v, w). (\<bar>v - median\<bar>, w)) values)"

definition consensus_weight :: "(string \<rightharpoonup> rat) \<Rightarrow> string \<Rightarrow> rat" where
  "consensus_weight blends hotkey =
     max (case blends hotkey of Some b \<Rightarrow> b | None \<Rightarrow> 0) min_consensus_weight"

definition aggregate_cell :: "(int \<times> rat) list \<Rightarrow> (int \<times> int \<times> nat) option" where
  "aggregate_cell entries =
     Option.bind (weighted_median entries) (\<lambda>median.
     Option.bind (weighted_mad entries median) (\<lambda>dispersion.
     Some (median, dispersion, length entries)))"

subsection \<open>The round's consensus\<close>

text \<open>The submitted values of a bundle: per asset its netuid and (horizon, output, value) triples.\<close>

type_synonym asset_values = "int \<times> (int \<times> string \<times> int) list"

fun bundle_values :: "wire_bundle \<Rightarrow> asset_values list" where
  "bundle_values (Risk_bundle b) =
     map (\<lambda>a. (as_netuid a, map (\<lambda>v. (ov_horizon v, risk_output_name (ov_output v), ov_value v))
       (as_outputs a))) (sb_assets b)"
| "bundle_values (Lending_bundle b) =
     map (\<lambda>a. (as_netuid a, map (\<lambda>v. (ov_horizon v, lending_output_name (ov_output v), ov_value v))
       (as_outputs a))) (sb_assets b)"

datatype consensus_error =
    Consensus_coordinate coordinate_error | Consensus_row row_error | Median_of_nothing

definition asset_samples ::
  "rat \<Rightarrow> asset_values \<Rightarrow> consensus_error + (coordinate \<times> int \<times> rat) list" where
  "asset_samples weight a =
     etraverse (\<lambda>(h, out, v).
       case subnet_asset (fst a) h out of
         Inl e \<Rightarrow> Inl (Consensus_coordinate e) | Inr c \<Rightarrow> Inr (c, v, weight)) (snd a)"

definition bundle_samples ::
  "(string \<rightharpoonup> rat) \<Rightarrow> string \<times> asset_values list \<Rightarrow> consensus_error + (coordinate \<times> int \<times> rat) list" where
  "bundle_samples blends hb =
     ebind (etraverse (asset_samples (consensus_weight blends (fst hb))) (snd hb)) (\<lambda>ss. Inr (concat ss))"

definition round_samples ::
  "(string \<times> asset_values list) list \<Rightarrow> (string \<rightharpoonup> rat) \<Rightarrow> consensus_error + (coordinate \<times> int \<times> rat) list" where
  "round_samples bundles blends =
     ebind (etraverse (bundle_samples blends) (sort_key fst bundles)) (\<lambda>ss. Inr (concat ss))"

definition group_by_key :: "('k \<times> 'v) list \<Rightarrow> ('k \<times> 'v list) list" where
  "group_by_key ss = fold (\<lambda>(c, s). dict_push c s) ss []"

definition coordinate_row :: "coordinate \<times> (int \<times> rat) list \<Rightarrow> consensus_error + consensus_row" where
  "coordinate_row cell =
     (case aggregate_cell (snd cell) of
        None \<Rightarrow> Inl Median_of_nothing
      | Some (median, dispersion, n) \<Rightarrow>
          (case mk_consensus_row (fst cell) (of_int median) (of_int dispersion) (int n) of
             Inl e \<Rightarrow> Inl (Consensus_row e) | Inr r \<Rightarrow> Inr r))"

definition compute_assessment_consensus ::
  "(string \<times> asset_values list) list \<Rightarrow> (string \<rightharpoonup> rat) \<Rightarrow> consensus_error + consensus_row list" where
  "compute_assessment_consensus bundles blends =
     ebind (round_samples bundles blends) (\<lambda>ss.
     etraverse coordinate_row (sort_key fst (group_by_key ss)))"

subsection \<open>The median as a quantile\<close>

lemma scan_le_iff:
  assumes "sorted (map fst xs)" "\<And>x. x \<in> set xs \<Longrightarrow> 0 \<le> snd x" "is_dec s" "s < half"
  shows "(\<exists>m. median_scan half s xs = Some m \<and> m \<le> v)
    \<longleftrightarrow> half \<le> foldl dadd s (map snd (takeWhile (\<lambda>x. fst x \<le> v) xs))"
  using assms
proof (induction xs arbitrary: s)
  case (Cons p xs)
  obtain x w where p: "p = (x, w)" by force
  let ?c = "dadd s w"
  have w: "0 \<le> w" and nn: "\<And>y. y \<in> set xs \<Longrightarrow> 0 \<le> snd y" using Cons.prems(2) p by force+
  have ge: "foldl dadd ?c (map snd ys) \<ge> ?c" if "set ys \<subseteq> set xs" for ys
    unfolding dadd_def [abs_def]
    by (rule dec.sum_ge_init) (use that nn in \<open>auto simp: dec.idem\<close>)
  have later: "v < m" if "median_scan half c xs = Some m" "v < x" for c m
  proof -
    have "m \<in> fst ` set xs" using that(1)
      by (induction half c xs rule: median_scan.induct) (auto simp: Let_def split: if_splits)
    then show ?thesis using Cons.prems(1) p that(2) by force
  qed
  show ?case
  proof (cases "half \<le> ?c")
    case True
    have "half \<le> foldl dadd ?c (map snd (takeWhile (\<lambda>x. fst x \<le> v) xs))"
      using True ge [of "takeWhile (\<lambda>x. fst x \<le> v) xs"] set_takeWhileD by force
    with True Cons.prems(4) show ?thesis by (simp add: p Let_def)
  next
    case False
    then have IH: "(\<exists>m. median_scan half ?c xs = Some m \<and> m \<le> v)
        \<longleftrightarrow> half \<le> foldl dadd ?c (map snd (takeWhile (\<lambda>x. fst x \<le> v) xs))"
      using Cons.prems(1) nn by (intro Cons.IH) auto
    show ?thesis
    proof (cases "x \<le> v")
      case True
      with False IH show ?thesis by (simp add: p Let_def)
    next
      case gt: False
      then show ?thesis using False later Cons.prems(4) by (force simp: p Let_def)
    qed
  qed
qed simp

lemma sorted_fst: "sorted (xs :: (int \<times> rat) list) \<Longrightarrow> sorted (map fst xs)"
  by (induction xs) (force simp: less_eq_prod_def)+

lemma takeWhile_sorted:
  "sorted (map f xs) \<Longrightarrow> takeWhile (\<lambda>x. f x \<le> v) xs = filter (\<lambda>x. f x \<le> v) xs"
  by (induction xs) (force simp: eq_commute [of "[]"] filter_empty_conv)+

lemma half_le: "0 < t \<Longrightarrow> is_dec t \<Longrightarrow> 0 < ddiv t 2 \<and> ddiv t 2 \<le> t"
  unfolding ddiv_def by (auto simp: is_dec_def intro: dec.pos dec.le_fix)

lemma scan_total:
  assumes "median_scan half s xs = None" "s < half"
  shows "foldl dadd s (map snd xs) < half"
  using assms by (induction half s xs rule: median_scan.induct) (auto simp: Let_def split: if_splits)

definition total_weight :: "(int \<times> rat) list \<Rightarrow> rat" where
  "total_weight values = dsum (map snd (sort values))"

definition weight_up_to :: "int \<Rightarrow> (int \<times> rat) list \<Rightarrow> rat" where
  "weight_up_to v values = dsum (map snd (filter (\<lambda>x. fst x \<le> v) (sort values)))"

lemma weighted_median_scan:
  assumes "values \<noteq> []" "0 < total_weight values"
  obtains m where "weighted_median values = Some m"
    "median_scan (ddiv (total_weight values) 2) 0 (sort values) = Some m"
proof -
  let ?h = "ddiv (total_weight values) 2"
  have t: "is_dec (total_weight values)" by (simp add: total_weight_def)
  note h = half_le [OF assms(2) t]
  have "median_scan ?h 0 (sort values) \<noteq> None"
  proof
    assume "median_scan ?h 0 (sort values) = None"
    from scan_total [OF this] h have "total_weight values < ?h"
      by (simp add: total_weight_def dsum_def)
    with h show False by simp
  qed
  then obtain m where "median_scan ?h 0 (sort values) = Some m" by auto
  with assms that show thesis
    by (simp add: weighted_median_def Let_def total_weight_def)
qed

lemma weighted_median_le_iff:
  assumes "values \<noteq> []" "\<And>x. x \<in> set values \<Longrightarrow> 0 \<le> snd x" "0 < total_weight values"
    "weighted_median values = Some m"
  shows "m \<le> v \<longleftrightarrow> ddiv (total_weight values) 2 \<le> weight_up_to v values"
proof -
  obtain k where k: "weighted_median values = Some k"
    "median_scan (ddiv (total_weight values) 2) 0 (sort values) = Some k"
    by (rule weighted_median_scan [OF assms(1,3)])
  have s: "sorted (map fst (sort values))" by (intro sorted_fst) simp
  have "is_dec (total_weight values)" by (simp add: total_weight_def)
  then have "(\<exists>m. median_scan (ddiv (total_weight values) 2) 0 (sort values) = Some m \<and> m \<le> v)
    \<longleftrightarrow> ddiv (total_weight values) 2
        \<le> foldl dadd 0 (map snd (takeWhile (\<lambda>x. fst x \<le> v) (sort values)))"
    using s assms(2) half_le [OF assms(3)] by (intro scan_le_iff) auto
  then show ?thesis
    using k assms(4) by (simp add: weight_up_to_def dsum_def takeWhile_sorted [OF s])
qed

lemma sort_key_Nil: "sort_key f xs = [] \<longleftrightarrow> xs = []"
  using length_sort [of f xs] by (metis length_0_conv)

lemma weighted_median_member:
  assumes "weighted_median values = Some m"
  shows "m \<in> fst ` set values"
proof -
  have scan: "median_scan h c xs = Some k \<Longrightarrow> k \<in> fst ` set xs" for h c xs k
    by (induction h c xs rule: median_scan.induct) (auto simp: Let_def split: if_splits)
  define xs where "xs = sort values"
  have ne: "xs \<noteq> []" and sets: "set xs = set values"
    using assms by (simp_all add: weighted_median_def xs_def sort_key_Nil split: if_splits)
  have "(length xs - 1) div 2 < length xs" using ne by (cases xs) auto
  then have mid: "fst (xs ! ((length xs - 1) div 2)) \<in> fst ` set values"
    unfolding sets [symmetric] by (intro imageI nth_mem)
  have last: "fst (last xs) \<in> fst ` set values"
    unfolding sets [symmetric] using ne by (intro imageI last_in_set)
  let ?h = "ddiv (dsum (map snd xs)) 2"
  have m: "m = (if dsum (map snd xs) \<le> 0 then fst (xs ! ((length xs - 1) div 2))
      else case median_scan ?h 0 xs of Some v \<Rightarrow> v | None \<Rightarrow> fst (last xs))"
    using assms by (auto simp: weighted_median_def Let_def xs_def [symmetric] split: if_splits option.splits)
  show ?thesis
  proof (cases "median_scan ?h 0 xs")
    case None
    then show ?thesis using m mid last by simp
  next
    case (Some v)
    then have "v \<in> fst ` set values" using scan [of ?h 0 xs] sets by auto
    with Some show ?thesis using m mid by simp
  qed
qed

lemma weighted_median_Some: "values \<noteq> [] \<Longrightarrow> \<exists>m. weighted_median values = Some m"
  by (auto simp: weighted_median_def Let_def split: option.splits)

lemma weighted_median_mset: "mset xs = mset ys \<Longrightarrow> weighted_median xs = weighted_median ys"
  using sort_eq_of_mset [of xs ys] by (auto simp: weighted_median_def)

subsection \<open>The rows of a round\<close>

lemma fold_push_keys:
  "fst ` set (fold (\<lambda>(c, s). dict_push c s) ss m) = fst ` set ss \<union> fst ` set m"
proof (induction ss arbitrary: m)
  case (Cons cs ss)
  then show ?case by (cases cs) (simp add: keys_dict_push)
qed simp

lemma fold_push_distinct:
  "distinct (map fst m) \<Longrightarrow> distinct (map fst (fold (\<lambda>(c, s). dict_push c s) ss m))"
  by (induction ss arbitrary: m) (auto simp: distinct_dict_push)

lemma fold_push_lookup:
  "map_of (fold (\<lambda>(c, s). dict_push c s) ss m) k =
     (let new = map snd (filter (\<lambda>cs. fst cs = k) ss)
      in case map_of m k of
           Some vs \<Rightarrow> Some (vs @ new) | None \<Rightarrow> if new = [] then None else Some new)"
proof (induction ss arbitrary: m)
  case (Cons cs ss)
  obtain c s where cs: "cs = (c, s)" by force
  show ?case
    by (cases "c = k"; cases "map_of m k") (simp_all add: cs Cons.IH Let_def map_of_dict_push)
qed (simp split: option.splits)

lemma group_by_key_facts:
  "fst ` set (group_by_key ss) = fst ` set ss"
  "distinct (map fst (group_by_key ss))"
  "(c, vs) \<in> set (group_by_key ss) \<Longrightarrow> vs = map snd (filter (\<lambda>cs. fst cs = c) ss) \<and> vs \<noteq> []"
proof -
  show "fst ` set (group_by_key ss) = fst ` set ss"
    by (simp add: group_by_key_def fold_push_keys)
  show d: "distinct (map fst (group_by_key ss))"
    by (simp add: group_by_key_def fold_push_distinct)
  assume "(c, vs) \<in> set (group_by_key ss)"
  then have "map_of (group_by_key ss) c = Some vs" using d by simp
  then show "vs = map snd (filter (\<lambda>cs. fst cs = c) ss) \<and> vs \<noteq> []"
    by (auto simp: group_by_key_def fold_push_lookup Let_def split: if_splits)
qed

lemma weighted_mad_nonneg: "weighted_mad values m = Some d \<Longrightarrow> 0 \<le> d"
  by (auto simp: weighted_mad_def dest!: weighted_median_member)

lemma aggregate_cell_Some:
  assumes "entries \<noteq> []"
  obtains m d where "aggregate_cell entries = Some (m, d, length entries)"
    "weighted_median entries = Some m" "weighted_mad entries m = Some d" "0 \<le> d"
proof -
  obtain m where m: "weighted_median entries = Some m" using weighted_median_Some [OF assms] by blast
  obtain d where d: "weighted_mad entries m = Some d"
    using weighted_median_Some [of "map (\<lambda>(v, w). (\<bar>v - m\<bar>, w)) entries"] assms
    by (auto simp: weighted_mad_def)
  then have "0 \<le> d" by (rule weighted_mad_nonneg)
  with m d that show thesis by (simp add: aggregate_cell_def)
qed

text \<open>The row of a coordinate, from the samples submitted there: their number, their weighted median,
  and the weighted median of the distances from it.\<close>

definition samples_at :: "(coordinate \<times> int \<times> rat) list \<Rightarrow> coordinate \<Rightarrow> (int \<times> rat) list" where
  "samples_at ss c = map snd (filter (\<lambda>cs. fst cs = c) ss)"

definition row_of :: "(int \<times> rat) list \<Rightarrow> consensus_row \<Rightarrow> bool" where
  "row_of vs r \<longleftrightarrow>
     cr_n_submitters r = int (length vs)
     \<and> (\<exists>m d. weighted_median vs = Some m \<and> cr_value r = of_int m
          \<and> weighted_median (map (\<lambda>(v, weight). (\<bar>v - m\<bar>, weight)) vs) = Some d \<and> cr_dispersion r = of_int d)"

lemma row_of_mset:
  assumes "mset vs = mset ws" "row_of vs r"
  shows "row_of ws r"
proof -
  have "mset (map f vs) = mset (map f ws)" for f :: "int \<times> rat \<Rightarrow> int \<times> rat" using assms(1) by simp
  then show ?thesis
    using assms weighted_median_mset [OF assms(1)] weighted_median_mset [of "map f vs" "map f ws" for f]
      mset_eq_length [OF assms(1)]
    by (simp add: row_of_def)
qed

lemma coordinate_row_ok:
  assumes "(c, vs) \<in> set (group_by_key ss)"
  shows "\<exists>r. coordinate_row (c, vs) = Inr r \<and> cr_coordinate r = c \<and> row_of (samples_at ss c) r"
proof -
  have vs: "vs = samples_at ss c" "vs \<noteq> []"
    using group_by_key_facts(3) [OF assms] by (auto simp: samples_at_def)
  obtain m d where a: "aggregate_cell vs = Some (m, d, length vs)" "weighted_median vs = Some m"
      "weighted_mad vs m = Some d" "0 \<le> d"
    by (rule aggregate_cell_Some [OF vs(2)])
  then show ?thesis
    using vs by (simp add: coordinate_row_def mk_consensus_row_def row_of_def weighted_mad_def)
qed

lemma map_fst_sort_key: "map fst (sort_key fst xs) = sort (map fst xs)"
  by (rule sym, rule properties_for_sort) simp_all

lemma etraverse_rows:
  assumes "\<And>x. x \<in> set xs \<Longrightarrow> \<exists>r. f x = Inr r \<and> P x r"
  shows "\<exists>rs. etraverse f xs = Inr rs \<and> list_all2 P xs rs"
  using assms
proof (induction xs)
  case (Cons x xs)
  then obtain r rs where "f x = Inr r" "P x r" "etraverse f xs = Inr rs" "list_all2 P xs rs" by force
  then show ?case by simp
qed simp

lemma consensus_rows:
  assumes "round_samples bundles blends = Inr ss"
  shows "\<exists>rows. compute_assessment_consensus bundles blends = Inr rows
    \<and> map cr_coordinate rows = sorted_list_of_set (fst ` set ss)
    \<and> list_all (\<lambda>r. row_of (samples_at ss (cr_coordinate r)) r) rows"
proof -
  let ?cells = "sort_key fst (group_by_key ss)"
  let ?P = "\<lambda>x r. cr_coordinate r = fst x \<and> row_of (samples_at ss (fst x)) r"
  have "\<exists>r. coordinate_row x = Inr r \<and> ?P x r" if "x \<in> set ?cells" for x
    using coordinate_row_ok [of "fst x" "snd x" ss] that by simp
  then obtain rows where rows: "etraverse coordinate_row ?cells = Inr rows" "list_all2 ?P ?cells rows"
    using etraverse_rows [of ?cells coordinate_row ?P] by blast
  have "map cr_coordinate rows = map fst ?cells" "list_all (\<lambda>r. row_of (samples_at ss (cr_coordinate r)) r) rows"
    using rows(2) by (induction rule: list_all2_induct) auto
  moreover have "map fst ?cells = sorted_list_of_set (fst ` set ss)"
    using group_by_key_facts(1,2) [of ss]
    by (metis list.set_map sorted_list_of_set_sort map_fst_sort_key)
  ultimately show ?thesis
    using assms rows(1) by (simp add: compute_assessment_consensus_def)
qed

text \<open>The order in which the bundles are given does not matter.\<close>

lemma sort_key_unique:
  assumes "mset xs = mset ys" "distinct (map f xs)"
  shows "sort_key f xs = sort_key f ys"
  by (rule sort_key_inj_key_eq) (use assms in \<open>auto simp: distinct_map\<close>)

lemma compute_assessment_consensus_mset:
  assumes "mset bs = mset cs" "distinct (map fst bs)"
  shows "compute_assessment_consensus bs blends = compute_assessment_consensus cs blends"
  using sort_key_unique [OF assms] by (simp add: compute_assessment_consensus_def round_samples_def)

text \<open>Values that make coordinates; those of a bundle its schema's model accepted do.\<close>

definition values_ok :: "asset_values \<Rightarrow> bool" where
  "values_ok a \<longleftrightarrow> 0 \<le> fst a \<and> (\<forall>(h, out, v) \<in> set (snd a). 0 < h \<and> out \<noteq> [])"

lemma parsed_values_ok:
  assumes "parse_risk_bundle n = Inr b \<or> parse_lending_bundle n = Inr b" "a \<in> set (bundle_values b)"
  shows "values_ok a"
proof -
  have names: "risk_output_name r \<noteq> []" "lending_output_name l \<noteq> []"
    "[] \<noteq> risk_output_name r" "[] \<noteq> lending_output_name l" for r l
    by (cases r; cases l; simp)+
  have risk: "0 < ov_horizon v" if "output_ok risk_model v" for v
    using that
    by (auto simp: output_ok_def risk_model_def risk_horizons_def horizon_5d_seconds_def horizon_30d_seconds_def)
  have lending: "0 < ov_horizon v" if "output_ok lending_model v" for v
    using that by (auto simp: output_ok_def lending_model_def lending_horizon_seconds_def)
  show ?thesis
    using assms names risk lending
    by (auto simp: parse_risk_bundle_def parse_lending_bundle_def values_ok_def bundle_ok_def asset_ok_def
        dest!: risk.parse_bundle_ok lending.parse_bundle_ok)
qed

definition asset_cells :: "rat \<Rightarrow> asset_values \<Rightarrow> (coordinate \<times> int \<times> rat) list" where
  "asset_cells w a =
     map (\<lambda>x. (Coordinate Subnet_asset (str_int (fst a)) Seconds (fst x) (fst (snd x)), snd (snd x), w)) (snd a)"

text \<open>Every value of every bundle, with the weight of its hotkey, as often as it was submitted.\<close>

definition submitted_samples ::
  "(string \<rightharpoonup> rat) \<Rightarrow> (string \<times> asset_values list) list \<Rightarrow> (coordinate \<times> int \<times> rat) list" where
  "submitted_samples blends bundles =
     concat (map (\<lambda>hb. concat (map (asset_cells (consensus_weight blends (fst hb))) (snd hb))) bundles)"

lemma asset_samples_ok: "values_ok a \<Longrightarrow> asset_samples w a = Inr (asset_cells w a)"
  unfolding asset_samples_def asset_cells_def
proof (rule etraverse_map)
  fix x assume "values_ok a" "x \<in> set (snd a)"
  then have "0 \<le> fst a \<and> 0 < fst x \<and> fst (snd x) \<noteq> []" by (cases x) (auto simp: values_ok_def)
  then have "subnet_asset (fst a) (fst x) (fst (snd x))
      = Inr (Coordinate Subnet_asset (str_int (fst a)) Seconds (fst x) (fst (snd x)))"
    by (simp add: subnet_asset_Inr)
  then show "(case x of (h, out, v) \<Rightarrow>
       case subnet_asset (fst a) h out of
         Inl e \<Rightarrow> Inl (Consensus_coordinate e) | Inr c \<Rightarrow> Inr (c, v, w))
     = Inr (Coordinate Subnet_asset (str_int (fst a)) Seconds (fst x) (fst (snd x)), snd (snd x), w)"
    by (simp add: split_def)
qed

lemma bundle_samples_ok:
  assumes "\<And>a. a \<in> set (snd hb) \<Longrightarrow> values_ok a"
  shows "bundle_samples blends hb
    = Inr (concat (map (asset_cells (consensus_weight blends (fst hb))) (snd hb)))"
  by (simp add: bundle_samples_def etraverse_map [OF asset_samples_ok [OF assms]])

definition bundles_values_ok :: "(string \<times> asset_values list) list \<Rightarrow> bool" where
  "bundles_values_ok bundles \<longleftrightarrow> (\<forall>hb \<in> set bundles. \<forall>a \<in> set (snd hb). values_ok a)"

lemma round_samples_ok:
  assumes "bundles_values_ok bundles"
  shows "round_samples bundles blends = Inr (submitted_samples blends (sort_key fst bundles))"
proof -
  have "etraverse (bundle_samples blends) (sort_key fst bundles)
    = Inr (map (\<lambda>hb. concat (map (asset_cells (consensus_weight blends (fst hb))) (snd hb)))
        (sort_key fst bundles))"
    by (rule etraverse_map, rule bundle_samples_ok) (use assms in \<open>simp add: bundles_values_ok_def\<close>)
  then show ?thesis by (simp add: round_samples_def submitted_samples_def)
qed

lemma submitted_samples_mset:
  "mset xs = mset ys \<Longrightarrow> mset (submitted_samples blends xs) = mset (submitted_samples blends ys)"
  unfolding submitted_samples_def by (simp add: mset_concat flip: sum_mset_sum_list)

lemma samples_at_mset: "mset xs = mset ys \<Longrightarrow> mset (samples_at xs c) = mset (samples_at ys c)"
  by (simp add: samples_at_def)

subsection \<open>Properties\<close>

text \<open>
  C37: The weighted median is the weighted half quantile: it lies at or below \<open>v\<close> exactly when the
  weight submitted at or below \<open>v\<close>, summed as the code sums it, reaches half of the total.
\<close>

theorem weighted_median_is_half_quantile:
  assumes "values \<noteq> []" "\<forall>x \<in> set values. 0 \<le> snd x" "0 < total_weight values"
  shows "\<exists>m. weighted_median values = Some m \<and> m \<in> fst ` set values
    \<and> (\<forall>v. m \<le> v \<longleftrightarrow> ddiv (total_weight values) 2 \<le> weight_up_to v values)"
proof -
  obtain m where m: "weighted_median values = Some m" using weighted_median_Some [OF assms(1)] by blast
  moreover have "m \<in> fst ` set values" by (rule weighted_median_member [OF m])
  moreover have "\<forall>v. m \<le> v \<longleftrightarrow> ddiv (total_weight values) 2 \<le> weight_up_to v values"
    using weighted_median_le_iff [OF assms(1) _ assms(3) m] assms(2) by blast
  ultimately show ?thesis by blast
qed

lemma weighted_median_is_half_quantile_witness:
  "\<exists>m. weighted_median [(7, 1), (3, 1/2), (9, 1/4)] = Some m
    \<and> m \<in> fst ` set [(7, 1), (3, 1/2), (9, 1/4 :: rat)]
    \<and> (\<forall>v. m \<le> v \<longleftrightarrow> ddiv (total_weight [(7, 1), (3, 1/2), (9, 1/4)]) 2
         \<le> weight_up_to v [(7, 1), (3, 1/2), (9, 1/4)])"
  by (rule weighted_median_is_half_quantile; code_simp)

text \<open>
  C38: The consensus of a round whose bundles hold valid values never fails and depends on the bundles
  only, not on their order: it has one row per submitted coordinate, in coordinate order, and the row of a
  coordinate has the number of the values submitted there, every one of every bundle counted, their
  median weighted by the hotkeys' scores, and as dispersion the weighted median of their distances from it.
\<close>

theorem consensus_rows_correct:
  assumes "bundles_values_ok bundles" "distinct (map fst bundles)"
  shows "\<exists>rows. compute_assessment_consensus bundles blends = Inr rows
    \<and> map cr_coordinate rows = sorted_list_of_set (fst ` set (submitted_samples blends bundles))
    \<and> list_all (\<lambda>r. row_of (samples_at (submitted_samples blends bundles) (cr_coordinate r)) r) rows
    \<and> (\<forall>others. mset others = mset bundles \<longrightarrow>
         compute_assessment_consensus others blends = Inr rows)"
proof -
  let ?ss = "submitted_samples blends (sort_key fst bundles)" and ?all = "submitted_samples blends bundles"
  have same: "mset ?ss = mset ?all" by (rule submitted_samples_mset) simp
  obtain rows where rows: "compute_assessment_consensus bundles blends = Inr rows"
      "map cr_coordinate rows = sorted_list_of_set (fst ` set ?ss)"
      "list_all (\<lambda>r. row_of (samples_at ?ss (cr_coordinate r)) r) rows"
    using consensus_rows [OF round_samples_ok [OF assms(1)]] by blast
  have "list_all (\<lambda>r. row_of (samples_at ?all (cr_coordinate r)) r) rows"
    using rows(3) row_of_mset [OF samples_at_mset [OF same]] by (simp add: list_all_iff)
  moreover have "compute_assessment_consensus others blends = Inr rows" if "mset others = mset bundles" for others
    using compute_assessment_consensus_mset [OF that [symmetric] assms(2)] rows(1) by simp
  ultimately show ?thesis using rows(1,2) mset_eq_setD [OF same] by auto
qed

lemma consensus_rows_correct_witness:
  "\<exists>rows. compute_assessment_consensus
       [(''b'', [(8, [(5, ''x'', 10)])]), (''a'', [(8, [(5, ''x'', 30)])]), (''c'', [(8, [(5, ''x'', 30)])])]
       (\<lambda>_. None) = Inr rows
     \<and> list_all (\<lambda>r. row_of [(10, 1/100), (30, 1/100), (30, 1/100)] r) rows
     \<and> map cr_coordinate rows = [Coordinate Subnet_asset ''8'' Seconds 5 ''x'']"
proof -
  let ?bs = "[(''b'', [(8, [(5, ''x'', 10)])]), (''a'', [(8, [(5, ''x'', 30)])]), (''c'', [(8, [(5, ''x'', 30)])])]
      :: (string \<times> asset_values list) list"
  let ?c = "Coordinate Subnet_asset ''8'' Seconds 5 ''x''"
  have "bundles_values_ok ?bs" by (simp add: bundles_values_ok_def values_ok_def)
  from consensus_rows_correct [OF this, where blends = "\<lambda>_. None"] obtain rows where rows:
    "compute_assessment_consensus ?bs (\<lambda>_. None) = Inr rows"
    "map cr_coordinate rows = sorted_list_of_set (fst ` set (submitted_samples (\<lambda>_. None) ?bs))"
    "list_all (\<lambda>r. row_of (samples_at (submitted_samples (\<lambda>_. None) ?bs) (cr_coordinate r)) r) rows"
    by auto
  have ss: "submitted_samples (\<lambda>_. None) ?bs = [(?c, 10, 1/100), (?c, 30, 1/100), (?c, 30, 1/100)]"
    by code_simp
  then have "map cr_coordinate rows = [?c]" using rows(2) by simp
  then show ?thesis using rows(1,3) by (auto simp: ss samples_at_def)
qed

end
