(* ===== verification/Weights.thy ===== *)
theory Weights
  imports Prelude Decimal28 "HOL-Library.List_Lexorder" "HOL-Library.Char_ord"
begin

text \<open>
  The payout memory and the score-to-weight transformation (\<open>endure/scoring/weights.py\<close>,
  \<open>policy.py\<close>, \<open>context.py\<close>).  A mapping from hotkeys is an association list in insertion order.
  The levelling loop is stated over its rounding \<open>rnd\<close>: the code runs it with \<open>rnd28\<close>, and
  with exact arithmetic it says what a pool is meant to weigh.
\<close>

definition weight_sharpening_gamma :: nat where
  "weight_sharpening_gamma = 3"

definition default_payout_half_life_rounds :: int where
  "default_payout_half_life_rounds = 5"

subsection \<open>The moving average\<close>

text \<open>\<open>None\<close> is the \<open>ValueError\<close> of a half life that is not positive.\<close>

definition ema_alpha :: "int \<Rightarrow> rat" where
  "ema_alpha half_life = dsub 1 (exp2_neg (ddiv (- 1) (of_int half_life)))"

definition ema_update :: "rat option \<Rightarrow> rat \<Rightarrow> int \<Rightarrow> rat option" where
  "ema_update previous observation half_life =
     (if half_life \<le> 0 then None
      else
        let prev = (case previous of None \<Rightarrow> 0 | Some p \<Rightarrow> p); alpha = ema_alpha half_life
        in Some (dadd (dmul alpha observation) (dmul (dsub 1 alpha) prev)))"

subsection \<open>Levelling a pool\<close>

fun level_scan :: "(rat \<Rightarrow> rat) \<Rightarrow> rat \<Rightarrow> nat \<Rightarrow> rat \<Rightarrow> rat \<Rightarrow> rat list \<Rightarrow> rat" where
  "level_scan rnd best n pooled level [] = level"
| "level_scan rnd best n pooled level (v # vs) =
     (let pooled = rnd (pooled + v); candidate = rnd (rnd (pooled - best) / of_nat (Suc n))
      in if v \<le> candidate then level else level_scan rnd best (Suc n) pooled candidate vs)"

definition cut_level :: "(rat \<Rightarrow> rat) \<Rightarrow> rat list \<Rightarrow> rat" where
  "cut_level rnd values =
     (let ordered = rev (sort values) in level_scan rnd (hd ordered) 0 0 0 ordered)"

definition level_to_best :: "(string \<times> rat) list \<Rightarrow> (string \<times> rat) list" where
  "level_to_best members =
     (let level = cut_level rnd28 (map snd members)
      in map (\<lambda>(k, v). (k, max (dsub v level) 0)) members)"

subsection \<open>Weights\<close>

text \<open>\<open>{key: powered[key] for key in pool if key in powered}\<close> and \<open>powered.update(...)\<close>.\<close>

definition pool_members :: "(string \<times> rat) list \<Rightarrow> string list \<Rightarrow> (string \<times> rat) list" where
  "pool_members powered pool =
     concat (map (\<lambda>k. case map_of powered k of None \<Rightarrow> [] | Some v \<Rightarrow> [(k, v)]) pool)"

definition dict_update :: "('k \<times> 'v) list \<Rightarrow> ('k \<times> 'v) list \<Rightarrow> ('k \<times> 'v) list" where
  "dict_update new m = fold (\<lambda>(k, v). dict_set k v) new m"

definition level_pool :: "string list \<Rightarrow> (string \<times> rat) list \<Rightarrow> (string \<times> rat) list" where
  "level_pool pool powered = dict_update (level_to_best (pool_members powered pool)) powered"

definition normalize_weights ::
  "(string \<times> rat) list \<Rightarrow> nat \<Rightarrow> string list list \<Rightarrow> (string \<times> rat) list" where
  "normalize_weights scores gamma pools =
     (let powered = map (\<lambda>(k, s). (k, dpow s gamma)) scores;
          powered = fold level_pool pools powered;
          total = dsum (map snd (sort_key fst powered))
      in if total = 0 then map (\<lambda>(k, s). (k, 0)) scores
         else map (\<lambda>(k, v). (k, ddiv v total)) powered)"

subsection \<open>The moving average stays in the unit interval\<close>

lemma ema_alpha_unit:
  assumes "0 < n"
  shows "0 \<le> ema_alpha n \<and> ema_alpha n \<le> 1/2 \<and> is_dec (ema_alpha n)
    \<and> dsub 1 (ema_alpha n) = 1 - ema_alpha n \<and> is_dec (1 - ema_alpha n)"
proof -
  define y where "y = ddiv (- 1) (of_int n)"
  have "0 < 1 / (of_int n :: rat)" "1 / (of_int n :: rat) \<le> 1" using assms by simp_all
  then have "0 < rnd28 (1 / of_int n)" "rnd28 (1 / of_int n) \<le> 1"
    by (auto intro: dec.pos dec.le_fix dec.one)
  moreover have "y = - rnd28 (1 / of_int n)"
    using dec.minus [of "1 / of_int n"] by (simp add: y_def ddiv_def)
  ultimately have "- 1 \<le> y" "y < 0" by simp_all
  then have e: "1/2 \<le> exp2_neg y" "exp2_neg y \<le> 1" "is_dec (exp2_neg y)" "is_dec (1 - exp2_neg y)"
    using exp2_neg_unit [of y] by simp_all
  have a: "ema_alpha n = 1 - exp2_neg y"
    using e(4) by (simp add: ema_alpha_def y_def [symmetric] dsub_def is_dec_def)
  have "dsub 1 (ema_alpha n) = exp2_neg y" using e(3) by (simp add: a dsub_def is_dec_def)
  then show ?thesis using a e by simp
qed

lemma ema_update_unit:
  assumes "ema_update prev obs n = Some e" "0 \<le> obs" "obs \<le> 1"
    "\<And>p. prev = Some p \<Longrightarrow> 0 \<le> p \<and> p \<le> 1"
  shows "0 \<le> e \<and> e \<le> 1 \<and> is_dec e"
proof -
  let ?p = "case prev of None \<Rightarrow> 0 | Some p \<Rightarrow> p"
  have n: "0 < n" using assms(1) by (simp add: ema_update_def split: if_splits)
  note u = ema_alpha_unit [OF n]
  have p: "0 \<le> ?p" "?p \<le> 1" using assms(4) by (auto split: option.splits)
  have e: "e = dadd (dmul (ema_alpha n) obs) (dmul (1 - ema_alpha n) ?p)"
    using assms(1) n u by (simp add: ema_update_def Let_def)
  have "0 \<le> rnd28 (rnd28 (ema_alpha n * obs) + rnd28 ((1 - ema_alpha n) * ?p))
      \<and> rnd28 (rnd28 (ema_alpha n * obs) + rnd28 ((1 - ema_alpha n) * ?p)) \<le> 1"
    by (rule dec.convex_unit) (use u assms p in \<open>auto simp: is_dec_def\<close>)
  then show ?thesis by (simp add: e dec_ops)
qed

lemma ema_update_absent:
  assumes "ema_update (Some p) 0 n = Some e" "0 \<le> p" "is_dec p"
  shows "0 \<le> e \<and> e \<le> p"
proof -
  have n: "0 < n" using assms(1) by (simp add: ema_update_def split: if_splits)
  note u = ema_alpha_unit [OF n]
  have "e = rnd28 (rnd28 ((1 - ema_alpha n) * p))"
    using assms(1) n u by (simp add: ema_update_def Let_def dec_ops dec.zero)
  then have e: "e = rnd28 ((1 - ema_alpha n) * p)" by (simp add: dec.idem)
  have "(1 - ema_alpha n) * p \<le> p" using u assms(2) by (simp add: mult_left_le_one_le)
  moreover have "0 \<le> (1 - ema_alpha n) * p" using u assms(2) by simp
  ultimately show ?thesis using assms(3) by (auto simp: e is_dec_def intro: dec.le_fix dec.nonneg)
qed

lemma ema_update_mono:
  assumes "ema_update (Some p) x n = Some e" "ema_update (Some q) y n = Some f" "p \<le> q" "x \<le> y"
  shows "e \<le> f"
proof -
  have n: "0 < n" using assms(1) by (simp add: ema_update_def split: if_splits)
  note u = ema_alpha_unit [OF n]
  have "e = dadd (dmul (ema_alpha n) x) (dmul (1 - ema_alpha n) p)"
    "f = dadd (dmul (ema_alpha n) y) (dmul (1 - ema_alpha n) q)"
    using assms(1,2) n u by (simp_all add: ema_update_def Let_def)
  then show ?thesis
    using u assms(3,4) by (auto simp: dec_ops intro!: dec.mono add_mono mult_left_mono)
qed

subsection \<open>The exact level\<close>

definition exact_level :: "rat list \<Rightarrow> rat" where
  "exact_level = cut_level (\<lambda>x. x)"

definition cut :: "rat \<Rightarrow> rat \<Rightarrow> rat" where
  "cut level v = max (v - level) 0"

lemma sum_cut_above: "(\<And>p. p \<in> set ps \<Longrightarrow> l \<le> p) \<Longrightarrow> sum_list (map (cut l) ps) = sum_list ps - of_nat (length ps) * l"
  by (induction ps) (auto simp: cut_def algebra_simps)

lemma sum_cut_below: "(\<And>p. p \<in> set ps \<Longrightarrow> p \<le> l) \<Longrightarrow> sum_list (map (cut l) ps) = 0"
  by (induction ps) (auto simp: cut_def)

lemma level_scan_exact:
  assumes "sorted_wrt (\<ge>) vs" "0 < n" "level = (pooled - best) / of_nat n" "pooled = sum_list ps"
    "length ps = n" "\<And>p. p \<in> set ps \<Longrightarrow> level \<le> p" "\<And>p v. p \<in> set ps \<Longrightarrow> v \<in> set vs \<Longrightarrow> v \<le> p"
  defines "l \<equiv> level_scan (\<lambda>x. x) best n pooled level vs"
  shows "level \<le> l \<and> sum_list (map (cut l) (ps @ vs)) = best"
  using assms(1-7) unfolding l_def
proof (induction vs arbitrary: n pooled level ps)
  case Nil
  then show ?case using sum_cut_above [of ps level] by simp
next
  case (Cons v vs)
  let ?c = "(pooled + v - best) / of_nat (Suc n)"
  have n: "(0 :: rat) < of_nat n" "of_nat (Suc n) = (of_nat n + 1 :: rat)" using Cons.prems(2) by simp_all
  have le_iff: "v \<le> ?c \<longleftrightarrow> v \<le> level" "level \<le> ?c \<longleftrightarrow> level \<le> v"
    using n unfolding Cons.prems(3) by (auto simp: field_simps)
  show ?case
  proof (cases "v \<le> ?c")
    case True
    then have "v \<le> level" using le_iff by simp
    then have "\<And>x. x \<in> set (v # vs) \<Longrightarrow> x \<le> level" using Cons.prems(1) by force
    then have "sum_list (map (cut level) (v # vs)) = 0" by (rule sum_cut_below)
    moreover have "sum_list (map (cut level) ps) = best"
      using sum_cut_above [OF Cons.prems(6)] Cons.prems(2-5) n by simp
    ultimately show ?thesis using True by (simp add: Let_def)
  next
    case False
    then have lt: "level < v" "?c < v" using le_iff by auto
    have "?c \<le> l' \<and> sum_list (map (cut l') ((ps @ [v]) @ vs)) = best"
      if "l' = level_scan (\<lambda>x. x) best (Suc n) (pooled + v) ?c vs" for l'
      unfolding that
    proof (rule Cons.IH)
      show "?c \<le> p" if "p \<in> set (ps @ [v])" for p
        using that lt Cons.prems(7) by (auto intro: order_trans [of _ v])
      show "x \<le> p" if "p \<in> set (ps @ [v])" "x \<in> set vs" for p x
        using that Cons.prems(1,7) by auto
    qed (use Cons.prems in simp_all)
    then show ?thesis using False lt(1) le_iff by (auto simp: Let_def)
  qed
qed

lemma exact_level:
  assumes "vs \<noteq> []" "\<And>v. v \<in> set vs \<Longrightarrow> 0 \<le> v"
  shows "0 \<le> exact_level vs \<and> sum_list (map (cut (exact_level vs)) vs) = Max (set vs)"
proof -
  define os where "os = rev (sort vs)"
  have perm: "mset os = mset vs" and sorted: "sorted_wrt (\<ge>) os"
    by (simp_all add: os_def sorted_wrt_rev)
  obtain b bs where os: "os = b # bs" using assms(1) perm by (cases os) auto
  have set: "set os = set vs" using perm by (metis set_mset_mset)
  have b: "b = Max (set vs)"
    using sorted by (auto simp: os set [symmetric] intro!: Max_eqI [symmetric])
  have nn: "0 \<le> b" using assms(2) set os by auto
  define l where "l = exact_level vs"
  have l: "l = level_scan (\<lambda>x. x) b 0 0 0 (b # bs)"
    by (simp add: l_def exact_level_def cut_level_def Let_def os_def [symmetric] os)
  have "0 \<le> l \<and> sum_list (map (cut l) os) = b"
  proof (cases "b = 0")
    case True
    then have "l = 0" by (simp add: l Let_def)
    moreover have "v = 0" if "v \<in> set os" for v
      using that True sorted assms(2) set by (force simp: os)
    then have "sum_list (map (cut 0) os) = 0" by (intro sum_cut_below) (metis order_refl)
    ultimately show ?thesis using True by simp
  next
    case False
    with nn have "l = level_scan (\<lambda>x. x) b (Suc 0) b 0 bs" by (simp add: l Let_def)
    moreover have "0 \<le> level_scan (\<lambda>x. x) b (Suc 0) b 0 bs
        \<and> sum_list (map (cut (level_scan (\<lambda>x. x) b (Suc 0) b 0 bs)) ([b] @ bs)) = b"
      by (rule level_scan_exact) (use sorted nn in \<open>auto simp: os\<close>)
    ultimately show ?thesis by (simp add: os)
  qed
  moreover have "sum_list (map (cut l) os) = sum_list (map (cut l) vs)"
    using perm by (metis mset_map sum_mset_sum_list)
  ultimately show ?thesis by (simp add: b l_def)
qed

lemma exact_level_mono_cost:
  assumes "vs \<noteq> []" "ws \<noteq> []" "\<And>v. v \<in> set (vs @ ws) \<Longrightarrow> 0 \<le> v"
  shows "sum_list (map (cut (exact_level vs)) vs) - sum_list (map (cut (exact_level (vs @ ws))) vs)
    \<le> sum_list (map (\<lambda>w. w - cut (exact_level (vs @ ws)) w) ws)"
proof -
  let ?l = "exact_level (vs @ ws)"
  have own: "sum_list (map (cut (exact_level vs)) vs) = Max (set vs)"
    using exact_level [OF assms(1)] assms(3) by simp
  have l: "0 \<le> ?l" "sum_list (map (cut ?l) vs) + sum_list (map (cut ?l) ws) = Max (set (vs @ ws))"
    using exact_level [of "vs @ ws"] assms by simp_all
  have give: "0 \<le> w - cut ?l w" if "w \<in> set ws" for w
    using that assms(3) l(1) by (auto simp: cut_def)
  have gives: "w - cut ?l w \<le> sum_list (map (\<lambda>w. w - cut ?l w) ws)" if "w \<in> set ws" for w
    using that give by (intro member_le_sum_list) auto
  show ?thesis
  proof (cases "\<exists>w \<in> set ws. ?l \<le> w")
    case True
    then obtain w where w: "w \<in> set ws" "?l \<le> w" by blast
    have "Max (set vs) \<in> set vs" using assms(1) by simp
    then have "cut ?l (Max (set vs)) \<le> sum_list (map (cut ?l) vs)"
      by (intro member_le_sum_list) (auto simp: cut_def)
    then have "Max (set vs) - ?l \<le> sum_list (map (cut ?l) vs)" by (simp add: cut_def)
    moreover have "w - cut ?l w = ?l" using w(2) by (simp add: cut_def)
    ultimately show ?thesis using gives [OF w(1)] own by simp
  next
    case False
    then have "sum_list (map (cut ?l) ws) = 0" by (intro sum_cut_below) auto
    moreover have "Max (set vs) \<le> Max (set (vs @ ws))"
      using assms(1) by (intro Max_mono) auto
    moreover have "0 \<le> sum_list (map (\<lambda>w. w - cut ?l w) ws)"
      using give by (intro sum_list_nonneg) auto
    ultimately show ?thesis using l(2) own by simp
  qed
qed

subsection \<open>The weights the code computes\<close>

lemma level_scan_nonneg:
  assumes "\<And>v. v \<in> set vs \<Longrightarrow> 0 \<le> v" "is_dec pooled" "best \<le> pooled" "0 \<le> level"
  shows "0 \<le> level_scan rnd28 best n pooled level vs"
  using assms
proof (induction vs arbitrary: n pooled level)
  case (Cons v vs)
  have ge: "pooled \<le> rnd28 (pooled + v)"
    using Cons.prems by (auto simp: is_dec_def intro: dec.ge_fix)
  then have "0 \<le> rnd28 (rnd28 (rnd28 (pooled + v) - best) / of_nat (Suc n))"
    using Cons.prems(3) by (intro dec.nonneg divide_nonneg_nonneg) auto
  then show ?case using Cons ge by (auto simp: Let_def intro!: Cons.IH)
qed simp

lemma cut_level_nonneg:
  assumes "\<And>v. v \<in> set vs \<Longrightarrow> 0 \<le> v \<and> is_dec v"
  shows "0 \<le> cut_level rnd28 vs"
proof (cases "rev (sort vs)")
  case (Cons b bs)
  have "set (rev (sort vs)) = set vs" by simp
  then have b: "0 \<le> b" "is_dec b" and bs: "\<And>v. v \<in> set bs \<Longrightarrow> 0 \<le> v"
    using assms Cons by (metis list.set_intros)+
  then have "rnd28 (0 + b) = b" "rnd28 (b - b) = 0" by (simp_all add: is_dec_def dec.zero)
  then show ?thesis
    using b bs by (auto simp: cut_level_def Let_def Cons dec.zero intro!: level_scan_nonneg)
qed (simp add: cut_level_def Let_def)

lemma level_to_best_keys [simp]: "map fst (level_to_best ms) = map fst ms"
  by (simp add: level_to_best_def Let_def split_def)

lemma level_to_best_values:
  assumes "(k, w) \<in> set (level_to_best ms)" "\<And>k v. (k, v) \<in> set ms \<Longrightarrow> 0 \<le> v \<and> is_dec v"
  shows "\<exists>v. (k, v) \<in> set ms \<and> 0 \<le> w \<and> w \<le> v \<and> is_dec w"
proof -
  let ?l = "cut_level rnd28 (map snd ms)"
  obtain v where v: "(k, v) \<in> set ms" "w = max (dsub v ?l) 0"
    using assms(1) by (auto simp: level_to_best_def Let_def)
  have l: "0 \<le> ?l" using assms(2) by (intro cut_level_nonneg) auto
  have "dsub v ?l \<le> v"
    using assms(2) [OF v(1)] l by (auto simp: dsub_def is_dec_def intro: dec.le_fix)
  then show ?thesis using v assms(2) [OF v(1)] by (auto simp: max_def)
qed

lemma dict_set_keys: "k \<in> fst ` set m \<Longrightarrow> map fst (dict_set k v m) = map fst m"
  by (induction m) force+

lemma dict_update_keys:
  "fst ` set new \<subseteq> fst ` set m \<Longrightarrow> map fst (dict_update new m) = map fst m"
proof (induction new arbitrary: m)
  case (Cons kv new)
  obtain k v where kv: "kv = (k, v)" by force
  have keys: "map fst (dict_set k v m) = map fst m" using Cons.prems by (intro dict_set_keys) (simp add: kv)
  then have "fst ` set (dict_set k v m) = fst ` set m" by (metis list.set_map)
  then have "map fst (dict_update new (dict_set k v m)) = map fst (dict_set k v m)"
    using Cons.prems by (intro Cons.IH) simp
  then show ?case using keys by (simp add: dict_update_def kv)
qed (simp add: dict_update_def)

lemma dict_set_mem: "(k', v') \<in> set (dict_set k v m) \<Longrightarrow> (k', v') = (k, v) \<or> (k', v') \<in> set m"
  by (induction m) (auto split: if_splits)

lemma dict_update_mem: "kv \<in> set (dict_update new m) \<Longrightarrow> kv \<in> set new \<or> kv \<in> set m"
proof (induction new arbitrary: m)
  case (Cons x new)
  obtain k v where x: "x = (k, v)" by force
  have "kv \<in> set new \<or> kv \<in> set (dict_set k v m)"
    by (rule Cons.IH) (use Cons.prems in \<open>simp add: dict_update_def x\<close>)
  then show ?case using dict_set_mem [of "fst kv" "snd kv" k v m] by (auto simp: x)
qed (simp add: dict_update_def)

lemma pool_members_mem: "(k, v) \<in> set (pool_members m pool) \<Longrightarrow> (k, v) \<in> set m"
  by (auto simp: pool_members_def split: option.splits dest!: sym [of "Some _"] map_of_SomeD)

definition weights_ok :: "(string \<times> rat) list \<Rightarrow> bool" where
  "weights_ok m \<longleftrightarrow> (\<forall>(k, v) \<in> set m. 0 \<le> v \<and> is_dec v)"

lemma level_pool_ok:
  assumes "weights_ok m"
  shows "weights_ok (level_pool pool m)" "map fst (level_pool pool m) = map fst m"
proof -
  have mem: "\<And>k v. (k, v) \<in> set (pool_members m pool) \<Longrightarrow> 0 \<le> v \<and> is_dec v"
    using assms pool_members_mem by (fastforce simp: weights_ok_def)
  show "weights_ok (level_pool pool m)"
    using assms level_to_best_values [OF _ mem] by (fastforce simp: weights_ok_def level_pool_def dest: dict_update_mem)
  have "fst ` set (level_to_best (pool_members m pool)) = fst ` set (pool_members m pool)"
    by (metis level_to_best_keys list.set_map)
  also have "\<dots> \<subseteq> fst ` set m" using pool_members_mem by force
  finally show "map fst (level_pool pool m) = map fst m"
    unfolding level_pool_def by (rule dict_update_keys)
qed

lemma level_pools_ok:
  "weights_ok m \<Longrightarrow> weights_ok (fold level_pool pools m) \<and> map fst (fold level_pool pools m) = map fst m"
  by (induction pools arbitrary: m) (simp_all add: level_pool_ok)

lemma powered_ok:
  assumes "\<And>k s. (k, s) \<in> set scores \<Longrightarrow> 0 \<le> s"
  shows "weights_ok (map (\<lambda>(k, s). (k, dpow s gamma)) scores)"
  using assms by (auto simp: weights_ok_def intro: dpow_nonneg)

lemma normalize_weights_unit:
  assumes "\<And>k s. (k, s) \<in> set scores \<Longrightarrow> 0 \<le> s"
  shows "map fst (normalize_weights scores gamma pools) = map fst scores"
    "(k, w) \<in> set (normalize_weights scores gamma pools) \<Longrightarrow> 0 \<le> w \<and> w \<le> 1"
proof -
  define p where "p = fold level_pool pools (map (\<lambda>(k, s). (k, dpow s gamma)) scores)"
  have p: "weights_ok p" "map fst p = map fst scores"
    using level_pools_ok [of _ pools, OF powered_ok [of scores gamma, OF assms]] by (simp_all add: p_def split_def o_def)
  have norm: "normalize_weights scores gamma pools =
      (if dsum (map snd (sort_key fst p)) = 0 then map (\<lambda>(k, s). (k, 0)) scores
       else map (\<lambda>(k, v). (k, ddiv v (dsum (map snd (sort_key fst p))))) p)"
    by (simp add: normalize_weights_def Let_def p_def)
  show "map fst (normalize_weights scores gamma pools) = map fst scores"
    using p(2) by (simp add: norm split_def o_def)
  assume w: "(k, w) \<in> set (normalize_weights scores gamma pools)"
  let ?t = "dsum (map snd (sort_key fst p))"
  show "0 \<le> w \<and> w \<le> 1"
  proof (cases "?t = 0")
    case False
    then obtain v where v: "(k, v) \<in> set p" "w = ddiv v ?t"
      using w by (auto simp: normalize_weights_def Let_def p_def [symmetric])
    have "v \<le> ?t" using p(1) v(1) by (intro dsum_ge_member) (force simp: weights_ok_def)+
    moreover have "0 \<le> v" using p(1) v(1) by (auto simp: weights_ok_def)
    ultimately show ?thesis unfolding v(2) ddiv_def by (intro dec.quotient_unit)
  qed (use w in \<open>auto simp: normalize_weights_def Let_def p_def [symmetric]\<close>)
qed

subsection \<open>Properties\<close>

text \<open>
  A score average stays a score: from a memory and an observation in the unit interval
  \<open>ema_update\<close> makes a 28 digit decimal of the unit interval, without a memory too, and an absence
  never raises it.
\<close>

theorem ema_stays_in_unit_interval:
  assumes "0 < half_life" "0 \<le> obs" "obs \<le> 1" "0 \<le> p" "p \<le> 1" "is_dec p"
  shows "\<exists>e f a. ema_update (Some p) obs half_life = Some e \<and> ema_update None obs half_life = Some f
    \<and> ema_update (Some p) 0 half_life = Some a
    \<and> 0 \<le> e \<and> e \<le> 1 \<and> is_dec e \<and> 0 \<le> f \<and> f \<le> e \<and> 0 \<le> a \<and> a \<le> p"
proof -
  obtain e f a where u: "ema_update (Some p) obs half_life = Some e"
    "ema_update None obs half_life = Some f" "ema_update (Some p) 0 half_life = Some a"
    using assms(1) by (simp add: ema_update_def Let_def)
  have f: "ema_update (Some 0) obs half_life = Some f" using u(2) by (simp add: ema_update_def Let_def split: if_splits)
  have "0 \<le> e \<and> e \<le> 1 \<and> is_dec e" by (rule ema_update_unit [OF u(1)]) (use assms in auto)
  moreover have "0 \<le> f" using ema_update_unit [OF f] assms(2,3) by simp
  moreover have "f \<le> e" by (rule ema_update_mono [OF f u(1) assms(4)]) simp
  moreover have "0 \<le> a \<and> a \<le> p" by (rule ema_update_absent [OF u(3) assms(4,6)])
  ultimately show ?thesis using u by blast
qed

lemma ema_stays_in_unit_interval_witness:
  "\<exists>e. ema_update (Some (1/2)) 1 default_payout_half_life_rounds = Some e \<and> 0 \<le> e \<and> e \<le> 1"
proof -
  have "is_dec (1/2)" by code_simp
  then show ?thesis
    using ema_stays_in_unit_interval [of default_payout_half_life_rounds 1 "1/2"]
    by (auto simp: default_payout_half_life_rounds_def)
qed

text \<open>
  Normalised weights are shares of the vote: every scored hotkey has one, in the order of the
  scores, each in the unit interval, whatever the pools.
\<close>

theorem normalized_weights_are_shares:
  assumes "\<forall>(k, s) \<in> set scores. 0 \<le> s"
  shows "map fst (normalize_weights scores gamma pools) = map fst scores
    \<and> (\<forall>(k, w) \<in> set (normalize_weights scores gamma pools). 0 \<le> w \<and> w \<le> 1)"
  using normalize_weights_unit [of scores] assms by blast

lemma normalized_weights_are_shares_witness:
  "map fst (normalize_weights [(''a'', 1/2), (''b'', 1/2), (''c'', 1)] 3 [[''a'', ''b'']])
    = [''a'', ''b'', ''c'']
   \<and> list_all (\<lambda>kw. 0 \<le> snd kw \<and> snd kw \<le> 1)
       (normalize_weights [(''a'', 1/2), (''b'', 1/2), (''c'', 1)] 3 [[''a'', ''b'']])"
  unfolding list_all_iff
  using normalized_weights_are_shares
    [of "[(''a'', 1/2), (''b'', 1/2), (''c'', 1)]" 3 "[[''a'', ''b'']]"] by (simp add: split_def)

text \<open>
  What pooling is for, in exact arithmetic: a pool of identical forecasts weighs what its best
  member would alone, and copies that join it cost its members at most what the copies give up.
\<close>

theorem pool_weighs_its_best_member:
  assumes "vs \<noteq> []" "ws \<noteq> []" "\<forall>v \<in> set (vs @ ws). 0 \<le> v"
  shows "sum_list (map (cut (exact_level vs)) vs) = Max (set vs)
    \<and> sum_list (map (cut (exact_level vs)) vs) - sum_list (map (cut (exact_level (vs @ ws))) vs)
        \<le> sum_list (map (\<lambda>w. w - cut (exact_level (vs @ ws)) w) ws)"
  using exact_level [OF assms(1)] exact_level_mono_cost [OF assms(1,2)] assms(3) by simp

lemma pool_weighs_its_best_member_witness:
  "sum_list (map (cut (exact_level [1, 1/2])) [1, 1/2]) = Max (set [1, 1/2])"
  using pool_weighs_its_best_member [of "[1, 1/2]" "[1]"] by simp

end
