(* ===== verification/Pools.thy ===== *)
theory Pools
  imports Consensus Weights "HOL-Library.Disjoint_Sets"
begin

text \<open>
  Pooling of identical forecasts (\<open>endure/scoring/duplicates.py\<close>).  A frozenset of hotkeys is a set;
  where the code iterates over one, only the insertion order of a dictionary depends on it, and
  the model takes the sorted order.  \<open>sha256\<close> is a parameter.
\<close>

type_synonym groups = "string set list"

definition pool_window_rounds :: nat where
  "pool_window_rounds = nat default_payout_half_life_rounds"

definition tie_seed_delay :: timedelta where
  "tie_seed_delay = minute"

definition tie_order_domain :: string where
  "tie_order_domain = ''endure.pool_tie_order.v1''"

definition identical_forecast_groups :: "(string \<times> (coordinate \<times> int) list) list \<Rightarrow> groups" where
  "identical_forecast_groups accepted =
     (let grouped = group_by_key (concat (map (\<lambda>(hk, values).
            if values = [] then [] else [(set values, hk)]) accepted))
      in filter (\<lambda>g. 1 < card g) (map (\<lambda>(_, hks). set hks) grouped))"

text \<open>A group's place in the window: the age of its round and its index there.\<close>

type_synonym slot = "nat \<times> nat"

definition live_members :: "string set option \<Rightarrow> string set \<Rightarrow> string set" where
  "live_members scored grp = (case scored of None \<Rightarrow> grp | Some s \<Rightarrow> grp \<inter> s)"

definition set_default :: "'k \<Rightarrow> 'v \<Rightarrow> ('k \<times> 'v) list \<Rightarrow> ('k \<times> 'v) list" where
  "set_default k v m = (if k \<in> fst ` set m then m else m @ [(k, v)])"

definition assign_group :: "string set option \<Rightarrow> slot \<times> string set \<Rightarrow> (string \<times> slot) list \<Rightarrow> (string \<times> slot) list" where
  "assign_group scored sg assigned =
     (let members = live_members scored (snd sg)
      in if 1 < card members
         then fold (\<lambda>hk. set_default hk (fst sg)) (sorted_list_of_set members) assigned
         else assigned)"

text \<open>The groups of the window in the order of the loops: oldest round first.\<close>

definition window_slots :: "groups list \<Rightarrow> (slot \<times> string set) list" where
  "window_slots rounds =
     concat (map (\<lambda>(age, groups). map (\<lambda>(index, g). ((age, index), g)) (enumerate 0 groups))
       (rev (enumerate 0 rounds)))"

definition assigned_slots :: "groups list \<Rightarrow> string set option \<Rightarrow> (string \<times> slot) list" where
  "assigned_slots rounds scored = fold (assign_group scored) (window_slots rounds) []"

definition duplicate_pools :: "groups list \<Rightarrow> string set option \<Rightarrow> groups" where
  "duplicate_pools rounds scored =
     (let pools = group_by_key (map (\<lambda>(hk, slot). (slot, hk)) (assigned_slots rounds scored))
      in sort_key sorted_list_of_set (filter (\<lambda>p. 1 < card p) (map (\<lambda>(_, hks). set hks) pools)))"

definition tie_digest :: "(bytes \<Rightarrow> bytes) \<Rightarrow> string \<Rightarrow> string \<Rightarrow> bytes" where
  "tie_digest sha256 seed hotkey = sha256 (utf8 (tie_order_domain @ '':'' @ seed @ '':'' @ hotkey))"

definition tie_ordered :: "(bytes \<Rightarrow> bytes) \<Rightarrow> groups \<Rightarrow> string \<Rightarrow> string list list" where
  "tie_ordered sha256 pools seed =
     map (\<lambda>pool. sort_key (tie_digest sha256 seed) (sorted_list_of_set pool)) pools"

definition pool_sizes_of :: "string list list \<Rightarrow> (string \<times> nat) list" where
  "pool_sizes_of pools =
     fold (\<lambda>(hk, n). dict_set hk n) (concat (map (\<lambda>pool. map (\<lambda>hk. (hk, length pool)) pool) pools)) []"

subsection \<open>The classes of a grouping\<close>

lemma grouped_members:
  assumes "(c, vs) \<in> set (group_by_key ss)"
  shows "set vs = {v. (c, v) \<in> set ss}"
proof -
  have "vs = map snd (filter (\<lambda>cs. fst cs = c) ss)" using group_by_key_facts(3) [OF assms] by simp
  then have "set vs = snd ` {cs \<in> set ss. fst cs = c}" by simp
  then show ?thesis by force
qed

lemma big_classes:
  "g \<in> set (filter (\<lambda>p. 1 < card p) (map (\<lambda>(_, vs). set vs) (group_by_key ss))) \<longleftrightarrow>
     1 < card g \<and> (\<exists>c. g = {v. (c, v) \<in> set ss})"
proof
  assume "g \<in> set (filter (\<lambda>p. 1 < card p) (map (\<lambda>(_, vs). set vs) (group_by_key ss)))"
  then obtain c vs where "(c, vs) \<in> set (group_by_key ss)" "g = set vs" "1 < card g" by auto
  then show "1 < card g \<and> (\<exists>c. g = {v. (c, v) \<in> set ss})" using grouped_members by metis
next
  assume r: "1 < card g \<and> (\<exists>c. g = {v. (c, v) \<in> set ss})"
  then obtain c where c: "g = {v. (c, v) \<in> set ss}" by blast
  have "g \<noteq> {}" using r by auto
  then obtain v where "(c, v) \<in> set ss" using c by blast
  then have "c \<in> fst ` set (group_by_key ss)" unfolding group_by_key_facts(1) by force
  then obtain vs where vs: "(c, vs) \<in> set (group_by_key ss)" by auto
  then have "g = set vs" using grouped_members c by metis
  then show "g \<in> set (filter (\<lambda>p. 1 < card p) (map (\<lambda>(_, vs). set vs) (group_by_key ss)))"
    using vs r by (auto intro!: image_eqI [where x = "(c, vs)"])
qed

subsection \<open>Assignment to the oldest group\<close>

text \<open>What the assignment is meant to be: the first of the window's slots that holds the hotkey.\<close>

definition joined_slot :: "groups list \<Rightarrow> string set option \<Rightarrow> string \<Rightarrow> slot option" where
  "joined_slot rounds scored hk =
     map_option fst (List.find (\<lambda>(_, g). hk \<in> live_members scored g \<and> 1 < card (live_members scored g))
       (window_slots rounds))"

lemma map_of_set_default:
  "map_of (set_default k v m) = (map_of m)(k := Some (case map_of m k of Some x \<Rightarrow> x | None \<Rightarrow> v))"
proof (cases "map_of m k")
  case None
  then have "k \<notin> fst ` set m" by (simp add: map_of_eq_None_iff)
  with None show ?thesis by (auto simp: set_default_def fun_eq_iff map_add_def split: option.splits)
next
  case (Some x)
  then have "k \<in> fst ` set m" by (force dest: map_of_SomeD)
  with Some show ?thesis by (auto simp: set_default_def fun_eq_iff)
qed

lemma distinct_set_default: "distinct (map fst m) \<Longrightarrow> distinct (map fst (set_default k v m))"
  by (auto simp: set_default_def)

lemma fold_set_default:
  "map_of (fold (\<lambda>hk. set_default hk s) hks m) k =
     (case map_of m k of Some x \<Rightarrow> Some x | None \<Rightarrow> if k \<in> set hks then Some s else None)"
  "distinct (map fst m) \<Longrightarrow> distinct (map fst (fold (\<lambda>hk. set_default hk s) hks m))"
  by (induction hks arbitrary: m)
    (auto simp: map_of_set_default distinct_set_default split: option.splits)

lemma assign_group_lookup:
  "map_of (assign_group scored (s, g) m) k =
     (case map_of m k of
        Some x \<Rightarrow> Some x
      | None \<Rightarrow> if k \<in> live_members scored g \<and> 1 < card (live_members scored g) then Some s else None)"
  "distinct (map fst m) \<Longrightarrow> distinct (map fst (assign_group scored (s, g) m))"
proof -
  have "finite (live_members scored g)" if "1 < card (live_members scored g)"
    using that card_ge_0_finite [of "live_members scored g"] by simp
  then show "map_of (assign_group scored (s, g) m) k =
     (case map_of m k of
        Some x \<Rightarrow> Some x
      | None \<Rightarrow> if k \<in> live_members scored g \<and> 1 < card (live_members scored g) then Some s else None)"
    by (cases "1 < card (live_members scored g)")
      (simp_all add: assign_group_def Let_def fold_set_default split: option.splits)
  show "distinct (map fst m) \<Longrightarrow> distinct (map fst (assign_group scored (s, g) m))"
    by (simp add: assign_group_def Let_def fold_set_default)
qed

lemma fold_assign:
  "map_of (fold (assign_group scored) slots m) k =
     (case map_of m k of
        Some x \<Rightarrow> Some x
      | None \<Rightarrow> map_option fst (List.find
          (\<lambda>(_, g). k \<in> live_members scored g \<and> 1 < card (live_members scored g)) slots))"
  "distinct (map fst m) \<Longrightarrow> distinct (map fst (fold (assign_group scored) slots m))"
proof (induction slots arbitrary: m)
  case (Cons sg slots)
  obtain s g where sg: "sg = (s, g)" by (cases sg)
  {
    case 1
    show ?case by (simp add: sg Cons.IH assign_group_lookup split: option.splits)
  next
    case 2
    then show ?case by (simp add: sg Cons.IH assign_group_lookup)
  }
qed (simp_all split: option.splits)

lemma assigned_slots_lookup:
  "map_of (assigned_slots rounds scored) hk = joined_slot rounds scored hk"
  "distinct (map fst (assigned_slots rounds scored))"
  by (simp_all add: assigned_slots_def joined_slot_def fold_assign)

lemma find_Some_holds: "List.find P xs = Some x \<Longrightarrow> x \<in> set xs \<and> P x"
  by (auto simp: find_Some_iff)

lemma joined_slot_member:
  "joined_slot rounds scored hk = Some slot \<Longrightarrow>
     \<exists>g. (slot, g) \<in> set (window_slots rounds) \<and> hk \<in> live_members scored g \<and> 1 < card (live_members scored g)"
  unfolding joined_slot_def map_option_eq_Some
  by (elim exE conjE) (drule find_Some_holds, auto)

lemma duplicate_pools_iff:
  "p \<in> set (duplicate_pools rounds scored) \<longleftrightarrow>
     1 < card p \<and> (\<exists>slot. p = {hk. joined_slot rounds scored hk = Some slot})"
proof -
  let ?slots = "map (\<lambda>(hk, slot). (slot, hk)) (assigned_slots rounds scored)"
  have "(slot, hk) \<in> set ?slots \<longleftrightarrow> joined_slot rounds scored hk = Some slot" for slot hk
    using assigned_slots_lookup(2) [of rounds scored]
    by (auto simp flip: assigned_slots_lookup(1))
  then have "p \<in> set (filter (\<lambda>p. 1 < card p) (map (\<lambda>(_, hks). set hks) (group_by_key ?slots))) \<longleftrightarrow>
      1 < card p \<and> (\<exists>slot. p = {hk. joined_slot rounds scored hk = Some slot})"
    by (simp only: big_classes)
  then show ?thesis by (simp only: duplicate_pools_def Let_def set_sort)
qed

subsection \<open>Groups of a round\<close>

lemma card_gt_1_nonempty: "1 < card g \<Longrightarrow> g \<noteq> {}"
  by auto

lemma identical_groups_iff:
  assumes "distinct (map fst accepted)"
  shows "g \<in> set (identical_forecast_groups accepted) \<longleftrightarrow>
    1 < card g \<and> (\<exists>vs. vs \<noteq> {} \<and> g = {hk. \<exists>values. map_of accepted hk = Some values \<and> set values = vs})"
proof -
  define xs where "xs = concat (map (\<lambda>(hk, values). if values = [] then [] else [(set values, hk)]) accepted)"
  have mem: "(vs, hk) \<in> set xs \<longleftrightarrow> vs \<noteq> {} \<and> (\<exists>values. map_of accepted hk = Some values \<and> set values = vs)"
    for vs hk
    using assms by (auto simp: xs_def split: if_splits)
  have "g \<in> set (identical_forecast_groups accepted) \<longleftrightarrow> 1 < card g \<and> (\<exists>vs. g = {hk. (vs, hk) \<in> set xs})"
    unfolding identical_forecast_groups_def Let_def xs_def [symmetric] by (rule big_classes)
  also have "\<dots> \<longleftrightarrow> 1 < card g \<and>
      (\<exists>vs. vs \<noteq> {} \<and> g = {hk. \<exists>values. map_of accepted hk = Some values \<and> set values = vs})"
    unfolding mem by (rule conj_cong [OF refl], rule ex_cong1) (auto dest: card_gt_1_nonempty)
  finally show ?thesis .
qed


subsection \<open>What pooling promises\<close>

lemma pools_disjoint:
  assumes "p \<in> set (duplicate_pools rounds scored)" "q \<in> set (duplicate_pools rounds scored)"
    and "hk \<in> p" "hk \<in> q"
  shows "p = q"
  using assms unfolding duplicate_pools_iff by auto

lemma pool_within_group:
  assumes "p \<in> set (duplicate_pools rounds (Some scored))"
  shows "p \<subseteq> scored"
  using assms by (auto simp: duplicate_pools_iff live_members_def dest!: joined_slot_member)

text \<open>The demo window: \<open>a\<close>, \<open>b\<close> and \<open>c\<close> copied one another in the older round,
  \<open>c\<close> copies \<open>d\<close> in the newer.\<close>

definition demo_window :: "groups list" where
  "demo_window = [[{''c'', ''d'', ''e''}], [{''a'', ''b'', ''c''}]]"

text \<open>A payout pool is the set of at least two hotkeys whose oldest live identical-forecast group
  in the window is the same one; pools never overlap, and with a scored set every member is scored,
  so an unscored or deregistered copy neither pools nor costs anyone.\<close>

theorem pools_share_their_oldest_group:
  "set (duplicate_pools rounds scored) =
     {p. 1 < card p \<and> (\<exists>slot. p = {hk. joined_slot rounds scored hk = Some slot})} \<and>
   disjoint (set (duplicate_pools rounds scored)) \<and>
   \<Union> (set (duplicate_pools rounds (Some alive))) \<subseteq> alive"
proof (intro conjI)
  show "set (duplicate_pools rounds scored) =
     {p. 1 < card p \<and> (\<exists>slot. p = {hk. joined_slot rounds scored hk = Some slot})}"
    by (intro set_eqI) (simp only: duplicate_pools_iff mem_Collect_eq)
  show "disjoint (set (duplicate_pools rounds scored))"
    by (auto simp: disjoint_def dest: pools_disjoint)
  show "\<Union> (set (duplicate_pools rounds (Some alive))) \<subseteq> alive"
    using pool_within_group by blast
qed

lemma demo_pools: "joined_slot demo_window None ''c'' = Some (1, 0) \<and> joined_slot demo_window None ''d'' = Some (0, 0)"
  by (simp add: joined_slot_def demo_window_def window_slots_def live_members_def)

definition demo_cell :: coordinate where
  "demo_cell = Coordinate Subnet_asset ''sn1'' Seconds 3600 ''x''"

text \<open>The identical-forecast groups of a round are exactly the classes of two or more hotkeys
  that submitted one and the same non-empty set of values; an empty submission joins none.\<close>

theorem identical_groups_are_equal_submissions:
  assumes "distinct (map fst accepted)"
  shows "set (identical_forecast_groups accepted) =
    {g. 1 < card g \<and> (\<exists>vs. vs \<noteq> {} \<and> g = {hk. \<exists>values. map_of accepted hk = Some values \<and> set values = vs})}"
  using identical_groups_iff [OF assms] by blast

theorem identical_groups_are_equal_submissions_witness:
  "{''a'', ''c''} \<in> set (identical_forecast_groups
     [(''a'', [(demo_cell, 7)]), (''b'', []), (''c'', [(demo_cell, 7)]), (''d'', [])])"
proof -
  define accepted :: "(string \<times> (coordinate \<times> int) list) list" where
    "accepted = [(''a'', [(demo_cell, 7)]), (''b'', []), (''c'', [(demo_cell, 7)]), (''d'', [])]"
  have "distinct (map fst accepted)" by (simp add: accepted_def)
  note groups = identical_groups_are_equal_submissions [OF this]
  have "{''a'', ''c''} = {hk. \<exists>values. map_of accepted hk = Some values \<and> set values = {(demo_cell, 7)}}"
    by (auto simp: accepted_def)
  then have "\<exists>vs. vs \<noteq> {} \<and> {''a'', ''c''} =
      {hk. \<exists>values. map_of accepted hk = Some values \<and> set values = vs}"
    by (intro exI [of _ "{(demo_cell, 7)}"] conjI) simp_all
  then show ?thesis unfolding accepted_def [symmetric] groups by simp
qed

end
