(* ===== verification/Storage_Scores.thy ===== *)
theory Storage_Scores
  imports Storage_Rounds Coordinates
begin

text \<open>
  The assessment tables and the transactions over them (second half of
  \<open>endure/storage/repository.py\<close>): consensus rows and their atomic publication, realized targets,
  output scores, score averages, their history, and the markers that complete a horizon.  The state
  extends the record of the round tables, so that the round transactions run on it unchanged.
  Decimals are stored as their texts, which lose nothing, and are read back as numbers; the rows
  a read builds are the rows that were validated when they were written.
\<close>

subsection \<open>Tables\<close>

record consensus_entry =
  ce_key :: round_key
  ce_row :: consensus_row
  ce_at :: datetime

record target_entry =
  te_key :: round_key
  te_row :: realized_target
  te_at :: datetime

record marker_entry =
  mr_key :: round_key
  mr_horizon :: int
  mr_at :: datetime

record score_entry =
  se_key :: round_key
  se_row :: output_score
  se_at :: datetime

record ema_entry =
  ee_schema :: string
  ee_row :: ema_state
  ee_at :: datetime

record history_entry =
  he_key :: round_key
  he_row :: score_history_row
  he_at :: datetime

record score_db = db +
  sd_consensus :: "consensus_entry list"
  sd_targets :: "target_entry list"
  sd_markers :: "marker_entry list"
  sd_scores :: "score_entry list"
  sd_emas :: "ema_entry list"
  sd_history :: "history_entry list"

definition empty_score_db :: score_db where
  "empty_score_db = db.extend empty_db
     \<lparr>sd_consensus = [], sd_targets = [], sd_markers = [], sd_scores = [], sd_emas = [], sd_history = []\<rparr>"

definition consensus_unique :: "consensus_entry \<Rightarrow> round_key \<times> coordinate" where
  "consensus_unique e = (ce_key e, cr_coordinate (ce_row e))"

definition target_unique :: "target_entry \<Rightarrow> round_key \<times> coordinate" where
  "target_unique e = (te_key e, rt_coordinate (te_row e))"

definition marker_unique :: "marker_entry \<Rightarrow> round_key \<times> int" where
  "marker_unique e = (mr_key e, mr_horizon e)"

definition score_unique :: "score_entry \<Rightarrow> round_key \<times> string \<times> coordinate" where
  "score_unique e = (se_key e, os_hotkey (se_row e), os_coordinate (se_row e))"

definition ema_unique :: "ema_entry \<Rightarrow> string \<times> string \<times> coordinate" where
  "ema_unique e = (ee_schema e, es_hotkey (ee_row e), es_coordinate (ee_row e))"

definition history_unique :: "history_entry \<Rightarrow> round_key \<times> string \<times> coordinate" where
  "history_unique e = (he_key e, hr_hotkey (he_row e), hr_coordinate (he_row e))"

text \<open>\<open>INSERT ... ON CONFLICT DO NOTHING\<close>, and \<open>DO UPDATE\<close> of every column but the key.\<close>

definition insert_ignore :: "('r \<Rightarrow> 'k) \<Rightarrow> 'r \<Rightarrow> 'r list \<Rightarrow> 'r list" where
  "insert_ignore key r rows = (if key r \<in> key ` set rows then rows else rows @ [r])"

definition upsert :: "('r \<Rightarrow> 'k) \<Rightarrow> 'r \<Rightarrow> 'r list \<Rightarrow> 'r list" where
  "upsert key r rows =
     (if key r \<in> key ` set rows then update_where (\<lambda>x. key x = key r) (\<lambda>_. r) rows else rows @ [r])"

text \<open>The foreign key of a row to its round, checked when a row is inserted.\<close>

definition references_round :: "'a db_scheme \<Rightarrow> round_key \<Rightarrow> 'r list \<Rightarrow> bool" where
  "references_round d k rows \<longleftrightarrow> rows = [] \<or> round_of d k \<noteq> None"

subsection \<open>Consensus\<close>

definition insert_consensus_if_absent ::
  "round_key \<Rightarrow> consensus_row list \<Rightarrow> datetime \<Rightarrow> 'a score_db_scheme \<Rightarrow> storage_error + 'a score_db_scheme" where
  "insert_consensus_if_absent k rows now d =
     (if \<exists>e \<in> set (sd_consensus d). ce_key e = k then Inr d
      else if \<not> references_round d k rows \<or> \<not> distinct (map cr_coordinate rows) then Inl Integrity_error
      else Inr (d\<lparr>sd_consensus := sd_consensus d
             @ map (\<lambda>r. \<lparr>ce_key = k, ce_row = r, ce_at = now\<rparr>) rows\<rparr>))"

definition publish_consensus_and_reveal ::
  "round_key \<Rightarrow> consensus_row list \<Rightarrow> datetime \<Rightarrow> 'a score_db_scheme \<Rightarrow> storage_error + 'a score_db_scheme" where
  "publish_consensus_and_reveal k rows now d =
     ebind (insert_consensus_if_absent k rows now (fst (snapshot_if_open k now d)))
       (\<lambda>d'. Inr (flip_round_revealed k now d'))"

datatype 'e publish_error = Rows_failed 'e | Store_failed storage_error

text \<open>\<open>rows_of\<close> is the callable the caller passes; what it raises rolls the transaction back.\<close>

definition publish_consensus_from_bundles ::
  "round_key \<Rightarrow> ((string \<times> string) list \<Rightarrow> 'e + consensus_row list) \<Rightarrow> datetime \<Rightarrow> 'a score_db_scheme
     \<Rightarrow> 'e publish_error + 'a score_db_scheme \<times> (string \<times> string) list \<times> consensus_row list" where
  "publish_consensus_from_bundles k rows_of now d =
     (case snapshot_if_open k now d of (d1, bundles) \<Rightarrow>
        case rows_of bundles of
          Inl e \<Rightarrow> Inl (Rows_failed e)
        | Inr rows \<Rightarrow>
            (case insert_consensus_if_absent k rows now d1 of
               Inl e \<Rightarrow> Inl (Store_failed e)
             | Inr d2 \<Rightarrow> Inr (flip_round_revealed k now d2, bundles, rows)))"

definition assessment_consensus_for :: "'a score_db_scheme \<Rightarrow> round_key \<Rightarrow> consensus_row list" where
  "assessment_consensus_for d k =
     sort_key cr_coordinate (map ce_row (filter (\<lambda>e. ce_key e = k) (sd_consensus d)))"

definition newest :: "string list \<Rightarrow> string option" where
  "newest ids = (if ids = [] then None else Some (last (sort ids)))"

definition latest_consensus_round :: "'a score_db_scheme \<Rightarrow> string \<Rightarrow> datetime \<Rightarrow> string option" where
  "latest_consensus_round d schema_id now =
     newest (map (\<lambda>e. fst (ce_key e)) (filter (\<lambda>e. snd (ce_key e) = schema_id
       \<and> fst (ce_key e) \<in> set (post_embargo_rounds d schema_id now)) (sd_consensus d)))"

text \<open>The join of resolved targets with the consensus cells of the same round and coordinate.\<close>

definition resolved_with_consensus ::
  "'a score_db_scheme \<Rightarrow> string \<Rightarrow> int \<Rightarrow> string list \<Rightarrow> datetime \<Rightarrow> target_entry list" where
  "resolved_with_consensus d schema_id horizon outputs now =
     filter (\<lambda>t. snd (te_key t) = schema_id
         \<and> horizon_value (rt_coordinate (te_row t)) = horizon
         \<and> target_kind (rt_coordinate (te_row t)) = Subnet_asset
         \<and> rt_status (te_row t) = ''resolved''
         \<and> rt_value (te_row t) \<noteq> None
         \<and> coord_output (rt_coordinate (te_row t)) \<in> set outputs
         \<and> fst (te_key t) \<in> set (post_embargo_rounds d schema_id now)
         \<and> target_unique t \<in> consensus_unique ` set (sd_consensus d))
       (sd_targets d)"

definition complete_rounds :: "target_entry list \<Rightarrow> string list \<Rightarrow> string \<Rightarrow> string list" where
  "complete_rounds rows outputs tid =
     filter (\<lambda>rid. length (remdups (map (\<lambda>t. coord_output (rt_coordinate (te_row t)))
           (filter (\<lambda>t. target_id (rt_coordinate (te_row t)) = tid \<and> fst (te_key t) = rid) rows)))
         = length (remdups outputs))
       (remdups (map (\<lambda>t. fst (te_key t)) (filter (\<lambda>t. target_id (rt_coordinate (te_row t)) = tid) rows)))"

definition latest_resolved_rounds ::
  "'a score_db_scheme \<Rightarrow> string \<Rightarrow> int \<Rightarrow> string list \<Rightarrow> datetime \<Rightarrow> (int \<times> string) list" where
  "latest_resolved_rounds d schema_id horizon outputs now =
     (let rows = resolved_with_consensus d schema_id horizon outputs now;
          tids = sort (remdups (map (\<lambda>t. target_id (rt_coordinate (te_row t))) rows))
      in if outputs = [] then []
         else List.map_filter (\<lambda>tid. map_option (Pair (int_of_digits tid))
                (newest (complete_rounds rows outputs tid))) tids)"

subsection \<open>Realized targets and markers\<close>

definition insert_realized_targets ::
  "round_key \<Rightarrow> realized_target list \<Rightarrow> datetime \<Rightarrow> 'a score_db_scheme \<Rightarrow> storage_error + 'a score_db_scheme" where
  "insert_realized_targets k rows now d =
     (if \<not> references_round d k rows then Inl Integrity_error
      else Inr (d\<lparr>sd_targets := fold (\<lambda>r. insert_ignore target_unique \<lparr>te_key = k, te_row = r, te_at = now\<rparr>)
             rows (sd_targets d)\<rparr>))"

definition realized_targets_for_horizon ::
  "'a score_db_scheme \<Rightarrow> round_key \<Rightarrow> int option \<Rightarrow> realized_target list" where
  "realized_targets_for_horizon d k horizon =
     sort_key rt_coordinate (filter (\<lambda>r. case horizon of None \<Rightarrow> True
         | Some h \<Rightarrow> horizon_value (rt_coordinate r) = h)
       (map te_row (filter (\<lambda>e. te_key e = k) (sd_targets d))))"

definition realized_targets_for :: "'a score_db_scheme \<Rightarrow> round_key \<Rightarrow> realized_target list" where
  "realized_targets_for d k = realized_targets_for_horizon d k None"

definition has_resolution_marker :: "'a score_db_scheme \<Rightarrow> round_key \<Rightarrow> int \<Rightarrow> bool" where
  "has_resolution_marker d k horizon \<longleftrightarrow> (k, horizon) \<in> marker_unique ` set (sd_markers d)"

definition all_unfinished_have_marker :: "'a score_db_scheme \<Rightarrow> string \<Rightarrow> int \<Rightarrow> bool" where
  "all_unfinished_have_marker d schema_id horizon \<longleftrightarrow>
     (\<forall>r \<in> set (db_rounds d). rr_schema_id r = schema_id \<and> rr_state r \<noteq> Round_closed
        \<longrightarrow> has_resolution_marker d (round_key r) horizon)"

definition resolution_progress :: "'a score_db_scheme \<Rightarrow> string \<Rightarrow> (string \<times> datetime \<times> int set) list" where
  "resolution_progress d schema_id =
     map (\<lambda>r. (rr_round_id r, reveal_close (rr_windows r),
         set (map mr_horizon (filter (\<lambda>m. mr_key m = round_key r) (sd_markers d)))))
       (sort_key rr_round_id (filter (\<lambda>r. rr_schema_id r = schema_id \<and> rr_state r \<noteq> Round_closed)
         (db_rounds d)))"

subsection \<open>Scores, averages and history\<close>

definition insert_output_scores ::
  "round_key \<Rightarrow> output_score list \<Rightarrow> datetime \<Rightarrow> 'a score_db_scheme \<Rightarrow> storage_error + 'a score_db_scheme" where
  "insert_output_scores k rows now d =
     (if \<not> references_round d k rows then Inl Integrity_error
      else Inr (d\<lparr>sd_scores := fold (\<lambda>r. insert_ignore score_unique \<lparr>se_key = k, se_row = r, se_at = now\<rparr>)
             rows (sd_scores d)\<rparr>))"

definition output_scores_for_round :: "'a score_db_scheme \<Rightarrow> round_key \<Rightarrow> output_score list" where
  "output_scores_for_round d k =
     sort_key (\<lambda>r. (os_hotkey r, os_coordinate r)) (map se_row (filter (\<lambda>e. se_key e = k) (sd_scores d)))"

definition output_score_count :: "'a score_db_scheme \<Rightarrow> round_key \<Rightarrow> nat" where
  "output_score_count d k = length (filter (\<lambda>e. se_key e = k) (sd_scores d))"

definition upsert_ema :: "string \<Rightarrow> datetime \<Rightarrow> ema_state \<Rightarrow> 'a score_db_scheme \<Rightarrow> 'a score_db_scheme" where
  "upsert_ema schema_id now row d =
     d\<lparr>sd_emas := upsert ema_unique \<lparr>ee_schema = schema_id, ee_row = row, ee_at = now\<rparr> (sd_emas d)\<rparr>"

definition ema_states :: "'a score_db_scheme \<Rightarrow> string \<Rightarrow> ema_state list" where
  "ema_states d schema_id =
     sort_key (\<lambda>r. (es_hotkey r, es_coordinate r)) (map ee_row (filter (\<lambda>e. ee_schema e = schema_id) (sd_emas d)))"

definition insert_score_history ::
  "round_key \<Rightarrow> score_history_row list \<Rightarrow> datetime \<Rightarrow> 'a score_db_scheme \<Rightarrow> storage_error + 'a score_db_scheme" where
  "insert_score_history k rows now d =
     (if \<not> references_round d k rows then Inl Integrity_error
      else Inr (d\<lparr>sd_history := fold (\<lambda>r. insert_ignore history_unique \<lparr>he_key = k, he_row = r, he_at = now\<rparr>)
             rows (sd_history d)\<rparr>))"

definition score_history_for_round :: "'a score_db_scheme \<Rightarrow> round_key \<Rightarrow> score_history_row list" where
  "score_history_for_round d k =
     sort_key (\<lambda>r. (hr_hotkey r, hr_coordinate r)) (map he_row (filter (\<lambda>e. he_key e = k) (sd_history d)))"

definition delete_emas :: "(ema_entry \<Rightarrow> bool) \<Rightarrow> 'a score_db_scheme \<Rightarrow> 'a score_db_scheme" where
  "delete_emas p d = d\<lparr>sd_emas := filter (\<lambda>e. \<not> p e) (sd_emas d)\<rparr>"

definition archived_row :: "string \<Rightarrow> int \<Rightarrow> string list \<Rightarrow> ema_entry \<Rightarrow> bool" where
  "archived_row schema_id horizon hotkeys e \<longleftrightarrow>
     ee_schema e = schema_id \<and> es_hotkey (ee_row e) \<in> set hotkeys
     \<and> horizon_value (es_coordinate (ee_row e)) = horizon"

definition archive_ema_horizon ::
  "string \<Rightarrow> int \<Rightarrow> string list \<Rightarrow> 'a score_db_scheme \<Rightarrow> 'a score_db_scheme \<times> bool" where
  "archive_ema_horizon schema_id horizon hotkeys d =
     (if hotkeys = [] then (d, False)
      else (delete_emas (archived_row schema_id horizon hotkeys) d,
            \<exists>e \<in> set (sd_emas d). archived_row schema_id horizon hotkeys e))"

definition pruned_row :: "string \<Rightarrow> string list \<Rightarrow> coordinate set option \<Rightarrow> ema_entry \<Rightarrow> bool" where
  "pruned_row schema_id hotkeys coordinates e \<longleftrightarrow>
     ee_schema e = schema_id \<and> es_hotkey (ee_row e) \<in> set hotkeys
     \<and> (case coordinates of None \<Rightarrow> True | Some cs \<Rightarrow> es_coordinate (ee_row e) \<in> cs)"

subsection \<open>A scoring pass\<close>

record scoring_pass =
  sp_horizon :: int
  sp_targets :: "realized_target list"
  sp_scores :: "output_score list"
  sp_emas :: "ema_state list"
  sp_history :: "score_history_row list"
  sp_complete :: bool
  sp_archive :: "string list"
  sp_pruned :: "string list"
  sp_pruned_coordinates :: "coordinate set option"

definition insert_marker :: "round_key \<Rightarrow> int \<Rightarrow> datetime \<Rightarrow> 'a score_db_scheme \<Rightarrow> storage_error + 'a score_db_scheme" where
  "insert_marker k horizon now d =
     (if round_of d k = None then Inl Integrity_error
      else Inr (d\<lparr>sd_markers := insert_ignore marker_unique
             \<lparr>mr_key = k, mr_horizon = horizon, mr_at = now\<rparr> (sd_markers d)\<rparr>))"

definition record_scoring_pass ::
  "round_key \<Rightarrow> scoring_pass \<Rightarrow> datetime \<Rightarrow> 'a score_db_scheme \<Rightarrow> storage_error + 'a score_db_scheme" where
  "record_scoring_pass k p now d =
     (if sp_pruned_coordinates p = Some {} then Inl Empty_coordinates
      else if has_resolution_marker d k (sp_horizon p) then Inr d
      else
        ebind (insert_realized_targets k (sp_targets p) now d) (\<lambda>d1.
        ebind (insert_output_scores k (sp_scores p) now d1) (\<lambda>d2.
        ebind (insert_score_history k (sp_history p) now
                 (fold (upsert_ema (snd k) now) (sp_emas p) d2)) (\<lambda>d3.
          let d4 = (if sp_archive p = [] then d3
                    else delete_emas (archived_row (snd k) (sp_horizon p) (sp_archive p)) d3);
              d5 = (if sp_pruned p = [] then d4
                    else delete_emas (pruned_row (snd k) (sp_pruned p) (sp_pruned_coordinates p)) d4)
          in if sp_complete p then insert_marker k (sp_horizon p) now d5 else Inr d5))))"

end
