(* ===== verification/Publication.thy ===== *)
theory Publication
  imports Storage_Scores "HOL-Library.Sublist"
begin

text \<open>
  What the assessment tables keep: their unique and foreign keys, that a round with published
  consensus is past its reveal, and that targets, scores, history, markers and the consensus of a
  round are written once.  \<open>score_step\<close> is any transaction of the repository, on the round tables or
  on the assessment tables.
\<close>

subsection \<open>Round transactions leave the assessment tables alone\<close>

lemma storage_step_more: "storage_step d d' \<Longrightarrow> db.more d' = db.more d"
proof (induction rule: storage_step.induct)
  case (St_open w schema_id u now p d d')
  then show ?case by (auto simp: open_round_def Let_def split: if_splits option.splits)
next
  case (St_commit k h ch now m d d' b)
  then show ?case by (auto simp: record_commit_def split: if_splits option.splits)
next
  case (St_attempt k h m d d' b)
  then show ?case by (auto simp: record_reveal_attempt_def)
next
  case (St_reveal k h bj n acc code now d d' b)
  then show ?case by (auto simp: record_reveal_def split: if_splits option.splits)
next
  case (St_close d' k now d)
  then show ?case
    by (simp add: close_round_def flip_round_revealed_def update_round_def snapshot_if_open_def Let_def)
next
  case (St_score d k st d' now)
  then show ?case by (simp add: set_round_state_def update_round_def snapshot_if_open_def Let_def)
qed

lemma score_tables_more:
  fixes d d' :: "'a score_db_scheme"
  assumes "db.more d' = db.more d"
  shows "sd_consensus d' = sd_consensus d" "sd_targets d' = sd_targets d" "sd_markers d' = sd_markers d"
    "sd_scores d' = sd_scores d" "sd_emas d' = sd_emas d" "sd_history d' = sd_history d"
  using assms by (cases d; cases d'; simp)+

lemmas storage_step_tables = score_tables_more [OF storage_step_more]

definition same_rounds :: "'a db_scheme \<Rightarrow> 'a db_scheme \<Rightarrow> bool" where
  "same_rounds d d' \<longleftrightarrow> db_rounds d' = db_rounds d \<and> db_universes d' = db_universes d
     \<and> db_submissions d' = db_submissions d \<and> db_snapshots d' = db_snapshots d"

lemma same_rounds_refl [simp]: "same_rounds d d"
  by (simp add: same_rounds_def)

lemma same_rounds_trans: "same_rounds a b \<Longrightarrow> same_rounds b c \<Longrightarrow> same_rounds a c"
  by (simp add: same_rounds_def)

lemma same_roundsD:
  assumes "same_rounds d d'"
  shows "round_of d' k = round_of d k" "round_state d' k = round_state d k"
    "storage_inv d' = storage_inv d" "scoring_bundles d' k limit offset = scoring_bundles d k limit offset"
    "accepted_bundles d' k = accepted_bundles d k" "consensus_bundles d' k = consensus_bundles d k"
proof -
  have s: "db_rounds d' = db_rounds d" "db_universes d' = db_universes d"
    "db_submissions d' = db_submissions d" "db_snapshots d' = db_snapshots d"
    using assms by (simp_all add: same_rounds_def)
  have r: "round_of d' x = round_of d x" for x by (simp add: round_of_def s)
  have st: "round_state d' x = round_state d x" for x by (simp add: round_state_def r)
  have a: "accepted_bundles d' x = accepted_bundles d x" for x by (simp add: accepted_bundles_def s)
  have c: "consensus_bundles d' x = consensus_bundles d x" for x by (simp add: consensus_bundles_def s)
  have f: "frozen_ok d' = frozen_ok d" unfolding frozen_ok_def st a c by (rule refl)
  show "round_of d' k = round_of d k" "round_state d' k = round_state d k"
    "accepted_bundles d' k = accepted_bundles d k" "consensus_bundles d' k = consensus_bundles d k"
    by (fact r st a c)+
  show "storage_inv d' = storage_inv d" by (simp add: storage_inv_def storage_ok_def s f)
  show "scoring_bundles d' k limit offset = scoring_bundles d k limit offset"
    unfolding scoring_bundles_def st a c by (rule refl)
qed

lemma same_rounds_updates [simp]:
  "same_rounds d (d\<lparr>sd_consensus := x1\<rparr>)" "same_rounds d (d\<lparr>sd_targets := x2\<rparr>)"
  "same_rounds d (d\<lparr>sd_markers := x3\<rparr>)" "same_rounds d (d\<lparr>sd_scores := x4\<rparr>)"
  "same_rounds d (d\<lparr>sd_emas := x5\<rparr>)" "same_rounds d (d\<lparr>sd_history := x6\<rparr>)"
  by (simp_all add: same_rounds_def)

subsection \<open>Publication is closing the round and storing its consensus\<close>

lemma publish_eq:
  "publish_consensus_and_reveal k rows now d =
     (if \<exists>e \<in> set (sd_consensus d). ce_key e = k then Inr (close_round k now d)
      else if \<not> references_round d k rows \<or> \<not> distinct (map cr_coordinate rows) then Inl Integrity_error
      else Inr ((close_round k now d)\<lparr>sd_consensus := sd_consensus d
             @ map (\<lambda>r. \<lparr>ce_key = k, ce_row = r, ce_at = now\<rparr>) rows\<rparr>))"
proof -
  have t: "sd_consensus (fst (snapshot_if_open k now d)) = sd_consensus d"
    by (simp add: snapshot_if_open_def Let_def)
  have r: "references_round (fst (snapshot_if_open k now d)) k rows = references_round d k rows"
    by (simp add: snapshot_if_open_def Let_def references_round_def round_of_def)
  have f: "flip_round_revealed k now ((fst (snapshot_if_open k now d))\<lparr>sd_consensus := x\<rparr>)
      = (close_round k now d)\<lparr>sd_consensus := x\<rparr>" for x
    by (simp add: close_round_def flip_round_revealed_def update_round_def)
  show ?thesis
    by (simp add: publish_consensus_and_reveal_def insert_consensus_if_absent_def t r f close_round_def)
qed

lemma publish_from_bundles:
  assumes "publish_consensus_from_bundles k rows_of now d = Inr (d', bundles, rows)"
  shows "publish_consensus_and_reveal k rows now d = Inr d'" "rows_of bundles = Inr rows"
    "bundles = snd (snapshot_if_open k now d)"
  using assms
  by (auto simp: publish_consensus_from_bundles_def publish_consensus_and_reveal_def split: sum.splits prod.splits)

subsection \<open>The transactions\<close>

inductive score_step :: "'a score_db_scheme \<Rightarrow> 'a score_db_scheme \<Rightarrow> bool" where
  Sc_rounds: "storage_step d d' \<Longrightarrow> score_step d d'"
| Sc_publish: "publish_consensus_and_reveal k rows now d = Inr d' \<Longrightarrow> score_step d d'"
| Sc_targets: "insert_realized_targets k targets now d = Inr d' \<Longrightarrow> score_step d d'"
| Sc_scores: "insert_output_scores k scores now d = Inr d' \<Longrightarrow> score_step d d'"
| Sc_history: "insert_score_history k history now d = Inr d' \<Longrightarrow> score_step d d'"
| Sc_ema: "d' = upsert_ema schema_id now e d \<Longrightarrow> score_step d d'"
| Sc_archive: "archive_ema_horizon schema_id horizon hotkeys d = (d', b) \<Longrightarrow> score_step d d'"
| Sc_pass: "record_scoring_pass k p now d = Inr d' \<Longrightarrow> score_step d d'"

inductive score_reachable :: "score_db \<Rightarrow> bool" where
  Sr_empty: "score_reachable empty_score_db"
| Sr_step: "score_reachable d \<Longrightarrow> score_step d d' \<Longrightarrow> score_reachable d'"

subsection \<open>Ignored and replaced rows\<close>

lemma insert_ignore_prefix: "prefix rows (insert_ignore key r rows)"
  by (simp add: insert_ignore_def)

lemma fold_insert_ignore_prefix: "prefix rows (fold (\<lambda>x. insert_ignore key (f x)) xs rows)"
  by (induction xs arbitrary: rows) (auto intro: prefix_order.trans insert_ignore_prefix)

lemma insert_ignore_unique: "unique_on key rows \<Longrightarrow> unique_on key (insert_ignore key r rows)"
  by (auto simp: insert_ignore_def)

lemma fold_insert_ignore_unique:
  "unique_on key rows \<Longrightarrow> unique_on key (fold (\<lambda>x. insert_ignore key (f x)) xs rows)"
  by (induction xs arbitrary: rows) (simp_all add: insert_ignore_unique)

lemma set_insert_ignore: "set (insert_ignore key r rows) \<subseteq> insert r (set rows)"
  by (auto simp: insert_ignore_def)

lemma set_fold_insert_ignore: "set (fold (\<lambda>x. insert_ignore key (f x)) xs rows) \<subseteq> f ` set xs \<union> set rows"
proof (induction xs arbitrary: rows)
  case (Cons x xs)
  have "set (fold (\<lambda>x. insert_ignore key (f x)) xs (insert_ignore key (f x) rows))
      \<subseteq> f ` set xs \<union> set (insert_ignore key (f x) rows)" by (rule Cons.IH)
  then show ?case using set_insert_ignore [of key "f x" rows] by auto
qed simp

lemma replace_keys: "map key (update_where (\<lambda>x. key x = key r) (\<lambda>_. r) rows) = map key rows"
  by (induction rows) auto

lemma upsert_keys: "key ` set (upsert key r rows) = insert (key r) (key ` set rows)"
  unfolding upsert_def by (auto simp: image_set replace_keys simp del: set_map)

lemma upsert_unique: "unique_on key rows \<Longrightarrow> unique_on key (upsert key r rows)"
  by (auto simp: upsert_def unique_on_def replace_keys)

lemmas rounds_of_tables [simp] =
  same_rounds_updates [THEN same_roundsD(1)] same_rounds_updates [THEN same_roundsD(2)]

subsection \<open>The invariant of the assessment tables\<close>

definition present :: "'a db_scheme \<Rightarrow> round_key \<Rightarrow> bool" where
  "present d k \<longleftrightarrow> round_of d k \<noteq> None"

definition revealed :: "'a db_scheme \<Rightarrow> round_key \<Rightarrow> bool" where
  "revealed d k \<longleftrightarrow> (\<exists>s. round_state d k = Some s \<and> post_embargo s)"

definition tables_ok :: "'a score_db_scheme \<Rightarrow> bool" where
  "tables_ok d \<longleftrightarrow>
     unique_on consensus_unique (sd_consensus d) \<and> unique_on target_unique (sd_targets d)
     \<and> unique_on marker_unique (sd_markers d) \<and> unique_on score_unique (sd_scores d)
     \<and> unique_on ema_unique (sd_emas d) \<and> unique_on history_unique (sd_history d)
     \<and> (\<forall>e \<in> set (sd_consensus d). revealed d (ce_key e))
     \<and> (\<forall>e \<in> set (sd_targets d). present d (te_key e))
     \<and> (\<forall>e \<in> set (sd_markers d). present d (mr_key e))
     \<and> (\<forall>e \<in> set (sd_scores d). present d (se_key e))
     \<and> (\<forall>e \<in> set (sd_history d). present d (he_key e))"

definition consensus_of_round :: "'a score_db_scheme \<Rightarrow> round_key \<Rightarrow> consensus_entry list" where
  "consensus_of_round d k = filter (\<lambda>e. ce_key e = k) (sd_consensus d)"

definition written_once :: "'a score_db_scheme \<Rightarrow> 'a score_db_scheme \<Rightarrow> bool" where
  "written_once d d' \<longleftrightarrow>
     prefix (sd_targets d) (sd_targets d') \<and> prefix (sd_markers d) (sd_markers d')
     \<and> prefix (sd_scores d) (sd_scores d') \<and> prefix (sd_history d) (sd_history d')
     \<and> (\<forall>k. consensus_of_round d k \<noteq> [] \<longrightarrow> consensus_of_round d' k = consensus_of_round d k)"

lemma written_once_refl [simp]: "written_once d d"
  by (simp add: written_once_def)

lemma written_once_trans: "written_once a b \<Longrightarrow> written_once b c \<Longrightarrow> written_once a c"
  unfolding written_once_def by (metis prefix_order.trans)

text \<open>A transaction that only writes assessment tables other than the consensus.\<close>

definition table_op :: "'a score_db_scheme \<Rightarrow> 'a score_db_scheme \<Rightarrow> bool" where
  "table_op d d' \<longleftrightarrow> same_rounds d d' \<and> written_once d d' \<and> (tables_ok d \<longrightarrow> tables_ok d')"

lemma table_op_refl [simp]: "table_op d d"
  by (simp add: table_op_def)

lemma table_op_trans: "table_op a b \<Longrightarrow> table_op b c \<Longrightarrow> table_op a c"
  unfolding table_op_def using same_rounds_trans written_once_trans by blast

lemma present_tables [simp]:
  "present (d\<lparr>sd_targets := x2\<rparr>) = present d" "present (d\<lparr>sd_markers := x3\<rparr>) = present d"
  "present (d\<lparr>sd_scores := x4\<rparr>) = present d" "present (d\<lparr>sd_emas := x5\<rparr>) = present d"
  "present (d\<lparr>sd_history := x6\<rparr>) = present d" "revealed (d\<lparr>sd_targets := x2\<rparr>) = revealed d"
  "revealed (d\<lparr>sd_markers := x3\<rparr>) = revealed d" "revealed (d\<lparr>sd_scores := x4\<rparr>) = revealed d"
  "revealed (d\<lparr>sd_emas := x5\<rparr>) = revealed d" "revealed (d\<lparr>sd_history := x6\<rparr>) = revealed d"
  by (simp_all add: present_def revealed_def fun_eq_iff)

lemma fold_insert_ignore_refers:
  assumes "\<forall>r \<in> set rows. P r" "\<forall>x \<in> set xs. P (f x)"
  shows "\<forall>r \<in> set (fold (\<lambda>x. insert_ignore key (f x)) xs rows). P r"
  using assms set_fold_insert_ignore [of key f xs rows] by blast

lemma references_present: "references_round d k rows \<Longrightarrow> r \<in> set rows \<Longrightarrow> present d k"
  by (auto simp: references_round_def present_def)

lemma insert_targets_op:
  assumes "insert_realized_targets k rows now d = Inr d'"
  shows "table_op d d'"
proof -
  let ?f = "\<lambda>r. \<lparr>te_key = k, te_row = r, te_at = now\<rparr>"
  have r: "references_round d k rows"
    and d': "d' = d\<lparr>sd_targets := fold (\<lambda>r. insert_ignore target_unique (?f r)) rows (sd_targets d)\<rparr>"
    using assms by (auto simp: insert_realized_targets_def split: if_splits)
  have new: "\<forall>x \<in> set rows. present d (te_key (?f x))" using references_present [OF r] by simp
  have keep: "\<forall>e \<in> set (sd_targets d'). present d (te_key e)" if old: "\<forall>e \<in> set (sd_targets d). present d (te_key e)"
    using fold_insert_ignore_refers [where P = "\<lambda>e. present d (te_key e)" and f = ?f, OF old new, of target_unique]
    by (simp add: d')
  have "tables_ok d \<longrightarrow> tables_ok d'"
    using keep unfolding tables_ok_def d' by (simp add: fold_insert_ignore_unique)
  then show ?thesis
    by (simp add: table_op_def d' written_once_def fold_insert_ignore_prefix consensus_of_round_def)
qed

lemma insert_scores_op:
  assumes "insert_output_scores k rows now d = Inr d'"
  shows "table_op d d'"
proof -
  let ?f = "\<lambda>r. \<lparr>se_key = k, se_row = r, se_at = now\<rparr>"
  have r: "references_round d k rows"
    and d': "d' = d\<lparr>sd_scores := fold (\<lambda>r. insert_ignore score_unique (?f r)) rows (sd_scores d)\<rparr>"
    using assms by (auto simp: insert_output_scores_def split: if_splits)
  have new: "\<forall>x \<in> set rows. present d (se_key (?f x))" using references_present [OF r] by simp
  have keep: "\<forall>e \<in> set (sd_scores d'). present d (se_key e)" if old: "\<forall>e \<in> set (sd_scores d). present d (se_key e)"
    using fold_insert_ignore_refers [where P = "\<lambda>e. present d (se_key e)" and f = ?f, OF old new, of score_unique]
    by (simp add: d')
  have "tables_ok d \<longrightarrow> tables_ok d'"
    using keep unfolding tables_ok_def d' by (simp add: fold_insert_ignore_unique)
  then show ?thesis
    by (simp add: table_op_def d' written_once_def fold_insert_ignore_prefix consensus_of_round_def)
qed

lemma insert_history_op:
  assumes "insert_score_history k rows now d = Inr d'"
  shows "table_op d d'"
proof -
  let ?f = "\<lambda>r. \<lparr>he_key = k, he_row = r, he_at = now\<rparr>"
  have r: "references_round d k rows"
    and d': "d' = d\<lparr>sd_history := fold (\<lambda>r. insert_ignore history_unique (?f r)) rows (sd_history d)\<rparr>"
    using assms by (auto simp: insert_score_history_def split: if_splits)
  have new: "\<forall>x \<in> set rows. present d (he_key (?f x))" using references_present [OF r] by simp
  have keep: "\<forall>e \<in> set (sd_history d'). present d (he_key e)" if old: "\<forall>e \<in> set (sd_history d). present d (he_key e)"
    using fold_insert_ignore_refers [where P = "\<lambda>e. present d (he_key e)" and f = ?f, OF old new, of history_unique]
    by (simp add: d')
  have "tables_ok d \<longrightarrow> tables_ok d'"
    using keep unfolding tables_ok_def d' by (simp add: fold_insert_ignore_unique)
  then show ?thesis
    by (simp add: table_op_def d' written_once_def fold_insert_ignore_prefix consensus_of_round_def)
qed

lemma insert_marker_op:
  assumes "insert_marker k h now d = Inr d'"
  shows "table_op d d'"
proof -
  have r: "present d k" and d': "d' = d\<lparr>sd_markers := insert_ignore marker_unique
      \<lparr>mr_key = k, mr_horizon = h, mr_at = now\<rparr> (sd_markers d)\<rparr>"
    using assms by (auto simp: insert_marker_def present_def split: if_splits)
  have "tables_ok d \<longrightarrow> tables_ok d'"
    unfolding tables_ok_def d' using r set_insert_ignore [of marker_unique _ "sd_markers d"]
    by (fastforce simp: insert_ignore_unique)
  then show ?thesis
    by (simp add: table_op_def d' written_once_def insert_ignore_prefix consensus_of_round_def)
qed

lemma upsert_ema_op: "table_op d (upsert_ema schema_id now e d)"
  by (simp add: table_op_def upsert_ema_def tables_ok_def written_once_def upsert_unique consensus_of_round_def)

lemma fold_upsert_ema_op: "table_op d (fold (upsert_ema schema_id now) es d)"
  by (induction es arbitrary: d) (auto intro: table_op_trans upsert_ema_op)

lemma delete_emas_op: "table_op d (delete_emas p d)"
  by (simp add: table_op_def delete_emas_def tables_ok_def written_once_def unique_on_def
      distinct_map_filter consensus_of_round_def)

lemma scoring_pass_op:
  assumes "record_scoring_pass k p now d = Inr d'"
  shows "table_op d d'"
proof (cases "has_resolution_marker d k (sp_horizon p)")
  case False
  then obtain d1 d2 d3 where
    1: "insert_realized_targets k (sp_targets p) now d = Inr d1" and
    2: "insert_output_scores k (sp_scores p) now d1 = Inr d2" and
    3: "insert_score_history k (sp_history p) now (fold (upsert_ema (snd k) now) (sp_emas p) d2) = Inr d3" and
    4: "\<exists>d4 d5. table_op d3 d4 \<and> table_op d4 d5
          \<and> (if sp_complete p then insert_marker k (sp_horizon p) now d5 else Inr d5) = Inr d'"
    using assms by (auto simp: record_scoring_pass_def Let_def split: if_splits)
      (metis delete_emas_op table_op_refl)+
  then obtain d4 d5 where 5: "table_op d3 d4" "table_op d4 d5"
    "(if sp_complete p then insert_marker k (sp_horizon p) now d5 else Inr d5) = Inr d'" by blast
  have "table_op d5 d'" using 5(3) insert_marker_op by (fastforce split: if_splits)
  then show ?thesis
    using insert_targets_op [OF 1] insert_scores_op [OF 2] fold_upsert_ema_op [of d2 "snd k" now "sp_emas p"]
      insert_history_op [OF 3] 5(1,2) table_op_trans by meson
qed (use assms in \<open>simp add: record_scoring_pass_def split: if_splits\<close>)

subsection \<open>Every transaction keeps the tables\<close>

definition score_inv :: "'a score_db_scheme \<Rightarrow> bool" where
  "score_inv d \<longleftrightarrow> storage_inv d \<and> tables_ok d"

lemma rank_present: "round_state_rank (round_state d k) \<noteq> 0 \<longleftrightarrow> present d k"
  by (cases "round_state d k" rule: round_state_rank.cases) (auto simp: present_def round_state_def)

lemma rank_revealed: "1 < round_state_rank (round_state d k) \<longleftrightarrow> revealed d k"
  by (cases "round_state d k" rule: round_state_rank.cases) (auto simp: revealed_def post_embargo_def)

lemma step_present_revealed:
  assumes "storage_step d d'" "storage_inv d"
  shows "present d k \<Longrightarrow> present d' k" "revealed d k \<Longrightarrow> revealed d' k"
  using storage_step_rank [OF assms, of k] rank_present [of d k] rank_present [of d' k]
    rank_revealed [of d k] rank_revealed [of d' k] by linarith+

lemma tables_ok_storage_step:
  assumes "storage_step d d'" "score_inv d"
  shows "tables_ok d'" "written_once d d'"
proof -
  have inv: "storage_inv d" using assms(2) by (simp add: score_inv_def)
  show "tables_ok d'" "written_once d d'"
    using assms(2) step_present_revealed [OF assms(1) inv]
    by (auto simp: score_inv_def tables_ok_def written_once_def consensus_of_round_def
        storage_step_tables [OF assms(1)])
qed

lemma publish_effect:
  assumes "publish_consensus_and_reveal k rows now d = Inr d'" "score_inv d"
  shows "tables_ok d'" "written_once d d'" "same_rounds (close_round k now d) d'"
    "consensus_of_round d k = [] \<Longrightarrow> map ce_row (consensus_of_round d' k) = rows"
proof -
  let ?c = "close_round k now d"
  let ?new = "map (\<lambda>r. \<lparr>ce_key = k, ce_row = r, ce_at = now\<rparr>) rows"
  have step: "storage_step d ?c" by (rule St_close) simp
  note ok = tables_ok_storage_step [OF step assms(2)]
  have cons: "sd_consensus ?c = sd_consensus d" by (rule storage_step_tables(1) [OF step])
  consider (old) "\<exists>e \<in> set (sd_consensus d). ce_key e = k" "d' = ?c"
    | (new) "\<forall>e \<in> set (sd_consensus d). ce_key e \<noteq> k" "references_round d k rows"
        "distinct (map cr_coordinate rows)" "d' = ?c\<lparr>sd_consensus := sd_consensus d @ ?new\<rparr>"
    using assms(1) by (auto simp: publish_eq split: if_splits)
  then have "tables_ok d' \<and> written_once d d' \<and> same_rounds ?c d'
    \<and> (consensus_of_round d k = [] \<longrightarrow> map ce_row (consensus_of_round d' k) = rows)"
  proof cases
    case old
    then show ?thesis using ok by (auto simp: consensus_of_round_def filter_empty_conv)
  next
    case new
    have rev: "revealed ?c k" if "rows \<noteq> []"
    proof -
      have "round_state d k \<noteq> None" using new(2) that by (simp add: references_round_def round_state_def)
      then show ?thesis
        using assms(2) by (auto simp: revealed_def close_round_state score_inv_def storage_inv_def post_embargo_def)
    qed
    have u: "unique_on consensus_unique ?new"
      using new(3) by (simp add: unique_on_def consensus_unique_def o_def distinct_map inj_on_def)
    have "tables_ok (?c\<lparr>sd_consensus := sd_consensus d @ ?new\<rparr>)"
    proof -
      have "\<forall>e \<in> set ?new. revealed ?c (ce_key e)" using rev by (cases rows) auto
      then show ?thesis
        using ok(1) u new(1)
        by (auto simp: tables_ok_def cons present_def revealed_def consensus_unique_def)
    qed
    moreover have "written_once d d'"
      using ok(2) new(1) by (auto simp: new(4) written_once_def consensus_of_round_def filter_empty_conv)
    moreover have "map ce_row (consensus_of_round d' k) = rows"
      using new(1) by (simp add: new(4) consensus_of_round_def o_def filter_map)
    ultimately show ?thesis by (simp add: new(4))
  qed
  then show "tables_ok d'" "written_once d d'" "same_rounds ?c d'"
    "consensus_of_round d k = [] \<Longrightarrow> map ce_row (consensus_of_round d' k) = rows"
    by simp_all
qed

text \<open>A transaction is one on the round tables, then a change of the assessment tables only.\<close>

lemma score_step_effect:
  assumes "score_step d d'" "score_inv d"
  shows "tables_ok d'" "written_once d d'" "\<exists>d1. storage_step\<^sup>*\<^sup>* d d1 \<and> same_rounds d1 d'"
proof -
  have op: "tables_ok d' \<and> written_once d d' \<and> (\<exists>d1. storage_step\<^sup>*\<^sup>* d d1 \<and> same_rounds d1 d')"
    if "table_op d d'" for d'
    using that assms(2) by (auto simp: table_op_def score_inv_def)
  have "tables_ok d' \<and> written_once d d' \<and> (\<exists>d1. storage_step\<^sup>*\<^sup>* d d1 \<and> same_rounds d1 d')"
    using assms
  proof (cases rule: score_step.cases)
    case Sc_rounds
    then show ?thesis using tables_ok_storage_step [OF _ assms(2)] same_rounds_refl by blast
  next
    case (Sc_publish k rows now)
    have "storage_step d (close_round k now d)" by (rule St_close) simp
    then show ?thesis using publish_effect [OF Sc_publish assms(2)] by blast
  next
    case Sc_targets
    then show ?thesis by (intro op insert_targets_op)
  next
    case Sc_scores
    then show ?thesis by (intro op insert_scores_op)
  next
    case Sc_history
    then show ?thesis by (intro op insert_history_op)
  next
    case (Sc_ema schema_id now e)
    then show ?thesis using op [OF upsert_ema_op] by simp
  next
    case (Sc_archive schema_id horizon hotkeys b)
    then have "d' = d \<or> d' = delete_emas (archived_row schema_id horizon hotkeys) d"
      by (auto simp: archive_ema_horizon_def split: if_splits)
    then show ?thesis using op [OF delete_emas_op] op [OF table_op_refl] by blast
  next
    case Sc_pass
    then show ?thesis by (intro op scoring_pass_op)
  qed
  then show "tables_ok d'" "written_once d d'" "\<exists>d1. storage_step\<^sup>*\<^sup>* d d1 \<and> same_rounds d1 d'"
    by simp_all
qed

lemma score_inv_step: "score_step d d' \<Longrightarrow> score_inv d \<Longrightarrow> score_inv d'"
  using score_step_effect [of d d'] storage_inv_steps same_roundsD(3)
  by (metis score_inv_def)

lemma score_steps_effect:
  assumes "score_step\<^sup>*\<^sup>* d d'" "score_inv d"
  shows "score_inv d'" "written_once d d'"
    "revealed d k \<Longrightarrow> revealed d' k \<and> scoring_bundles d' k limit offset = scoring_bundles d k limit offset"
proof -
  have "score_inv d' \<and> written_once d d' \<and> (revealed d k \<longrightarrow> revealed d' k
      \<and> scoring_bundles d' k limit offset = scoring_bundles d k limit offset)"
    using assms
  proof (induction rule: rtranclp_induct)
    case (step d' d'')
    then have IH: "score_inv d'" "written_once d d'" "revealed d k \<longrightarrow> revealed d' k
        \<and> scoring_bundles d' k limit offset = scoring_bundles d k limit offset" by simp_all
    obtain d1 where d1: "storage_step\<^sup>*\<^sup>* d' d1" "same_rounds d1 d''"
      using score_step_effect(3) [OF step(2) IH(1)] by blast
    have "revealed d'' k \<and> scoring_bundles d'' k limit offset = scoring_bundles d' k limit offset"
      if rev: "revealed d' k"
    proof -
      obtain st where st: "round_state d' k = Some st" "st \<noteq> Round_open"
        using rev by (auto simp: revealed_def post_embargo_def)
      have "storage_inv d'" using IH(1) by (simp add: score_inv_def)
      from closed_round_frozen [OF d1(1) this st] same_roundsD(2,4) [OF d1(2)] show ?thesis
        by (simp add: revealed_def post_embargo_def)
    qed
    then show ?case
      using IH score_inv_step [OF step(2) IH(1)] written_once_trans score_step_effect(2) [OF step(2) IH(1)]
      by metis
  qed simp
  then show "score_inv d'" "written_once d d'"
    "revealed d k \<Longrightarrow> revealed d' k \<and> scoring_bundles d' k limit offset = scoring_bundles d k limit offset"
    by simp_all
qed

lemma empty_score_inv: "score_inv empty_score_db"
proof -
  have "storage_inv empty_score_db"
    by (simp add: storage_inv_def storage_ok_def frozen_ok_def empty_score_db_def empty_db_def
        db.defs round_state_def round_of_def)
  then show ?thesis by (simp add: score_inv_def tables_ok_def empty_score_db_def empty_db_def db.defs)
qed

lemma score_reachable_inv: "score_reachable d \<Longrightarrow> score_inv d"
  by (induction rule: score_reachable.induct) (auto intro: empty_score_inv score_inv_step)

subsection \<open>Properties\<close>

lemma snapshot_bundles: "consensus_bundles (close_round k now d) k = snd (snapshot_if_open k now d)"
  by (simp add: close_round_def flip_round_revealed_def snapshot_if_open_def Let_def)

lemma consensus_of_round_rows:
  "assessment_consensus_for d k = sort_key cr_coordinate (map ce_row (consensus_of_round d k))"
  by (simp add: assessment_consensus_for_def consensus_of_round_def)

lemma published_effect:
  assumes "publish_consensus_from_bundles k rows_of now d = Inr (d', bundles, rows)" "score_inv d"
    and "consensus_of_round d k = []" "rows \<noteq> []"
  shows "map ce_row (consensus_of_round d' k) = rows" "scoring_bundles d' k None 0 = bundles"
    "revealed d' k" "score_inv d'"
proof -
  note p = publish_from_bundles [OF assms(1)]
  note e = publish_effect [OF p(1) assms(2)]
  show rows: "map ce_row (consensus_of_round d' k) = rows" using e(4) assms(3) by simp
  then obtain x where "x \<in> set (consensus_of_round d' k)" using assms(4) by fastforce
  then show rev: "revealed d' k"
    using e(1) by (auto simp: tables_ok_def consensus_of_round_def)
  have "consensus_bundles d' k = bundles"
    using same_roundsD(6) [OF e(3), of k] by (simp add: snapshot_bundles p(3))
  then show "scoring_bundles d' k None 0 = bundles"
    using rev by (auto simp: revealed_def scoring_bundles_def page_def)
  have "score_step d d'" by (rule Sc_publish [OF p(1)])
  then show "score_inv d'" using assms(2) by (rule score_inv_step)
qed

text \<open>
  C9: Publication is atomic and final.  Once a round's consensus is published from its accepted
  bundles, then after any further transactions the stored consensus is still the rows computed from
  those bundles, the round still scores from exactly those bundles, and it is past its reveal.
\<close>

theorem published_consensus_is_final:
  assumes "score_reachable d" "publish_consensus_from_bundles k rows_of now d = Inr (d', bundles, rows)"
    and "assessment_consensus_for d k = []" "rows \<noteq> []" "score_step\<^sup>*\<^sup>* d' d''"
  shows "rows_of bundles = Inr rows \<and> assessment_consensus_for d'' k = sort_key cr_coordinate rows
    \<and> scoring_bundles d'' k None 0 = bundles \<and> revealed d'' k"
proof -
  have "mset (assessment_consensus_for d k) = mset (map ce_row (consensus_of_round d k))"
    by (simp add: consensus_of_round_rows)
  then have empty: "consensus_of_round d k = []" using assms(3) by simp
  note e = published_effect [OF assms(2) score_reachable_inv [OF assms(1)] empty assms(4)]
  note s = score_steps_effect [OF assms(5) e(4)]
  have "consensus_of_round d'' k = consensus_of_round d' k"
  proof -
    have "consensus_of_round d' k \<noteq> []" using e(1) assms(4) by auto
    then show ?thesis using s(2) unfolding written_once_def by blast
  qed
  then have "assessment_consensus_for d'' k = sort_key cr_coordinate rows"
    by (simp add: consensus_of_round_rows e(1))
  then show ?thesis
    using publish_from_bundles(2) [OF assms(2)] s(3) [OF e(3), of None 0] e(2) by simp
qed

definition demo_row :: consensus_row where
  "demo_row = \<lparr>cr_coordinate = Coordinate Subnet_asset ''8'' Seconds 86400 ''volatility_bps'',
     cr_value = 250, cr_dispersion = 10, cr_n_submitters = 1\<rparr>"

definition demo_rows_of :: "(string \<times> string) list \<Rightarrow> unit + consensus_row list" where
  "demo_rows_of bundles = (if bundles = [] then Inl () else Inr [demo_row])"

definition demo_score_open :: score_db where
  "demo_score_open = (case open_round demo_windows (snd demo_key) None 10 None empty_score_db of
     Inr d \<Rightarrow> d | Inl _ \<Rightarrow> empty_score_db)"

definition demo_score_revealed :: score_db where
  "demo_score_revealed = fst (record_reveal demo_key ''hk1'' ''{}'' ''00'' True None 35
     (fst (record_commit demo_key ''hk1'' ''aa'' 15 (Some 10) demo_score_open)))"

lemma demo_score_reachable: "score_reachable demo_score_revealed"
proof -
  have "open_round demo_windows (snd demo_key) None 10 None empty_score_db = Inr demo_score_open"
    by (simp add: demo_score_open_def open_round_def demo_windows_def Let_def empty_score_db_def
        empty_db_def db.defs round_of_def)
  then have "score_reachable demo_score_open"
    by (intro Sr_step [OF Sr_empty] Sc_rounds St_open)
  then have "score_reachable (fst (record_commit demo_key ''hk1'' ''aa'' 15 (Some 10) demo_score_open))"
    by (rule Sr_step) (rule Sc_rounds, rule St_commit, rule prod.collapse [symmetric])
  then show ?thesis
    unfolding demo_score_revealed_def
    by (rule Sr_step) (rule Sc_rounds, rule St_reveal, rule prod.collapse [symmetric])
qed

definition demo_published :: score_db where
  "demo_published = (case publish_consensus_from_bundles demo_key demo_rows_of 41 demo_score_revealed of
     Inr (d, _) \<Rightarrow> d | Inl _ \<Rightarrow> empty_score_db)"

lemma demo_publish:
  "publish_consensus_from_bundles demo_key demo_rows_of 41 demo_score_revealed
     = Inr (demo_published, [(''hk1'', ''{}'')], [demo_row])"
  "assessment_consensus_for demo_score_revealed demo_key = []"
  by code_simp+

lemma published_consensus_is_final_witness:
  "assessment_consensus_for (fst (record_reveal demo_key ''hk2'' ''[]'' ''11'' True None 42 demo_published)) demo_key
     = [demo_row]"
proof -
  let ?late = "fst (record_reveal demo_key ''hk2'' ''[]'' ''11'' True None 42 demo_published)"
  have "score_step demo_published ?late"
    by (rule Sc_rounds, rule St_reveal, rule prod.collapse [symmetric])
  then have "score_step\<^sup>*\<^sup>* demo_published ?late" by (rule r_into_rtranclp)
  from published_consensus_is_final [OF demo_score_reachable demo_publish _ this]
  show ?thesis by simp
qed

text \<open>
  C22: The first observation of a result wins: a realized target, a score or a history row is never
  dropped or changed by a later transaction, and a round never holds two targets of one coordinate.
\<close>

theorem first_observation_wins:
  assumes "score_reachable d" "score_step\<^sup>*\<^sup>* d d'"
  shows "set (realized_targets_for d k) \<subseteq> set (realized_targets_for d' k)
    \<and> set (output_scores_for_round d k) \<subseteq> set (output_scores_for_round d' k)
    \<and> set (score_history_for_round d k) \<subseteq> set (score_history_for_round d' k)
    \<and> distinct (map rt_coordinate (realized_targets_for d' k))
    \<and> (has_resolution_marker d k h \<longrightarrow> has_resolution_marker d' k h)"
proof -
  note s = score_steps_effect [OF assms(2) score_reachable_inv [OF assms(1)]]
  have w: "set (sd_targets d) \<subseteq> set (sd_targets d')" "set (sd_scores d) \<subseteq> set (sd_scores d')"
    "set (sd_history d) \<subseteq> set (sd_history d')" "set (sd_markers d) \<subseteq> set (sd_markers d')"
    using s(2) by (auto simp: written_once_def dest: set_mono_prefix)
  have "unique_on target_unique (sd_targets d')" using s(1) by (simp add: score_inv_def tables_ok_def)
  then have "inj_on target_unique (set (filter (\<lambda>e. te_key e = k) (sd_targets d')))"
    "distinct (filter (\<lambda>e. te_key e = k) (sd_targets d'))"
    by (auto simp: unique_on_def distinct_map inj_on_def)
  then have "distinct (map (\<lambda>e. rt_coordinate (te_row e)) (filter (\<lambda>e. te_key e = k) (sd_targets d')))"
    by (auto simp: distinct_map inj_on_def target_unique_def)
  then have "distinct (map rt_coordinate (map te_row (filter (\<lambda>e. te_key e = k) (sd_targets d'))))"
    by (simp add: o_def)
  moreover have "mset (map rt_coordinate (realized_targets_for d' k))
      = mset (map rt_coordinate (map te_row (filter (\<lambda>e. te_key e = k) (sd_targets d'))))"
    by (simp add: realized_targets_for_def realized_targets_for_horizon_def image_mset.compositionality)
  ultimately have "distinct (map rt_coordinate (realized_targets_for d' k))"
    using mset_eq_imp_distinct_iff by metis
  then show ?thesis using w
    by (auto simp: realized_targets_for_def realized_targets_for_horizon_def output_scores_for_round_def
        score_history_for_round_def has_resolution_marker_def)
qed

definition demo_target :: realized_target where
  "demo_target = \<lparr>rt_coordinate = Coordinate Subnet_asset ''8'' Seconds 86400 ''volatility_bps'',
     rt_value = Some 240, rt_status = ''resolved'', rt_payload_hash = None\<rparr>"

definition demo_targets :: score_db where
  "demo_targets = (case insert_realized_targets demo_key [demo_target] 50 demo_score_revealed of
     Inr d \<Rightarrow> d | Inl _ \<Rightarrow> empty_score_db)"

definition demo_ema :: ema_state where
  "demo_ema = \<lparr>es_hotkey = ''hk1'', es_coordinate = rt_coordinate demo_target, es_ema = 1 / 8,
     es_resolved_rounds = 1\<rparr>"

lemma first_observation_wins_witness:
  "demo_target \<in> set (realized_targets_for (upsert_ema ''s'' 60 demo_ema demo_targets) demo_key)"
proof -
  have t: "insert_realized_targets demo_key [demo_target] 50 demo_score_revealed = Inr demo_targets"
    "demo_target \<in> set (realized_targets_for demo_targets demo_key)"
    by code_simp+
  have "score_reachable demo_targets" by (rule Sr_step [OF demo_score_reachable Sc_targets [OF t(1)]])
  moreover have "score_step\<^sup>*\<^sup>* demo_targets (upsert_ema ''s'' 60 demo_ema demo_targets)"
    by (rule r_into_rtranclp, rule Sc_ema, rule refl)
  ultimately show ?thesis using first_observation_wins [where k = demo_key] t(2) by blast
qed

end
