(* ===== verification/Decimal_Text.thy ===== *)
theory Decimal_Text
  imports Canonical Decimal28
begin

text \<open>
  The text of a Python \<open>Decimal\<close>: the object with its sign, coefficient and exponent, \<open>str\<close>
  (the scientific string of the decimal specification) and the constructor from a text.  The
  market data stores prices as these texts; \<open>parse_str_decimal\<close> is their round trip.
\<close>

subsection \<open>The object\<close>

datatype py_decimal = Dec bool int int | Dec_special

definition dec_value :: "bool \<Rightarrow> int \<Rightarrow> int \<Rightarrow> rat" where
  "dec_value neg c e = (if neg then - 1 else 1) * of_int c * 10 powi e"

fun is_finite :: "py_decimal \<Rightarrow> bool" where
  "is_finite (Dec _ _ _) \<longleftrightarrow> True"
| "is_finite Dec_special \<longleftrightarrow> False"

fun dval :: "py_decimal \<Rightarrow> rat" where
  "dval (Dec neg c e) = dec_value neg c e"
| "dval Dec_special = 0"

text \<open>The exponent range of CPython's \<open>libmpdec\<close> on 64-bit platforms, for an exact conversion.\<close>

definition max_emax :: int where
  "max_emax = 999999999999999999"

definition dec_in_range :: "int \<Rightarrow> int \<Rightarrow> bool" where
  "dec_in_range c e \<longleftrightarrow> 0 \<le> c
     \<and> (c = 0 \<or> e + int (length (str_nat c)) - 1 \<le> max_emax \<and> - (2 * max_emax - 1) \<le> e)"

subsection \<open>\<open>str\<close>\<close>

definition zeros :: "int \<Rightarrow> string" where
  "zeros n = replicate (nat n) (CHR ''0'')"

text \<open>\<open>"%+d"\<close>.\<close>

definition signed_int :: "int \<Rightarrow> string" where
  "signed_int n = (if n < 0 then CHR ''-'' else CHR ''+'') # str_nat \<bar>n\<bar>"

definition str_coefficient :: "int \<Rightarrow> int \<Rightarrow> string" where
  "str_coefficient c e =
     (let digits = str_nat c; n = int (length digits); left = e + n;
          dotplace = (if e \<le> 0 \<and> - 6 < left then left else 1);
          body = (if dotplace \<le> 0 then ''0.'' @ zeros (- dotplace) @ digits
                  else if n \<le> dotplace then digits @ zeros (dotplace - n)
                  else take (nat dotplace) digits @ ''.'' @ drop (nat dotplace) digits)
      in body @ (if left = dotplace then [] else ''E'' @ signed_int (left - dotplace)))"

fun str_decimal :: "py_decimal \<Rightarrow> string" where
  "str_decimal (Dec neg c e) = (if neg then ''-'' else []) @ str_coefficient c e"
| "str_decimal Dec_special = ''NaN''"

subsection \<open>The constructor\<close>

text \<open>\<open>str.isspace\<close> on the code points below 256.\<close>

definition py_space :: "char \<Rightarrow> bool" where
  "py_space c = (let n = of_char c :: nat in n = 32 \<or> (9 \<le> n \<and> n \<le> 13) \<or> (28 \<le> n \<and> n \<le> 31)
                   \<or> n = 133 \<or> n = 160)"

definition strip :: "string \<Rightarrow> string" where
  "strip s = rev (dropWhile py_space (rev (dropWhile py_space s)))"

definition to_lower :: "char \<Rightarrow> char" where
  "to_lower c = (let n = of_char c :: nat in if 65 \<le> n \<and> n \<le> 90 then char_of (n + 32) else c)"

definition split_sign :: "string \<Rightarrow> bool \<times> string" where
  "split_sign s =
     (case s of c # r \<Rightarrow> if c = CHR ''-'' then (True, r) else if c = CHR ''+'' then (False, r) else (False, s)
      | [] \<Rightarrow> (False, []))"

definition parse_exponent :: "string \<Rightarrow> int option" where
  "parse_exponent s =
     (case s of
        [] \<Rightarrow> Some 0
      | c # r \<Rightarrow>
          if c \<noteq> CHR ''E'' \<and> c \<noteq> CHR ''e'' then None
          else let (neg, ds) = split_sign r
               in if is_decimal ds then Some ((if neg then - 1 else 1) * int_of_digits ds) else None)"

definition is_special_text :: "string \<Rightarrow> bool" where
  "is_special_text s =
     (let t = map to_lower s; d = dropWhile is_digit (rev t)
      in t = ''inf'' \<or> t = ''infinity'' \<or> d = rev ''nan'' \<or> d = rev ''snan'')"

definition split_fraction :: "string \<Rightarrow> string \<times> string" where
  "split_fraction s =
     (case s of c # r \<Rightarrow> if c = CHR ''.'' then split_digits r else ([], s) | [] \<Rightarrow> ([], []))"

definition parse_number :: "bool \<Rightarrow> string \<Rightarrow> py_decimal option" where
  "parse_number neg s =
     (let (ip, r) = split_digits s; (fp, t) = split_fraction r; ds = ip @ fp
      in if ds = [] then None
         else case parse_exponent t of
           None \<Rightarrow> None
         | Some x \<Rightarrow>
             let c = int_of_digits ds; e = x - int (length fp)
             in if dec_in_range c e then Some (Dec neg c e) else None)"

definition parse_decimal :: "string \<Rightarrow> py_decimal option" where
  "parse_decimal s =
     (let (neg, t) = split_sign (filter (\<lambda>c. c \<noteq> CHR ''_'') (strip s))
      in if is_special_text t then Some Dec_special else parse_number neg t)"

subsection \<open>The round trip\<close>

definition plain :: "string \<Rightarrow> bool" where
  "plain s \<longleftrightarrow> list_all (\<lambda>c. is_digit c \<or> c \<in> set ''.E+-'') s"

lemma digit_code: "is_digit c \<longleftrightarrow> 48 \<le> (of_char c :: nat) \<and> (of_char c :: nat) \<le> 57"
  by (auto simp: is_digit_def digit_val_def)

lemma plain_char:
  "is_digit c \<or> c \<in> set ''.E+-'' \<Longrightarrow> \<not> py_space c \<and> c \<noteq> CHR ''_''"
  by (auto simp: py_space_def digit_code Let_def)

lemma strip_plain: "plain s \<Longrightarrow> filter (\<lambda>c. c \<noteq> CHR ''_'') (strip s) = s"
proof -
  assume p: "plain s"
  have keep: "dropWhile py_space t = t" if "plain t" for t
    using that plain_char by (cases t) (auto simp: plain_def)
  have "plain (rev s)" using p by (simp add: plain_def)
  then have "strip s = s" using keep p by (simp add: strip_def)
  moreover have "filter (\<lambda>c. c \<noteq> CHR ''_'') s = s"
    using p plain_char by (auto simp: plain_def list_all_iff filter_id_conv)
  ultimately show ?thesis by simp
qed

lemma int_of_digits_zeros [simp]: "int_of_digits (zeros n @ s) = int_of_digits s"
proof -
  have "foldl (\<lambda>v c. 10 * v + digit_val c) 0 (replicate k (CHR ''0'')) = 0" for k
    by (induction k) (simp_all add: digit_val_def)
  then show ?thesis by (simp add: int_of_digits_def zeros_def)
qed

lemma int_of_digits_zero_Cons: "int_of_digits (CHR ''0'' # s) = int_of_digits s"
  using int_of_digits_zeros [of 1 s] by (simp add: zeros_def)

lemma zeros_digits [simp]: "list_all is_digit (zeros n)" "length (zeros n) = nat n"
  by (simp_all add: zeros_def list_all_iff is_digit_def digit_val_def)

lemma split_digits_append:
  "list_all is_digit ds \<Longrightarrow> (\<And>c r. s = c # r \<Longrightarrow> \<not> is_digit c) \<Longrightarrow> split_digits (ds @ s) = (ds, s)"
  by (cases s) (auto simp: split_digits_def takeWhile_append dropWhile_append list_all_iff)

lemma not_digits [simp]: "\<not> is_digit (CHR ''.'')" "\<not> is_digit (CHR ''E'')"
  by (simp_all add: digit_code)

text \<open>The exponent part of a text and what it reads as.\<close>

definition exponent_text :: "int \<Rightarrow> string" where
  "exponent_text x = (if x = 0 then [] else ''E'' @ signed_int x)"

lemma parse_exponent_text [simp]: "parse_exponent (exponent_text x) = Some x"
  by (auto simp: exponent_text_def parse_exponent_def signed_int_def split_sign_def is_decimal_def
      str_nat_digits)

lemma exponent_text_not_digit: "exponent_text x = c # r \<Longrightarrow> \<not> is_digit c \<and> c \<noteq> CHR ''.''"
  by (auto simp: exponent_text_def split: if_splits)

lemma parse_number_integer:
  assumes "list_all is_digit ip" "ip \<noteq> []" "dec_in_range (int_of_digits ip) x"
  shows "parse_number neg (ip @ exponent_text x) = Some (Dec neg (int_of_digits ip) x)"
proof -
  have "split_digits (ip @ exponent_text x) = (ip, exponent_text x)"
    using assms(1) exponent_text_not_digit by (intro split_digits_append) auto
  moreover have "split_fraction (exponent_text x) = ([], exponent_text x)"
    by (auto simp: split_fraction_def exponent_text_def)
  ultimately show ?thesis using assms by (simp add: parse_number_def Let_def)
qed

lemma parse_number_fraction:
  assumes "list_all is_digit ip" "list_all is_digit fp" "ip \<noteq> []"
    "dec_in_range (int_of_digits (ip @ fp)) (x - int (length fp))"
  shows "parse_number neg (ip @ ''.'' @ fp @ exponent_text x)
    = Some (Dec neg (int_of_digits (ip @ fp)) (x - int (length fp)))"
proof -
  have "split_digits (ip @ ''.'' @ fp @ exponent_text x) = (ip, ''.'' @ fp @ exponent_text x)"
    using assms(1) by (intro split_digits_append) auto
  moreover have "split_digits (fp @ exponent_text x) = (fp, exponent_text x)"
    using assms(2) exponent_text_not_digit by (intro split_digits_append) auto
  then have "split_fraction (''.'' @ fp @ exponent_text x) = (fp, exponent_text x)"
    by (simp add: split_fraction_def)
  ultimately show ?thesis using assms by (simp add: parse_number_def Let_def)
qed

lemma str_coefficient_cases:
  assumes "0 \<le> c"
  defines "digits \<equiv> str_nat c"
  obtains (integer) x where "str_coefficient c e = digits @ exponent_text x" "x = e"
  | (fraction) ip fp x where "str_coefficient c e = ip @ ''.'' @ fp @ exponent_text x"
      "list_all is_digit ip" "list_all is_digit fp" "ip \<noteq> []"
      "int_of_digits (ip @ fp) = c" "x - int (length fp) = e"
proof -
  define n left where "n = int (length digits)" and "left = e + n"
  have digits: "list_all is_digit digits" "digits \<noteq> []" "int_of_digits digits = c"
    using assms str_nat_digits by (simp_all add: digits_def)
  then have n: "0 < n" by (simp add: n_def)
  define dot where "dot = (if e \<le> 0 \<and> - 6 < left then left else 1)"
  have eq: "str_coefficient c e =
      (if dot \<le> 0 then ''0.'' @ zeros (- dot) @ digits
       else if n \<le> dot then digits @ zeros (dot - n)
       else take (nat dot) digits @ ''.'' @ drop (nat dot) digits) @ exponent_text (left - dot)"
    unfolding str_coefficient_def Let_def exponent_text_def dot_def left_def n_def digits_def
    by (simp only: right_minus_eq)
  consider "dot \<le> 0" | "0 < dot" "n \<le> dot" | "0 < dot" "dot < n" by linarith
  then show ?thesis
  proof cases
    case 1
    then have "dot = left" by (simp add: dot_def split: if_splits)
    have "str_coefficient c e = ''0'' @ ''.'' @ (zeros (- dot) @ digits) @ exponent_text (left - dot)"
      using eq 1 by simp
    moreover have "list_all is_digit ''0''" by (simp add: digit_code)
    moreover have "int_of_digits (''0'' @ zeros (- dot) @ digits) = c"
      using digits by (simp add: int_of_digits_zero_Cons)
    moreover have "left - dot - int (length (zeros (- dot) @ digits)) = e"
      using 1 \<open>dot = left\<close> by (simp add: n_def left_def)
    ultimately show ?thesis using digits
      by (intro fraction [of "''0''" "zeros (- dot) @ digits" "left - dot"]) simp_all
  next
    case 2
    then have "dot = n" using n by (auto simp: dot_def left_def split: if_splits)
    with 2 have "str_coefficient c e = digits @ exponent_text (left - dot)" "left - dot = e"
      using eq by (simp_all add: zeros_def left_def)
    then show ?thesis by (rule integer)
  next
    case 3
    let ?k = "nat dot"
    have k: "?k < length digits" "0 < ?k" using 3 by (simp_all add: n_def)
    have "str_coefficient c e = take ?k digits @ ''.'' @ drop ?k digits @ exponent_text (left - dot)"
      using eq 3 by simp
    moreover have "left - dot - int (length (drop ?k digits)) = e"
      using k 3 by (simp add: left_def n_def)
    moreover have "list_all is_digit (take ?k digits)" "list_all is_digit (drop ?k digits)"
      using digits(1) by (auto simp: list_all_iff dest: in_set_takeD in_set_dropD)
    ultimately show ?thesis using k digits
      by (intro fraction [of "take ?k digits" "drop ?k digits" "left - dot"]) auto
  qed
qed

lemma signed_int_plain: "list_all (\<lambda>c. is_digit c \<or> c \<in> set ''.E+-'') (signed_int x)"
  using str_nat_digits [of "\<bar>x\<bar>"] by (auto simp: signed_int_def list_all_iff)

lemma exponent_text_plain: "plain (exponent_text x)"
  using signed_int_plain by (simp add: exponent_text_def plain_def)

lemma digits_plain: "list_all is_digit s \<Longrightarrow> plain s"
  by (auto simp: plain_def list_all_iff)

lemma plain_append [simp]: "plain (s @ t) \<longleftrightarrow> plain s \<and> plain t"
  by (simp add: plain_def)

lemma head_digit_not_special:
  assumes "list_all is_digit ip" "ip \<noteq> []"
  shows "\<not> is_special_text (ip @ s)" "split_sign (ip @ s) = (False, ip @ s)"
proof -
  obtain d ip' where ip: "ip = d # ip'" "is_digit d" using assms by (cases ip) auto
  have low: "to_lower d = d" using ip(2) by (auto simp: to_lower_def digit_code Let_def)
  have "hd (map to_lower (ip @ s)) = d" "map to_lower (ip @ s) \<noteq> []" using ip low by simp_all
  moreover have "d \<noteq> CHR ''i''" "d \<noteq> CHR ''n''" "d \<noteq> CHR ''s''" using ip(2) by (auto simp: digit_code)
  moreover have "hd t = last (dropWhile is_digit (rev t))"
    if "dropWhile is_digit (rev t) \<noteq> []" for t :: string
  proof -
    have "last (dropWhile is_digit (rev t)) = last (rev t)"
      using that by (metis last_append takeWhile_dropWhile_id)
    moreover have "t \<noteq> []" using that by auto
    ultimately show ?thesis by (simp add: last_rev)
  qed
  ultimately show "\<not> is_special_text (ip @ s)"
    unfolding is_special_text_def Let_def
    by (metis last_rev list.sel(1) list.distinct(1) rev_is_Nil_conv)
  show "split_sign (ip @ s) = (False, ip @ s)"
    using ip(2) by (auto simp: ip(1) split_sign_def digit_code)
qed

lemma parse_decimal_sign:
  assumes "list_all is_digit ip" "ip \<noteq> []" "plain (ip @ s)" "parse_number neg (ip @ s) = Some d"
  shows "parse_decimal ((if neg then ''-'' else []) @ ip @ s) = Some d"
proof -
  have "plain ((if neg then ''-'' else []) @ ip @ s)" using assms(3) by (auto simp: plain_def)
  then have "filter (\<lambda>c. c \<noteq> CHR ''_'') (strip ((if neg then ''-'' else []) @ ip @ s))
      = (if neg then ''-'' else []) @ ip @ s"
    by (rule strip_plain)
  moreover have "split_sign ((if neg then ''-'' else []) @ ip @ s) = (neg, ip @ s)"
    using head_digit_not_special(2) [OF assms(1,2), of s] by (cases neg) (simp_all, simp add: split_sign_def)
  ultimately show ?thesis
    using head_digit_not_special(1) [OF assms(1,2), of s] assms(4) by (simp add: parse_decimal_def)
qed

theorem parse_str_decimal:
  assumes "dec_in_range c e"
  shows "parse_decimal (str_decimal (Dec neg c e)) = Some (Dec neg c e)"
proof -
  have c: "0 \<le> c" using assms by (simp add: dec_in_range_def)
  then have digits: "list_all is_digit (str_nat c)" "str_nat c \<noteq> []" using str_nat_digits by auto
  from c show ?thesis
  proof (cases rule: str_coefficient_cases [where e = e])
    case (integer x)
    have "parse_number neg (str_nat c @ exponent_text x) = Some (Dec neg c e)"
      using parse_number_integer [OF digits, of x neg] assms c integer by simp
    with integer show ?thesis
      using parse_decimal_sign [OF digits] digits_plain [OF digits(1)] exponent_text_plain by simp
  next
    case (fraction ip fp x)
    have "parse_number neg (ip @ ''.'' @ fp @ exponent_text x) = Some (Dec neg c e)"
      using parse_number_fraction [OF fraction(2,3,4), of x neg] assms fraction(5,6) by simp
    moreover have "plain (ip @ ''.'' @ fp @ exponent_text x)"
      using digits_plain [OF fraction(2)] digits_plain [OF fraction(3)] exponent_text_plain
      by (simp only: plain_append) (simp add: plain_def)
    ultimately have "parse_decimal ((if neg then ''-'' else []) @ ip @ ''.'' @ fp @ exponent_text x)
        = Some (Dec neg c e)"
      using parse_decimal_sign [OF fraction(2,4)] by simp
    with fraction(1) show ?thesis by simp
  qed
qed

end
