(* ===== verification/Market_Data.thy ===== *)
theory Market_Data
  imports Decimal_Text Wire
begin

text \<open>
  Price and reserve series of Alpha pools (\<open>endure/scoring/market_data.py\<close>): the validated
  window, snapshot and series, the fixture provider, and the canonical payload whose hash a
  realized target stores.  sha256 is a parameter, and so is the table of recorded rows.  The main
  theorem is the round trip of a series through its payload.  A price is the \<open>Decimal\<close> object,
  since its text is hashed.
\<close>

subsection \<open>Failures\<close>

text \<open>
  The exceptions the market-data boundary tells apart.  \<open>Deadline_error\<close> is
  \<open>ResolutionDeadlineExceeded\<close>; the last two are \<open>decimal.InvalidOperation\<close> and a plain
  \<open>ValueError\<close>, which no handler of the archive boundary catches.
\<close>

datatype archive_failure =
    Connection_error | Os_error | Runtime_error | Timeout_error | Substrate_error
  | Lookup_error | Market_data_error | Market_data_unavailable
  | Deadline_error | Invalid_operation | Value_error

subsection \<open>Windows, snapshots, series\<close>

record resolution_window =
  rw_start_block :: int
  rw_horizon_blocks :: int

definition mk_window :: "int \<Rightarrow> int \<Rightarrow> archive_failure + resolution_window" where
  "mk_window start_block horizon_blocks =
     (if start_block < 0 then Inl Market_data_error
      else if horizon_blocks \<le> 0 then Inl Market_data_error
      else Inr \<lparr>rw_start_block = start_block, rw_horizon_blocks = horizon_blocks\<rparr>)"

definition end_block :: "resolution_window \<Rightarrow> int" where
  "end_block w = rw_start_block w + rw_horizon_blocks w"

record price_snapshot =
  ps_netuid :: int
  ps_block :: int
  ps_price :: py_decimal
  ps_tao_reserve :: int

definition mk_snapshot :: "int \<Rightarrow> int \<Rightarrow> py_decimal \<Rightarrow> int \<Rightarrow> archive_failure + price_snapshot" where
  "mk_snapshot netuid block price reserve =
     (if netuid < 0 then Inl Market_data_error
      else if block < 0 then Inl Market_data_error
      else if \<not> is_finite price \<or> dval price \<le> 0 then Inl Market_data_error
      else if reserve < 0 then Inl Market_data_error
      else Inr \<lparr>ps_netuid = netuid, ps_block = block, ps_price = price, ps_tao_reserve = reserve\<rparr>)"

record pool_observation =
  po_price_rao :: int
  po_tao_reserve :: int

text \<open>\<open>int\<close> of a decimal truncates.\<close>

definition dec_int :: "rat \<Rightarrow> int" where
  "dec_int x = (if 0 \<le> x then \<lfloor>x\<rfloor> else \<lceil>x\<rceil>)"

definition price_rao_per_alpha :: "price_snapshot \<Rightarrow> int" where
  "price_rao_per_alpha s = dec_int (dmul (dval (ps_price s)) 1000000000)"

definition latest_pool_observation :: "price_snapshot \<Rightarrow> pool_observation" where
  "latest_pool_observation s = \<lparr>po_price_rao = price_rao_per_alpha s, po_tao_reserve = ps_tao_reserve s\<rparr>"

record price_series =
  se_source :: string
  se_netuid :: int
  se_snapshots :: "price_snapshot list"

fun ascending :: "price_snapshot list \<Rightarrow> bool" where
  "ascending (a # b # ss) \<longleftrightarrow> ps_block a < ps_block b \<and> ascending (b # ss)"
| "ascending _ \<longleftrightarrow> True"

definition mk_series :: "string \<Rightarrow> int \<Rightarrow> price_snapshot list \<Rightarrow> archive_failure + price_series" where
  "mk_series source netuid snapshots =
     (if source = [] then Inl Market_data_error
      else if netuid < 0 then Inl Market_data_error
      else if snapshots = [] then Inl Market_data_error
      else if \<exists>s \<in> set snapshots. ps_netuid s \<noteq> netuid then Inl Market_data_error
      else if \<not> ascending snapshots then Inl Market_data_error
      else Inr \<lparr>se_source = source, se_netuid = netuid, se_snapshots = snapshots\<rparr>)"

definition series_prices :: "price_series \<Rightarrow> rat list" where
  "series_prices s = map (\<lambda>x. dval (ps_price x)) (se_snapshots s)"

definition series_pool_observation :: "price_series \<Rightarrow> pool_observation" where
  "series_pool_observation s = latest_pool_observation (last (se_snapshots s))"

subsection \<open>Snapshots from reserves\<close>

text \<open>\<open>Decimal.quantize\<close>: a result of more digits than the context holds is invalid.\<close>

definition quantize :: "nat \<Rightarrow> rat \<Rightarrow> archive_failure + py_decimal" where
  "quantize places x =
     (let n = round_half_even (\<bar>x\<bar> * 10 ^ places)
      in if 10 ^ tr_prec \<le> n then Inl Invalid_operation else Inr (Dec (x < 0) n (- int places)))"

definition alpha_snapshot_from_reserves ::
  "int \<Rightarrow> int \<Rightarrow> int \<Rightarrow> int \<Rightarrow> archive_failure + price_snapshot" where
  "alpha_snapshot_from_reserves netuid block tao_rao alpha_rao =
     (if tao_rao \<le> 0 \<or> alpha_rao \<le> 0 then Inl Market_data_error
      else ebind (quantize 9 (ddiv (of_int tao_rao) (of_int alpha_rao))) (\<lambda>price.
        mk_snapshot netuid block price tao_rao))"

subsection \<open>The fixture provider\<close>

type_synonym price_provider = "int \<Rightarrow> resolution_window \<Rightarrow> archive_failure + price_series option"

definition window_snapshots :: "resolution_window \<Rightarrow> price_snapshot list \<Rightarrow> price_snapshot list" where
  "window_snapshots w = filter (\<lambda>s. rw_start_block w < ps_block s \<and> ps_block s \<le> end_block w)"

definition fixture_price_series :: "(int \<rightharpoonup> price_series) \<Rightarrow> price_provider" where
  "fixture_price_series series_by_netuid netuid w =
     (case series_by_netuid netuid of
        None \<Rightarrow> Inr None
      | Some series \<Rightarrow>
          let snapshots = window_snapshots w (se_snapshots series)
          in if snapshots = [] then Inr None
             else ebind (mk_series (se_source series @ ''_window_'' @ str_int (rw_start_block w)
                           @ ''_'' @ str_int (end_block w)) (se_netuid series) snapshots)
                    (\<lambda>s. Inr (Some s)))"

definition fixture_observation :: "(int \<rightharpoonup> price_series) \<Rightarrow> int \<Rightarrow> pool_observation option" where
  "fixture_observation series_by_netuid netuid =
     map_option series_pool_observation (series_by_netuid netuid)"

definition subtensor_reserve_price_source :: string where
  "subtensor_reserve_price_source = ''subtensor_archive_subnettao_subnetalpha_v1''"

text \<open>The recorded fixtures: \<open>rows\<close> is the data file, a row a block, a price text and a reserve.\<close>

definition decimal_of :: "string \<Rightarrow> archive_failure + py_decimal" where
  "decimal_of s = (case parse_decimal s of None \<Rightarrow> Inl Invalid_operation | Some d \<Rightarrow> Inr d)"

definition recorded_series :: "int \<Rightarrow> (int \<times> string \<times> int) list \<Rightarrow> archive_failure + price_series" where
  "recorded_series netuid rows =
     ebind (etraverse (\<lambda>(block, price, reserve).
              ebind (decimal_of price) (\<lambda>d. mk_snapshot netuid block d reserve)) rows) (\<lambda>snapshots.
     mk_series (subtensor_reserve_price_source @ '':netuid_'' @ str_int netuid @ ''_recorded_''
         @ str_int (fst (hd rows)) @ ''_'' @ str_int (fst (last rows))) netuid snapshots)"

subsection \<open>The canonical payload\<close>

definition max_alpha_price_payload_bytes :: nat where
  "max_alpha_price_payload_bytes = 64 * 1024"

definition snapshot_payload :: "price_snapshot \<Rightarrow> node" where
  "snapshot_payload s =
     NDict [(NStr ''block'', NInt (ps_block s)),
            (NStr ''price_tao_per_alpha'', NStr (str_decimal (ps_price s))),
            (NStr ''tao_reserve_rao'', NInt (ps_tao_reserve s))]"

definition price_payload :: "string \<Rightarrow> int \<Rightarrow> price_snapshot list \<Rightarrow> node" where
  "price_payload source netuid snapshots =
     NDict [(NStr ''netuid'', NInt netuid), (NStr ''snapshots'', NList (map snapshot_payload snapshots)),
            (NStr ''source'', NStr source)]"

definition canonical_alpha_price_payload_bytes ::
  "string \<Rightarrow> int \<Rightarrow> price_snapshot list \<Rightarrow> archive_failure + bytes" where
  "canonical_alpha_price_payload_bytes source netuid snapshots =
     (case canonical_bundle_bytes (price_payload source netuid snapshots) of
        Inl _ \<Rightarrow> Inl Value_error | Inr b \<Rightarrow> Inr b)"

definition canonical_payload :: "price_series \<Rightarrow> archive_failure + bytes" where
  "canonical_payload s = canonical_alpha_price_payload_bytes (se_source s) (se_netuid s) (se_snapshots s)"

definition payload_hash :: "(bytes \<Rightarrow> bytes) \<Rightarrow> price_series \<Rightarrow> archive_failure + string" where
  "payload_hash sha256 s = ebind (canonical_payload s) (\<lambda>b. Inr (hex (sha256 b)))"

text \<open>The accessors of a parsed object.\<close>

definition get_item :: "(node \<times> node) list \<Rightarrow> string \<Rightarrow> node option" where
  "get_item items key = map_of items (NStr key)"

definition required_str :: "(node \<times> node) list \<Rightarrow> string \<Rightarrow> archive_failure + string" where
  "required_str items key =
     (case get_item items key of
        Some (NStr s) \<Rightarrow> if s = [] then Inl Market_data_error else Inr s
      | _ \<Rightarrow> Inl Market_data_error)"

definition required_int :: "(node \<times> node) list \<Rightarrow> string \<Rightarrow> archive_failure + int" where
  "required_int items key =
     (case get_item items key of
        Some (NInt i) \<Rightarrow> if i < 0 then Inl Market_data_error else Inr i
      | _ \<Rightarrow> Inl Market_data_error)"

definition required_decimal :: "(node \<times> node) list \<Rightarrow> string \<Rightarrow> archive_failure + py_decimal" where
  "required_decimal items key =
     (case get_item items key of
        Some (NStr s) \<Rightarrow>
          (case parse_decimal s of None \<Rightarrow> Inl Market_data_error | Some d \<Rightarrow> Inr d)
      | _ \<Rightarrow> Inl Market_data_error)"

definition parse_snapshot :: "int \<Rightarrow> node \<Rightarrow> archive_failure + price_snapshot" where
  "parse_snapshot netuid raw =
     (case raw of
        NDict items \<Rightarrow>
          ebind (required_int items ''block'') (\<lambda>block.
          ebind (required_decimal items ''price_tao_per_alpha'') (\<lambda>price.
          ebind (required_int items ''tao_reserve_rao'') (\<lambda>reserve.
          mk_snapshot netuid block price reserve)))
      | _ \<Rightarrow> Inl Market_data_error)"

text \<open>The body of the parser once the payload is an object.\<close>

definition parse_price_object :: "bytes \<Rightarrow> (node \<times> node) list \<Rightarrow> archive_failure + price_series" where
  "parse_price_object payload parsed =
     ebind (required_str parsed ''source'') (\<lambda>source.
     ebind (required_int parsed ''netuid'') (\<lambda>netuid.
     case get_item parsed ''snapshots'' of
       Some (NList raw) \<Rightarrow>
         ebind (etraverse (parse_snapshot netuid) raw) (\<lambda>snapshots.
         ebind (mk_series source netuid snapshots) (\<lambda>series.
         ebind (canonical_payload series) (\<lambda>canonical.
         if canonical \<noteq> payload then Inl Market_data_error else Inr series)))
     | _ \<Rightarrow> Inl Market_data_error))"

definition parse_alpha_price_payload :: "nat \<Rightarrow> bytes \<Rightarrow> nat \<Rightarrow> archive_failure + price_series" where
  "parse_alpha_price_payload depth payload max_payload_bytes =
     (if max_payload_bytes < length payload then Inl Market_data_error
      else case Option.bind (utf8_decode payload) (loads depth) of
        Some (NDict parsed) \<Rightarrow> parse_price_object payload parsed
      | _ \<Rightarrow> Inl Market_data_error)"

subsection \<open>The payload round trip\<close>

text \<open>What the constructors of a snapshot and of a series check.\<close>

definition snapshot_ok :: "int \<Rightarrow> price_snapshot \<Rightarrow> bool" where
  "snapshot_ok netuid s \<longleftrightarrow> ps_netuid s = netuid \<and> 0 \<le> ps_block s \<and> 0 \<le> ps_tao_reserve s
     \<and> (case ps_price s of Dec neg c e \<Rightarrow> dec_in_range c e \<and> 0 < dec_value neg c e | Dec_special \<Rightarrow> False)"

definition series_ok :: "price_series \<Rightarrow> bool" where
  "series_ok s \<longleftrightarrow> se_source s \<noteq> [] \<and> 0 \<le> se_netuid s \<and> se_snapshots s \<noteq> []
     \<and> (\<forall>x \<in> set (se_snapshots s). snapshot_ok (se_netuid s) x) \<and> ascending (se_snapshots s)"

lemma mk_snapshot_Inr:
  "mk_snapshot n b p r = Inr s \<longleftrightarrow>
     0 \<le> n \<and> 0 \<le> b \<and> is_finite p \<and> 0 < dval p \<and> 0 \<le> r
     \<and> s = \<lparr>ps_netuid = n, ps_block = b, ps_price = p, ps_tao_reserve = r\<rparr>"
  by (auto simp: mk_snapshot_def)

lemma mk_series_Inr:
  "mk_series source n ss = Inr s \<longleftrightarrow>
     source \<noteq> [] \<and> 0 \<le> n \<and> ss \<noteq> [] \<and> (\<forall>x \<in> set ss. ps_netuid x = n) \<and> ascending ss
     \<and> s = \<lparr>se_source = source, se_netuid = n, se_snapshots = ss\<rparr>"
  by (auto simp: mk_series_def)

lemma parse_decimal_range: "parse_decimal t = Some (Dec neg c e) \<Longrightarrow> dec_in_range c e"
  by (auto simp: parse_decimal_def parse_number_def Let_def split: prod.splits if_splits option.splits)

lemma sort_snapshot_payload [simp]: "sort_keys (snapshot_payload s) = snapshot_payload s"
  by (simp add: snapshot_payload_def)

lemma sort_price_payload [simp]: "sort_keys (price_payload src n ss) = price_payload src n ss"
  by (simp add: price_payload_def comp_def)

lemma price_payload_depth: "node_depth (price_payload src n ss) \<le> 3"
  by (auto simp: price_payload_def snapshot_payload_def node_depth_elem simp del: node_depth.simps(1,2))

lemma price_payload_clean: "ints_printable (price_payload src n ss) \<Longrightarrow> clean (price_payload src n ss)"
  by (auto simp: price_payload_def snapshot_payload_def list_all_iff)

lemma canonical_payload_Inr:
  "canonical_payload s = Inr b \<longleftrightarrow>
     ints_printable (price_payload (se_source s) (se_netuid s) (se_snapshots s))
     \<and> b = utf8 (dumps (price_payload (se_source s) (se_netuid s) (se_snapshots s)))"
proof -
  have "validate_list (map snapshot_payload ss) = Inr ()" for ss
    by (induction ss) (simp_all add: snapshot_payload_def)
  then have "validate (price_payload (se_source s) (se_netuid s) (se_snapshots s)) = Inr ()"
    by (simp add: price_payload_def)
  then show ?thesis
    by (auto simp: canonical_payload_def canonical_alpha_price_payload_bytes_def canonical_bundle_bytes_def
        canonical_text_def split: sum.splits)
qed

lemma loads_price_payload:
  assumes "canonical_payload s = Inr b" "3 \<le> depth"
  shows "Option.bind (utf8_decode b) (loads depth) = Some (price_payload (se_source s) (se_netuid s) (se_snapshots s))"
proof -
  have "node_depth (price_payload (se_source s) (se_netuid s) (se_snapshots s)) \<le> depth"
    using price_payload_depth assms(2) by (rule le_trans)
  with assms(1) show ?thesis
    by (simp add: canonical_payload_Inr price_payload_clean loads_dumps)
qed

lemma parse_snapshot_payload:
  assumes "snapshot_ok n s" "0 \<le> n"
  shows "parse_snapshot n (snapshot_payload s) = Inr s"
proof -
  obtain neg c e where p: "ps_price s = Dec neg c e" "dec_in_range c e" "0 < dec_value neg c e"
    using assms(1) by (auto simp: snapshot_ok_def split: py_decimal.splits)
  have "\<not> ps_block s < 0" "\<not> ps_tao_reserve s < 0" "ps_netuid s = n"
    using assms(1) by (simp_all add: snapshot_ok_def)
  with p show ?thesis
    using assms(2) parse_str_decimal [OF p(2), of neg]
    by (simp add: parse_snapshot_def snapshot_payload_def required_int_def required_decimal_def
        get_item_def mk_snapshot_def)
qed

lemma required_int_Inr: "required_int items k = Inr i \<longleftrightarrow> get_item items k = Some (NInt i) \<and> 0 \<le> i"
  by (auto simp: required_int_def split: option.splits node.splits if_splits)

lemma required_decimal_Inr:
  "required_decimal items k = Inr d \<longleftrightarrow> (\<exists>s. get_item items k = Some (NStr s) \<and> parse_decimal s = Some d)"
  by (auto simp: required_decimal_def split: option.splits node.splits)

lemma parse_snapshot_ok:
  assumes "parse_snapshot n raw = Inr s"
  shows "snapshot_ok n s"
proof -
  obtain items where "raw = NDict items"
    using assms by (auto simp: parse_snapshot_def split: node.splits)
  then obtain b t p r where "0 \<le> b" "0 \<le> r" "parse_decimal t = Some p" "mk_snapshot n b p r = Inr s"
    using assms by (auto simp: parse_snapshot_def required_int_Inr required_decimal_Inr)
  then show ?thesis
    using parse_decimal_range by (cases p) (auto simp: mk_snapshot_Inr snapshot_ok_def)
qed

lemma parse_price_object_ok:
  assumes "parse_price_object b items = Inr s"
  shows "series_ok s \<and> canonical_payload s = Inr b"
proof -
  obtain source netuid where
    n: "required_int items ''netuid'' = Inr netuid" "required_str items ''source'' = Inr source"
    using assms by (auto simp: parse_price_object_def)
  then obtain raw where "get_item items ''snapshots'' = Some (NList raw)"
    using assms by (auto simp: parse_price_object_def split: option.splits node.splits)
  then obtain snapshots where
    *: "etraverse (parse_snapshot netuid) raw = Inr snapshots" "mk_series source netuid snapshots = Inr s"
      "canonical_payload s = Inr b"
    using assms n by (auto simp: parse_price_object_def split: if_splits)
  then have "\<forall>x \<in> set snapshots. snapshot_ok netuid x"
    by (auto simp: etraverse_Inr_iff list_all2_conv_all_nth in_set_conv_nth) (metis parse_snapshot_ok)
  with * show ?thesis by (auto simp: mk_series_Inr series_ok_def)
qed

lemma parse_price_payload_series_ok:
  assumes "parse_alpha_price_payload depth b m = Inr s"
  shows "series_ok s \<and> canonical_payload s = Inr b \<and> length b \<le> m"
proof -
  obtain items where "parse_price_object b items = Inr s" "length b \<le> m"
    using assms by (auto simp: parse_alpha_price_payload_def split: if_splits option.splits node.splits)
  then show ?thesis using parse_price_object_ok by blast
qed

text \<open>The parser of a price payload accepts exactly the canonical payloads of valid series that
  respect the size bound, and reads each back to the series it was written from.\<close>

theorem price_payload_round_trip:
  assumes "3 \<le> depth"
  shows "parse_alpha_price_payload depth b m = Inr s \<longleftrightarrow>
    series_ok s \<and> canonical_payload s = Inr b \<and> length b \<le> m"
proof
  assume s: "series_ok s \<and> canonical_payload s = Inr b \<and> length b \<le> m"
  let ?ss = "se_snapshots s"
  have "etraverse (parse_snapshot (se_netuid s)) (map snapshot_payload ?ss) = Inr ?ss"
    using s by (auto simp: etraverse_Inr_iff list_all2_conv_all_nth series_ok_def intro!: parse_snapshot_payload)
  moreover have "\<not> se_netuid s < 0" "se_source s \<noteq> []" using s by (simp_all add: series_ok_def)
  moreover have "mk_series (se_source s) (se_netuid s) ?ss = Inr s"
    using s by (auto simp: mk_series_Inr series_ok_def snapshot_ok_def)
  moreover have "Option.bind (utf8_decode b) (loads depth) = Some (price_payload (se_source s) (se_netuid s) ?ss)"
    using s assms by (intro loads_price_payload) simp
  ultimately show "parse_alpha_price_payload depth b m = Inr s"
    using s by (simp add: parse_alpha_price_payload_def parse_price_object_def price_payload_def
        required_str_def required_int_def get_item_def)
qed (rule parse_price_payload_series_ok)

definition demo_series :: price_series where
  "demo_series = \<lparr>se_source = ''s'', se_netuid = 8,
     se_snapshots = [\<lparr>ps_netuid = 8, ps_block = 600, ps_price = Dec False 125 (- 9), ps_tao_reserve = 7\<rparr>,
                     \<lparr>ps_netuid = 8, ps_block = 1200, ps_price = Dec False 5 (- 1), ps_tao_reserve = 0\<rparr>]\<rparr>"

definition demo_payload_text :: string where
  "demo_payload_text = map (\<lambda>c. if c = CHR ''~'' then CHR 0x22 else c)
     ''{~netuid~:8,~snapshots~:[{~block~:600,~price_tao_per_alpha~:~1.25E-7~,~tao_reserve_rao~:7},{~block~:1200,~price_tao_per_alpha~:~0.5~,~tao_reserve_rao~:0}],~source~:~s~}''"

theorem price_payload_round_trip_witness:
  "parse_alpha_price_payload 3 (utf8 demo_payload_text) 65536 = Inr demo_series"
proof -
  have "dumps (price_payload (se_source demo_series) (se_netuid demo_series) (se_snapshots demo_series))
      = demo_payload_text" by code_simp
  moreover have "ints_printable (price_payload (se_source demo_series) (se_netuid demo_series) (se_snapshots demo_series))"
    by code_simp
  ultimately have "canonical_payload demo_series = Inr (utf8 demo_payload_text)"
    by (simp add: canonical_payload_Inr)
  moreover have "length (str_nat 125) = 3" "length (str_nat 5) = 1" by code_simp+
  then have "series_ok demo_series"
    by (simp add: series_ok_def demo_series_def snapshot_ok_def dec_in_range_def dec_value_def max_emax_def)
  moreover have "int (length (utf8 demo_payload_text)) \<le> 65536" by code_simp
  then have "length (utf8 demo_payload_text) \<le> 65536" by linarith
  ultimately show ?thesis using price_payload_round_trip [of 3] by simp
qed

end
