(* ===== verification/Scoring.thy ===== *)
theory Scoring
  imports Pools Publication Market_Data
begin

text \<open>
  Scoring of a round against its realized targets (first half of
  \<open>endure/scoring/assessment_orchestrator.py\<close>): the asymmetric deviation score, the budgeted
  resolution of targets, the scores and averages of the scoring set, pruning, and the pass that
  stores them.  A resolver is a parameter, as the configuration is in the code; a clock is the
  answer of each successive budget check.  A pass reads and writes one state: the reads of the code
  are of tables that only this loop writes, and of a round that no longer takes submissions.
\<close>

subsection \<open>The score of one output\<close>

text \<open>\<open>abs\<close> of a decimal rounds to the context.\<close>

definition dabs :: "rat \<Rightarrow> rat" where
  "dabs x = rnd28 \<bar>x\<bar>"

definition deviation_magnitude :: "deviation_mode \<Rightarrow> int \<Rightarrow> int \<Rightarrow> rat" where
  "deviation_magnitude mode submitted target =
     (case mode of
        Absolute \<Rightarrow> of_int \<bar>submitted - target\<bar>
      | Relative \<Rightarrow> dmul (ddiv (dabs (of_int (submitted - target))) (dabs (of_int target))) 10000)"

definition on_aggressive_side :: "aggressive_direction \<Rightarrow> int \<Rightarrow> bool" where
  "on_aggressive_side dir deviation = (case dir of Higher \<Rightarrow> 0 < deviation | Lower \<Rightarrow> deviation < 0)"

definition effective_cutoff :: "'o parameter_spec \<Rightarrow> int \<Rightarrow> rat" where
  "effective_cutoff spec deviation =
     (if on_aggressive_side (aggressive_direction spec) deviation then of_int (cutoff spec)
      else dmul (of_int (cutoff spec)) (lenient_multiplier spec))"

definition linear_score :: "'o parameter_spec \<Rightarrow> rat \<Rightarrow> rat \<Rightarrow> rat" where
  "linear_score spec magnitude limit =
     (if magnitude \<le> of_int (grace_band spec) then 1
      else if limit \<le> magnitude then 0
      else dsub 1 (ddiv (dsub magnitude (of_int (grace_band spec))) (dsub limit (of_int (grace_band spec)))))"

definition deviation_score :: "int \<Rightarrow> int \<Rightarrow> 'o parameter_spec \<Rightarrow> rat" where
  "deviation_score submitted target spec =
     (if deviation_mode spec = Relative \<and> target = 0
      then (if submitted = target then 1 else 0)
      else linear_score spec (deviation_magnitude (deviation_mode spec) submitted target)
             (effective_cutoff spec (submitted - target)))"

subsection \<open>Targets\<close>

record resolution_context =
  rc_window_start :: "int option"
  rc_window_end :: "int option"
  rc_void_unavailable :: bool
  rc_force_void :: bool

definition neutral_context :: resolution_context where
  "neutral_context = \<lparr>rc_window_start = None, rc_window_end = None,
     rc_void_unavailable = False, rc_force_void = False\<rparr>"

datatype resolver_result =
    Target "realized_target option" | Deadline_exceeded | Failed archive_failure

type_synonym resolver = "resolution_context \<Rightarrow> int \<Rightarrow> int \<Rightarrow> resolver_result"

record 'o output_config =
  oc_output :: string
  oc_resolver :: resolver
  oc_spec :: "'o parameter_spec"

record ('o, 'd) scoring_config =
  sc_schema_id :: string
  sc_horizons :: "int list"
  sc_universe_members :: "string list \<Rightarrow> universe_error + int set"
  sc_accepted_values :: "'d \<Rightarrow> string \<Rightarrow> (string \<times> (coordinate \<times> int) list) list"
  sc_outputs :: "'o output_config list"
  sc_active :: "coordinate set option"
  sc_coordinate_for :: "int \<Rightarrow> int \<Rightarrow> string \<Rightarrow> coordinate_error + coordinate"

datatype scoring_error =
    No_universe | Universe_failed universe_error | Coordinate_failed coordinate_error
  | Resolver_failed archive_failure | Unknown_output string | Not_scored_live | Bad_half_life
  | Row_failed row_error | Pass_failed storage_error | No_single_horizon | No_windows
  | Naive_datetime

definition realized_target_resolved :: string where
  "realized_target_resolved = ''resolved''"

definition realized_target_voided :: string where
  "realized_target_voided = ''voided''"

definition archive_epsilon :: rat where
  "archive_epsilon = 1 / 100"

definition score_output :: "int \<Rightarrow> int \<Rightarrow> 'o parameter_spec \<Rightarrow> scoring_error + rat" where
  "score_output submitted target spec =
     (if \<not> scored_live spec then Inl Not_scored_live else Inr (deviation_score submitted target spec))"

text \<open>The cells of a horizon in the order of the nested loops.\<close>

definition cells_of :: "int list \<Rightarrow> 'o output_config list \<Rightarrow> (int \<times> 'o output_config) list" where
  "cells_of netuids outputs = concat (map (\<lambda>n. map (Pair n) outputs) netuids)"

definition cell_coordinate ::
  "('o, 'd) scoring_config \<Rightarrow> int \<Rightarrow> int \<times> 'o output_config \<Rightarrow> scoring_error + coordinate" where
  "cell_coordinate cfg horizon cell =
     (case sc_coordinate_for cfg (fst cell) horizon (oc_output (snd cell)) of
        Inl e \<Rightarrow> Inl (Coordinate_failed e) | Inr c \<Rightarrow> Inr c)"

text \<open>\<open>clock n\<close> answers the budget check after \<open>n\<close> earlier ones.\<close>

fun resolve_cells ::
  "('o, 'd) scoring_config \<Rightarrow> resolution_context \<Rightarrow> int \<Rightarrow> coordinate set \<Rightarrow> (nat \<Rightarrow> bool) \<Rightarrow> nat
     \<Rightarrow> (int \<times> 'o output_config) list \<Rightarrow> scoring_error + realized_target list" where
  "resolve_cells cfg ctx horizon existing clock n [] = Inr []"
| "resolve_cells cfg ctx horizon existing clock n (cell # cells) =
     ebind (cell_coordinate cfg horizon cell) (\<lambda>c.
       if c \<in> existing then resolve_cells cfg ctx horizon existing clock n cells
       else if clock n then Inr []
       else case oc_resolver (snd cell) ctx (fst cell) horizon of
          Deadline_exceeded \<Rightarrow> Inr []
        | Failed e \<Rightarrow> Inl (Resolver_failed e)
        | Target t \<Rightarrow>
            ebind (resolve_cells cfg ctx horizon existing clock (Suc n) cells)
              (\<lambda>ts. Inr (case t of None \<Rightarrow> ts | Some t \<Rightarrow> t # ts)))"

definition resolved_values :: "realized_target list \<Rightarrow> (coordinate \<times> rat) list" where
  "resolved_values targets =
     fold (\<lambda>t m. case rt_value t of
         None \<Rightarrow> m
       | Some v \<Rightarrow> if rt_status t = realized_target_resolved then dict_set (rt_coordinate t) v m else m)
       targets []"

subsection \<open>Scores of a hotkey\<close>

type_synonym previous_emas = "string \<times> coordinate \<Rightarrow> ema_state option"

definition previous_of :: "ema_state list \<Rightarrow> previous_emas" where
  "previous_of states = map_of (map (\<lambda>s. ((es_hotkey s, es_coordinate s), s)) states)"

definition output_named :: "'o output_config list \<Rightarrow> string \<Rightarrow> 'o output_config option" where
  "output_named outputs name = map_of (rev (map (\<lambda>oc. (oc_output oc, oc)) outputs)) name"

type_synonym cell_rows = "output_score \<times> ema_state \<times> score_history_row"

definition row :: "row_error + 'r \<Rightarrow> scoring_error + 'r" where
  "row r = (case r of Inl e \<Rightarrow> Inl (Row_failed e) | Inr x \<Rightarrow> Inr x)"

definition observation ::
  "'o output_config list \<Rightarrow> (coordinate \<times> int) list \<Rightarrow> coordinate \<times> rat \<Rightarrow> scoring_error + rat \<times> rat option" where
  "observation outputs per cv =
     (case output_named outputs (coord_output (fst cv)) of
        None \<Rightarrow> Inl (Unknown_output (coord_output (fst cv)))
      | Some oc \<Rightarrow>
          (case map_of per (fst cv) of
             None \<Rightarrow> Inr (0, None)
           | Some submitted \<Rightarrow>
               ebind (score_output submitted (dec_int (snd cv)) (oc_spec oc)) (\<lambda>score.
                 Inr (score, Some (of_int \<bar>submitted - dec_int (snd cv)\<bar>)))))"

definition score_cell ::
  "'o output_config list \<Rightarrow> int \<Rightarrow> previous_emas \<Rightarrow> string \<Rightarrow> (coordinate \<times> int) list \<Rightarrow> coordinate \<times> rat
     \<Rightarrow> scoring_error + cell_rows" where
  "score_cell outputs half_life previous hotkey per cv =
     ebind (observation outputs per cv) (\<lambda>(score, err).
     ebind (row (mk_output_score hotkey (fst cv) score err)) (\<lambda>os.
       let prior = previous (hotkey, fst cv)
       in case ema_update (map_option es_ema prior) score half_life of
            None \<Rightarrow> Inl Bad_half_life
          | Some ema \<Rightarrow>
              ebind (row (mk_ema_state hotkey (fst cv) ema
                       ((case prior of None \<Rightarrow> 0 | Some p \<Rightarrow> es_resolved_rounds p) + 1))) (\<lambda>es.
              ebind (row (mk_score_history_row hotkey (fst cv) score ema)) (\<lambda>hr.
                Inr (os, es, hr)))))"

definition score_hotkey ::
  "'o output_config list \<Rightarrow> int \<Rightarrow> previous_emas \<Rightarrow> (string \<times> (coordinate \<times> int) list) list
     \<Rightarrow> (coordinate \<times> rat) list \<Rightarrow> string \<Rightarrow> scoring_error + cell_rows list" where
  "score_hotkey outputs half_life previous accepted resolved hotkey =
     etraverse (score_cell outputs half_life previous hotkey
       (case map_of accepted hotkey of None \<Rightarrow> [] | Some per \<Rightarrow> per)) resolved"

definition round_score :: "string \<times> cell_rows list \<Rightarrow> (string \<times> rat) list" where
  "round_score r =
     (if snd r = [] then []
      else [(fst r, ddiv (dsum (map (\<lambda>(os, _). os_score os) (snd r))) (of_nat (length (snd r))))])"

subsection \<open>A pass\<close>

definition eligible_coordinate :: "('o, 'd) scoring_config \<Rightarrow> coordinate \<Rightarrow> bool" where
  "eligible_coordinate cfg c \<longleftrightarrow>
     (case sc_active cfg of Some active \<Rightarrow> c \<in> active
      | None \<Rightarrow> coord_output c \<in> oc_output ` set (sc_outputs cfg))"

text \<open>The last average of each eligible coordinate of a hotkey, the updates over the old ones.\<close>

definition eligible_emas :: "('o, 'd) scoring_config \<Rightarrow> ema_state list \<Rightarrow> string \<Rightarrow> (coordinate \<times> rat) list" where
  "eligible_emas cfg states hotkey =
     map (\<lambda>s. (es_coordinate s, es_ema s))
       (filter (\<lambda>s. es_hotkey s = hotkey \<and> eligible_coordinate cfg (es_coordinate s)) states)"

definition fully_decayed ::
  "('o, 'd) scoring_config \<Rightarrow> ema_state list \<Rightarrow> ema_state list \<Rightarrow> string list \<Rightarrow> string list" where
  "fully_decayed cfg previous updates absent =
     filter (\<lambda>hotkey.
         let emas = dict_update (eligible_emas cfg updates hotkey) (eligible_emas cfg previous hotkey)
         in emas \<noteq> [] \<and> Max (set (map snd emas)) < archive_epsilon) absent"

text \<open>The hotkeys a resolved coordinate is scored for.\<close>

definition scoring_set ::
  "('o, 'd) scoring_config \<Rightarrow> ema_state list \<Rightarrow> coordinate set \<Rightarrow> string set
     \<Rightarrow> (string \<times> (coordinate \<times> int) list) list \<Rightarrow> string list" where
  "scoring_set cfg states round_coordinates historically_eligible accepted =
     sort (remdups (map fst accepted
       @ filter (\<lambda>hk. hk \<in> historically_eligible)
           (map es_hotkey (filter (\<lambda>s. eligible_coordinate cfg (es_coordinate s)
              \<or> es_coordinate s \<in> round_coordinates) states))))"

definition zero_filled :: "('o, 'd) scoring_config \<Rightarrow> ema_state list \<Rightarrow> string list \<Rightarrow> string list" where
  "zero_filled cfg updates accepted =
     filter (\<lambda>hk. hk \<notin> set accepted)
       (remdups (map es_hotkey (filter (\<lambda>u. eligible_coordinate cfg (es_coordinate u)) updates)))"

definition score_round ::
  "('o, 'd) scoring_config \<Rightarrow> int \<Rightarrow> ema_state list \<Rightarrow> (string \<times> (coordinate \<times> int) list) list
     \<Rightarrow> coordinate set \<Rightarrow> string set \<Rightarrow> realized_target list \<Rightarrow> scoring_error + (string \<times> cell_rows list) list" where
  "score_round cfg half_life states accepted round_coordinates historically_eligible targets =
     (let resolved = sort_key fst (resolved_values targets)
      in etraverse (\<lambda>hk. ebind (score_hotkey (sc_outputs cfg) half_life (previous_of states) accepted resolved hk)
             (\<lambda>rows. Inr (hk, rows)))
           (scoring_set cfg states round_coordinates historically_eligible accepted))"

definition pass_of ::
  "('o, 'd) scoring_config \<Rightarrow> int \<Rightarrow> ema_state list \<Rightarrow> (string \<times> (coordinate \<times> int) list) list
     \<Rightarrow> realized_target list \<Rightarrow> bool \<Rightarrow> string list \<Rightarrow> (string \<times> cell_rows list) list \<Rightarrow> scoring_pass" where
  "pass_of cfg horizon states accepted targets finished archive results =
     (let rows = concat (map snd results);
          updates = map (\<lambda>(_, es, _). es) rows
      in \<lparr>sp_horizon = horizon, sp_targets = targets, sp_scores = map (\<lambda>(os, _, _). os) rows,
          sp_emas = updates, sp_history = map (\<lambda>(_, _, hr). hr) rows, sp_complete = finished,
          sp_archive = archive,
          sp_pruned = sort (fully_decayed cfg states updates (zero_filled cfg updates (map fst accepted))),
          sp_pruned_coordinates = sc_active cfg\<rparr>)"

definition all_coordinates ::
  "('o, 'd) scoring_config \<Rightarrow> int list \<Rightarrow> (int \<times> 'o output_config) list \<Rightarrow> scoring_error + coordinate set" where
  "all_coordinates cfg horizons cells =
     ebind (etraverse (\<lambda>(h, cell). cell_coordinate cfg h cell) (List.product horizons cells))
       (\<lambda>cs. Inr (set cs))"

definition resolve_and_score ::
  "('o, 'a score_db_scheme) scoring_config \<Rightarrow> int \<Rightarrow> string \<Rightarrow> int \<Rightarrow> datetime \<Rightarrow> string list
     \<Rightarrow> resolution_context \<Rightarrow> (nat \<Rightarrow> bool) \<Rightarrow> 'a score_db_scheme
     \<Rightarrow> scoring_error + 'a score_db_scheme \<times> (string \<times> rat) list" where
  "resolve_and_score cfg half_life round_id horizon now archive ctx clock d =
     (let k = (round_id, sc_schema_id cfg) in
      if has_resolution_marker d k horizon then Inr (d, [])
      else if clock 0 then Inr (d, [])
      else case universe_for d k of
        Inl e \<Rightarrow> Inl (Universe_failed e)
      | Inr None \<Rightarrow> Inl No_universe
      | Inr (Some universe) \<Rightarrow>
          (case sc_universe_members cfg (us_tickers universe) of
             Inl e \<Rightarrow> Inl (Universe_failed e)
           | Inr members \<Rightarrow>
              (let cells = cells_of (sorted_list_of_set members) (sc_outputs cfg);
                   existing = rt_coordinate ` set (realized_targets_for_horizon d k (Some horizon));
                   accepted = sc_accepted_values cfg d round_id;
                   states = ema_states d (sc_schema_id cfg)
               in
               ebind (all_coordinates cfg [horizon] cells) (\<lambda>expected.
               ebind (resolve_cells cfg ctx horizon existing clock 1 cells) (\<lambda>targets.
               ebind (all_coordinates cfg (sc_horizons cfg) cells) (\<lambda>round_coordinates.
               ebind (score_round cfg half_life states accepted round_coordinates
                        (hotkeys_eligible_for_round d (sc_schema_id cfg) round_id) targets) (\<lambda>results.
                 let finished = expected \<subseteq> existing \<union> rt_coordinate ` set targets
                 in case record_scoring_pass k
                          (pass_of cfg horizon states accepted targets finished archive results) now d of
                      Inl e \<Rightarrow> Inl (Pass_failed e)
                    | Inr d' \<Rightarrow> Inr (d', concat (map round_score results)))))))))"

subsection \<open>Blended scores\<close>

definition blended_scores :: "('o, 'd) scoring_config \<Rightarrow> 'a score_db_scheme \<Rightarrow> (string \<times> rat) list" where
  "blended_scores cfg d =
     map (\<lambda>(hk, emas). (hk, ddiv (dsum emas) (of_nat (length emas))))
       (sort_key fst (group_by_key (map (\<lambda>s. (es_hotkey s, es_ema s))
          (filter (\<lambda>s. eligible_coordinate cfg (es_coordinate s)) (ema_states d (sc_schema_id cfg))))))"

end
