(* ===== verification/Scoring_Facts.thy ===== *)
theory Scoring_Facts
  imports Scoring
begin

text \<open>
  The scores and averages of a pass: the shape of the deviation score, and the invariant of the
  scoring loop, in which every average is one a history row records and no round counts twice.
\<close>

subsection \<open>The deviation score\<close>

lemma linear_score_unit: "0 \<le> linear_score spec m l \<and> linear_score spec m l \<le> 1"
proof (cases "m \<le> of_int (grace_band spec) \<or> l \<le> m")
  case False
  let ?g = "of_int (grace_band spec) :: rat"
  define q where "q = rnd28 (rnd28 (m - ?g) / rnd28 (l - ?g))"
  have "0 \<le> m - ?g" "m - ?g \<le> l - ?g" using False by simp_all
  then have "0 \<le> rnd28 (m - ?g)" "rnd28 (m - ?g) \<le> rnd28 (l - ?g)" by (auto intro: dec.nonneg dec.mono)
  then have q: "0 \<le> q" "q \<le> 1" unfolding q_def using dec.quotient_unit by blast+
  then have "0 \<le> rnd28 (1 - q)" "rnd28 (1 - q) \<le> 1" by (auto intro: dec.nonneg dec.le_fix dec.one)
  with False show ?thesis by (simp add: linear_score_def dec_ops q_def)
qed (auto simp: linear_score_def)

lemma deviation_score_unit: "0 \<le> deviation_score s t spec \<and> deviation_score s t spec \<le> 1"
  using linear_score_unit by (auto simp: deviation_score_def)

lemma linear_score_mono:
  assumes "m \<le> m'" "l' \<le> l"
  shows "linear_score spec m' l' \<le> linear_score spec m l"
proof -
  let ?g = "of_int (grace_band spec) :: rat"
  consider "m \<le> ?g" | "?g < m" "l' \<le> m'" | "?g < m" "m' < l'" by linarith
  then show ?thesis
  proof cases
    case 1
    then show ?thesis using linear_score_unit [of spec m' l'] by (simp add: linear_score_def)
  next
    case 2
    then have "linear_score spec m' l' = 0" using assms by (simp add: linear_score_def)
    then show ?thesis using linear_score_unit [of spec m l] by simp
  next
    case 3
    let ?q = "rnd28 (rnd28 (m - ?g) / rnd28 (l - ?g))" and ?q' = "rnd28 (rnd28 (m' - ?g) / rnd28 (l' - ?g))"
    have p: "0 < rnd28 (l' - ?g)" "rnd28 (l' - ?g) \<le> rnd28 (l - ?g)" "0 \<le> rnd28 (m - ?g)"
      "rnd28 (m - ?g) \<le> rnd28 (m' - ?g)"
      using 3 assms dec.eq_0_iff [of "l' - ?g"] dec.nonneg [of "l' - ?g"]
      by (auto intro: dec.nonneg dec.mono simp: less_le)
    then have "rnd28 (m - ?g) / rnd28 (l - ?g) \<le> rnd28 (m' - ?g) / rnd28 (l' - ?g)"
      by (intro frac_le) auto
    then have "?q \<le> ?q'" by (rule dec.mono)
    then have "rnd28 (1 - ?q') \<le> rnd28 (1 - ?q)" by (intro dec.mono) simp
    moreover have "\<not> m \<le> ?g" "\<not> m' \<le> ?g" "\<not> l' \<le> m'" "\<not> l \<le> m" using 3 assms by simp_all
    ultimately show ?thesis by (simp add: linear_score_def dec_ops)
  qed
qed

lemma effective_cutoff_mono:
  assumes "spec_ok spec" "cutoff spec < 10 ^ 28"
    and "on_aggressive_side (aggressive_direction spec) a \<longrightarrow> on_aggressive_side (aggressive_direction spec) b"
  shows "effective_cutoff spec b \<le> effective_cutoff spec a"
proof -
  note ok = spec_okD [OF assms(1)]
  have "is_dec (of_int (cutoff spec))" using assms(2) ok by (intro is_dec_of_int) simp
  moreover have "(of_int (cutoff spec) :: rat) * 1 \<le> of_int (cutoff spec) * lenient_multiplier spec"
    using ok by (intro mult_left_mono) simp_all
  ultimately have "of_int (cutoff spec) \<le> dmul (of_int (cutoff spec)) (lenient_multiplier spec)"
    unfolding dmul_def is_dec_def by (intro dec.ge_fix) simp_all
  then show ?thesis using assms(3) by (simp add: effective_cutoff_def)
qed

lemma deviation_magnitude_mono:
  assumes "\<bar>a - t\<bar> \<le> \<bar>b - t\<bar>"
  shows "deviation_magnitude mode a t \<le> deviation_magnitude mode b t"
proof -
  have "\<bar>of_int (a - t)\<bar> \<le> (\<bar>of_int (b - t)\<bar> :: rat)" using assms by linarith
  then have d: "dabs (of_int (a - t)) \<le> dabs (of_int (b - t))" unfolding dabs_def by (rule dec.mono)
  have "0 \<le> dabs (of_int t)" unfolding dabs_def by (rule dec.nonneg) simp
  with d have "dmul (ddiv (dabs (of_int (a - t))) (dabs (of_int t))) 10000
      \<le> dmul (ddiv (dabs (of_int (b - t))) (dabs (of_int t))) 10000"
    unfolding dmul_def ddiv_def by (intro dec.mono mult_right_mono divide_right_mono) simp_all
  then show ?thesis using assms by (cases mode) (simp_all add: deviation_magnitude_def)
qed

lemma deviation_score_mono:
  assumes "spec_ok spec" "cutoff spec < 10 ^ 28" "\<bar>a - t\<bar> \<le> \<bar>b - t\<bar>"
    and "on_aggressive_side (aggressive_direction spec) (a - t)
      \<longrightarrow> on_aggressive_side (aggressive_direction spec) (b - t)"
  shows "deviation_score b t spec \<le> deviation_score a t spec"
proof (cases "deviation_mode spec = Relative \<and> t = 0")
  case True
  then show ?thesis using assms(3) by (auto simp: deviation_score_def)
next
  case False
  then have "deviation_score x t spec = linear_score spec (deviation_magnitude (deviation_mode spec) x t)
      (effective_cutoff spec (x - t))" for x by (simp only: deviation_score_def if_False)
  then show ?thesis
    using linear_score_mono [OF deviation_magnitude_mono [OF assms(3)] effective_cutoff_mono [OF assms(1,2,4)]]
    by (simp only:)
qed

subsection \<open>Targets of a pass\<close>

text \<open>What the loop asks of a resolver and of the coordinates of its cells.\<close>

locale assessment_resolver =
  fixes coordinate_for :: "int \<Rightarrow> int \<Rightarrow> string \<Rightarrow> coordinate_error + coordinate"
    and outputs :: "'o output_config list"
  assumes own_horizon: "coordinate_for n h name = Inr c \<Longrightarrow> horizon_value c = h"
    and own_output: "coordinate_for n h name = Inr c \<Longrightarrow> coord_output c = name"
    and own_target: "oc \<in> set outputs \<Longrightarrow> oc_resolver oc ctx n h = Target (Some t) \<Longrightarrow>
      coordinate_for n h (oc_output oc) = Inr (rt_coordinate t)"
begin

lemma resolve_cells_coordinates:
  assumes "resolve_cells cfg ctx horizon existing clock i cells = Inr ts"
    and "sc_coordinate_for cfg = coordinate_for" "\<forall>cell \<in> set cells. snd cell \<in> set outputs"
  shows "\<forall>t \<in> set ts. rt_coordinate t \<notin> existing \<and> horizon_value (rt_coordinate t) = horizon
    \<and> coord_output (rt_coordinate t) \<in> oc_output ` set outputs"
  using assms(1,3)
proof (induction cells arbitrary: i ts)
  case (Cons cell cells)
  obtain c where c: "coordinate_for (fst cell) horizon (oc_output (snd cell)) = Inr c"
    using Cons.prems(1) assms(2) by (auto simp: cell_coordinate_def split: sum.splits)
  then have cc: "cell_coordinate cfg horizon cell = Inr c"
    by (simp add: cell_coordinate_def assms(2))
  show ?case
  proof (cases "c \<in> existing")
    case True
    then show ?thesis using Cons cc by simp
  next
    case False
    show ?thesis
    proof (cases "clock i")
      case True
      then show ?thesis using Cons.prems(1) cc False by simp
    next
      case noclock: False
      show ?thesis
      proof (cases "oc_resolver (snd cell) ctx (fst cell) horizon")
        case (Target t)
        then obtain us where us: "resolve_cells cfg ctx horizon existing clock (Suc i) cells = Inr us"
          "ts = (case t of None \<Rightarrow> us | Some t \<Rightarrow> t # us)"
          using Cons.prems(1) cc False noclock by auto
        have tail: "\<forall>t \<in> set us. rt_coordinate t \<notin> existing \<and> horizon_value (rt_coordinate t) = horizon
            \<and> coord_output (rt_coordinate t) \<in> oc_output ` set outputs"
          using Cons.IH [OF us(1)] Cons.prems(2) by simp
        show ?thesis
        proof (cases t)
          case None
          with us tail show ?thesis by simp
        next
          case (Some r)
          have "snd cell \<in> set outputs" using Cons.prems(2) by simp
          from own_target [OF this] Target Some c have "rt_coordinate r = c" by simp
          with us Some tail c False own_horizon own_output Cons.prems(2) show ?thesis by auto
        qed
      qed (use Cons.prems(1) cc False noclock in simp_all)
    qed
  qed
qed simp

end

lemma resolved_values_keys:
  "fst ` set (resolved_values ts) \<subseteq> rt_coordinate ` set ts" "distinct (map fst (resolved_values ts))"
proof -
  have "fst ` set (fold (\<lambda>t m. case rt_value t of None \<Rightarrow> m
      | Some v \<Rightarrow> if rt_status t = realized_target_resolved then dict_set (rt_coordinate t) v m else m) ts m)
      \<subseteq> rt_coordinate ` set ts \<union> fst ` set m" for m
  proof (induction ts arbitrary: m)
    case (Cons t ts)
    show ?case
    proof (cases "rt_value t")
      case None
      then show ?thesis using Cons.IH [of m] by auto
    next
      case (Some v)
      then show ?thesis
        using Cons.IH [of "if rt_status t = realized_target_resolved then dict_set (rt_coordinate t) v m else m"]
        by (cases "rt_status t = realized_target_resolved") (simp_all add: keys_dict_set, blast+)
    qed
  qed simp
  from this [of "[]"] show "fst ` set (resolved_values ts) \<subseteq> rt_coordinate ` set ts"
    by (simp add: resolved_values_def)
  have "distinct (map fst m) \<Longrightarrow> distinct (map fst (fold (\<lambda>t m. case rt_value t of None \<Rightarrow> m
      | Some v \<Rightarrow> if rt_status t = realized_target_resolved then dict_set (rt_coordinate t) v m else m) ts m))" for m
    by (induction ts arbitrary: m) (auto split: option.splits intro!: distinct_dict_set)
  then show "distinct (map fst (resolved_values ts))" by (simp add: resolved_values_def)
qed

subsection \<open>Rows of a cell\<close>

lemma row_Inr [simp]: "row r = Inr x \<longleftrightarrow> r = Inr x"
  by (cases r) (simp_all add: row_def)

lemma mk_rows_Inr:
  "mk_output_score hk c s e = Inr os \<Longrightarrow> os = \<lparr>os_hotkey = hk, os_coordinate = c, os_score = s, os_error = e\<rparr>"
  "mk_ema_state hk c x n = Inr es \<Longrightarrow> es = \<lparr>es_hotkey = hk, es_coordinate = c, es_ema = x, es_resolved_rounds = n\<rparr>"
  "mk_score_history_row hk c s x = Inr hr \<Longrightarrow>
     hr = \<lparr>hr_hotkey = hk, hr_coordinate = c, hr_round_score = s, hr_ema_after = x\<rparr>"
  by (auto simp: mk_output_score_def mk_ema_state_def mk_score_history_row_def split: if_splits)

lemma score_cell_rows:
  assumes "score_cell outputs n previous hk per cv = Inr (os, es, hr)"
  shows "es_hotkey es = hk" "es_coordinate es = fst cv" "hr_hotkey hr = hk" "hr_coordinate hr = fst cv"
    "os_hotkey os = hk" "os_coordinate os = fst cv" "hr_ema_after hr = es_ema es" "hr_round_score hr = os_score os"
    "ema_update (map_option es_ema (previous (hk, fst cv))) (os_score os) n = Some (es_ema es)"
    "es_resolved_rounds es = (case previous (hk, fst cv) of None \<Rightarrow> 0 | Some p \<Rightarrow> es_resolved_rounds p) + 1"
    "\<exists>err. observation outputs per cv = Inr (os_score os, err)"
proof -
  obtain score err where ob: "observation outputs per cv = Inr (score, err)"
    using assms by (cases "observation outputs per cv") (auto simp: score_cell_def)
  obtain ema where ema: "ema_update (map_option es_ema (previous (hk, fst cv))) score n = Some ema"
    using assms by (cases "ema_update (map_option es_ema (previous (hk, fst cv))) score n")
      (simp_all add: score_cell_def ob Let_def ebind_def split: sum.splits)
  have rows: "mk_output_score hk (fst cv) score err = Inr os"
    "mk_ema_state hk (fst cv) ema ((case previous (hk, fst cv) of None \<Rightarrow> 0 | Some p \<Rightarrow> es_resolved_rounds p) + 1) = Inr es"
    "mk_score_history_row hk (fst cv) score ema = Inr hr"
    using assms by (auto simp: score_cell_def ob Let_def ema)
  show "es_hotkey es = hk" "es_coordinate es = fst cv" "hr_hotkey hr = hk" "hr_coordinate hr = fst cv"
    "os_hotkey os = hk" "os_coordinate os = fst cv" "hr_ema_after hr = es_ema es" "hr_round_score hr = os_score os"
    "ema_update (map_option es_ema (previous (hk, fst cv))) (os_score os) n = Some (es_ema es)"
    "es_resolved_rounds es = (case previous (hk, fst cv) of None \<Rightarrow> 0 | Some p \<Rightarrow> es_resolved_rounds p) + 1"
    "\<exists>err. observation outputs per cv = Inr (os_score os, err)"
    using mk_rows_Inr(1) [OF rows(1)] mk_rows_Inr(2) [OF rows(2)] mk_rows_Inr(3) [OF rows(3)] ema ob
    by simp_all
qed

lemma observation_unit:
  "observation outputs per cv = Inr (score, err) \<Longrightarrow> 0 \<le> score \<and> score \<le> 1"
  using deviation_score_unit
  by (auto simp: observation_def score_output_def split: option.splits if_splits)

lemma etraverse_member: "etraverse f xs = Inr ys \<Longrightarrow> y \<in> set ys \<Longrightarrow> \<exists>x \<in> set xs. f x = Inr y"
  by (induction xs arbitrary: ys) auto

lemma score_round_rows:
  assumes "score_round cfg n states accepted rcs elig targets = Inr results"
    and "r \<in> set (concat (map snd results))"
  shows "\<exists>hk cv. cv \<in> set (resolved_values targets)
    \<and> score_cell (sc_outputs cfg) n (previous_of states) hk
        (case map_of accepted hk of None \<Rightarrow> [] | Some per \<Rightarrow> per) cv = Inr r"
proof -
  obtain hk rows where hr: "(hk, rows) \<in> set results" "r \<in> set rows" using assms(2) by auto
  then obtain hk' where "ebind (score_hotkey (sc_outputs cfg) n (previous_of states) accepted
      (sort_key fst (resolved_values targets)) hk') (\<lambda>rows. Inr (hk', rows)) = Inr (hk, rows)"
    using etraverse_member [OF assms(1) [unfolded score_round_def Let_def] hr(1)] by auto
  then have "etraverse (score_cell (sc_outputs cfg) n (previous_of states) hk
      (case map_of accepted hk of None \<Rightarrow> [] | Some per \<Rightarrow> per)) (sort_key fst (resolved_values targets)) = Inr rows"
    by (auto simp: score_hotkey_def)
  from etraverse_member [OF this hr(2)] show ?thesis by auto
qed

lemma previous_of_Some:
  "previous_of states (hk, c) = Some p \<Longrightarrow> p \<in> set states \<and> es_hotkey p = hk \<and> es_coordinate p = c"
  by (auto simp: previous_of_def dest!: map_of_SomeD)

subsection \<open>Rows of the tables after a pass\<close>

lemma set_upsert: "x \<in> set (upsert key r rows) \<Longrightarrow> x = r \<or> (x \<in> set rows \<and> key x \<noteq> key r)"
  by (auto simp: upsert_def set_update_where split: if_splits) (metis imageI)

lemma set_fold_upsert:
  "x \<in> set (fold (\<lambda>e. upsert key (f e)) es rows) \<Longrightarrow> x \<in> f ` set es \<or> x \<in> set rows"
proof (induction es arbitrary: rows)
  case (Cons e es)
  then show ?case using Cons.IH [of "upsert key (f e) rows"] set_upsert [of x key "f e" rows] by auto
qed simp

lemma fold_insert_ignore_key:
  "x \<in> set xs \<Longrightarrow> key (f x) \<in> key ` set (fold (\<lambda>x. insert_ignore key (f x)) xs rows)"
proof (induction xs arbitrary: rows)
  case (Cons y xs)
  show ?case
  proof (cases "x = y")
    case True
    have "key (f y) \<in> key ` set (insert_ignore key (f y) rows)" by (simp add: insert_ignore_def)
    then show ?thesis
      using set_mono_prefix [OF fold_insert_ignore_prefix [of "insert_ignore key (f y) rows" key f xs]] True by auto
  qed (use Cons in simp)
qed simp

lemma fold_insert_ignore_new:
  "x \<in> set xs \<Longrightarrow> key (f x) \<notin> key ` set rows \<Longrightarrow>
     \<exists>y \<in> set xs. key (f y) = key (f x) \<and> f y \<in> set (fold (\<lambda>x. insert_ignore key (f x)) xs rows)"
proof (induction xs arbitrary: rows)
  case (Cons h xs)
  show ?case
  proof (cases "key (f h) = key (f x)")
    case True
    then have "f h \<in> set (insert_ignore key (f h) rows)" using Cons.prems(2) by (simp add: insert_ignore_def)
    then have "f h \<in> set (fold (\<lambda>x. insert_ignore key (f x)) (h # xs) rows)"
      using set_mono_prefix [OF fold_insert_ignore_prefix [of "insert_ignore key (f h) rows" key f xs]] by auto
    with True show ?thesis by auto
  next
    case False
    then have "x \<in> set xs" "key (f x) \<notin> key ` set (insert_ignore key (f h) rows)"
      using Cons.prems by (auto simp: insert_ignore_def)
    then show ?thesis using Cons.IH [of "insert_ignore key (f h) rows"] by auto
  qed
qed simp

lemma fold_upsert_ema_tables:
  "sd_emas (fold (upsert_ema s now) es d)
     = fold (\<lambda>e. upsert ema_unique \<lparr>ee_schema = s, ee_row = e, ee_at = now\<rparr>) es (sd_emas d)"
  "sd_history (fold (upsert_ema s now) es d) = sd_history d"
  "sd_targets (fold (upsert_ema s now) es d) = sd_targets d"
  by (induction es arbitrary: d) (simp_all add: upsert_ema_def)

lemma record_pass_tables:
  assumes "record_scoring_pass k p now d = Inr d'" "\<not> has_resolution_marker d k (sp_horizon p)"
  shows "sd_targets d' = fold (\<lambda>r. insert_ignore target_unique \<lparr>te_key = k, te_row = r, te_at = now\<rparr>)
      (sp_targets p) (sd_targets d)"
    "sd_history d' = fold (\<lambda>r. insert_ignore history_unique \<lparr>he_key = k, he_row = r, he_at = now\<rparr>)
      (sp_history p) (sd_history d)"
    "set (sd_emas d') \<subseteq> set (fold (\<lambda>e. upsert ema_unique \<lparr>ee_schema = snd k, ee_row = e, ee_at = now\<rparr>)
      (sp_emas p) (sd_emas d))"
    "sp_complete p \<Longrightarrow> has_resolution_marker d' k (sp_horizon p)"
  using assms
  by (auto simp: record_scoring_pass_def insert_realized_targets_def insert_output_scores_def
      insert_score_history_def insert_marker_def delete_emas_def Let_def fold_upsert_ema_tables
      has_resolution_marker_def insert_ignore_def marker_unique_def split: if_splits)

end
