(* ===== verification/Scoring_Loop.thy ===== *)
theory Scoring_Loop
  imports Scoring_Facts
begin

text \<open>
  The scoring loop: round transactions, publications, scoring passes and archivals, in any order.
  Its invariant says of each stored average that it lies in the unit interval, that a history row
  records it, and that it counts no round twice.
\<close>

definition observed_rounds :: "'a score_db_scheme \<Rightarrow> string \<Rightarrow> string \<Rightarrow> coordinate \<Rightarrow> string set" where
  "observed_rounds d schema hk c =
     (\<lambda>h. fst (he_key h)) ` set (filter (\<lambda>h. snd (he_key h) = schema
        \<and> hr_hotkey (he_row h) = hk \<and> hr_coordinate (he_row h) = c) (sd_history d))"

definition ema_ok :: "'a score_db_scheme \<Rightarrow> string \<Rightarrow> ema_state \<Rightarrow> bool" where
  "ema_ok d schema e \<longleftrightarrow>
     0 \<le> es_ema e \<and> es_ema e \<le> 1 \<and> is_dec (es_ema e)
     \<and> es_resolved_rounds e \<le> int (card (observed_rounds d schema (es_hotkey e) (es_coordinate e)))
     \<and> (\<exists>h \<in> set (sd_history d). snd (he_key h) = schema \<and> hr_hotkey (he_row h) = es_hotkey e
          \<and> hr_coordinate (he_row h) = es_coordinate e \<and> hr_ema_after (he_row h) = es_ema e)"

definition history_has_target :: "'a score_db_scheme \<Rightarrow> bool" where
  "history_has_target d \<longleftrightarrow>
     (\<forall>h \<in> set (sd_history d). (he_key h, hr_coordinate (he_row h)) \<in> target_unique ` set (sd_targets d))"

definition emas_ok :: "'a score_db_scheme \<Rightarrow> string \<Rightarrow> bool" where
  "emas_ok d schema \<longleftrightarrow> (\<forall>e \<in> set (sd_emas d). ee_schema e = schema \<longrightarrow> ema_ok d schema (ee_row e))"

definition loop_inv :: "string \<Rightarrow> 'a score_db_scheme \<Rightarrow> bool" where
  "loop_inv schema d \<longleftrightarrow> score_inv d \<and> history_has_target d \<and> emas_ok d schema"

lemma ema_ok_mono:
  assumes "ema_ok d schema e" "set (sd_history d) \<subseteq> set (sd_history d')"
  shows "ema_ok d' schema e"
proof -
  have "observed_rounds d schema hk c \<subseteq> observed_rounds d' schema hk c" for hk c
    using assms(2) by (auto simp: observed_rounds_def)
  then have "card (observed_rounds d schema hk c) \<le> card (observed_rounds d' schema hk c)" for hk c
    by (intro card_mono) (simp_all add: observed_rounds_def)
  then show ?thesis
    using assms unfolding ema_ok_def by (meson of_nat_le_iff order_trans subsetD)
qed

text \<open>A transaction that adds no averages and no history.\<close>

lemma loop_inv_keep:
  assumes "loop_inv schema d" "score_step d d'"
    and "set (sd_emas d') \<subseteq> set (sd_emas d)" "sd_history d' = sd_history d"
  shows "loop_inv schema d'"
proof -
  have inv: "score_inv d" using assms(1) by (simp add: loop_inv_def)
  have "prefix (sd_targets d) (sd_targets d')"
    using score_step_effect(2) [OF assms(2) inv] by (simp add: written_once_def)
  then have "set (sd_targets d) \<subseteq> set (sd_targets d')" by (rule set_mono_prefix)
  then have "history_has_target d'"
    using assms(1,4) unfolding loop_inv_def history_has_target_def by (metis image_mono subsetD)
  moreover have "emas_ok d' schema"
    using assms(1,3,4) ema_ok_mono [of d schema _ d'] by (auto simp: loop_inv_def emas_ok_def)
  ultimately show ?thesis using score_inv_step [OF assms(2) inv] by (simp add: loop_inv_def)
qed

lemma ema_states_member:
  "p \<in> set (ema_states d schema) \<longleftrightarrow> (\<exists>e \<in> set (sd_emas d). ee_schema e = schema \<and> ee_row e = p)"
  by (auto simp: ema_states_def)

text \<open>What a pass adds, abstractly: rows of fresh cells, each an update of the stored average.\<close>

lemma pass_keeps_inv:
  fixes d :: "'a score_db_scheme"
  assumes inv: "loop_inv schema d" and k: "k = (rid, schema)"
    and pass: "record_scoring_pass k p now d = Inr d'" "\<not> has_resolution_marker d k (sp_horizon p)"
    and emas: "sp_emas p = map (\<lambda>(_, es, _). es) rows" and history: "sp_history p = map (\<lambda>(_, _, hr). hr) rows"
    and rows: "\<forall>r \<in> set rows. \<exists>hk cv. cv \<in> set resolved
        \<and> score_cell outputs n (previous_of (ema_states d schema)) hk (per hk) cv = Inr r"
    and distinct: "distinct (map fst resolved)"
    and fresh: "\<forall>cv \<in> set resolved. (k, fst cv) \<notin> target_unique ` set (sd_targets d)"
    and stored: "\<forall>cv \<in> set resolved. fst cv \<in> rt_coordinate ` set (sp_targets p)"
  shows "loop_inv schema d'"
proof -
  note t = record_pass_tables [OF pass]
  have score: "score_inv d" and hist: "history_has_target d" and old: "emas_ok d schema"
    using inv by (simp_all add: loop_inv_def)
  have step: "score_step d d'" by (rule Sc_pass [OF pass(1)])
  have score': "score_inv d'" by (rule score_inv_step [OF step score])
  have w: "set (sd_targets d) \<subseteq> set (sd_targets d')" "set (sd_history d) \<subseteq> set (sd_history d')"
    using score_step_effect(2) [OF step score] by (auto simp: written_once_def dest: set_mono_prefix)
  have fresh_history: "(k, hk, fst cv) \<notin> history_unique ` set (sd_history d)" if "cv \<in> set resolved" for hk cv
    using that fresh hist by (fastforce simp: history_has_target_def history_unique_def)
  let ?h = "\<lambda>hr. \<lparr>he_key = k, he_row = hr, he_at = now\<rparr>"
  have cell: "\<exists>hk cv. cv \<in> set resolved
      \<and> score_cell outputs n (previous_of (ema_states d schema)) hk (per hk) cv = Inr (os, es, hr)"
    if "(os, es, hr) \<in> set rows" for os es hr
    using rows that by (rule bspec)
  have stored_row: "?h hr \<in> set (sd_history d')" if r: "(os, es, hr) \<in> set rows" for os es hr
  proof -
    obtain hk cv where c: "cv \<in> set resolved"
      "score_cell outputs n (previous_of (ema_states d schema)) hk (per hk) cv = Inr (os, es, hr)"
      using cell [OF r] by blast
    note f = score_cell_rows [OF c(2)]
    have "hr \<in> set (sp_history p)" using r by (force simp: history)
    moreover have "history_unique (?h hr) \<notin> history_unique ` set (sd_history d)"
      using fresh_history [OF c(1), of hk] f by (simp add: history_unique_def)
    ultimately obtain y where y: "y \<in> set (sp_history p)" "history_unique (?h y) = history_unique (?h hr)"
      "?h y \<in> set (sd_history d')"
      using fold_insert_ignore_new [of hr "sp_history p" history_unique ?h "sd_history d"] t(2) by auto
    then obtain os2 es2 where r2: "(os2, es2, y) \<in> set rows" by (auto simp: history)
    obtain hk2 cv2 where c2: "cv2 \<in> set resolved"
      "score_cell outputs n (previous_of (ema_states d schema)) hk2 (per hk2) cv2 = Inr (os2, es2, y)"
      using cell [OF r2] by blast
    note f2 = score_cell_rows [OF c2(2)]
    have "hk2 = hk" "fst cv2 = fst cv" using y(2) f f2 by (simp_all add: history_unique_def)
    moreover from this(2) have "cv2 = cv" using distinct c(1) c2(1) by (auto simp: distinct_map inj_on_def)
    ultimately have "y = hr" using c(2) c2(2) by simp
    with y(3) show ?thesis by simp
  qed
  have fresh_round: "rid \<notin> observed_rounds d schema hk (fst cv)" if "cv \<in> set resolved" for hk cv
    using fresh_history [OF that, of hk] by (force simp: observed_rounds_def history_unique_def k)
  have new_ok: "ema_ok d' schema es" if r: "(os, es, hr) \<in> set rows" for os es hr
  proof -
    obtain hk cv where c: "cv \<in> set resolved"
      "score_cell outputs n (previous_of (ema_states d schema)) hk (per hk) cv = Inr (os, es, hr)"
      using cell [OF r] by blast
    note f = score_cell_rows [OF c(2)]
    define prior where "prior = previous_of (ema_states d schema) (hk, fst cv)"
    have prior: "ema_ok d schema q \<and> es_hotkey q = hk \<and> es_coordinate q = fst cv" if "prior = Some q" for q
      using that previous_of_Some [of _ hk "fst cv" q] old ema_states_member [of q d schema]
      by (auto simp: prior_def emas_ok_def)
    obtain err where "observation outputs (per hk) cv = Inr (os_score os, err)" using f(11) by blast
    from observation_unit [OF this] have u: "0 \<le> os_score os" "os_score os \<le> 1" by simp_all
    have ema: "ema_update (map_option es_ema prior) (os_score os) n = Some (es_ema es)"
      using f(9) by (simp add: prior_def)
    have unit: "0 \<le> es_ema es \<and> es_ema es \<le> 1 \<and> is_dec (es_ema es)"
      by (rule ema_update_unit [OF ema u]) (use prior in \<open>auto simp: ema_ok_def\<close>)
    have stored: "?h hr \<in> set (sd_history d')" by (rule stored_row [OF r])
    have "insert rid (observed_rounds d schema hk (fst cv)) \<subseteq> observed_rounds d' schema hk (fst cv)"
      using stored w(2) f(3,4) k by (force simp: observed_rounds_def)
    then have "card (insert rid (observed_rounds d schema hk (fst cv)))
        \<le> card (observed_rounds d' schema hk (fst cv))"
      by (intro card_mono) (simp_all add: observed_rounds_def)
    then have "int (card (observed_rounds d schema hk (fst cv))) + 1
        \<le> int (card (observed_rounds d' schema hk (fst cv)))"
      using fresh_round [OF c(1), of hk] by (simp add: observed_rounds_def)
    moreover have "es_resolved_rounds es \<le> int (card (observed_rounds d schema hk (fst cv))) + 1"
      using f(10) prior by (cases prior) (auto simp: prior_def [symmetric] ema_ok_def)
    ultimately have "es_resolved_rounds es \<le> int (card (observed_rounds d' schema hk (fst cv)))" by simp
    then show ?thesis
      using unit stored f(1-4,7) k unfolding ema_ok_def by (intro conjI bexI [of _ "?h hr"]) simp_all
  qed
  have "emas_ok d' schema"
    unfolding emas_ok_def
  proof (intro ballI impI)
    fix e
    assume e: "e \<in> set (sd_emas d')" "ee_schema e = schema"
    then have "e \<in> (\<lambda>es. \<lparr>ee_schema = schema, ee_row = es, ee_at = now\<rparr>) ` set (sp_emas p) \<or> e \<in> set (sd_emas d)"
      using t(3) set_fold_upsert [where key = ema_unique and es = "sp_emas p" and rows = "sd_emas d"] k by fastforce
    then show "ema_ok d' schema (ee_row e)"
    proof
      assume "e \<in> (\<lambda>es. \<lparr>ee_schema = schema, ee_row = es, ee_at = now\<rparr>) ` set (sp_emas p)"
      then obtain os es hr where "(os, es, hr) \<in> set rows" "ee_row e = es" by (auto simp: emas)
      then show ?thesis using new_ok by simp
    next
      assume "e \<in> set (sd_emas d)"
      then have "ema_ok d schema (ee_row e)" using old e(2) by (simp add: emas_ok_def)
      then show ?thesis using w(2) by (rule ema_ok_mono)
    qed
  qed
  moreover have "history_has_target d'"
    unfolding history_has_target_def
  proof
    fix h
    assume "h \<in> set (sd_history d')"
    then have "h \<in> ?h ` set (sp_history p) \<or> h \<in> set (sd_history d)"
      using t(2) set_fold_insert_ignore [of history_unique ?h "sp_history p" "sd_history d"] by auto
    then show "(he_key h, hr_coordinate (he_row h)) \<in> target_unique ` set (sd_targets d')"
    proof
      assume "h \<in> ?h ` set (sp_history p)"
      then obtain os es hr where r: "(os, es, hr) \<in> set rows" "h = ?h hr" by (auto simp: history)
      obtain hk cv where c: "cv \<in> set resolved"
        "score_cell outputs n (previous_of (ema_states d schema)) hk (per hk) cv = Inr (os, es, hr)"
        using cell [OF r(1)] by blast
      obtain x where x: "x \<in> set (sp_targets p)" "rt_coordinate x = fst cv" using stored c(1) by force
      have "target_unique \<lparr>te_key = k, te_row = x, te_at = now\<rparr> \<in> target_unique ` set (sd_targets d')"
        unfolding t(1) by (rule fold_insert_ignore_key [OF x(1)])
      then show ?thesis using x(2) r(2) score_cell_rows(4) [OF c(2)] by (simp add: target_unique_def)
    next
      assume "h \<in> set (sd_history d)"
      then show ?thesis using hist w(1) unfolding history_has_target_def by (metis image_mono subsetD)
    qed
  qed
  ultimately show ?thesis using score' by (simp add: loop_inv_def)
qed

subsection \<open>A pass of the code\<close>

lemma cells_of_outputs: "cell \<in> set (cells_of netuids outputs) \<Longrightarrow> snd cell \<in> set outputs"
  by (auto simp: cells_of_def)

lemma resolve_and_score_pass:
  assumes "resolve_and_score cfg n rid h now archive ctx clock d = Inr (d', scores)"
  shows "d' = d \<or> (\<exists>cells targets rcs elig results finished.
      \<not> has_resolution_marker d (rid, sc_schema_id cfg) h
      \<and> (\<forall>cell \<in> set cells. snd cell \<in> set (sc_outputs cfg))
      \<and> resolve_cells cfg ctx h (rt_coordinate ` set (realized_targets_for_horizon d (rid, sc_schema_id cfg) (Some h)))
          clock 1 cells = Inr targets
      \<and> score_round cfg n (ema_states d (sc_schema_id cfg)) (sc_accepted_values cfg d rid) rcs elig targets = Inr results
      \<and> record_scoring_pass (rid, sc_schema_id cfg)
          (pass_of cfg h (ema_states d (sc_schema_id cfg)) (sc_accepted_values cfg d rid) targets finished archive results)
          now d = Inr d')"
proof (cases "has_resolution_marker d (rid, sc_schema_id cfg) h \<or> clock 0")
  case True
  then have "resolve_and_score cfg n rid h now archive ctx clock d = Inr (d, [])"
    by (cases "clock 0") (simp_all add: resolve_and_score_def Let_def)
  then show ?thesis using assms by simp
next
  case False
  obtain u where u: "universe_for d (rid, sc_schema_id cfg) = Inr (Some u)"
    using assms False by (auto simp: resolve_and_score_def Let_def split: sum.splits option.splits)
  obtain members where m: "sc_universe_members cfg (us_tickers u) = Inr members"
    using assms False u by (auto simp: resolve_and_score_def Let_def split: sum.splits)
  define cells where "cells = cells_of (sorted_list_of_set members) (sc_outputs cfg)"
  have outs: "\<forall>cell \<in> set cells. snd cell \<in> set (sc_outputs cfg)"
    using cells_of_outputs unfolding cells_def by blast
  have "resolve_and_score cfg n rid h now archive ctx clock d =
     ebind (all_coordinates cfg [h] cells) (\<lambda>expected.
     ebind (resolve_cells cfg ctx h (rt_coordinate ` set (realized_targets_for_horizon d (rid, sc_schema_id cfg) (Some h)))
        clock 1 cells) (\<lambda>targets.
     ebind (all_coordinates cfg (sc_horizons cfg) cells) (\<lambda>rcs.
     ebind (score_round cfg n (ema_states d (sc_schema_id cfg)) (sc_accepted_values cfg d rid) rcs
         (hotkeys_eligible_for_round d (sc_schema_id cfg) rid) targets) (\<lambda>results.
       case record_scoring_pass (rid, sc_schema_id cfg)
          (pass_of cfg h (ema_states d (sc_schema_id cfg)) (sc_accepted_values cfg d rid) targets
             (expected \<subseteq> rt_coordinate ` set (realized_targets_for_horizon d (rid, sc_schema_id cfg) (Some h))
                \<union> rt_coordinate ` set targets) archive results) now d of
         Inl e \<Rightarrow> Inl (Pass_failed e) | Inr d' \<Rightarrow> Inr (d', concat (map round_score results))))))"
    using False u m by (simp add: resolve_and_score_def Let_def cells_def)
  from trans [OF this [symmetric] assms, unfolded ebind_eq_Inr] obtain expected targets rcs results where r:
    "resolve_cells cfg ctx h (rt_coordinate ` set (realized_targets_for_horizon d (rid, sc_schema_id cfg) (Some h)))
        clock 1 cells = Inr targets"
    "score_round cfg n (ema_states d (sc_schema_id cfg)) (sc_accepted_values cfg d rid) rcs
         (hotkeys_eligible_for_round d (sc_schema_id cfg) rid) targets = Inr results"
    "(case record_scoring_pass (rid, sc_schema_id cfg)
          (pass_of cfg h (ema_states d (sc_schema_id cfg)) (sc_accepted_values cfg d rid) targets
             (expected \<subseteq> rt_coordinate ` set (realized_targets_for_horizon d (rid, sc_schema_id cfg) (Some h))
                \<union> rt_coordinate ` set targets) archive results) now d of
         Inl e \<Rightarrow> Inl (Pass_failed e) | Inr d' \<Rightarrow> Inr (d', concat (map round_score results)))
       = Inr (d', scores)"
    by blast
  from r(3) have "record_scoring_pass (rid, sc_schema_id cfg)
      (pass_of cfg h (ema_states d (sc_schema_id cfg)) (sc_accepted_values cfg d rid) targets
         (expected \<subseteq> rt_coordinate ` set (realized_targets_for_horizon d (rid, sc_schema_id cfg) (Some h))
            \<union> rt_coordinate ` set targets) archive results) now d = Inr d'"
    by (simp split: sum.splits)
  then show ?thesis using r(1,2) outs False by blast
qed

context assessment_resolver
begin

lemma resolve_and_score_inv:
  assumes run: "resolve_and_score cfg n rid h now archive ctx clock d = Inr (d', scores)"
    and cfg: "sc_coordinate_for cfg = coordinate_for" "sc_outputs cfg = outputs"
    and inv: "loop_inv (sc_schema_id cfg) d"
  shows "loop_inv (sc_schema_id cfg) d'"
proof (cases "d' = d")
  case False
  let ?k = "(rid, sc_schema_id cfg)" and ?states = "ema_states d (sc_schema_id cfg)"
  let ?existing = "rt_coordinate ` set (realized_targets_for_horizon d ?k (Some h))"
  obtain cells targets rcs elig results finished where
    m: "\<not> has_resolution_marker d ?k h" and
    c: "\<forall>cell \<in> set cells. snd cell \<in> set (sc_outputs cfg)" and
    r: "resolve_cells cfg ctx h ?existing clock 1 cells = Inr targets" and
    s: "score_round cfg n ?states (sc_accepted_values cfg d rid) rcs elig targets = Inr results" and
    p: "record_scoring_pass ?k (pass_of cfg h ?states (sc_accepted_values cfg d rid) targets finished archive results)
          now d = Inr d'"
    using resolve_and_score_pass [OF run] False by blast
  have t: "\<forall>t \<in> set targets. rt_coordinate t \<notin> ?existing \<and> horizon_value (rt_coordinate t) = h"
    using resolve_cells_coordinates [OF r cfg(1)] c cfg(2) by blast
  have keys: "fst cv \<in> rt_coordinate ` set targets" if "cv \<in> set (resolved_values targets)" for cv
    using that resolved_values_keys(1) by blast
  have "(?k, fst cv) \<notin> target_unique ` set (sd_targets d)" if cv: "cv \<in> set (resolved_values targets)" for cv
  proof
    assume "(?k, fst cv) \<in> target_unique ` set (sd_targets d)"
    then obtain x where x: "x \<in> set (sd_targets d)" "te_key x = ?k" "rt_coordinate (te_row x) = fst cv"
      by (auto simp: target_unique_def)
    moreover obtain y where "y \<in> set targets" "fst cv = rt_coordinate y" using keys [OF cv] by auto
    then have "horizon_value (fst cv) = h" "fst cv \<notin> ?existing" using bspec [OF t, of y] by simp_all
    ultimately show False by (force simp: realized_targets_for_horizon_def)
  qed
  then show ?thesis
    by (intro pass_keeps_inv [where rid = rid and rows = "concat (map snd results)"
        and resolved = "resolved_values targets" and outputs = "sc_outputs cfg" and n = n
        and per = "\<lambda>hk. case map_of (sc_accepted_values cfg d rid) hk of None \<Rightarrow> [] | Some per \<Rightarrow> per",
        OF inv refl p])
      (use m keys resolved_values_keys(2) [of targets] score_round_rows [OF s] in
        \<open>auto simp: pass_of_def Let_def simp del: set_concat\<close>)
qed (use inv in simp)

end

subsection \<open>The loop\<close>

inductive loop_step :: "('o, 'a score_db_scheme) scoring_config \<Rightarrow> int \<Rightarrow> 'a score_db_scheme \<Rightarrow> 'a score_db_scheme \<Rightarrow> bool"
  for cfg n where
  Lp_rounds: "storage_step d d' \<Longrightarrow> loop_step cfg n d d'"
| Lp_publish: "publish_consensus_and_reveal k rows now d = Inr d' \<Longrightarrow> loop_step cfg n d d'"
| Lp_pass: "resolve_and_score cfg n rid h now archive ctx clock d = Inr (d', scores) \<Longrightarrow> loop_step cfg n d d'"
| Lp_archive: "archive_ema_horizon schema_id h hotkeys d = (d', b) \<Longrightarrow> loop_step cfg n d d'"

definition config_ok :: "('o, 'd) scoring_config \<Rightarrow> bool" where
  "config_ok cfg \<longleftrightarrow> assessment_resolver (sc_coordinate_for cfg) (sc_outputs cfg)"

lemma publish_tables:
  "publish_consensus_and_reveal k rows now d = Inr d' \<Longrightarrow> sd_emas d' = sd_emas d \<and> sd_history d' = sd_history d"
  by (auto simp: publish_consensus_and_reveal_def insert_consensus_if_absent_def snapshot_if_open_def
      flip_round_revealed_def update_round_def Let_def split: if_splits)

lemma loop_step_inv:
  assumes "loop_step cfg n d d'" "config_ok cfg" "loop_inv (sc_schema_id cfg) d"
  shows "loop_inv (sc_schema_id cfg) d'"
  using assms(1)
proof cases
  case Lp_rounds
  then show ?thesis
    using storage_step_tables(5,6) [OF Lp_rounds] by (intro loop_inv_keep [OF assms(3)] Sc_rounds) simp_all
next
  case Lp_publish
  then show ?thesis
    using publish_tables [OF Lp_publish] by (intro loop_inv_keep [OF assms(3)] Sc_publish) auto
next
  case (Lp_pass rid h now archive ctx clock scores)
  then show ?thesis
    using assessment_resolver.resolve_and_score_inv [OF _ Lp_pass refl refl assms(3)] assms(2)
    by (simp add: config_ok_def)
next
  case Lp_archive
  then have "set (sd_emas d') \<subseteq> set (sd_emas d)" "sd_history d' = sd_history d"
    by (auto simp: archive_ema_horizon_def delete_emas_def split: if_splits)
  then show ?thesis by (intro loop_inv_keep [OF assms(3) Sc_archive [OF Lp_archive]])
qed

lemma loop_steps_inv:
  assumes "(loop_step cfg n)\<^sup>*\<^sup>* d d'" "config_ok cfg" "loop_inv (sc_schema_id cfg) d"
  shows "loop_inv (sc_schema_id cfg) d'"
  using assms(1,3) by (induction rule: rtranclp_induct) (auto intro: loop_step_inv [OF _ assms(2)])

lemma empty_loop_inv: "loop_inv schema empty_score_db"
proof -
  have "sd_history empty_score_db = []" "sd_emas empty_score_db = []"
    by (simp_all add: empty_score_db_def empty_db_def db.defs)
  then show ?thesis by (simp add: loop_inv_def empty_score_inv history_has_target_def emas_ok_def)
qed

subsection \<open>Resuming a truncated pass\<close>

abbreviation never :: "nat \<Rightarrow> bool" where
  "never \<equiv> \<lambda>_. False"

definition cell_of :: "('o, 'd) scoring_config \<Rightarrow> int \<Rightarrow> int \<times> 'o output_config \<Rightarrow> coordinate option" where
  "cell_of cfg h cell = (case cell_coordinate cfg h cell of Inl _ \<Rightarrow> None | Inr c \<Rightarrow> Some c)"

lemma resolve_cells_irrelevant:
  assumes "\<forall>cell \<in> set cells. cell_of cfg h cell \<noteq> Some c"
  shows "resolve_cells cfg ctx h (insert c existing) clock i cells = resolve_cells cfg ctx h existing clock i cells"
  using assms
proof (induction cells arbitrary: i)
  case (Cons cell cells)
  show ?case
  proof (cases "cell_coordinate cfg h cell")
    case (Inr c')
    then have "c' \<noteq> c" using Cons.prems by (auto simp: cell_of_def)
    with Inr Cons show ?thesis by (simp split: resolver_result.split)
  qed simp
qed simp

lemma resolve_cells_index: "resolve_cells cfg ctx h existing never i cells = resolve_cells cfg ctx h existing never j cells"
proof (induction cells arbitrary: i j)
  case (Cons cell cells)
  have "resolve_cells cfg ctx h existing never i cells = resolve_cells cfg ctx h existing never j cells"
    "resolve_cells cfg ctx h existing never (Suc i) cells = resolve_cells cfg ctx h existing never (Suc j) cells"
    by (rule Cons.IH)+
  note eqs = this
  show ?case unfolding resolve_cells.simps eqs by (rule refl)
qed simp

text \<open>The cells have coordinates of their own.\<close>

definition distinct_cells :: "('o, 'd) scoring_config \<Rightarrow> int \<Rightarrow> (int \<times> 'o output_config) list \<Rightarrow> bool" where
  "distinct_cells cfg h cells \<longleftrightarrow> distinct (map (cell_of cfg h) cells) \<and> None \<notin> cell_of cfg h ` set cells"

lemma distinct_cells_Cons:
  "distinct_cells cfg h (cell # cells) \<longleftrightarrow> distinct_cells cfg h cells
     \<and> (\<exists>c. cell_coordinate cfg h cell = Inr c \<and> (\<forall>cell' \<in> set cells. cell_of cfg h cell' \<noteq> Some c))"
proof -
  have "cell_of cfg h cell = Some c \<longleftrightarrow> cell_coordinate cfg h cell = Inr c" for c
    by (cases "cell_coordinate cfg h cell") (simp_all add: cell_of_def)
  note eq = this [symmetric]
  have "None \<noteq> x \<and> x \<notin> set xs \<longleftrightarrow> (\<exists>c. x = Some c \<and> (\<forall>y \<in> set xs. y \<noteq> Some c))" for x :: "'z option" and xs
    by (cases x) auto
  from this [of "cell_of cfg h cell" "map (cell_of cfg h) cells"] show ?thesis
    by (auto simp: distinct_cells_def eq)
qed

lemma resolve_resumes:
  assumes "config_ok cfg" "distinct_cells cfg h cells" "\<forall>cell \<in> set cells. snd cell \<in> set (sc_outputs cfg)"
    and "resolve_cells cfg ctx h existing clock i cells = Inr ts"
    and "resolve_cells cfg ctx h existing never j cells = Inr full"
  shows "\<exists>rest. full = ts @ rest
    \<and> resolve_cells cfg ctx h (existing \<union> rt_coordinate ` set ts) never j cells = Inr rest"
  using assms(2-5)
proof (induction cells arbitrary: i j ts full)
  case (Cons cell cells)
  obtain c where c: "cell_coordinate cfg h cell = Inr c" "\<forall>cell' \<in> set cells. cell_of cfg h cell' \<noteq> Some c"
    "distinct_cells cfg h cells"
    using Cons.prems(1) unfolding distinct_cells_Cons by blast
  have outs: "\<forall>cell \<in> set cells. snd cell \<in> set (sc_outputs cfg)" using Cons.prems(2) by simp
  note IH = Cons.IH [OF c(3) outs]
  show ?case
  proof (cases "c \<in> existing")
    case True
    then have "resolve_cells cfg ctx h existing clock i cells = Inr ts"
      "resolve_cells cfg ctx h existing never j cells = Inr full"
      using Cons.prems(3,4) c(1) by simp_all
    from IH [OF this] show ?thesis using True c(1) by simp
  next
    case new: False
    show ?thesis
    proof (cases "clock i")
      case True
      then have "ts = []" using Cons.prems(3) c(1) new by simp
      then show ?thesis using Cons.prems(4) by simp
    next
      case False
      show ?thesis
      proof (cases "oc_resolver (snd cell) ctx (fst cell) h")
        case Deadline_exceeded
        then have "ts = []" using Cons.prems(3) c(1) new False by simp
        then show ?thesis using Cons.prems(4) by simp
      next
        case (Failed e)
        then show ?thesis using Cons.prems(3) c(1) new False by simp
      next
        case (Target t)
        obtain us where us: "resolve_cells cfg ctx h existing clock (Suc i) cells = Inr us"
          "ts = (case t of None \<Rightarrow> us | Some t \<Rightarrow> t # us)"
          using Cons.prems(3) c(1) new False Target by auto
        obtain rs where rs: "resolve_cells cfg ctx h existing never (Suc j) cells = Inr rs"
          "full = (case t of None \<Rightarrow> rs | Some t \<Rightarrow> t # rs)"
          using Cons.prems(4) c(1) new Target by auto
        obtain rest where rest: "rs = us @ rest"
          "resolve_cells cfg ctx h (existing \<union> rt_coordinate ` set us) never (Suc j) cells = Inr rest"
          using IH [OF us(1) rs(1)] by blast
        then have rest_j: "resolve_cells cfg ctx h (existing \<union> rt_coordinate ` set us) never j cells = Inr rest"
          using resolve_cells_index by metis
        show ?thesis
        proof (cases t)
          case (Some r)
          have "snd cell \<in> set (sc_outputs cfg)" using Cons.prems(2) by simp
          with Target Some have "sc_coordinate_for cfg (fst cell) h (oc_output (snd cell)) = Inr (rt_coordinate r)"
            using assessment_resolver.own_target assms(1) unfolding config_ok_def by metis
          then have r: "rt_coordinate r = c" using c(1) by (simp add: cell_coordinate_def)
          have "resolve_cells cfg ctx h (insert c (existing \<union> rt_coordinate ` set us)) never j (cell # cells) = Inr rest"
            using rest_j resolve_cells_irrelevant [OF c(2)] c(1) by simp
          then show ?thesis using us(2) rs(2) rest(1) Some r by auto
        next
          case None
          have "resolve_cells cfg ctx h (existing \<union> rt_coordinate ` set us) never j (cell # cells) = Inr rest"
            using rest rest_j c(1) Target None by simp
          then show ?thesis using us(2) rs(2) rest(1) None by simp
        qed
      qed
    qed
  qed
qed simp

end
