(* ===== verification/Scoring_Properties.thy ===== *)
theory Scoring_Properties
  imports Scoring_Loop
begin

text \<open>
  What the scoring loop promises, on states it reaches, with a concrete round, forecast and
  resolver on which each promise is exercised.
\<close>

subsection \<open>A concrete loop\<close>

definition demo_spec :: "unit parameter_spec" where
  "demo_spec = \<lparr>ps_output = (), scoring_weight = 1, grace_band = 5, cutoff = 100,
     aggressive_direction = Lower, lenient_multiplier = 2, deviation_mode = Absolute, ps_unit = ''bps'',
     confidence_floor_bps = 0, scored_live = True, min_value = 0, max_value = None\<rparr>"

definition demo_resolver :: resolver where
  "demo_resolver ctx n h =
     (case subnet_asset n h ''volatility_bps'' of
        Inl _ \<Rightarrow> Target None
      | Inr c \<Rightarrow> Target (Some \<lparr>rt_coordinate = c, rt_value = Some 240, rt_status = realized_target_resolved,
          rt_payload_hash = None\<rparr>))"

definition demo_output :: "unit output_config" where
  "demo_output = \<lparr>oc_output = ''volatility_bps'', oc_resolver = demo_resolver, oc_spec = demo_spec\<rparr>"

definition demo_accepted :: "(string \<times> (coordinate \<times> int) list) list" where
  "demo_accepted = [(''hk1'', [(rt_coordinate demo_target, 243)])]"

definition demo_scoring :: "(unit, score_db) scoring_config" where
  "demo_scoring = \<lparr>sc_schema_id = ''risk.v1.subnet_alpha'', sc_horizons = [86400],
     sc_universe_members = (\<lambda>_. Inr {8}), sc_accepted_values = (\<lambda>_ _. demo_accepted),
     sc_outputs = [demo_output], sc_active = None, sc_coordinate_for = subnet_asset\<rparr>"

lemma demo_config_ok: "config_ok demo_scoring"
  unfolding config_ok_def
proof
  show "sc_coordinate_for demo_scoring n h name = Inr c \<Longrightarrow> horizon_value c = h" for n h name c
    by (auto simp: demo_scoring_def subnet_asset_Inr)
  show "sc_coordinate_for demo_scoring n h name = Inr c \<Longrightarrow> coord_output c = name" for n h name c
    by (auto simp: demo_scoring_def subnet_asset_Inr)
  show "oc \<in> set (sc_outputs demo_scoring) \<Longrightarrow> oc_resolver oc ctx n h = Target (Some t) \<Longrightarrow>
      sc_coordinate_for demo_scoring n h (oc_output oc) = Inr (rt_coordinate t)" for oc ctx n h t
    by (auto simp: demo_scoring_def demo_output_def demo_resolver_def split: sum.splits)
qed

definition demo_universe :: universe_snapshot where
  "demo_universe = \<lparr>us_round_id = ''2025-01-02'', us_tickers = [''8''], us_source_hash = ''ab''\<rparr>"

definition demo_round :: score_db where
  "demo_round = (case open_round demo_windows (snd demo_key) (Some demo_universe) 10 None empty_score_db of
     Inr d \<Rightarrow> d | Inl _ \<Rightarrow> empty_score_db)"

definition demo_due :: score_db where
  "demo_due = close_round demo_key 41 demo_round"

lemma demo_due_steps: "(loop_step cfg n)\<^sup>*\<^sup>* empty_score_db demo_due"
proof -
  have "open_round demo_windows (snd demo_key) (Some demo_universe) 10 None empty_score_db = Inr demo_round"
    by (simp add: demo_round_def open_round_def demo_windows_def Let_def empty_score_db_def
        empty_db_def db.defs round_of_def)
  then have "loop_step cfg n empty_score_db demo_round" by (intro Lp_rounds St_open)
  moreover have "loop_step cfg n demo_round demo_due" by (intro Lp_rounds St_close) (simp add: demo_due_def)
  ultimately show ?thesis by simp
qed

lemma demo_due_reads:
  "universe_for demo_due demo_key = Inr (Some demo_universe)"
  "realized_targets_for_horizon demo_due demo_key (Some 86400) = []"
  "ema_states demo_due ''risk.v1.subnet_alpha'' = []"
  "\<not> has_resolution_marker demo_due demo_key 86400"
  "hotkeys_eligible_for_round demo_due ''risk.v1.subnet_alpha'' ''2025-01-02'' = {}"
  "round_of demo_due demo_key \<noteq> None"
  "sd_targets demo_due = []" "sd_scores demo_due = []" "sd_emas demo_due = []" "sd_history demo_due = []"
  "sd_markers demo_due = []"
  by code_simp+

lemma demo_resolve:
  "all_coordinates demo_scoring [86400] [(8, demo_output)] = Inr {rt_coordinate demo_target}"
  "resolve_cells demo_scoring neutral_context 86400 {} never 1 [(8, demo_output)] = Inr [demo_target]"
  "resolved_values [demo_target] = [(rt_coordinate demo_target, 240)]"
  "scoring_set demo_scoring [] {rt_coordinate demo_target} {} demo_accepted = [''hk1'']"
  by code_simp+

definition demo_ema_value :: rat where
  "demo_ema_value = ema_alpha 5"

lemma demo_ema_nonneg: "0 \<le> demo_ema_value"
  using ema_alpha_unit [of 5] by (simp add: demo_ema_value_def)

lemma ema_update_first:
  assumes "0 < n"
  shows "ema_update None 1 n = Some (ema_alpha n)" "ema_update None 0 n = Some 0"
proof -
  have "rnd28 (ema_alpha n) = ema_alpha n" using ema_alpha_unit [OF assms] by (auto simp: is_dec_def)
  then show "ema_update None 1 n = Some (ema_alpha n)" "ema_update None 0 n = Some 0"
    using assms by (simp_all add: ema_update_def dec_ops dec.zero Let_def)
qed

definition demo_rows :: cell_rows where
  "demo_rows =
     (\<lparr>os_hotkey = ''hk1'', os_coordinate = rt_coordinate demo_target, os_score = 1, os_error = Some 3\<rparr>,
      \<lparr>es_hotkey = ''hk1'', es_coordinate = rt_coordinate demo_target, es_ema = demo_ema_value, es_resolved_rounds = 1\<rparr>,
      \<lparr>hr_hotkey = ''hk1'', hr_coordinate = rt_coordinate demo_target, hr_round_score = 1, hr_ema_after = demo_ema_value\<rparr>)"

lemma demo_score_cell:
  "score_cell [demo_output] 5 (previous_of []) ''hk1'' [(rt_coordinate demo_target, 243)] (rt_coordinate demo_target, 240)
     = Inr demo_rows"
proof -
  have "observation [demo_output] [(rt_coordinate demo_target, 243)] (rt_coordinate demo_target, 240) = Inr (1, Some 3)"
    by code_simp
  then show ?thesis
    by (simp add: score_cell_def demo_rows_def previous_of_def mk_output_score_def mk_ema_state_def
        mk_score_history_row_def row_def ema_update_first not_less demo_ema_nonneg [unfolded demo_ema_value_def]
        demo_ema_value_def Let_def)
qed

lemma demo_score_round:
  "score_round demo_scoring 5 [] demo_accepted {rt_coordinate demo_target} {} [demo_target] = Inr [(''hk1'', [demo_rows])]"
proof -
  have "map_of demo_accepted ''hk1'' = Some [(rt_coordinate demo_target, 243)]" "sc_outputs demo_scoring = [demo_output]"
    by (simp_all add: demo_accepted_def demo_scoring_def)
  then show ?thesis by (simp add: score_round_def demo_resolve score_hotkey_def demo_score_cell Let_def)
qed

definition demo_pass :: scoring_pass where
  "demo_pass = \<lparr>sp_horizon = 86400, sp_targets = [demo_target], sp_scores = [fst demo_rows],
     sp_emas = [fst (snd demo_rows)], sp_history = [snd (snd demo_rows)], sp_complete = True,
     sp_archive = [], sp_pruned = [], sp_pruned_coordinates = None\<rparr>"

lemma demo_pass_of:
  "pass_of demo_scoring 86400 [] demo_accepted [demo_target] True [] [(''hk1'', [demo_rows])] = demo_pass"
  by (simp add: pass_of_def demo_pass_def demo_rows_def zero_filled_def fully_decayed_def demo_accepted_def
      demo_scoring_def eligible_coordinate_def demo_output_def demo_target_def)

definition demo_scored :: score_db where
  "demo_scored = demo_due
     \<lparr>sd_targets := [\<lparr>te_key = demo_key, te_row = demo_target, te_at = 50\<rparr>],
      sd_scores := [\<lparr>se_key = demo_key, se_row = fst demo_rows, se_at = 50\<rparr>],
      sd_emas := [\<lparr>ee_schema = snd demo_key, ee_row = fst (snd demo_rows), ee_at = 50\<rparr>],
      sd_history := [\<lparr>he_key = demo_key, he_row = snd (snd demo_rows), he_at = 50\<rparr>],
      sd_markers := [\<lparr>mr_key = demo_key, mr_horizon = 86400, mr_at = 50\<rparr>]\<rparr>"

lemma demo_record_pass: "record_scoring_pass demo_key demo_pass 50 demo_due = Inr demo_scored"
  using demo_due_reads(4,6)
  by (simp add: record_scoring_pass_def demo_pass_def insert_realized_targets_def insert_output_scores_def
      insert_score_history_def insert_marker_def references_round_def upsert_ema_def upsert_def
      insert_ignore_def demo_due_reads demo_scored_def Let_def)

lemma demo_resolve_and_score:
  "resolve_and_score demo_scoring 5 ''2025-01-02'' 86400 50 [] neutral_context never demo_due
     = Inr (demo_scored, [(''hk1'', 1)])"
proof -
  have cells: "cells_of [8] [demo_output] = [(8, demo_output)]"
    by (simp add: cells_of_def)
  have key: "(''2025-01-02'', sc_schema_id demo_scoring) = demo_key" "sc_schema_id demo_scoring = ''risk.v1.subnet_alpha''"
    by (simp_all add: demo_scoring_def demo_key_def)
  have fields: "sc_universe_members demo_scoring ts = Inr {8}" "sc_outputs demo_scoring = [demo_output]"
    "sc_horizons demo_scoring = [86400]" "sc_accepted_values demo_scoring d rid = demo_accepted" for ts d rid
    by (simp_all add: demo_scoring_def)
  have score: "concat (map round_score [(''hk1'', [demo_rows])]) = [(''hk1'', 1)]"
  proof -
    have "ddiv (dsum [1]) 1 = 1" by code_simp
    then show ?thesis by (simp add: round_score_def demo_rows_def)
  qed
  have target: "rt_coordinate ` set [demo_target] = {rt_coordinate demo_target}" by simp
  show ?thesis
    unfolding resolve_and_score_def Let_def key(1)
    unfolding key(2) fields demo_due_reads(1)
    unfolding demo_due_reads(2,3,5)
    using demo_due_reads(4)
    by (simp add: cells demo_resolve [unfolded One_nat_def] fields demo_score_round demo_pass_of
        demo_record_pass score [simplified] del: resolve_cells.simps)
qed

lemma demo_scored_steps: "(loop_step demo_scoring 5)\<^sup>*\<^sup>* empty_score_db demo_scored"
  by (rule rtranclp.rtrancl_into_rtrancl [OF demo_due_steps Lp_pass [OF demo_resolve_and_score]])

lemma demo_scored_emas: "ema_states demo_scored (sc_schema_id demo_scoring) = [fst (snd demo_rows)]"
  by (simp add: ema_states_def demo_scored_def demo_scoring_def demo_key_def)

subsection \<open>Properties\<close>

text \<open>
  C23: Every stored average is a score, is the one a history row of its cell records, and counts no
  round twice: its number of resolved rounds is at most the number of rounds the history holds for
  the cell, whatever passes are truncated by their budget, repeated, or interleaved.
\<close>

theorem averages_count_rounds_once:
  assumes "config_ok cfg" "(loop_step cfg n)\<^sup>*\<^sup>* empty_score_db d" "e \<in> set (ema_states d (sc_schema_id cfg))"
  shows "0 \<le> es_ema e \<and> es_ema e \<le> 1
    \<and> es_resolved_rounds e \<le> int (card (observed_rounds d (sc_schema_id cfg) (es_hotkey e) (es_coordinate e)))
    \<and> (\<exists>h \<in> set (sd_history d). snd (he_key h) = sc_schema_id cfg \<and> hr_hotkey (he_row h) = es_hotkey e
         \<and> hr_coordinate (he_row h) = es_coordinate e \<and> hr_ema_after (he_row h) = es_ema e)"
proof -
  have "loop_inv (sc_schema_id cfg) d" by (rule loop_steps_inv [OF assms(2,1) empty_loop_inv])
  then show ?thesis
    using assms(3) by (auto simp: loop_inv_def emas_ok_def ema_states_member ema_ok_def)
qed

lemma averages_count_rounds_once_witness:
  "0 \<le> demo_ema_value \<and> observed_rounds demo_scored (sc_schema_id demo_scoring) ''hk1'' (rt_coordinate demo_target) \<noteq> {}"
proof -
  have "0 \<le> es_ema (fst (snd demo_rows)) \<and> es_resolved_rounds (fst (snd demo_rows))
      \<le> int (card (observed_rounds demo_scored (sc_schema_id demo_scoring)
           (es_hotkey (fst (snd demo_rows))) (es_coordinate (fst (snd demo_rows)))))"
    using averages_count_rounds_once [OF demo_config_ok demo_scored_steps, of "fst (snd demo_rows)"]
    by (simp add: demo_scored_emas)
  then show ?thesis by (auto simp: demo_rows_def)
qed

text \<open>
  C25: The deviation score is a score, and for one target a closer forecast never scores less, nor
  does the same error on the lenient side: with a valid specification, of two forecasts the one
  whose error is no larger, and aggressive only if the other's is, scores at least as much.
\<close>

theorem closer_forecasts_score_higher:
  assumes "spec_ok spec" "cutoff spec < 10 ^ 28" "\<bar>a - target\<bar> \<le> \<bar>b - target\<bar>"
    and "on_aggressive_side (aggressive_direction spec) (a - target)
      \<longrightarrow> on_aggressive_side (aggressive_direction spec) (b - target)"
  shows "0 \<le> deviation_score b target spec \<and> deviation_score b target spec \<le> deviation_score a target spec
    \<and> deviation_score a target spec \<le> 1"
  using deviation_score_mono [OF assms] deviation_score_unit by blast

lemma closer_forecasts_score_higher_witness:
  "deviation_score 100 240 demo_spec \<le> deviation_score 245 240 demo_spec
    \<and> deviation_score 100 240 demo_spec < deviation_score 245 240 demo_spec"
proof -
  have "spec_ok demo_spec" "cutoff demo_spec < 10 ^ 28" by (simp_all add: spec_ok_def demo_spec_def
        validate_parameter_bounds_def max_confidence_bps_def)
  then have "deviation_score 100 240 demo_spec \<le> deviation_score 245 240 demo_spec"
    using closer_forecasts_score_higher [of demo_spec 245 240 100]
    by (simp add: on_aggressive_side_def demo_spec_def)
  moreover have "deviation_score 100 240 demo_spec < deviation_score 245 240 demo_spec" by code_simp
  ultimately show ?thesis by simp
qed

text \<open>
  C24: Skipping never pays: in a pass with the same stored averages, the average a hotkey has after
  any submitted forecast of a cell is at least the one it has after submitting nothing.
\<close>

theorem skipping_never_pays:
  assumes "score_cell outputs n previous hk per cv = Inr (os, es, hr)"
    and "score_cell outputs n previous hk [] cv = Inr (os', es', hr')"
  shows "os_score os' = 0 \<and> es_ema es' \<le> es_ema es \<and> es_resolved_rounds es' = es_resolved_rounds es"
proof -
  note f = score_cell_rows [OF assms(1)] and g = score_cell_rows [OF assms(2)]
  obtain err err' where ob: "observation outputs per cv = Inr (os_score os, err)"
    "observation outputs [] cv = Inr (os_score os', err')" using f(11) g(11) by blast
  have z: "os_score os' = 0" using ob(2) by (auto simp: observation_def split: option.splits)
  have le: "os_score os' \<le> os_score os" using observation_unit [OF ob(1)] z by simp
  have "es_ema es' \<le> es_ema es"
  proof (cases "previous (hk, fst cv)")
    case None
    have first: "ema_update None x n = ema_update (Some 0) x n" for x by (simp add: ema_update_def)
    show ?thesis
      using f(9) g(9) le by (auto simp: None first intro: ema_update_mono)
  next
    case (Some p)
    then show ?thesis using f(9) g(9) le by (auto intro: ema_update_mono)
  qed
  then show ?thesis using z f(10) g(10) by simp
qed

lemma skipping_never_pays_witness: "(0 :: rat) \<le> demo_ema_value"
proof -
  have "observation [demo_output] [] (rt_coordinate demo_target, 240) = Inr (0, None)" by code_simp
  then obtain os es hr where absent:
    "score_cell [demo_output] 5 (previous_of []) ''hk1'' [] (rt_coordinate demo_target, 240) = Inr (os, es, hr)"
    and "es_ema es = 0"
    by (auto simp: score_cell_def previous_of_def mk_output_score_def mk_ema_state_def
        mk_score_history_row_def row_def ema_update_first Let_def)
  then show ?thesis
    using skipping_never_pays [OF demo_score_cell [unfolded demo_rows_def] absent] by simp
qed

text \<open>
  C26: A pass cut short by its budget, or by a resolver that ran into the deadline, loses nothing:
  what it resolved is an initial part of what an unlimited pass resolves, and an unlimited pass over
  the cells that are then left resolves exactly the rest.
\<close>

theorem truncated_pass_resumes:
  assumes "config_ok cfg" "distinct_cells cfg h cells" "\<forall>cell \<in> set cells. snd cell \<in> set (sc_outputs cfg)"
    and "resolve_cells cfg ctx h existing clock i cells = Inr ts"
    and "resolve_cells cfg ctx h existing never j cells = Inr full"
  shows "\<exists>rest. full = ts @ rest
    \<and> resolve_cells cfg ctx h (existing \<union> rt_coordinate ` set ts) never j cells = Inr rest"
  by (rule resolve_resumes [OF assms])

lemma truncated_pass_resumes_witness:
  "\<exists>rest. [demo_target] = [] @ rest
    \<and> resolve_cells demo_scoring neutral_context 86400 ({} \<union> rt_coordinate ` set ([] :: realized_target list)) never 1 [(8, demo_output)] = Inr rest"
proof -
  have "cell_coordinate demo_scoring 86400 (8, demo_output) = Inr (rt_coordinate demo_target)" by code_simp
  then have d: "distinct_cells demo_scoring 86400 [(8, demo_output)]"
    and r: "resolve_cells demo_scoring neutral_context 86400 {} (\<lambda>i. i = 1) 1 [(8, demo_output)] = Inr []"
    by (simp_all add: distinct_cells_def cell_of_def)
  have outs: "\<forall>cell \<in> set [(8 :: int, demo_output)]. snd cell \<in> set (sc_outputs demo_scoring)"
    by (simp add: demo_scoring_def)
  show ?thesis by (rule truncated_pass_resumes [OF demo_config_ok d outs r demo_resolve(2)])
qed

end
