(* ===== verification/Sampling.thy ===== *)
theory Sampling
  imports Market_Data Dates
begin

text \<open>
  Sampling decisions for archive series (\<open>endure/scoring/market_sampling.py\<close>): which failures are
  outages, the canonical blocks of a window, the two bisections that map a timestamp to a finalized
  block, and the gap policy of one series.  A timestamp lookup is a callable with effects: it takes
  and returns the state of the outside world, and may fail.  The bisections are total, ask for at
  most one block per halving, and find the boundary when the timestamps of the chain ascend.
\<close>

type_synonym ('w, 'a) archive_read = "'w \<Rightarrow> 'w \<times> (archive_failure + 'a)"

text \<open>Sequencing of effectful reads: a failure ends the computation.\<close>

definition wbind :: "('w, 'a) archive_read \<Rightarrow> ('a \<Rightarrow> ('w, 'b) archive_read) \<Rightarrow> ('w, 'b) archive_read" where
  "wbind m f w = (case m w of (w', Inl e) \<Rightarrow> (w', Inl e) | (w', Inr a) \<Rightarrow> f a w')"

lemma wbind_simps [simp]:
  "m w = (w', Inl e) \<Longrightarrow> wbind m f w = (w', Inl e)"
  "m w = (w', Inr a) \<Longrightarrow> wbind m f w = f a w'"
  by (simp_all add: wbind_def)

subsection \<open>Failures\<close>

definition archive_connection_failures :: "archive_failure list" where
  "archive_connection_failures =
     [Connection_error, Os_error, Runtime_error, Timeout_error, Substrate_error]"

definition archive_fetch_failures :: "archive_failure list" where
  "archive_fetch_failures =
     [Connection_error, Lookup_error, Os_error, Runtime_error, Timeout_error, Substrate_error]"

definition snapshot_fetch_failures :: "archive_failure list" where
  "snapshot_fetch_failures =
     archive_connection_failures @ [Market_data_error, Market_data_unavailable, Lookup_error]"

definition require_archive_value :: "'a option \<Rightarrow> archive_failure + 'a" where
  "require_archive_value v = (case v of None \<Rightarrow> Inl Lookup_error | Some x \<Rightarrow> Inr x)"

definition retry_exhausted_failure :: "archive_failure \<Rightarrow> archive_failure" where
  "retry_exhausted_failure e = (if e = Lookup_error then Lookup_error else Connection_error)"

definition snapshot_failure_is_outage :: "archive_failure \<Rightarrow> bool" where
  "snapshot_failure_is_outage e \<longleftrightarrow>
     e \<in> set archive_connection_failures \<or> e = Market_data_unavailable"

definition scoring_archive_attempts :: nat where
  "scoring_archive_attempts = 6"

definition max_consecutive_archive_gaps :: nat where
  "max_consecutive_archive_gaps = 2"

subsection \<open>Blocks of a window\<close>

definition block_seconds :: int where
  "block_seconds = 12"

definition cadence_seconds :: int where
  "cadence_seconds = 2 * 60 * 60"

definition cadence_blocks :: int where
  "cadence_blocks = cadence_seconds div block_seconds"

text \<open>\<open>range(first, stop, step)\<close> for a positive step.\<close>

definition range_step :: "int \<Rightarrow> int \<Rightarrow> int \<Rightarrow> int list" where
  "range_step first stop step =
     map (\<lambda>i. first + int i * step) [0..<nat ((stop - first + step - 1) div step)]"

definition canonical_snapshot_blocks :: "resolution_window \<Rightarrow> int list" where
  "canonical_snapshot_blocks w =
     range_step (rw_start_block w + cadence_blocks) (end_block w + 1) cadence_blocks"

subsection \<open>Timestamps\<close>

definition unix_epoch :: datetime where
  "unix_epoch = 719162 * day"

definition utc_timestamp_milliseconds :: "datetime \<Rightarrow> int" where
  "utc_timestamp_milliseconds value =
     (let elapsed = value - unix_epoch; days = elapsed div day; rest = elapsed mod day;
          seconds = rest div second; microseconds = rest mod second
      in (days * 86400 + seconds) * 1000 + microseconds div 1000)"

subsection \<open>Bisection\<close>

text \<open>The loop of both searches: \<open>past\<close> is its comparison with the timestamp.\<close>

function bisect_blocks ::
  "(int \<Rightarrow> bool) \<Rightarrow> (int \<Rightarrow> ('w, int) archive_read) \<Rightarrow> int \<Rightarrow> int \<Rightarrow> ('w, int) archive_read" where
  "bisect_blocks past timestamp_at lower upper w =
     (if lower < upper
      then (let midpoint = lower + (upper - lower) div 2
            in case timestamp_at midpoint w of
                 (w', Inl e) \<Rightarrow> (w', Inl e)
               | (w', Inr t) \<Rightarrow>
                   if past t then bisect_blocks past timestamp_at lower midpoint w'
                   else bisect_blocks past timestamp_at (midpoint + 1) upper w')
      else (w, Inr lower))"
  by pat_completeness auto
termination
  by (relation "measure (\<lambda>(past, ts, lower, upper, w). nat (upper - lower))") auto

declare bisect_blocks.simps [simp del]

definition first_block_at_or_after ::
  "int \<Rightarrow> int \<Rightarrow> (int \<Rightarrow> ('w, int) archive_read) \<Rightarrow> ('w, int) archive_read" where
  "first_block_at_or_after timestamp_ms finalized_block timestamp_at =
     wbind (timestamp_at finalized_block) (\<lambda>finalized_timestamp w.
       if finalized_timestamp < timestamp_ms then (w, Inl Market_data_unavailable)
       else if finalized_timestamp = timestamp_ms then (w, Inr finalized_block)
       else bisect_blocks (\<lambda>t. timestamp_ms \<le> t) timestamp_at 0 finalized_block w)"

definition last_block_at_or_before ::
  "int \<Rightarrow> int \<Rightarrow> (int \<Rightarrow> ('w, int) archive_read) \<Rightarrow> ('w, int) archive_read" where
  "last_block_at_or_before timestamp_ms finalized_block timestamp_at =
     wbind (timestamp_at finalized_block) (\<lambda>finalized_timestamp w.
       if finalized_timestamp < timestamp_ms then (w, Inl Market_data_unavailable)
       else if finalized_timestamp = timestamp_ms then (w, Inr finalized_block)
       else wbind (bisect_blocks (\<lambda>t. timestamp_ms < t) timestamp_at 0 finalized_block) (\<lambda>lower w.
         let last_block = lower - 1
         in (w, if last_block < 0 then Inl Market_data_unavailable else Inr last_block)) w)"

subsection \<open>The gap policy\<close>

record sampling =
  sm_snapshots :: "price_snapshot list"
  sm_skipped_future :: bool
  sm_archive_unavailable :: bool
  sm_consecutive_gaps :: nat

definition new_sampling :: sampling where
  "new_sampling = \<lparr>sm_snapshots = [], sm_skipped_future = False, sm_archive_unavailable = False,
     sm_consecutive_gaps = 0\<rparr>"

definition future_block :: "sampling \<Rightarrow> sampling" where
  "future_block s = s\<lparr>sm_skipped_future := True\<rparr>"

definition gap :: "bool \<Rightarrow> sampling \<Rightarrow> sampling \<times> bool" where
  "gap connection_available s =
     (if connection_available then (s\<lparr>sm_consecutive_gaps := 0\<rparr>, False)
      else let n = sm_consecutive_gaps s + 1
           in (s\<lparr>sm_archive_unavailable := True, sm_consecutive_gaps := n\<rparr>,
               max_consecutive_archive_gaps \<le> n))"

definition sampled :: "price_snapshot \<Rightarrow> sampling \<Rightarrow> sampling" where
  "sampled x s = s\<lparr>sm_consecutive_gaps := 0, sm_snapshots := sm_snapshots s @ [x]\<rparr>"

definition finish :: "sampling \<Rightarrow> archive_failure + price_snapshot list" where
  "finish s =
     (if sm_archive_unavailable s then Inl Market_data_unavailable
      else if sm_skipped_future s then Inl Market_data_unavailable
      else Inr (sm_snapshots s))"

subsection \<open>What a bisection finds and costs\<close>

lemma bisect_blocks_boundary:
  assumes "\<And>k w. lower \<le> k \<Longrightarrow> k < upper \<Longrightarrow> snd (ts k w) = Inr (f k)"
    "\<And>j k. lower \<le> j \<Longrightarrow> j \<le> k \<Longrightarrow> k < upper \<Longrightarrow> past (f j) \<Longrightarrow> past (f k)" "lower \<le> upper"
  shows "\<exists>b. snd (bisect_blocks past ts lower upper w) = Inr b \<and> lower \<le> b \<and> b \<le> upper
    \<and> (\<forall>k. lower \<le> k \<and> k < upper \<longrightarrow> (past (f k) \<longleftrightarrow> b \<le> k))"
  using assms
proof (induction past ts lower upper w rule: bisect_blocks.induct)
  case (1 past ts lower upper w)
  show ?case
  proof (cases "lower < upper")
    case True
    define m where "m = lower + (upper - lower) div 2"
    have m: "lower \<le> m" "m < upper" unfolding m_def using True by linarith+
    obtain w' where at: "ts m w = (w', Inr (f m))"
      using "1.prems"(1) [OF m, of w] by (cases "ts m w") simp
    have eq: "bisect_blocks past ts lower upper w = (if past (f m) then bisect_blocks past ts lower m w'
        else bisect_blocks past ts (m + 1) upper w')"
      using True at by (simp add: bisect_blocks.simps [of past ts lower upper] m_def [symmetric] Let_def)
    show ?thesis
    proof (cases "past (f m)")
      case p: True
      have "\<exists>b. snd (bisect_blocks past ts lower m w') = Inr b \<and> lower \<le> b \<and> b \<le> m
          \<and> (\<forall>k. lower \<le> k \<and> k < m \<longrightarrow> (past (f k) \<longleftrightarrow> b \<le> k))"
      proof (rule "1.IH"(1) [OF True m_def at [symmetric] refl p])
        show "snd (ts k w) = Inr (f k)" if "lower \<le> k" "k < m" for k w
          using "1.prems"(1) that m by simp
        show "past (f k)" if "lower \<le> j" "j \<le> k" "k < m" "past (f j)" for j k
          using "1.prems"(2) [of j k] that m by simp
      qed (rule m)
      then obtain b where b: "snd (bisect_blocks past ts lower m w') = Inr b" "lower \<le> b" "b \<le> m"
        "\<forall>k. lower \<le> k \<and> k < m \<longrightarrow> (past (f k) \<longleftrightarrow> b \<le> k)" by blast
      have "past (f k) \<longleftrightarrow> b \<le> k" if "lower \<le> k" "k < upper" for k
      proof (cases "k < m")
        case False
        with p that "1.prems"(2) [of m k] m b(3) show ?thesis by simp
      qed (use b(4) that in simp)
      with b m p eq show ?thesis by (intro exI [of _ b]) simp
    next
      case p: False
      have "\<exists>b. snd (bisect_blocks past ts (m + 1) upper w') = Inr b \<and> m + 1 \<le> b \<and> b \<le> upper
          \<and> (\<forall>k. m + 1 \<le> k \<and> k < upper \<longrightarrow> (past (f k) \<longleftrightarrow> b \<le> k))"
      proof (rule "1.IH"(2) [OF True m_def at [symmetric] refl p])
        show "snd (ts k w) = Inr (f k)" if "m + 1 \<le> k" "k < upper" for k w
          using "1.prems"(1) that m by simp
        show "past (f k)" if "m + 1 \<le> j" "j \<le> k" "k < upper" "past (f j)" for j k
          using "1.prems"(2) [of j k] that m by simp
      qed (use m in simp)
      then obtain b where b: "snd (bisect_blocks past ts (m + 1) upper w') = Inr b" "m + 1 \<le> b" "b \<le> upper"
        "\<forall>k. m + 1 \<le> k \<and> k < upper \<longrightarrow> (past (f k) \<longleftrightarrow> b \<le> k)" by blast
      have "past (f k) \<longleftrightarrow> b \<le> k" if "lower \<le> k" "k < upper" for k
      proof (cases "m < k")
        case False
        with p that "1.prems"(2) [of k m] m b(2) show ?thesis by auto
      qed (use b(4) that in simp)
      with b m p eq show ?thesis by (intro exI [of _ b]) simp
    qed
  next
    case False
    then have "lower = upper" using "1.prems"(3) by simp
    then have "snd (bisect_blocks past ts lower upper w) = Inr upper"
      by (subst bisect_blocks.simps) simp
    with \<open>lower = upper\<close> show ?thesis by (intro exI [of _ upper]) auto
  qed
qed

lemma bisect_blocks_cost:
  assumes "\<And>k c. fst (ts k c) = Suc c" "upper - lower < 2 ^ n"
  shows "fst (bisect_blocks past ts lower upper c) \<le> c + n"
  using assms
proof (induction past ts lower upper c arbitrary: n rule: bisect_blocks.induct)
  case (1 past ts lower upper c)
  show ?case
  proof (cases "lower < upper")
    case True
    define m where "m = lower + (upper - lower) div 2"
    obtain k where n: "n = Suc k" using "1.prems"(2) True by (cases n) auto
    then have small: "m - lower < 2 ^ k" "upper - (m + 1) < 2 ^ k"
      unfolding m_def using "1.prems"(2) by simp_all
    obtain r where at: "ts m c = (Suc c, r)" using "1.prems"(1) [of m c] by (metis prod.collapse)
    have eq: "bisect_blocks past ts lower upper c = (case r of Inl e \<Rightarrow> (Suc c, Inl e)
        | Inr t \<Rightarrow> if past t then bisect_blocks past ts lower m (Suc c)
                   else bisect_blocks past ts (m + 1) upper (Suc c))"
      using True by (subst bisect_blocks.simps) (simp add: m_def [symmetric] at Let_def)
    show ?thesis
    proof (cases r)
      case (Inr t)
      then have a: "(Suc c, Inr t) = ts m c" using at by simp
      show ?thesis
      proof (cases "past t")
        case p: True
        have "fst (bisect_blocks past ts lower m (Suc c)) \<le> Suc c + k"
          by (rule "1.IH"(1) [OF True m_def a refl p]) (rule "1.prems"(1), rule small(1))
        then show ?thesis by (simp add: eq n Inr p)
      next
        case p: False
        have "fst (bisect_blocks past ts (m + 1) upper (Suc c)) \<le> Suc c + k"
          by (rule "1.IH"(2) [OF True m_def a refl p]) (rule "1.prems"(1), rule small(2))
        then show ?thesis by (simp add: eq n Inr p)
      qed
    qed (simp add: eq n)
  qed (simp add: bisect_blocks.simps [of past ts lower upper])
qed

text \<open>A chain whose finalized blocks carry ascending timestamps, as a lookup sees it.\<close>

definition ascending_chain :: "(int \<Rightarrow> ('w, int) archive_read) \<Rightarrow> (int \<Rightarrow> int) \<Rightarrow> int \<Rightarrow> bool" where
  "ascending_chain timestamp_at f finalized \<longleftrightarrow> 0 \<le> finalized
     \<and> (\<forall>k w. 0 \<le> k \<and> k \<le> finalized \<longrightarrow> snd (timestamp_at k w) = Inr (f k))
     \<and> (\<forall>j k. 0 \<le> j \<and> j < k \<and> k \<le> finalized \<longrightarrow> f j < f k)"

lemma ascending_chainD:
  assumes "ascending_chain ts f fin"
  shows "0 \<le> fin" "0 \<le> k \<Longrightarrow> k \<le> fin \<Longrightarrow> snd (ts k w) = Inr (f k)"
    "0 \<le> j \<Longrightarrow> j \<le> k \<Longrightarrow> k \<le> fin \<Longrightarrow> f j \<le> f k"
    "0 \<le> j \<Longrightarrow> j < k \<Longrightarrow> k \<le> fin \<Longrightarrow> f j < f k"
  using assms by (auto simp: ascending_chain_def le_less)

lemma search_boundary:
  assumes "ascending_chain ts f fin" "\<And>a b. a \<le> b \<Longrightarrow> past a \<Longrightarrow> past b"
  obtains b where "snd (bisect_blocks past ts 0 fin w) = Inr b" "0 \<le> b" "b \<le> fin"
    "\<And>k. 0 \<le> k \<Longrightarrow> k < fin \<Longrightarrow> past (f k) \<longleftrightarrow> b \<le> k"
proof -
  have "\<exists>b. snd (bisect_blocks past ts 0 fin w) = Inr b \<and> 0 \<le> b \<and> b \<le> fin
      \<and> (\<forall>k. 0 \<le> k \<and> k < fin \<longrightarrow> (past (f k) \<longleftrightarrow> b \<le> k))"
  proof (rule bisect_blocks_boundary)
    show "snd (ts k w) = Inr (f k)" if "0 \<le> k" "k < fin" for k w
      using ascending_chainD(2) [OF assms(1)] that by simp
    show "past (f k)" if "0 \<le> j" "j \<le> k" "k < fin" "past (f j)" for j k
      using ascending_chainD(3) [OF assms(1), of j k] assms(2) that by simp
  qed (rule ascending_chainD(1) [OF assms(1)])
  then show ?thesis using that by blast
qed

lemma first_block_iff:
  assumes "ascending_chain ts f fin"
  shows "snd (first_block_at_or_after t fin ts w) = Inr b \<longleftrightarrow>
    0 \<le> b \<and> b \<le> fin \<and> t \<le> f b \<and> (\<forall>k. 0 \<le> k \<and> k < b \<longrightarrow> f k < t)"
proof -
  note chain = ascending_chainD [OF assms(1)]
  obtain w' where w': "ts fin w = (w', Inr (f fin))"
    using chain(2) [of fin] chain(1) by (metis order_refl prod.collapse)
  consider "f fin < t" | "f fin = t" | "t < f fin" by linarith
  then show ?thesis
  proof cases
    case 1
    then show ?thesis using chain(3) [of b fin] by (auto simp: first_block_at_or_after_def w')
  next
    case 2
    then have "snd (first_block_at_or_after t fin ts w) = Inr fin"
      by (simp add: first_block_at_or_after_def w')
    with 2 show ?thesis using chain(1) chain(4) [of b fin] chain(4) [of _ fin] by force
  next
    case 3
    obtain c where c: "snd (bisect_blocks (\<lambda>x. t \<le> x) ts 0 fin w') = Inr c" "0 \<le> c" "c \<le> fin"
      "\<And>k. 0 \<le> k \<Longrightarrow> k < fin \<Longrightarrow> t \<le> f k \<longleftrightarrow> c \<le> k"
      by (rule search_boundary [OF assms(1), of "\<lambda>x. t \<le> x" w']) auto
    have all: "t \<le> f k \<longleftrightarrow> c \<le> k" if "0 \<le> k" "k \<le> fin" for k
      using c(3) c(4) [of k] 3 that by (cases "k = fin") auto
    have "snd (first_block_at_or_after t fin ts w) = Inr c"
      using 3 c(1) by (simp add: first_block_at_or_after_def w')
    moreover have "b = c \<longleftrightarrow> 0 \<le> b \<and> b \<le> fin \<and> t \<le> f b \<and> (\<forall>k. 0 \<le> k \<and> k < b \<longrightarrow> f k < t)"
      (is "_ \<longleftrightarrow> ?R")
    proof
      assume "b = c"
      then show ?R using all c(2,3) by (auto simp: not_le [symmetric])
    next
      assume R: ?R
      then have "c \<le> b" using all by blast
      moreover have "\<not> c < b" using R all [of c] c(2,3) by force
      ultimately show "b = c" by simp
    qed
    ultimately show ?thesis by auto
  qed
qed

lemma last_block_iff:
  assumes "ascending_chain ts f fin"
  shows "snd (last_block_at_or_before t fin ts w) = Inr b \<longleftrightarrow>
    0 \<le> b \<and> b \<le> fin \<and> t \<le> f fin \<and> f b \<le> t \<and> (\<forall>k. b < k \<and> k \<le> fin \<longrightarrow> t < f k)"
proof -
  note chain = ascending_chainD [OF assms(1)]
  obtain w' where w': "ts fin w = (w', Inr (f fin))"
    using chain(2) [of fin] chain(1) by (metis order_refl prod.collapse)
  consider "f fin < t" | "f fin = t" | "t < f fin" by linarith
  then show ?thesis
  proof cases
    case 1
    then show ?thesis by (auto simp: last_block_at_or_before_def w')
  next
    case 2
    then have "snd (last_block_at_or_before t fin ts w) = Inr fin"
      by (simp add: last_block_at_or_before_def w')
    with 2 show ?thesis using chain(1) by force
  next
    case 3
    obtain c where c: "snd (bisect_blocks (\<lambda>x. t < x) ts 0 fin w') = Inr c" "0 \<le> c" "c \<le> fin"
      "\<And>k. 0 \<le> k \<Longrightarrow> k < fin \<Longrightarrow> t < f k \<longleftrightarrow> c \<le> k"
      by (rule search_boundary [OF assms(1), of "\<lambda>x. t < x" w']) auto
    have all: "t < f k \<longleftrightarrow> c \<le> k" if "0 \<le> k" "k \<le> fin" for k
      using c(3) c(4) [of k] 3 that by (cases "k = fin") auto
    obtain v where v: "bisect_blocks (\<lambda>x. t < x) ts 0 fin w' = (v, Inr c)"
      using c(1) by (metis prod.collapse)
    have "snd (last_block_at_or_before t fin ts w) =
        (if c - 1 < 0 then Inl Market_data_unavailable else Inr (c - 1))"
      using 3 by (simp add: last_block_at_or_before_def w' v Let_def)
    moreover have "0 \<le> b \<and> b = c - 1 \<longleftrightarrow>
        0 \<le> b \<and> b \<le> fin \<and> t \<le> f fin \<and> f b \<le> t \<and> (\<forall>k. b < k \<and> k \<le> fin \<longrightarrow> t < f k)"
      (is "_ \<longleftrightarrow> ?R")
    proof
      assume b: "0 \<le> b \<and> b = c - 1"
      then have "f b \<le> t" using all [of b] c(3) by simp
      moreover have "\<forall>k. b < k \<and> k \<le> fin \<longrightarrow> t < f k" using all b by simp
      ultimately show ?R using b c(3) 3 by (simp add: less_imp_le)
    next
      assume R: ?R
      then have "b < c" using all [of b] by simp
      moreover have "\<not> b + 1 < c" using R all [of "b + 1"] c(2,3) by force
      ultimately show "0 \<le> b \<and> b = c - 1" using R by simp
    qed
    ultimately show ?thesis by auto
  qed
qed

text \<open>C28: on a chain whose timestamps ascend, the first search returns a block exactly when it is the
  first finalized one at or after the timestamp, the last search exactly when the head covers the
  timestamp and it is the last one at or before it.\<close>

theorem searches_find_boundaries:
  assumes "ascending_chain timestamp_at f finalized"
  shows "(snd (first_block_at_or_after t finalized timestamp_at w) = Inr b \<longleftrightarrow>
      0 \<le> b \<and> b \<le> finalized \<and> t \<le> f b \<and> (\<forall>k. 0 \<le> k \<and> k < b \<longrightarrow> f k < t))
    \<and> (snd (last_block_at_or_before t finalized timestamp_at w) = Inr b \<longleftrightarrow>
      0 \<le> b \<and> b \<le> finalized \<and> t \<le> f finalized \<and> f b \<le> t
      \<and> (\<forall>k. b < k \<and> k \<le> finalized \<longrightarrow> t < f k))"
  using first_block_iff [OF assms] last_block_iff [OF assms] by blast

theorem searches_find_boundaries_witness:
  "snd (first_block_at_or_after 25 7 (\<lambda>k w. (Suc w, Inr (10 * k))) 0) = Inr 3
    \<and> snd (last_block_at_or_before 25 7 (\<lambda>k w. (Suc w, Inr (10 * k))) 0) = Inr 2"
proof -
  have "ascending_chain (\<lambda>k w. (Suc w, Inr (10 * k))) (\<lambda>k. 10 * k) 7"
    by (simp add: ascending_chain_def)
  from searches_find_boundaries [OF this, of 25] show ?thesis by auto
qed

text \<open>C29: both searches terminate, with at most one lookup for the head and one for each halving of
  the chain, whatever the lookups answer and wherever they fail.\<close>

theorem searches_are_logarithmic:
  fixes answer :: "int \<Rightarrow> archive_failure + int"
  defines "counted \<equiv> (\<lambda>k c. (Suc c, answer k))"
  assumes "finalized < 2 ^ n"
  shows "fst (first_block_at_or_after t finalized counted 0) \<le> Suc n
    \<and> fst (last_block_at_or_before t finalized counted 0) \<le> Suc n"
proof -
  have "fst (bisect_blocks past counted 0 finalized (Suc 0)) \<le> Suc 0 + n" for past
    by (rule bisect_blocks_cost) (use assms in simp_all)
  then have *: "fst (bisect_blocks past counted 0 finalized (Suc 0)) \<le> Suc n" for past by simp
  show ?thesis
    using * [of "\<lambda>x. t \<le> x"] * [of "\<lambda>x. t < x"]
    by (auto simp: first_block_at_or_after_def last_block_at_or_before_def wbind_def counted_def Let_def
        split: sum.splits prod.splits)
qed

theorem searches_are_logarithmic_witness:
  "fst (first_block_at_or_after 25 (10 ^ 7) (\<lambda>k c. (Suc c, Inr (12 * k))) 0) \<le> 25"
  using searches_are_logarithmic [of "10 ^ 7" 24 25 "\<lambda>k. Inr (12 * k)"] by simp

end
