(* ===== verification/Risk_Observables.thy ===== *)
theory Risk_Observables
  imports Sampling
begin

text \<open>
  The realized-value estimators of Alpha Risk (\<open>endure/scoring/risk/observables.py\<close>): windows and
  voiding, drawdown, annualised volatility, and the two block-weighted means.  Values are computed
  with the rounding of \<open>Decimal28\<close>; \<open>Decimal.ln\<close> and \<open>Decimal.sqrt\<close>, which the specification of
  decimal arithmetic defines as the real function rounded half-even, are that rounding of \<open>ln\<close> and
  \<open>sqrt\<close> on the reals, the only definitions here without an executable right-hand side.
\<close>

subsection \<open>Windows\<close>

definition seconds_per_year :: int where
  "seconds_per_year = 365 * 24 * 60 * 60"

definition min_realized_window_snapshots :: nat where
  "min_realized_window_snapshots = 20"

definition min_volatility_snapshots :: nat where
  "min_volatility_snapshots = 2"

definition min_volatility_exact_cadence_returns :: nat where
  "min_volatility_exact_cadence_returns = min_realized_window_snapshots div 2"

definition min_coverage_numerator :: int where
  "min_coverage_numerator = 4"

definition min_coverage_denominator :: int where
  "min_coverage_denominator = 5"

definition rao_per_tao :: rat where
  "rao_per_tao = 1000000000"

definition horizon_seconds_to_blocks :: "int \<Rightarrow> archive_failure + int" where
  "horizon_seconds_to_blocks horizon_seconds =
     (if horizon_seconds \<le> 0 then Inl Market_data_error
      else if horizon_seconds mod block_seconds \<noteq> 0 then Inl Market_data_error
      else Inr (horizon_seconds div block_seconds))"

definition filter_snapshots_for_window ::
  "price_snapshot list \<Rightarrow> int \<Rightarrow> int \<Rightarrow> archive_failure + price_snapshot list" where
  "filter_snapshots_for_window series start horizon_blocks =
     (if horizon_blocks \<le> 0 then Inl Market_data_error
      else Inr (filter (\<lambda>s. start < ps_block s \<and> ps_block s \<le> start + horizon_blocks) series))"

definition should_void_realized_window :: "price_snapshot list \<Rightarrow> int \<Rightarrow> bool" where
  "should_void_realized_window series horizon_blocks =
     (if length series < min_realized_window_snapshots then True
      else let span = ps_block (last series) - ps_block (hd series)
           in span * min_coverage_denominator < horizon_blocks * min_coverage_numerator)"

definition price_of :: "price_snapshot \<Rightarrow> rat" where
  "price_of s = dval (ps_price s)"

text \<open>\<open>int(value.quantize(Decimal("1")))\<close>.\<close>

definition quantize_int :: "rat \<Rightarrow> archive_failure + int" where
  "quantize_int x = ebind (quantize 0 x) (\<lambda>d. Inr (dec_int (dval d)))"

subsection \<open>Drawdown\<close>

text \<open>The loop: running peak, worst drawdown.\<close>

fun drawdown_scan :: "rat \<Rightarrow> rat \<Rightarrow> rat list \<Rightarrow> rat" where
  "drawdown_scan peak worst [] = worst"
| "drawdown_scan peak worst (price # prices) =
     (let peak = max peak price; drawdown = dsub 1 (ddiv price peak)
      in drawdown_scan peak (max worst drawdown) prices)"

definition max_drawdown_bps :: "price_snapshot list \<Rightarrow> archive_failure + int" where
  "max_drawdown_bps series =
     (if series = [] then Inl Market_data_error
      else quantize_int (dmul (drawdown_scan (price_of (hd series)) 0 (map price_of series)) 10000))"

subsection \<open>Volatility\<close>

definition rndp_real :: "nat \<Rightarrow> real \<Rightarrow> rat" where
  "rndp_real p y =
     (if y = 0 then 0
      else let e = \<lfloor>log 10 \<bar>y\<bar>\<rfloor> - int p + 1; x = y * 10 powi (- e); f = \<lfloor>x\<rfloor>; r = x - of_int f;
               n = (if r < 1/2 then f else if 1/2 < r then f + 1 else if even f then f else f + 1)
           in of_int n * 10 powi e)"

definition dln :: "rat \<Rightarrow> rat" where
  "dln x = rndp_real tr_prec (ln (of_rat x))"

definition dsqrt :: "rat \<Rightarrow> rat" where
  "dsqrt x = rndp_real tr_prec (sqrt (of_rat x))"

text \<open>What evaluation needs of them: an unchanged price has no return.\<close>

lemma dln_code [code]: "dln x = (if x = 1 then 0 else dln x)"
  by (simp add: dln_def rndp_real_def)

lemma dsqrt_code [code]: "dsqrt x = (if x = 0 then 0 else dsqrt x)"
  by (simp add: dsqrt_def rndp_real_def)

definition exact_cadence_returns :: "price_snapshot list \<Rightarrow> int \<Rightarrow> rat list" where
  "exact_cadence_returns series cadence =
     map (\<lambda>(previous, current). dln (ddiv (price_of current) (price_of previous)))
       (filter (\<lambda>(previous, current). ps_block current - ps_block previous = cadence)
          (zip series (tl series)))"

definition realized_volatility_bps :: "price_snapshot list \<Rightarrow> int \<Rightarrow> archive_failure + int" where
  "realized_volatility_bps series cadence =
     (if length series < min_volatility_snapshots then Inl Market_data_error
      else if cadence \<le> 0 then Inl Market_data_error
      else
        let returns = exact_cadence_returns series cadence
        in if length returns < min_volatility_exact_cadence_returns then Inl Market_data_error
           else
             let n = of_nat (length returns);
                 mean = ddiv (dsum returns) n;
                 variance = ddiv (dsum (map (\<lambda>x. dpow (dsub x mean) 2) returns)) n;
                 periods_per_year = ddiv (of_int seconds_per_year) (of_int (cadence * block_seconds))
             in quantize_int (dmul (dmul (dsqrt variance) (dsqrt periods_per_year)) 10000))"

subsection \<open>Block-weighted means\<close>

fun weighted_scan ::
  "rat \<Rightarrow> int \<Rightarrow> int \<Rightarrow> (price_snapshot \<times> rat) list \<Rightarrow> archive_failure + rat \<times> int" where
  "weighted_scan weighted_sum total_weight previous_block [] = Inr (weighted_sum, total_weight)"
| "weighted_scan weighted_sum total_weight previous_block ((s, v) # rest) =
     (let span = ps_block s - previous_block
      in if span \<le> 0 then Inl Market_data_error
         else let weight = min span cadence_blocks
              in weighted_scan (dadd weighted_sum (dmul v (of_int weight))) (total_weight + weight)
                   (ps_block s) rest)"

definition block_weighted_decimal ::
  "price_snapshot list \<Rightarrow> int \<Rightarrow> rat list \<Rightarrow> archive_failure + int" where
  "block_weighted_decimal series window_start values =
     (if series = [] then Inl Market_data_error
      else if length series \<noteq> length values then Inl Market_data_error
      else if ps_block (hd series) \<le> window_start then Inl Market_data_error
      else ebind (weighted_scan 0 0 window_start (zip series values)) (\<lambda>(weighted_sum, total_weight).
        quantize_int (ddiv weighted_sum (of_int total_weight))))"

definition twap_price_rao :: "price_snapshot list \<Rightarrow> int \<Rightarrow> archive_failure + int" where
  "twap_price_rao series window_start =
     block_weighted_decimal series window_start (map (\<lambda>s. dmul (price_of s) rao_per_tao) series)"

definition liquidity_depth_rao :: "price_snapshot list \<Rightarrow> int \<Rightarrow> archive_failure + int" where
  "liquidity_depth_rao series window_start =
     block_weighted_decimal series window_start (map (\<lambda>s. of_int (ps_tao_reserve s)) series)"

subsection \<open>The drawdown is the worst pair\<close>

definition fall :: "rat \<Rightarrow> rat \<Rightarrow> rat" where
  "fall peak price = dsub 1 (ddiv price peak)"

lemma fall_mono: "0 < q \<Longrightarrow> q \<le> r \<Longrightarrow> 0 \<le> p \<Longrightarrow> fall q p \<le> fall r p"
  by (simp add: fall_def dec_ops dec.mono divide_left_mono)

lemma fall_self: "0 < p \<Longrightarrow> fall p p = 0"
  by (simp add: fall_def dec_ops dec.one dec.zero)

lemma fall_le_1: "0 < q \<Longrightarrow> 0 \<le> p \<Longrightarrow> fall q p \<le> 1"
  unfolding fall_def dec_ops by (intro dec.le_fix dec.one) (simp add: dec.nonneg)

lemma drawdown_scan_Cons:
  "drawdown_scan peak worst (p # ps) = drawdown_scan (max peak p) (max worst (fall (max peak p) p)) ps"
  by (simp add: Let_def fall_def)

declare drawdown_scan.simps(2) [simp del]

lemma drawdown_scan_worst: "worst \<le> drawdown_scan peak worst ps"
proof (induction ps arbitrary: peak worst)
  case (Cons p ps)
  have "worst \<le> max worst (fall (max peak p) p)" by simp
  also have "\<dots> \<le> drawdown_scan peak worst (p # ps)" unfolding drawdown_scan_Cons by (rule Cons)
  finally show ?case .
qed simp

lemma drawdown_scan_upper:
  "(\<forall>p \<in> set ps. 0 < p) \<Longrightarrow> 0 < peak \<Longrightarrow> j < length ps \<Longrightarrow>
     q = peak \<or> q \<in> set (take (Suc j) ps) \<Longrightarrow> fall q (ps ! j) \<le> drawdown_scan peak worst ps"
proof (induction ps arbitrary: peak worst j q)
  case (Cons p ps)
  note eq = drawdown_scan_Cons [of peak worst p ps]
  show ?case
  proof (cases j)
    case 0
    then have q: "q = peak \<or> q = p" using Cons.prems(4) by simp
    then have "fall q p \<le> fall (max peak p) p" using Cons.prems by (intro fall_mono) auto
    also have "\<dots> \<le> max worst (fall (max peak p) p)" by simp
    also have "\<dots> \<le> drawdown_scan peak worst (p # ps)" unfolding eq by (rule drawdown_scan_worst)
    finally show ?thesis by (simp add: 0)
  next
    case (Suc i)
    have i: "i < length ps" "0 < ps ! i" using Suc Cons.prems by simp_all
    consider "q = peak" | "q = p" | "q \<in> set (take (Suc i) ps)" using Cons.prems(4) by (auto simp: Suc)
    then have "\<exists>r. (r = max peak p \<or> r \<in> set (take (Suc i) ps)) \<and> fall q (ps ! i) \<le> fall r (ps ! i)"
    proof cases
      case 3
      then show ?thesis by blast
    qed (use fall_mono [of q "max peak p" "ps ! i"] Cons.prems i in auto)
    then obtain r where r: "r = max peak p \<or> r \<in> set (take (Suc i) ps)" "fall q (ps ! i) \<le> fall r (ps ! i)"
      by blast
    have "fall r (ps ! i) \<le> drawdown_scan (max peak p) (max worst (fall (max peak p) p)) ps"
      using Cons.prems i r(1) by (intro Cons.IH) auto
    with r(2) show ?thesis unfolding eq by (simp add: Suc)
  qed
qed simp

lemma drawdown_scan_attained:
  "drawdown_scan peak worst ps = worst
   \<or> (\<exists>j q. j < length ps \<and> (q = peak \<or> q \<in> set (take (Suc j) ps)) \<and> drawdown_scan peak worst ps = fall q (ps ! j))"
proof (induction ps arbitrary: peak worst)
  case (Cons p ps)
  note eq = drawdown_scan_Cons [of peak worst p ps]
  have pk: "max peak p = peak \<or> max peak p = p" by (simp add: max_def)
  from Cons [of "max peak p" "max worst (fall (max peak p) p)"] show ?case
  proof
    assume "drawdown_scan (max peak p) (max worst (fall (max peak p) p)) ps = max worst (fall (max peak p) p)"
    then have "drawdown_scan peak worst (p # ps) = worst
        \<or> drawdown_scan peak worst (p # ps) = fall (max peak p) ((p # ps) ! 0)"
      using max_def [of worst "fall (max peak p) p"] by (auto simp: eq)
    moreover have "max peak p = peak \<or> max peak p \<in> set (take (Suc 0) (p # ps))" using pk by auto
    ultimately show ?thesis by (metis length_Cons zero_less_Suc)
  next
    assume "\<exists>j q. j < length ps \<and> (q = max peak p \<or> q \<in> set (take (Suc j) ps))
        \<and> drawdown_scan (max peak p) (max worst (fall (max peak p) p)) ps = fall q (ps ! j)"
    then obtain j q where j: "j < length ps" "q = max peak p \<or> q \<in> set (take (Suc j) ps)"
      "drawdown_scan peak worst (p # ps) = fall q ((p # ps) ! Suc j)"
      by (auto simp: eq)
    moreover have "q = peak \<or> q \<in> set (take (Suc (Suc j)) (p # ps))" using j(2) pk by auto
    ultimately show ?thesis by (metis length_Cons Suc_less_eq)
  qed
qed simp

text \<open>The reference definition: every price against every earlier one.\<close>

definition worst_fall :: "rat list \<Rightarrow> rat" where
  "worst_fall ps = Max {fall (ps ! i) (ps ! j) | i j. i \<le> j \<and> j < length ps}"

lemma worst_fall_finite: "finite {fall (ps ! i) (ps ! j) | i j. i \<le> j \<and> j < length ps}"
proof -
  have "{fall (ps ! i) (ps ! j) | i j. i \<le> j \<and> j < length ps}
      \<subseteq> (\<lambda>(i, j). fall (ps ! i) (ps ! j)) ` ({..length ps} \<times> {..length ps})"
    by force
  then show ?thesis by (rule finite_subset) simp
qed

lemma in_take_nth: "x \<in> set (take (Suc j) ps) \<Longrightarrow> j < length ps \<Longrightarrow> \<exists>i \<le> j. x = ps ! i"
  by (auto simp: in_set_conv_nth less_Suc_eq_le)

lemma drawdown_scan_eq:
  assumes "ps \<noteq> []" "\<forall>p \<in> set ps. 0 < p"
  shows "drawdown_scan (hd ps) 0 ps = worst_fall ps"
  unfolding worst_fall_def
proof (rule Max_eqI [symmetric])
  fix y assume "y \<in> {fall (ps ! i) (ps ! j) | i j. i \<le> j \<and> j < length ps}"
  then obtain i j where ij: "y = fall (ps ! i) (ps ! j)" "i \<le> j" "j < length ps" by blast
  moreover have "ps ! i \<in> set (take (Suc j) ps)"
    using ij by (auto simp: in_set_conv_nth intro!: exI [of _ i])
  ultimately show "y \<le> drawdown_scan (hd ps) 0 ps"
    using drawdown_scan_upper assms by (metis hd_in_set)
next
  have hd: "hd ps = ps ! 0" "0 < ps ! 0" "0 < length ps" using assms by (simp_all add: hd_conv_nth)
  from drawdown_scan_attained [of "hd ps" 0 ps]
  have "\<exists>i j. drawdown_scan (hd ps) 0 ps = fall (ps ! i) (ps ! j) \<and> i \<le> j \<and> j < length ps"
  proof
    assume "drawdown_scan (hd ps) 0 ps = 0"
    then have "drawdown_scan (hd ps) 0 ps = fall (ps ! 0) (ps ! 0)" using hd by (simp add: fall_self)
    with hd(3) show ?thesis by blast
  next
    assume "\<exists>j q. j < length ps \<and> (q = hd ps \<or> q \<in> set (take (Suc j) ps))
        \<and> drawdown_scan (hd ps) 0 ps = fall q (ps ! j)"
    then obtain j q where j: "j < length ps" "q = hd ps \<or> q \<in> set (take (Suc j) ps)"
      "drawdown_scan (hd ps) 0 ps = fall q (ps ! j)" by blast
    then obtain i where "i \<le> j" "q = ps ! i" using in_take_nth hd(1) by (metis le0)
    with j show ?thesis by (intro exI [of _ i] exI [of _ j]) simp
  qed
  then show "drawdown_scan (hd ps) 0 ps \<in> {fall (ps ! i) (ps ! j) | i j. i \<le> j \<and> j < length ps}"
    by (rule CollectI)
qed (rule worst_fall_finite)

lemma worst_fall_unit:
  assumes "ps \<noteq> []" "\<forall>p \<in> set ps. 0 < p"
  shows "0 \<le> worst_fall ps \<and> worst_fall ps \<le> 1"
proof
  have "0 \<le> drawdown_scan (hd ps) 0 ps" by (rule drawdown_scan_worst)
  then show "0 \<le> worst_fall ps" using drawdown_scan_eq [OF assms] by simp
  have "{fall (ps ! i) (ps ! j) | i j. i \<le> j \<and> j < length ps} \<noteq> {}"
    using assms(1) by (auto intro!: exI [of _ 0])
  moreover have "fall (ps ! i) (ps ! j) \<le> 1" if "i \<le> j" "j < length ps" for i j
    using assms(2) that by (intro fall_le_1) (simp_all add: less_imp_le)
  ultimately show "worst_fall ps \<le> 1"
    unfolding worst_fall_def using worst_fall_finite by (subst Max_le_iff) auto
qed

lemma quantize_int_nonneg:
  assumes "0 \<le> x" "round_half_even x < 10 ^ 28"
  shows "quantize_int x = Inr (round_half_even x)"
proof -
  have "0 \<le> round_half_even x" using round_half_even_mono [OF assms(1)] round_half_even_of_int [of 0] by simp
  with assms show ?thesis
    by (simp add: quantize_int_def quantize_def tr_prec_def Let_def dec_value_def dec_int_def)
qed

text \<open>C36: on positive prices the one-pass drawdown is the worst fall of any price from any earlier
  one, in basis points of the peak and within its bounds.\<close>

theorem drawdown_is_worst_fall:
  assumes "series \<noteq> []" "\<forall>s \<in> set series. 0 < price_of s"
  shows "\<exists>bps. max_drawdown_bps series = Inr bps \<and> 0 \<le> bps \<and> bps \<le> 10000
    \<and> bps = round_half_even (dmul (worst_fall (map price_of series)) 10000)"
proof -
  let ?ps = "map price_of series" and ?w = "worst_fall (map price_of series)"
  have ps: "?ps \<noteq> []" "\<forall>p \<in> set ?ps. 0 < p" using assms by auto
  have hd: "hd ?ps = price_of (hd series)" using assms(1) by (simp add: hd_map)
  have unit: "0 \<le> ?w" "?w \<le> 1" using worst_fall_unit [OF ps] by auto
  have "is_dec 10000" using is_dec_of_int [of 10000] by simp
  then have b: "0 \<le> dmul ?w 10000" "dmul ?w 10000 \<le> 10000"
    using unit by (auto simp: dmul_def is_dec_def intro!: dec.nonneg dec.le_fix)
  have r: "0 \<le> round_half_even (dmul ?w 10000)" "round_half_even (dmul ?w 10000) \<le> 10000"
    using round_half_even_mono [OF b(1)] round_half_even_mono [OF b(2)]
      round_half_even_of_int [of 0] round_half_even_of_int [of 10000] by simp_all
  have "max_drawdown_bps series = quantize_int (dmul ?w 10000)"
    using drawdown_scan_eq [OF ps] hd assms(1) by (simp add: max_drawdown_bps_def)
  also have "\<dots> = Inr (round_half_even (dmul ?w 10000))"
    using b r by (intro quantize_int_nonneg) simp_all
  finally show ?thesis using r by blast
qed

theorem drawdown_is_worst_fall_witness:
  "\<exists>bps. max_drawdown_bps (se_snapshots demo_series) = Inr bps \<and> 0 \<le> bps \<and> bps \<le> 10000
    \<and> bps = round_half_even (dmul (worst_fall (map price_of (se_snapshots demo_series))) 10000)"
  by (rule drawdown_is_worst_fall)
    (simp_all add: demo_series_def price_of_def dec_value_def)

subsection \<open>The means lie between their extremes\<close>

lemma weighted_scan_ints:
  assumes "ascending ss" "ss \<noteq> [] \<longrightarrow> prev < ps_block (hd ss)" "length ks = length ss"
    "\<forall>k \<in> set ks. lo \<le> k \<and> k \<le> hi" "0 \<le> lo" "lo * tw \<le> S" "S \<le> hi * tw" "0 \<le> tw"
    "(tw + cadence_blocks * int (length ss)) * hi < 10 ^ 28"
  shows "\<exists>S' tw'. weighted_scan (of_int S) tw prev (zip ss (map of_int ks)) = Inr (of_int S', tw')
    \<and> lo * tw' \<le> S' \<and> S' \<le> hi * tw' \<and> tw + int (length ss) \<le> tw' \<and> hi * tw' < 10 ^ 28"
  using assms
proof (induction ss arbitrary: ks prev S tw)
  case Nil
  then show ?case by (intro exI [of _ S] exI [of _ tw]) (simp add: mult.commute)
next
  case (Cons s ss)
  obtain k ks' where ks: "ks = k # ks'" using Cons.prems(3) by (cases ks) auto
  define w where "w = min (ps_block s - prev) cadence_blocks"
  have cb: "cadence_blocks = 600" by (simp add: cadence_blocks_def cadence_seconds_def block_seconds_def)
  have w: "0 < w" "w \<le> 600" using Cons.prems(2) by (simp_all add: w_def cb)
  have k: "lo \<le> k" "k \<le> hi" "0 \<le> hi" using Cons.prems(4,5) by (auto simp: ks)
  have "lo * w \<le> k * w" "k * w \<le> hi * w" using k w by simp_all
  then have S: "lo * (tw + w) \<le> S + k * w" "S + k * w \<le> hi * (tw + w)"
    using Cons.prems(6,7) by (simp_all add: algebra_simps)
  have "hi * (tw + w + 600 * int (length ss)) \<le> hi * (tw + 600 * int (length (s # ss)))"
    using w k(3) by (intro mult_left_mono) simp_all
  then have bound: "(tw + w + cadence_blocks * int (length ss)) * hi < 10 ^ 28"
    using Cons.prems(9) by (simp only: cb mult.commute)
  have "hi * (tw + w) \<le> hi * (tw + w + 600 * int (length ss))"
    using k(3) by (intro mult_left_mono) simp_all
  then have small: "hi * (tw + w) < 10 ^ 28" using bound by (simp only: cb mult.commute)
  have nn: "0 \<le> S" "0 \<le> k * w" using Cons.prems(5,6,8) k w by (auto intro: order_trans [rotated])
  then have "\<bar>k * w\<bar> < 10 ^ 28" "\<bar>S + k * w\<bar> < 10 ^ 28" using S small by linarith+
  then have "dadd (of_int S) (dmul (of_int k) (of_int w)) = of_int (S + k * w)"
    using is_dec_of_int [of "k * w"] is_dec_of_int [of "S + k * w"] by (simp add: dec_ops is_dec_def)
  then have step: "weighted_scan (of_int S) tw prev (zip (s # ss) (map of_int ks))
      = weighted_scan (of_int (S + k * w)) (tw + w) (ps_block s) (zip ss (map of_int ks'))"
    using Cons.prems(2) by (simp add: ks w_def Let_def)
  have "\<exists>S' tw'. weighted_scan (of_int (S + k * w)) (tw + w) (ps_block s) (zip ss (map of_int ks'))
      = Inr (of_int S', tw') \<and> lo * tw' \<le> S' \<and> S' \<le> hi * tw' \<and> tw + w + int (length ss) \<le> tw'
      \<and> hi * tw' < 10 ^ 28"
  proof (rule Cons.IH)
    show "ascending ss" using Cons.prems(1) by (cases ss) simp_all
    show "ss \<noteq> [] \<longrightarrow> ps_block s < ps_block (hd ss)" using Cons.prems(1) by (cases ss) simp_all
  qed (use Cons.prems(3,4,5,8) S bound w in \<open>simp_all add: ks\<close>)
  with w show ?case unfolding step by fastforce
qed

text \<open>Values that are whole numbers between two bounds, small enough for an exact sum.\<close>

lemma block_weighted_between:
  assumes "series \<noteq> []" "ascending series" "start < ps_block (hd series)" "length ks = length series"
    "\<forall>k \<in> set ks. lo \<le> k \<and> k \<le> hi" "0 \<le> lo" "cadence_blocks * int (length series) * hi < 10 ^ 28"
  shows "\<exists>v. block_weighted_decimal series start (map of_int ks) = Inr v \<and> lo \<le> v \<and> v \<le> hi"
proof -
  have "\<exists>S tw. weighted_scan (of_int 0) 0 start (zip series (map of_int ks)) = Inr (of_int S, tw)
      \<and> lo * tw \<le> S \<and> S \<le> hi * tw \<and> 0 + int (length series) \<le> tw \<and> hi * tw < 10 ^ 28"
    by (rule weighted_scan_ints) (use assms in simp_all)
  then obtain S tw where *: "weighted_scan 0 0 start (zip series (map of_int ks)) = Inr (of_int S, tw)"
    "lo * tw \<le> S" "S \<le> hi * tw" "int (length series) \<le> tw" "hi * tw < 10 ^ 28" by auto
  have tw: "0 < tw" using *(4) assms(1) by (cases series) auto
  obtain k where "k \<in> set ks" using assms(1,4) by (cases ks) auto
  then have b: "0 \<le> hi" "lo \<le> hi" using assms(5,6) by auto
  have "hi * 1 \<le> hi * tw" using b tw by (intro mult_left_mono) simp_all
  then have small: "hi < 10 ^ 28" using *(5) by simp
  define q where "q = ddiv (of_int S) (of_int tw)"
  have "(of_int lo :: rat) \<le> of_int S / of_int tw" "of_int S / of_int tw \<le> (of_int hi :: rat)"
    using *(2,3) tw by (simp_all add: pos_le_divide_eq pos_divide_le_eq of_int_mult [symmetric] del: of_int_mult)
  then have "of_int lo \<le> q" "q \<le> of_int hi"
    using is_dec_of_int [of lo] is_dec_of_int [of hi] b small assms(6)
    by (auto simp: q_def ddiv_def is_dec_def intro!: dec.ge_fix dec.le_fix)
  then have r: "lo \<le> round_half_even q" "round_half_even q \<le> hi" "0 \<le> q"
    using round_half_even_mono [of "of_int lo" q] round_half_even_mono [of q "of_int hi"] assms(6)
    by (simp_all add: order_trans [of 0 "of_int lo"])
  then have "quantize_int q = Inr (round_half_even q)" using small by (intro quantize_int_nonneg) simp_all
  then have "block_weighted_decimal series start (map of_int ks) = Inr (round_half_even q)"
    using assms(1,3,4) * by (simp add: block_weighted_decimal_def q_def)
  with r show ?thesis by blast
qed

text \<open>The realized liquidity depth and average price always exist on an ascending series after
  the window start, and lie between the smallest and largest sampled value; the sums stay within
  the 28 digits of the arithmetic, and prices are whole numbers of RAO, as sampling makes them.\<close>

theorem block_weighted_means_between:
  assumes "series \<noteq> []" "ascending series" "start < ps_block (hd series)"
    "\<forall>s \<in> set series. lo \<le> ps_tao_reserve s \<and> ps_tao_reserve s \<le> hi" "0 \<le> lo"
    "\<forall>s \<in> set series. price_of s * 1000000000 = of_int (rao s) \<and> lo \<le> rao s \<and> rao s \<le> hi"
    "cadence_blocks * int (length series) * hi < 10 ^ 28"
  shows "(\<exists>v. liquidity_depth_rao series start = Inr v \<and> lo \<le> v \<and> v \<le> hi)
    \<and> (\<exists>v. twap_price_rao series start = Inr v \<and> lo \<le> v \<and> v \<le> hi)"
proof
  have "map (\<lambda>s. of_int (ps_tao_reserve s)) series = map of_int (map ps_tao_reserve series)" by simp
  moreover have "\<exists>v. block_weighted_decimal series start (map of_int (map ps_tao_reserve series)) = Inr v
      \<and> lo \<le> v \<and> v \<le> hi"
    by (rule block_weighted_between) (use assms in auto)
  ultimately show "\<exists>v. liquidity_depth_rao series start = Inr v \<and> lo \<le> v \<and> v \<le> hi"
    by (simp only: liquidity_depth_rao_def list.map_comp comp_def)
  have "hi < 10 ^ 28"
  proof -
    have "0 \<le> hi" using assms(1,4,5) by (cases series) auto
    moreover have "1 \<le> cadence_blocks * int (length series)"
      using assms(1) by (cases series) (simp_all add: cadence_blocks_def cadence_seconds_def block_seconds_def)
    ultimately have "1 * hi \<le> cadence_blocks * int (length series) * hi" by (intro mult_right_mono)
    then show ?thesis using assms(7) by simp
  qed
  then have "dmul (price_of s) rao_per_tao = of_int (rao s)" if "s \<in> set series" for s
    using assms(5,6) that is_dec_of_int [of "rao s"] by (auto simp: dmul_def rao_per_tao_def is_dec_def)
  then have "map (\<lambda>s. dmul (price_of s) rao_per_tao) series = map of_int (map rao series)" by simp
  moreover have "\<exists>v. block_weighted_decimal series start (map of_int (map rao series)) = Inr v
      \<and> lo \<le> v \<and> v \<le> hi"
    by (rule block_weighted_between) (use assms in auto)
  ultimately show "\<exists>v. twap_price_rao series start = Inr v \<and> lo \<le> v \<and> v \<le> hi"
    by (simp only: twap_price_rao_def list.map_comp comp_def)
qed

theorem block_weighted_means_between_witness:
  "\<exists>v. liquidity_depth_rao (se_snapshots demo_series) 0 = Inr v \<and> 0 \<le> v \<and> v \<le> 500000000"
  using block_weighted_means_between [of "se_snapshots demo_series" 0 0 500000000
      "\<lambda>s. if ps_block s = 600 then 125 else 500000000"]
  by (simp add: demo_series_def price_of_def dec_value_def power_int_minus cadence_blocks_def
      cadence_seconds_def block_seconds_def)

end
