(* ===== verification/Risk_Scoring.thy ===== *)
theory Risk_Scoring
  imports Scoring_Properties Risk_Observables
begin

text \<open>
  The scoring configuration of the two schemas: Alpha Risk (\<open>endure/scoring/risk/orchestrator.py\<close>,
  \<open>policy.py\<close>) and Forge lending (\<open>endure/scoring/lending/\<close>), over the generic pass of \<open>Scoring\<close>.
  The price provider, sha256, the JSON reader of pydantic and the block lookups are parameters.
  The interpretations of \<open>assessment_resolver\<close> give both configurations the loop invariants; the
  main theorem is that an unavailable archive voids nothing before the grace period has passed.
\<close>

subsection \<open>Submitted values\<close>

definition risk_coordinate :: "int \<Rightarrow> int \<Rightarrow> risk_output \<Rightarrow> coordinate_error + coordinate" where
  "risk_coordinate netuid horizon out = subnet_asset netuid horizon (risk_output_name out)"

definition cf_coordinate :: "int \<Rightarrow> int \<Rightarrow> coordinate_error + coordinate" where
  "cf_coordinate netuid horizon = subnet_asset netuid horizon (lending_output_name Collateral_factor)"

definition submitted_assessment_values ::
  "'o asset_submission list \<Rightarrow> (int \<Rightarrow> int \<Rightarrow> 'o \<Rightarrow> coordinate_error + coordinate option)
     \<Rightarrow> coordinate_error + (coordinate \<times> int) list" where
  "submitted_assessment_values assets coordinate_for =
     ebind (etraverse (\<lambda>(netuid, v).
              ebind (coordinate_for netuid (ov_horizon v) (ov_output v)) (\<lambda>c. Inr (c, ov_value v)))
            (concat (map (\<lambda>a. map (Pair (as_netuid a)) (as_outputs a)) assets))) (\<lambda>cvs.
     Inr (fold (\<lambda>(c, v) values. case c of None \<Rightarrow> values | Some c \<Rightarrow> dict_set c v values) cvs []))"

definition risk_coordinate_for :: "int \<Rightarrow> int \<Rightarrow> risk_output \<Rightarrow> coordinate_error + coordinate option" where
  "risk_coordinate_for netuid horizon out = ebind (risk_coordinate netuid horizon out) (\<lambda>c. Inr (Some c))"

definition lending_coordinate_for :: "int \<Rightarrow> int \<Rightarrow> lending_output \<Rightarrow> coordinate_error + coordinate option" where
  "lending_coordinate_for netuid horizon out =
     (if out \<noteq> Collateral_factor then Inr None
      else ebind (cf_coordinate netuid horizon) (\<lambda>c. Inr (Some c)))"

text \<open>
  A bundle that fails to parse is logged and skipped.  \<open>parse_json\<close> is pydantic's own reader.
\<close>

definition accepted_values ::
  "(string \<Rightarrow> 'o submission_bundle option) \<Rightarrow> (int \<Rightarrow> int \<Rightarrow> 'o \<Rightarrow> coordinate_error + coordinate option)
     \<Rightarrow> (string \<times> string) list \<Rightarrow> coordinate_error + (string \<times> (coordinate \<times> int) list) list" where
  "accepted_values parse coordinate_for bundles =
     ebind (etraverse (\<lambda>(hotkey, b).
              ebind (submitted_assessment_values (sb_assets b) coordinate_for) (\<lambda>vs. Inr (hotkey, vs)))
            (concat (map (\<lambda>(hotkey, json). case parse json of None \<Rightarrow> [] | Some b \<Rightarrow> [(hotkey, b)]) bundles)))
       (\<lambda>vs. Inr (fold (\<lambda>(k, v). dict_set k v) vs []))"

definition model_validate_json ::
  "'o schema_model \<Rightarrow> (string \<Rightarrow> node option) \<Rightarrow> string \<Rightarrow> 'o submission_bundle option" where
  "model_validate_json m parse_json json =
     (case parse_json json of
        None \<Rightarrow> None
      | Some n \<Rightarrow> (case parse_bundle m n of Inl _ \<Rightarrow> None | Inr b \<Rightarrow> Some b))"

definition accepted_risk_values ::
  "(string \<Rightarrow> node option) \<Rightarrow> 'a db_scheme \<Rightarrow> string
     \<Rightarrow> coordinate_error + (string \<times> (coordinate \<times> int) list) list" where
  "accepted_risk_values parse_json d round_id =
     accepted_values (model_validate_json risk_model parse_json) risk_coordinate_for
       (scoring_bundles d (round_id, risk_schema_id) None 0)"

definition accepted_lending_values ::
  "(string \<Rightarrow> node option) \<Rightarrow> 'a db_scheme \<Rightarrow> string
     \<Rightarrow> coordinate_error + (string \<times> (coordinate \<times> int) list) list" where
  "accepted_lending_values parse_json d round_id =
     accepted_values (model_validate_json lending_model parse_json) lending_coordinate_for
       (scoring_bundles d (round_id, forge_lending_schema_id) None 0)"

text \<open>The coordinate of a parsed value always exists, so these reads never raise.\<close>

lemma etraverse_total: "(\<And>x. x \<in> set xs \<Longrightarrow> \<exists>y. f x = Inr y) \<Longrightarrow> \<exists>ys. etraverse f xs = Inr ys"
proof (induction xs)
  case (Cons x xs)
  then obtain y ys where "f x = Inr y" "etraverse f xs = Inr ys" by (metis list.set_intros)
  then show ?case by simp
qed simp

definition coordinates_total ::
  "'o schema_model \<Rightarrow> (int \<Rightarrow> int \<Rightarrow> 'o \<Rightarrow> coordinate_error + coordinate option) \<Rightarrow> bool" where
  "coordinates_total m coordinate_for \<longleftrightarrow>
     (\<forall>n h out. 0 \<le> n \<longrightarrow> sm_horizon_ok m h \<longrightarrow> (\<exists>c. coordinate_for n h out = Inr c))"

lemma submitted_values_total:
  assumes "coordinates_total m coordinate_for" "bundle_ok m b"
  shows "\<exists>vs. submitted_assessment_values (sb_assets b) coordinate_for = Inr vs"
proof -
  have "\<exists>c. coordinate_for (as_netuid a) (ov_horizon v) (ov_output v) = Inr c"
    if "a \<in> set (sb_assets b)" "v \<in> set (as_outputs a)" for a v
    using assms that by (auto simp: coordinates_total_def bundle_ok_def asset_ok_def output_ok_def)
  then have "\<exists>cvs. etraverse (\<lambda>(netuid, v).
              ebind (coordinate_for netuid (ov_horizon v) (ov_output v)) (\<lambda>c. Inr (c, ov_value v)))
            (concat (map (\<lambda>a. map (Pair (as_netuid a)) (as_outputs a)) (sb_assets b))) = Inr cvs"
    by (intro etraverse_total) fastforce
  then show ?thesis by (auto simp: submitted_assessment_values_def)
qed

lemma accepted_values_total:
  assumes "coordinates_total m coordinate_for" "\<And>json b. parse json = Some b \<Longrightarrow> bundle_ok m b"
  shows "\<exists>vs. accepted_values parse coordinate_for bundles = Inr vs"
proof -
  have "\<exists>vs. etraverse (\<lambda>(hotkey, b).
              ebind (submitted_assessment_values (sb_assets b) coordinate_for) (\<lambda>vs. Inr (hotkey, vs)))
            (concat (map (\<lambda>(hotkey, json). case parse json of None \<Rightarrow> [] | Some b \<Rightarrow> [(hotkey, b)]) bundles)) = Inr vs"
  proof (rule etraverse_total)
    fix x assume "x \<in> set (concat (map (\<lambda>(hotkey, json). case parse json of None \<Rightarrow> [] | Some b \<Rightarrow> [(hotkey, b)]) bundles))"
    then obtain json where "parse json = Some (snd x)" by (auto split: option.splits)
    then obtain vs where "submitted_assessment_values (sb_assets (snd x)) coordinate_for = Inr vs"
      using submitted_values_total [OF assms(1)] assms(2) by blast
    then show "\<exists>y. (case x of (hotkey, b) \<Rightarrow>
        ebind (submitted_assessment_values (sb_assets b) coordinate_for) (\<lambda>vs. Inr (hotkey, vs))) = Inr y"
      by (cases x) simp
  qed
  then show ?thesis by (auto simp: accepted_values_def)
qed

lemma risk_coordinates_total: "coordinates_total risk_model risk_coordinate_for"
  by (auto simp: coordinates_total_def risk_coordinate_for_def risk_coordinate_def subnet_asset_def
      mk_coordinate_def risk_model_def risk_horizons_def horizon_5d_seconds_def horizon_30d_seconds_def
      risk_output_name.simps elim!: risk_output_name.elims)

lemma lending_coordinates_total: "coordinates_total lending_model lending_coordinate_for"
  by (auto simp: coordinates_total_def lending_coordinate_for_def cf_coordinate_def subnet_asset_def
      mk_coordinate_def lending_model_def lending_horizon_seconds_def)

lemma model_validate_json_ok:
  "model_validate_json risk_model parse_json json = Some b \<Longrightarrow> bundle_ok risk_model b"
  "model_validate_json lending_model parse_json json = Some c \<Longrightarrow> bundle_ok lending_model c"
  by (auto simp: model_validate_json_def split: option.splits sum.splits
      intro: risk.parse_bundle_ok lending.parse_bundle_ok)

lemma accepted_values_never_raise:
  "\<exists>vs. accepted_risk_values parse_json d round_id = Inr vs"
  "\<exists>vs. accepted_lending_values parse_json d round_id = Inr vs"
proof -
  show "\<exists>vs. accepted_risk_values parse_json d round_id = Inr vs"
    unfolding accepted_risk_values_def
    by (rule accepted_values_total [OF risk_coordinates_total]) (rule model_validate_json_ok(1))
  show "\<exists>vs. accepted_lending_values parse_json d round_id = Inr vs"
    unfolding accepted_lending_values_def
    by (rule accepted_values_total [OF lending_coordinates_total]) (rule model_validate_json_ok(2))
qed

subsection \<open>Alpha Risk targets\<close>

definition void_grace :: timedelta where
  "void_grace = 24 * 60 * 60 * second"

definition is_market_data_error :: "archive_failure \<Rightarrow> bool" where
  "is_market_data_error e \<longleftrightarrow> e = Market_data_error \<or> e = Market_data_unavailable"

definition resolve_output_value ::
  "risk_output \<Rightarrow> price_snapshot list \<Rightarrow> int \<Rightarrow> archive_failure + int" where
  "resolve_output_value out window start =
     (case out of
        Max_drawdown \<Rightarrow> max_drawdown_bps window
      | Realized_volatility \<Rightarrow> realized_volatility_bps window cadence_blocks
      | Twap_price \<Rightarrow> twap_price_rao window start
      | Liquidity_depth \<Rightarrow> liquidity_depth_rao window start)"

definition target_of :: "coordinate \<Rightarrow> rat option \<Rightarrow> string \<Rightarrow> string option \<Rightarrow> resolver_result" where
  "target_of c v status h =
     (case mk_realized_target c v status h of Inl _ \<Rightarrow> Failed Value_error | Inr t \<Rightarrow> Target (Some t))"

definition voided :: "coordinate \<Rightarrow> string option \<Rightarrow> resolver_result" where
  "voided c h = target_of c None realized_target_voided h"

definition unavailable_target :: "coordinate \<Rightarrow> bool \<Rightarrow> resolver_result" where
  "unavailable_target c void_unavailable = (if \<not> void_unavailable then Target None else voided c None)"

text \<open>The value of a window the provider has data for.\<close>

definition resolve_series ::
  "(bytes \<Rightarrow> bytes) \<Rightarrow> risk_output \<Rightarrow> coordinate \<Rightarrow> int \<Rightarrow> int \<Rightarrow> price_series \<Rightarrow> resolver_result" where
  "resolve_series sha256 out c start blocks series =
     (case filter_snapshots_for_window (se_snapshots series) start blocks of
        Inl e \<Rightarrow> Failed e
      | Inr window \<Rightarrow>
          let hashed = (\<lambda>f. case payload_hash sha256 series of Inl e \<Rightarrow> Failed e | Inr h \<Rightarrow> f (Some h))
          in if should_void_realized_window window blocks then hashed (voided c)
             else (case resolve_output_value out window start of
                 Inl e \<Rightarrow> if is_market_data_error e then hashed (voided c) else Failed e
               | Inr v \<Rightarrow> hashed (target_of c (Some (of_int v)) realized_target_resolved)))"

definition risk_resolver ::
  "(bytes \<Rightarrow> bytes) \<Rightarrow> price_provider \<Rightarrow> risk_output \<Rightarrow> resolver" where
  "risk_resolver sha256 price_series out ctx netuid horizon =
     (case risk_coordinate netuid horizon out of
        Inl _ \<Rightarrow> Failed Value_error
      | Inr c \<Rightarrow>
          if rc_force_void ctx then voided c None
          else (case (rc_window_start ctx, rc_window_end ctx) of
              (Some start, Some stop) \<Rightarrow>
                if stop \<le> start then Failed Market_data_error
                else (case ebind (mk_window start (stop - start)) (price_series netuid) of
                    Inl e \<Rightarrow>
                      if e = Deadline_error then Deadline_exceeded
                      else if is_market_data_error e then unavailable_target c (rc_void_unavailable ctx)
                      else Failed e
                  | Inr None \<Rightarrow> voided c None
                  | Inr (Some series) \<Rightarrow> resolve_series sha256 out c start (stop - start) series)
            | _ \<Rightarrow> Failed Market_data_error))"

definition risk_scored_outputs ::
  "(bytes \<Rightarrow> bytes) \<Rightarrow> price_provider \<Rightarrow> risk_output output_config list" where
  "risk_scored_outputs sha256 price_series =
     map (\<lambda>out. \<lparr>oc_output = risk_output_name out, oc_resolver = risk_resolver sha256 price_series out,
       oc_spec = risk_spec out\<rparr>) risk_outputs"

definition active_risk_coordinates :: "int list \<Rightarrow> coordinate_error + coordinate set" where
  "active_risk_coordinates netuids =
     ebind (etraverse (\<lambda>(n, h, out). risk_coordinate n h out)
              (List.product netuids (List.product risk_horizons risk_outputs))) (\<lambda>cs. Inr (set cs))"

text \<open>An error of \<open>accepted_risk_values\<close> cannot happen (\<open>accepted_values_never_raise\<close>).\<close>

definition risk_scoring_config ::
  "(bytes \<Rightarrow> bytes) \<Rightarrow> (string \<Rightarrow> node option) \<Rightarrow> price_provider \<Rightarrow> coordinate set
     \<Rightarrow> (risk_output, 'a db_scheme) scoring_config" where
  "risk_scoring_config sha256 parse_json price_series active =
     \<lparr>sc_schema_id = risk_schema_id, sc_horizons = risk_horizons,
      sc_universe_members = parse_alpha_risk_universe_members,
      sc_accepted_values = (\<lambda>d round_id.
        case accepted_risk_values parse_json d round_id of Inl _ \<Rightarrow> [] | Inr vs \<Rightarrow> vs),
      sc_outputs = risk_scored_outputs sha256 price_series, sc_active = Some active,
      sc_coordinate_for = subnet_asset\<rparr>"

definition build_risk_scoring_config ::
  "(bytes \<Rightarrow> bytes) \<Rightarrow> (string \<Rightarrow> node option) \<Rightarrow> price_provider \<Rightarrow> int list
     \<Rightarrow> coordinate_error + (risk_output, 'a db_scheme) scoring_config" where
  "build_risk_scoring_config sha256 parse_json price_series active_netuids =
     ebind (active_risk_coordinates active_netuids) (\<lambda>active.
     Inr (risk_scoring_config sha256 parse_json price_series active))"

subsection \<open>The risk pass\<close>

text \<open>The failures of a block lookup the pass tolerates once the grace period is over.\<close>

definition is_boundary_failure :: "archive_failure \<Rightarrow> bool" where
  "is_boundary_failure e \<longleftrightarrow> is_market_data_error e \<or> e = Connection_error \<or> e = Lookup_error"

definition window_bounds ::
  "(datetime \<Rightarrow> archive_failure + int) \<Rightarrow> (datetime \<Rightarrow> archive_failure + int) option \<Rightarrow> datetime \<Rightarrow> int
     \<Rightarrow> archive_failure + int \<times> int" where
  "window_bounds reveal_close_block window_end_block close horizon =
     ebind (reveal_close_block close) (\<lambda>start.
       case window_end_block of
         None \<Rightarrow> ebind (horizon_seconds_to_blocks horizon) (\<lambda>blocks. Inr (start, start + blocks))
       | Some lookup \<Rightarrow> ebind (lookup (close + horizon * second)) (\<lambda>stop. Inr (start, stop)))"

definition risk_context ::
  "bool \<Rightarrow> archive_failure + int \<times> int \<Rightarrow> scoring_error + resolution_context" where
  "risk_context void_unavailable bounds =
     (case bounds of
        Inr (start, stop) \<Rightarrow>
          Inr \<lparr>rc_window_start = Some start, rc_window_end = Some stop,
               rc_void_unavailable = void_unavailable, rc_force_void = False\<rparr>
      | Inl e \<Rightarrow>
          if is_boundary_failure e \<and> void_unavailable
          then Inr \<lparr>rc_window_start = None, rc_window_end = None,
                    rc_void_unavailable = void_unavailable, rc_force_void = True\<rparr>
          else Inl (Resolver_failed e))"

definition risk_resolve_and_score ::
  "(risk_output, 'a score_db_scheme) scoring_config \<Rightarrow> (datetime \<Rightarrow> archive_failure + int)
     \<Rightarrow> (datetime \<Rightarrow> archive_failure + int) option \<Rightarrow> int \<Rightarrow> string \<Rightarrow> int option \<Rightarrow> datetime \<Rightarrow> datetime option
     \<Rightarrow> string list \<Rightarrow> (nat \<Rightarrow> bool) \<Rightarrow> 'a score_db_scheme
     \<Rightarrow> scoring_error + 'a score_db_scheme \<times> (string \<times> rat) list" where
  "risk_resolve_and_score cfg reveal_close_block window_end_block half_life round_id horizon now due
       archive clock d =
     (case round_windows d (round_id, risk_schema_id) of
        None \<Rightarrow> Inl No_windows
      | Some w \<Rightarrow>
          let h = (case horizon of None \<Rightarrow> hd (sc_horizons cfg) | Some h \<Rightarrow> h);
              resolution_due = (case due of None \<Rightarrow> reveal_close w + h * second | Some t \<Rightarrow> t);
              void_unavailable = (resolution_due + void_grace < now)
          in ebind (risk_context void_unavailable
                      (window_bounds reveal_close_block window_end_block (reveal_close w) h)) (\<lambda>ctx.
             resolve_and_score cfg half_life round_id h now archive ctx clock d))"

subsection \<open>Forge lending targets\<close>

definition min_collateral_factor_price_points :: nat where
  "min_collateral_factor_price_points = 2"

definition collateral_factor_optimal_bps :: "rat list \<Rightarrow> int \<Rightarrow> archive_failure + int" where
  "collateral_factor_optimal_bps prices liquidation_buffer_bps =
     (if length prices < min_collateral_factor_price_points then Inl Value_error
      else if liquidation_buffer_bps < 0 then Inl Value_error
      else
        let entry = hd prices
        in if entry \<le> 0 \<or> (\<exists>p \<in> set prices. p \<le> 0) then Inl Value_error
           else ebind (quantize_int (dmul (ddiv (Min (set prices)) entry) 10000)) (\<lambda>retained.
             Inr (max 0 (retained - liquidation_buffer_bps))))"

definition collateral_factor_target_for_netuid ::
  "price_provider \<Rightarrow> int \<Rightarrow> resolution_window \<Rightarrow> int \<Rightarrow> archive_failure + int option" where
  "collateral_factor_target_for_netuid price_series netuid window liquidation_buffer_bps =
     ebind (price_series netuid window) (\<lambda>s.
       case s of
         None \<Rightarrow> Inr None
       | Some series \<Rightarrow>
           if se_netuid series \<noteq> netuid then Inl Market_data_error
           else if length (se_snapshots series) < min_collateral_factor_price_points then Inr None
           else ebind (collateral_factor_optimal_bps (series_prices series) liquidation_buffer_bps)
                  (\<lambda>v. Inr (Some v)))"

definition resolve_cf :: "(bytes \<Rightarrow> bytes) \<Rightarrow> price_provider \<Rightarrow> int \<Rightarrow> resolver" where
  "resolve_cf sha256 price_series liquidation_buffer_bps ctx netuid horizon =
     (case ebind (mk_window 0 (2 ^ 63 - 1)) (price_series netuid) of
        Inl e \<Rightarrow> if e = Deadline_error then Deadline_exceeded else Failed e
      | Inr s \<Rightarrow>
     (case cf_coordinate netuid horizon of
        Inl _ \<Rightarrow> Failed Value_error
      | Inr c \<Rightarrow>
     (case s of
        None \<Rightarrow> voided c None
      | Some series \<Rightarrow>
     (case ebind (collateral_factor_optimal_bps (series_prices series) liquidation_buffer_bps) (\<lambda>v.
             ebind (payload_hash sha256 series) (\<lambda>h. Inr (v, h))) of
        Inl e \<Rightarrow> Failed e
      | Inr (v, h) \<Rightarrow> target_of c (Some (of_int v)) realized_target_resolved (Some h)))))"

definition lending_scored_outputs ::
  "(bytes \<Rightarrow> bytes) \<Rightarrow> price_provider \<Rightarrow> int \<Rightarrow> lending_output output_config list" where
  "lending_scored_outputs sha256 price_series liquidation_buffer_bps =
     [\<lparr>oc_output = lending_output_name Collateral_factor,
       oc_resolver = resolve_cf sha256 price_series liquidation_buffer_bps,
       oc_spec = lending_spec Collateral_factor\<rparr>]"

definition lending_scoring_config ::
  "(bytes \<Rightarrow> bytes) \<Rightarrow> (string \<Rightarrow> node option) \<Rightarrow> price_provider \<Rightarrow> int
     \<Rightarrow> (lending_output, 'a db_scheme) scoring_config" where
  "lending_scoring_config sha256 parse_json price_series liquidation_buffer_bps =
     \<lparr>sc_schema_id = forge_lending_schema_id, sc_horizons = [lending_horizon_seconds],
      sc_universe_members = parse_lending_universe_members,
      sc_accepted_values = (\<lambda>d round_id.
        case accepted_lending_values parse_json d round_id of Inl _ \<Rightarrow> [] | Inr vs \<Rightarrow> vs),
      sc_outputs = lending_scored_outputs sha256 price_series liquidation_buffer_bps, sc_active = None,
      sc_coordinate_for = subnet_asset\<rparr>"

subsection \<open>Both configurations meet the resolver contract\<close>

lemma target_of_Target [simp]: "target_of c v status h = Target (Some t) \<longleftrightarrow>
    status \<noteq> [] \<and> t = \<lparr>rt_coordinate = c, rt_value = v, rt_status = status, rt_payload_hash = h\<rparr>"
  by (auto simp: target_of_def mk_realized_target_def)

lemma voided_Target: "voided c h = Target (Some t) \<longleftrightarrow>
    t = \<lparr>rt_coordinate = c, rt_value = None, rt_status = realized_target_voided, rt_payload_hash = h\<rparr>"
  by (simp add: voided_def realized_target_voided_def)

lemma resolve_series_coordinate:
  "resolve_series sha256 out c start blocks series = Target (Some t) \<Longrightarrow> rt_coordinate t = c"
  by (auto simp: resolve_series_def voided_Target Let_def split: sum.splits if_splits)

lemma risk_resolver_coordinate:
  assumes "risk_resolver sha256 ps out ctx n h = Target (Some t)"
  shows "risk_coordinate n h out = Inr (rt_coordinate t)"
proof -
  obtain c where c: "risk_coordinate n h out = Inr c"
    using assms by (auto simp: risk_resolver_def split: sum.splits)
  show ?thesis
    using assms resolve_series_coordinate
    by (auto simp: risk_resolver_def c voided_Target unavailable_target_def
        split: sum.splits if_splits option.splits)
qed

interpretation risk_scoring: assessment_resolver subnet_asset "risk_scored_outputs sha256 price_series"
  for sha256 price_series
proof
  show "subnet_asset n h (oc_output oc) = Inr (rt_coordinate t)"
    if "oc \<in> set (risk_scored_outputs sha256 price_series)" "oc_resolver oc ctx n h = Target (Some t)"
    for oc ctx n h t
    using that risk_resolver_coordinate by (auto simp: risk_scored_outputs_def risk_coordinate_def)
qed (auto simp: subnet_asset_Inr)

lemma resolve_cf_coordinate:
  assumes "resolve_cf sha256 ps buffer ctx n h = Target (Some t)"
  shows "cf_coordinate n h = Inr (rt_coordinate t)"
  using assms by (auto simp: resolve_cf_def voided_Target split: sum.splits option.splits if_splits)

interpretation lending_scoring: assessment_resolver subnet_asset
  "lending_scored_outputs sha256 price_series liquidation_buffer_bps"
  for sha256 price_series liquidation_buffer_bps
proof
  show "subnet_asset n h (oc_output oc) = Inr (rt_coordinate t)"
    if "oc \<in> set (lending_scored_outputs sha256 price_series liquidation_buffer_bps)"
      "oc_resolver oc ctx n h = Target (Some t)" for oc ctx n h t
    using that resolve_cf_coordinate by (auto simp: lending_scored_outputs_def cf_coordinate_def)
qed (auto simp: subnet_asset_Inr)

lemma scoring_configs_ok:
  "config_ok (risk_scoring_config sha256 parse_json price_series active)"
  "config_ok (lending_scoring_config sha256 parse_json price_series liquidation_buffer_bps)"
  using risk_scoring.assessment_resolver_axioms lending_scoring.assessment_resolver_axioms
  by (simp_all add: config_ok_def risk_scoring_config_def lending_scoring_config_def)

subsection \<open>What it takes to void a target\<close>

lemma resolve_cells_from_resolver:
  assumes "resolve_cells cfg ctx h existing clock i cells = Inr ts" "t \<in> set ts"
  shows "\<exists>cell \<in> set cells. oc_resolver (snd cell) ctx (fst cell) h = Target (Some t)"
  using assms
proof (induction cells arbitrary: i ts)
  case (Cons cell cells)
  obtain c where c: "cell_coordinate cfg h cell = Inr c" using Cons.prems(1) by auto
  consider "c \<in> existing" | "c \<notin> existing" "clock i" | "c \<notin> existing" "\<not> clock i" by blast
  then show ?case
  proof cases
    case 1
    then show ?thesis using Cons c by auto
  next
    case 2
    then show ?thesis using Cons.prems c by simp
  next
    case 3
    then show ?thesis using Cons c
      by (cases "oc_resolver (snd cell) ctx (fst cell) h") (auto split: option.splits, blast)
  qed
qed simp

lemma pass_targets_from_resolver:
  assumes "resolve_and_score cfg n rid h now archive ctx clock d = Inr (d', scores)"
    "e \<in> set (sd_targets d')" "e \<notin> set (sd_targets d)"
  shows "\<exists>netuid. \<exists>oc \<in> set (sc_outputs cfg). oc_resolver oc ctx netuid h = Target (Some (te_row e))"
proof -
  have "d' \<noteq> d" using assms(2,3) by blast
  then obtain cells targets rcs elig results finished where r:
    "\<not> has_resolution_marker d (rid, sc_schema_id cfg) h"
    "\<forall>cell \<in> set cells. snd cell \<in> set (sc_outputs cfg)"
    "resolve_cells cfg ctx h (rt_coordinate ` set (realized_targets_for_horizon d (rid, sc_schema_id cfg) (Some h)))
        clock 1 cells = Inr targets"
    "record_scoring_pass (rid, sc_schema_id cfg)
        (pass_of cfg h (ema_states d (sc_schema_id cfg)) (sc_accepted_values cfg d rid) targets finished archive results)
        now d = Inr d'"
    using resolve_and_score_pass [OF assms(1)] by blast
  have "sd_targets d' = fold (\<lambda>r. insert_ignore target_unique
      \<lparr>te_key = (rid, sc_schema_id cfg), te_row = r, te_at = now\<rparr>) targets (sd_targets d)"
    using record_pass_tables(1) [OF r(4)] r(1) by (simp add: pass_of_def Let_def)
  then have "te_row e \<in> set targets"
    using assms(2,3) set_fold_insert_ignore [of target_unique "\<lambda>r. \<lparr>te_key = (rid, sc_schema_id cfg), te_row = r, te_at = now\<rparr>"]
    by fastforce
  then obtain cell where "cell \<in> set cells" "oc_resolver (snd cell) ctx (fst cell) h = Target (Some (te_row e))"
    using resolve_cells_from_resolver [OF r(3)] by blast
  with r(2) show ?thesis by blast
qed

text \<open>The archive's answer on a subnet's window voids the output: there is no pool, or the series it returned,
  whose payload hash the target records, does not support a value.\<close>

definition answer_voids ::
  "(bytes \<Rightarrow> bytes) \<Rightarrow> risk_output \<Rightarrow> int \<Rightarrow> int \<Rightarrow> price_series option \<Rightarrow> string option \<Rightarrow> bool" where
  "answer_voids sha256 out start blocks answer recorded_hash \<longleftrightarrow>
     (case answer of
        None \<Rightarrow> recorded_hash = None
      | Some series \<Rightarrow>
          (\<exists>hash window. payload_hash sha256 series = Inr hash \<and> recorded_hash = Some hash
             \<and> filter_snapshots_for_window (se_snapshots series) start blocks = Inr window
             \<and> (should_void_realized_window window blocks
                \<or> (\<exists>e. resolve_output_value out window start = Inl e \<and> is_market_data_error e))))"

lemma series_void_evidence:
  assumes "resolve_series sha256 out c start blocks series = Target (Some t)" "rt_value t = None"
  shows "answer_voids sha256 out start blocks (Some series) (rt_payload_hash t)"
  using assms by (auto simp: resolve_series_def voided_Target answer_voids_def Let_def split: sum.splits if_splits)

lemma risk_void_evidence:
  assumes "risk_resolver sha256 ps out ctx n h = Target (Some t)" "rt_value t = None"
    and "\<not> rc_force_void ctx" "\<not> rc_void_unavailable ctx"
  shows "\<exists>start stop s. rc_window_start ctx = Some start \<and> rc_window_end ctx = Some stop \<and> start < stop
    \<and> ps n \<lparr>rw_start_block = start, rw_horizon_blocks = stop - start\<rparr> = Inr s
    \<and> answer_voids sha256 out start (stop - start) s (rt_payload_hash t)"
proof -
  obtain c where c: "risk_coordinate n h out = Inr c"
    using assms(1) by (auto simp: risk_resolver_def split: sum.splits)
  obtain start stop where w: "rc_window_start ctx = Some start" "rc_window_end ctx = Some stop" "start < stop"
    using assms(1,3) by (auto simp: risk_resolver_def c split: option.splits if_splits)
  have "\<not> (\<exists>e. ebind (mk_window start (stop - start)) (ps n) = Inl e)"
    using assms(1,3,4) w by (auto simp: risk_resolver_def c unavailable_target_def split: if_splits)
  then obtain s where s: "ebind (mk_window start (stop - start)) (ps n) = Inr s"
    by (cases "ebind (mk_window start (stop - start)) (ps n)") auto
  have "answer_voids sha256 out start (stop - start) s (rt_payload_hash t)"
  proof (cases s)
    case None
    then show ?thesis using assms(1,3) w s by (simp add: risk_resolver_def c voided_Target answer_voids_def)
  next
    case (Some series)
    then have "resolve_series sha256 out c start (stop - start) series = Target (Some t)"
      using assms(1,3) w s by (simp add: risk_resolver_def c)
    then show ?thesis using series_void_evidence [OF _ assms(2)] Some by simp
  qed
  moreover have "ps n \<lparr>rw_start_block = start, rw_horizon_blocks = stop - start\<rparr> = Inr s"
    using s by (auto simp: mk_window_def split: if_splits)
  ultimately show ?thesis using w by blast
qed

text \<open>C27: until the grace period after its due time has passed, a pass voids a coordinate of a subnet only on
  a definitive answer of the archive for that subnet and the located window: no pool at all, or a series
  that is too thin for a value of the output and whose payload hash the target records.  An unavailable
  archive, or one whose head does not cover the window yet, leaves the coordinate to a later pass.\<close>

theorem voids_need_evidence:
  assumes "risk_resolve_and_score (risk_scoring_config sha256 parse_json price_series active)
      reveal_close_block window_end_block half_life rid (Some h) now due archive clock d = Inr (d', scores)"
    and "round_windows d (rid, risk_schema_id) = Some w"
    and "now \<le> (case due of None \<Rightarrow> reveal_close w + h * second | Some t \<Rightarrow> t) + void_grace"
    and "e \<in> set (sd_targets d')" "e \<notin> set (sd_targets d)" "rt_value (te_row e) = None"
  shows "\<exists>netuid out start stop s.
    rt_coordinate (te_row e) = Coordinate Subnet_asset (str_int netuid) Seconds h (risk_output_name out)
    \<and> window_bounds reveal_close_block window_end_block (reveal_close w) h = Inr (start, stop) \<and> start < stop
    \<and> price_series netuid \<lparr>rw_start_block = start, rw_horizon_blocks = stop - start\<rparr> = Inr s
    \<and> answer_voids sha256 out start (stop - start) s (rt_payload_hash (te_row e))"
proof -
  have live: "\<not> (case due of None \<Rightarrow> reveal_close w + h * second | Some t \<Rightarrow> t) + void_grace < now"
    using assms(3) by simp
  then obtain ctx where ctx: "risk_context False
      (window_bounds reveal_close_block window_end_block (reveal_close w) h) = Inr ctx"
    and run: "resolve_and_score (risk_scoring_config sha256 parse_json price_series active) half_life rid h now archive ctx clock d = Inr (d', scores)"
    using assms(1,2) by (auto simp: risk_resolve_and_score_def Let_def)
  obtain start stop where b: "window_bounds reveal_close_block window_end_block (reveal_close w) h = Inr (start, stop)"
    "rc_window_start ctx = Some start" "rc_window_end ctx = Some stop" "\<not> rc_force_void ctx" "\<not> rc_void_unavailable ctx"
    using ctx by (auto simp: risk_context_def split: sum.splits if_splits)
  obtain netuid out where r: "risk_resolver sha256 price_series out ctx netuid h = Target (Some (te_row e))"
    using pass_targets_from_resolver [OF run assms(4,5)]
    by (auto simp: risk_scoring_config_def risk_scored_outputs_def)
  have "rt_coordinate (te_row e) = Coordinate Subnet_asset (str_int netuid) Seconds h (risk_output_name out)"
    using risk_resolver_coordinate [OF r] by (simp add: risk_coordinate_def subnet_asset_Inr)
  then show ?thesis using risk_void_evidence [OF r assms(6) b(4,5)] b(1-3) by auto
qed

text \<open>A provider without pools: every output of the demo round is voided on its word.\<close>

definition demo_no_pools :: price_provider where
  "demo_no_pools = (\<lambda>_ _. Inr None)"

definition demo_void_run :: "scoring_error + score_db \<times> (string \<times> rat) list" where
  "demo_void_run = risk_resolve_and_score
     (risk_scoring_config (\<lambda>_. []) (\<lambda>_. None) demo_no_pools {rt_coordinate demo_target}) (\<lambda>_. Inr 600) None 5
     ''2025-01-02'' (Some 432000) 40 None [] never demo_due"

definition demo_voided :: score_db where
  "demo_voided = (case demo_void_run of Inr (d, _) \<Rightarrow> d | Inl _ \<Rightarrow> demo_due)"

lemma not_isl: "\<not> isl r \<Longrightarrow> \<exists>x. r = Inr x"
  by (cases r) simp_all

lemma demo_voided_run: "\<exists>scores. demo_void_run = Inr (demo_voided, scores)"
proof -
  have "\<not> isl demo_void_run" by code_simp
  then obtain x where x: "demo_void_run = Inr x" using not_isl by blast
  have "demo_voided = fst x" unfolding demo_voided_def x by (simp add: case_prod_beta)
  with x show ?thesis by (metis prod.collapse)
qed

theorem voids_need_evidence_witness:
  "\<exists>netuid out start stop s.
    rt_coordinate (te_row (hd (sd_targets demo_voided))) = Coordinate Subnet_asset (str_int netuid) Seconds 432000 (risk_output_name out)
    \<and> window_bounds (\<lambda>_. Inr 600) None 40 432000 = Inr (start, stop) \<and> start < stop
    \<and> demo_no_pools netuid \<lparr>rw_start_block = start, rw_horizon_blocks = stop - start\<rparr> = Inr s
    \<and> answer_voids (\<lambda>_. []) out start (stop - start) s (rt_payload_hash (te_row (hd (sd_targets demo_voided))))"
proof -
  obtain scores where "demo_void_run = Inr (demo_voided, scores)" using demo_voided_run by blast
  note run = this [unfolded demo_void_run_def]
  have w: "round_windows demo_due (''2025-01-02'', risk_schema_id) = Some demo_windows"
    "reveal_close demo_windows = 40" by code_simp+
  have e: "hd (sd_targets demo_voided) \<in> set (sd_targets demo_voided)"
    "hd (sd_targets demo_voided) \<notin> set (sd_targets demo_due)"
    "rt_value (te_row (hd (sd_targets demo_voided))) = None"
    by code_simp+
  have "(40 :: int) \<le> (case None of None \<Rightarrow> reveal_close demo_windows + 432000 * second | Some t \<Rightarrow> t) + void_grace"
    by (simp add: w second_def void_grace_def)
  from voids_need_evidence [OF run w(1) this e] show ?thesis by (simp add: w)
qed

end
