(* ===== verification/Ledger.thy ===== *)
theory Ledger
  imports Validation
begin

text \<open>
  The ledger of weight emissions (\<open>endure/protocol/weight_intent.py\<close>, the last part of
  \<open>endure/storage/repository.py\<close> and its tables): one batch per attempt to set weights on chain, its
  rows, the startup fences and the cursor of the reveal scan.  A batch moves from \<open>prepared\<close> through
  \<open>submitted\<close>, \<open>ambiguous\<close> or \<open>failed\<close> to \<open>confirmed\<close> or \<open>unconfirmed\<close>, and only the resolution
  against a finalized chain snapshot confirms.  States, modes and statuses are texts, as in the
  code, because their validation is part of it.  blake2b is a parameter.  An operation ends with
  the check of the tables' constraints, which is how SQLite enforces them.
\<close>

datatype ledger_error = Invalid_value | Integrity_failed | Not_transitionable | Type_failed | Multiple_rows

subsection \<open>Intents\<close>

text \<open>\<open>json.dumps\<close> with \<open>ensure_ascii\<close>: a code point above \<open>~\<close> is escaped too.\<close>

definition ascii_char :: "char \<Rightarrow> string" where
  "ascii_char c =
     (let n = of_char c :: nat in if n < 127 then escape_char c else backslash # CHR ''u'' # hex4 n)"

definition ascii_text :: "string \<Rightarrow> string" where
  "ascii_text s = quote # concat (map ascii_char s) @ [quote]"

type_synonym weight_target = "int \<times> string \<times> int"

definition target_text :: "weight_target \<Rightarrow> string" where
  "target_text t = (case t of (uid, hotkey, weight) \<Rightarrow>
     ''['' @ str_int uid @ '','' @ ascii_text hotkey @ '','' @ str_int weight @ '']'')"

fun commas :: "string list \<Rightarrow> string" where
  "commas [] = []"
| "commas [s] = s"
| "commas (s # ss) = s @ CHR '','' # commas ss"

definition field_text :: "string \<Rightarrow> string \<Rightarrow> string" where
  "field_text name value = ascii_text name @ '':'' @ value"

definition targets_text :: "weight_target list \<Rightarrow> string" where
  "targets_text targets = ''['' @ commas (map target_text (sort targets)) @ '']''"

record weight_intent =
  wi_version_key :: int
  wi_chain_identity :: string
  wi_netuid :: int
  wi_validator_uid :: int
  wi_validator_hotkey :: string
  wi_targets :: "weight_target list"

definition intent_text :: "weight_intent \<Rightarrow> string" where
  "intent_text i = ''{'' @ commas
     [field_text ''chain_identity'' (ascii_text (wi_chain_identity i)),
      field_text ''netuid'' (str_int (wi_netuid i)),
      field_text ''targets'' (targets_text (wi_targets i)),
      field_text ''validator_hotkey'' (ascii_text (wi_validator_hotkey i)),
      field_text ''validator_uid'' (str_int (wi_validator_uid i)),
      field_text ''version_key'' (str_int (wi_version_key i))] @ ''}''"

definition canonical_weight_intent_hash :: "(bytes \<Rightarrow> bytes) \<Rightarrow> weight_intent \<Rightarrow> string" where
  "canonical_weight_intent_hash blake2b i =
     str_int (wi_version_key i) @ '':'' @ hex (blake2b (utf8 (intent_text i)))"

text \<open>The identity without a version key hashes the other five fields.\<close>

definition legacy_intent_text :: "weight_intent \<Rightarrow> string" where
  "legacy_intent_text i = ''{'' @ commas
     [field_text ''chain_identity'' (ascii_text (wi_chain_identity i)),
      field_text ''netuid'' (str_int (wi_netuid i)),
      field_text ''targets'' (targets_text (wi_targets i)),
      field_text ''validator_hotkey'' (ascii_text (wi_validator_hotkey i)),
      field_text ''validator_uid'' (str_int (wi_validator_uid i))] @ ''}''"

definition weight_intent_hash ::
  "(bytes \<Rightarrow> bytes) \<Rightarrow> string \<Rightarrow> int \<Rightarrow> int \<Rightarrow> string \<Rightarrow> weight_target list \<Rightarrow> int option \<Rightarrow> string" where
  "weight_intent_hash blake2b identity netuid uid hotkey targets version =
     (let i = \<lparr>wi_version_key = (case version of None \<Rightarrow> 0 | Some v \<Rightarrow> v), wi_chain_identity = identity,
               wi_netuid = netuid, wi_validator_uid = uid, wi_validator_hotkey = hotkey, wi_targets = targets\<rparr>
      in case version of
           Some _ \<Rightarrow> canonical_weight_intent_hash blake2b i
         | None \<Rightarrow> hex (blake2b (utf8 (legacy_intent_text i))))"

definition is_hex64 :: "string \<Rightarrow> bool" where
  "is_hex64 s \<longleftrightarrow> length s = 64 \<and> list_all (\<lambda>c. is_digit c \<or> (CHR ''a'' \<le> c \<and> c \<le> CHR ''f'')) s"

definition recorded_protocol_version :: "string \<Rightarrow> ledger_error + int option" where
  "recorded_protocol_version intent_hash =
     (if is_hex64 intent_hash then Inr None
      else
        let (ds, rest) = split_digits intent_hash
        in if ds \<noteq> [] \<and> (ds = ''0'' \<or> hd ds \<noteq> CHR ''0'') \<and> rest \<noteq> [] \<and> hd rest = CHR '':'' \<and> is_hex64 (tl rest)
              \<and> length ds \<le> max_int_digits
           then Inr (Some (int_of_digits ds)) else Inl Invalid_value)"

subsection \<open>Tables\<close>

record emission_row =
  er_hotkey :: string
  er_uid :: int
  er_blended :: "rat option"
  er_norm_precap :: "rat option"
  er_processed :: rat
  er_u16 :: "int option"
  er_emitted :: bool
  er_confirmed :: bool

text \<open>A row of \<open>weight_emission_batches\<close>, which is what \<open>record_weight_emission\<close> is called with.\<close>

record emission_batch =
  eb_schema :: string
  eb_round :: "string option"
  eb_emitted_at :: string
  eb_block :: "int option"
  eb_min_allowed :: "int option"
  eb_max_limit :: "rat option"
  eb_metagraph_size :: int
  eb_status :: string
  eb_submission :: "int option"
  eb_state :: "string option"
  eb_confirmed_at :: "string option"
  eb_deadline :: "int option"
  eb_reveal_deadline :: "int option"
  eb_cursor :: "int option"
  eb_baseline :: "int option"
  eb_period :: "int option"
  eb_identity :: "string option"
  eb_netuid :: "int option"
  eb_uid :: "int option"
  eb_hotkey :: "string option"
  eb_mode :: "string option"
  eb_intent :: "string option"
  eb_commitment :: "string option"
  eb_reveal_round :: "int option"
  eb_observed :: "int option"
  eb_seen_update :: "int option"

record ledger =
  lg_next :: nat
  lg_batches :: "(nat \<times> emission_batch) list"
  lg_rows :: "(nat \<times> emission_row) list"
  lg_fences :: "((string \<times> int) \<times> int) list"

definition empty_ledger :: ledger where
  "empty_ledger = \<lparr>lg_next = 1, lg_batches = [], lg_rows = [], lg_fences = []\<rparr>"

definition emission_statuses :: "string list" where
  "emission_statuses = [''submitted'', ''failed'', ''error'']"

definition confirmation_states :: "string list" where
  "confirmation_states = [''prepared'', ''submitted'', ''ambiguous'', ''confirmed'', ''unconfirmed'', ''failed'']"

definition open_states :: "string list" where
  "open_states = [''prepared'', ''submitted'', ''ambiguous'']"

definition is_open :: "emission_batch \<Rightarrow> bool" where
  "is_open b \<longleftrightarrow> (case eb_state b of None \<Rightarrow> False | Some s \<Rightarrow> s \<in> set open_states)"

definition cr4_reveal_scan_batch_blocks :: int where
  "cr4_reveal_scan_batch_blocks = 32"

text \<open>A \<open>CHECK\<close> passes when its condition is true or unknown.\<close>

definition nonneg :: "int option \<Rightarrow> bool" where
  "nonneg v \<longleftrightarrow> (case v of None \<Rightarrow> True | Some n \<Rightarrow> 0 \<le> n)"

definition resolution_fields :: "emission_batch \<Rightarrow> bool" where
  "resolution_fields b \<longleftrightarrow> eb_submission b \<noteq> None \<and> eb_baseline b \<noteq> None \<and> eb_period b \<noteq> None
     \<and> eb_identity b \<noteq> None \<and> eb_netuid b \<noteq> None \<and> eb_uid b \<noteq> None \<and> eb_hotkey b \<noteq> None
     \<and> eb_mode b \<noteq> None \<and> eb_intent b \<noteq> None"

definition safe_deadline :: "int option \<Rightarrow> int option \<Rightarrow> int option \<Rightarrow> bool" where
  "safe_deadline deadline submission period \<longleftrightarrow>
     (case (deadline, submission, period) of
        (Some d, Some s, Some p) \<Rightarrow> s + p \<le> d \<and> d \<le> s + 2 * p
      | _ \<Rightarrow> True)"

definition batch_checks :: "emission_batch \<Rightarrow> bool" where
  "batch_checks b \<longleftrightarrow>
     (case eb_state b of None \<Rightarrow> True | Some s \<Rightarrow> s \<in> set confirmation_states)
     \<and> nonneg (eb_submission b) \<and> nonneg (eb_baseline b)
     \<and> (case eb_period b of None \<Rightarrow> True | Some p \<Rightarrow> 0 < p)
     \<and> nonneg (eb_deadline b) \<and> nonneg (eb_netuid b) \<and> nonneg (eb_uid b)
     \<and> (case eb_mode b of None \<Rightarrow> True | Some m \<Rightarrow> m = ''direct'' \<or> m = ''cr4'')
     \<and> nonneg (eb_reveal_round b) \<and> nonneg (eb_observed b) \<and> nonneg (eb_seen_update b)
     \<and> (is_open b \<longrightarrow> resolution_fields b \<and> eb_deadline b \<noteq> None)
     \<and> (eb_state b \<in> {Some ''confirmed'', Some ''unconfirmed''} \<longrightarrow> resolution_fields b)
     \<and> (eb_commitment b = None \<and> eb_reveal_round b = None
        \<or> eb_mode b \<in> {None, Some ''cr4''} \<and> eb_commitment b \<noteq> None \<and> eb_reveal_round b \<noteq> None)
     \<and> safe_deadline (eb_deadline b) (eb_submission b) (eb_period b)
     \<and> (case (eb_submission b, eb_baseline b) of (Some s, Some l) \<Rightarrow> l \<le> s | _ \<Rightarrow> True)
     \<and> (eb_state b \<in> {Some ''prepared'', Some ''ambiguous''} \<longrightarrow> eb_status b = ''error'')
     \<and> (eb_state b = Some ''submitted'' \<longrightarrow> eb_status b = ''submitted'')
     \<and> (eb_state b = Some ''failed'' \<longrightarrow> eb_status b \<in> {''failed'', ''error''})
     \<and> (eb_confirmed_at b \<noteq> None \<longleftrightarrow> eb_state b = Some ''confirmed'')"

definition row_checks :: "emission_row \<Rightarrow> bool" where
  "row_checks r \<longleftrightarrow> (er_emitted r \<longrightarrow> er_u16 r \<noteq> None)"

text \<open>The unique indexes: one open batch per schema, one row per batch and uid.\<close>

definition ledger_ok :: "ledger \<Rightarrow> bool" where
  "ledger_ok d \<longleftrightarrow>
     list_all (\<lambda>(_, b). batch_checks b) (lg_batches d)
     \<and> list_all (\<lambda>(_, r). row_checks r) (lg_rows d)
     \<and> unique_on (\<lambda>(_, b). eb_schema b) (filter (\<lambda>(_, b). is_open b) (lg_batches d))
     \<and> unique_on (\<lambda>(i, r). (i, er_uid r)) (lg_rows d)"

definition constrained :: "ledger \<Rightarrow> ledger_error + ledger" where
  "constrained d = (if ledger_ok d then Inr d else Inl Integrity_failed)"

subsection \<open>Recording an attempt\<close>

definition validate_emission_numbers :: "emission_batch \<Rightarrow> ledger_error + unit" where
  "validate_emission_numbers b =
     (if \<not> list_all nonneg [eb_submission b, eb_baseline b, eb_deadline b, eb_reveal_deadline b,
            eb_netuid b, eb_uid b, eb_reveal_round b, eb_observed b] then Inl Invalid_value
      else if (case eb_period b of None \<Rightarrow> False | Some p \<Rightarrow> p \<le> 0) then Inl Invalid_value
      else if (case (eb_submission b, eb_baseline b) of (Some s, Some l) \<Rightarrow> s < l | _ \<Rightarrow> False)
        then Inl Invalid_value
      else if \<not> safe_deadline (eb_deadline b) (eb_submission b) (eb_period b) then Inl Invalid_value
      else if (case (eb_reveal_deadline b, eb_deadline b) of (Some r, Some d) \<Rightarrow> r < d | _ \<Rightarrow> False)
        then Inl Invalid_value
      else Inr ())"

text \<open>Which transport statuses a confirmation state goes with.\<close>

definition status_matches :: "string \<Rightarrow> string \<Rightarrow> bool" where
  "status_matches state status \<longleftrightarrow>
     (state = ''prepared'' \<or> state = ''ambiguous'' \<longrightarrow> status = ''error'')
     \<and> (state = ''submitted'' \<longrightarrow> status = ''submitted'')
     \<and> (state = ''failed'' \<longrightarrow> status = ''failed'' \<or> status = ''error'')"

definition validate_emission_transport ::
  "string \<Rightarrow> string option \<Rightarrow> string option \<Rightarrow> ledger_error + unit" where
  "validate_emission_transport status state confirmed_at =
     (if status \<notin> set emission_statuses then Inl Invalid_value
      else if (case state of None \<Rightarrow> False | Some s \<Rightarrow>
            s \<notin> set confirmation_states \<or> s = ''confirmed'' \<or> \<not> status_matches s status)
        then Inl Invalid_value
      else if confirmed_at \<noteq> None then Inl Invalid_value
      else Inr ())"

definition row_targets :: "emission_row list \<Rightarrow> weight_target list" where
  "row_targets rows =
     concat (map (\<lambda>r. case er_u16 r of None \<Rightarrow> [] | Some w \<Rightarrow> [(er_uid r, er_hotkey r, w)]) rows)"

definition validate_emission_intent ::
  "(bytes \<Rightarrow> bytes) \<Rightarrow> emission_batch \<Rightarrow> int option \<Rightarrow> emission_row list \<Rightarrow> ledger_error + unit" where
  "validate_emission_intent blake2b b protocol_version_key rows =
     (case (eb_identity b, eb_netuid b, eb_uid b, eb_hotkey b, eb_mode b, eb_intent b) of
        (Some identity, Some netuid, Some uid, Some hotkey, Some _, Some intent) \<Rightarrow>
          ebind (recorded_protocol_version intent) (\<lambda>recorded.
          if (case recorded of None \<Rightarrow> False | Some v \<Rightarrow>
                v \<noteq> current_version_key \<or> protocol_version_key \<noteq> Some current_version_key)
          then Inl Invalid_value
          else if recorded = None \<and> (is_open b \<or> protocol_version_key \<noteq> None) then Inl Invalid_value
          else if intent \<noteq> weight_intent_hash blake2b identity netuid uid hotkey (row_targets rows) recorded
          then Inl Invalid_value
          else Inr ())
      | _ \<Rightarrow> Inr ())"

definition validate_emission_evidence ::
  "(bytes \<Rightarrow> bytes) \<Rightarrow> emission_batch \<Rightarrow> int option \<Rightarrow> emission_row list \<Rightarrow> ledger_error + unit" where
  "validate_emission_evidence blake2b b protocol_version_key rows =
     (if eb_mode b \<notin> {None, Some ''direct'', Some ''cr4''} then Inl Invalid_value
      else if is_open b \<and> \<not> (resolution_fields b \<and> eb_deadline b \<noteq> None) then Inl Invalid_value
      else if (eb_commitment b = None) \<noteq> (eb_reveal_round b = None) then Inl Invalid_value
      else if eb_commitment b \<noteq> None \<and> eb_mode b \<noteq> Some ''cr4'' then Inl Invalid_value
      else if list_ex (\<lambda>r. er_emitted r \<or> er_confirmed r) rows then Inl Invalid_value
      else validate_emission_intent blake2b b protocol_version_key rows)"

text \<open>The columns an insertion does not set: the scan cursor and the observed last update.\<close>

definition record_weight_emission ::
  "(bytes \<Rightarrow> bytes) \<Rightarrow> emission_batch \<Rightarrow> int option \<Rightarrow> emission_row list \<Rightarrow> ledger
     \<Rightarrow> ledger_error + ledger \<times> nat" where
  "record_weight_emission blake2b b protocol_version_key rows d =
     (if eb_reveal_deadline b \<noteq> None \<and> eb_mode b \<noteq> Some ''cr4'' then Inl Invalid_value
      else
        ebind (validate_emission_transport (eb_status b) (eb_state b) (eb_confirmed_at b)) (\<lambda>_.
        ebind (validate_emission_numbers b) (\<lambda>_.
        ebind (validate_emission_evidence blake2b b protocol_version_key rows) (\<lambda>_.
        let i = lg_next d
        in ebind (constrained (d\<lparr>lg_next := i + 1,
               lg_batches := lg_batches d @ [(i, b\<lparr>eb_cursor := None, eb_seen_update := None\<rparr>)],
               lg_rows := lg_rows d @ map (\<lambda>r. (i, r\<lparr>er_emitted := False\<rparr>)) rows\<rparr>)) (\<lambda>d'.
           Inr (d', i))))))"

definition update_batches ::
  "(nat \<times> emission_batch \<Rightarrow> bool) \<Rightarrow> (emission_batch \<Rightarrow> emission_batch) \<Rightarrow> ledger \<Rightarrow> ledger" where
  "update_batches p f d = d\<lparr>lg_batches := update_where p (\<lambda>(i, b). (i, f b)) (lg_batches d)\<rparr>"

text \<open>SQL's \<open>max\<close> of a column and a value: null when the column is.\<close>

definition raise_to :: "int option \<Rightarrow> int option \<Rightarrow> int option" where
  "raise_to column value =
     (case value of None \<Rightarrow> column | Some v \<Rightarrow> map_option (\<lambda>c. max c v) column)"

definition raise_or_set :: "int option \<Rightarrow> int option \<Rightarrow> int option" where
  "raise_or_set column value =
     (case value of None \<Rightarrow> column
      | Some v \<Rightarrow> Some (max (case column of None \<Rightarrow> v | Some c \<Rightarrow> c) v))"

definition transition_weight_emission_attempt ::
  "nat \<Rightarrow> string \<Rightarrow> string \<Rightarrow> string \<Rightarrow> string option \<Rightarrow> int option \<Rightarrow> int option \<Rightarrow> int option \<Rightarrow> ledger
     \<Rightarrow> ledger_error + ledger" where
  "transition_weight_emission_attempt i status state mode commitment reveal_round deadline reveal_deadline d =
     (if status \<notin> set emission_statuses then Inl Invalid_value
      else if state \<notin> {''submitted'', ''ambiguous'', ''failed''} then Inl Invalid_value
      else if \<not> status_matches state status then Inl Invalid_value
      else if mode \<notin> {''direct'', ''cr4''} then Inl Invalid_value
      else if (commitment = None) \<noteq> (reveal_round = None) then Inl Invalid_value
      else if commitment \<noteq> None \<and> mode \<noteq> ''cr4'' then Inl Invalid_value
      else if reveal_deadline \<noteq> None \<and> mode \<noteq> ''cr4'' then Inl Invalid_value
      else
        let p = (\<lambda>(j, b). j = i \<and> eb_state b = Some ''prepared'')
        in if \<not> (\<exists>jb \<in> set (lg_batches d). p jb) then Inl Not_transitionable
           else constrained (update_batches p
                  (\<lambda>b. b\<lparr>eb_status := status, eb_state := Some state, eb_mode := Some mode,
                         eb_commitment := commitment, eb_reveal_round := reveal_round,
                         eb_deadline := raise_to (eb_deadline b) deadline,
                         eb_reveal_deadline := raise_or_set (eb_reveal_deadline b) reveal_deadline\<rparr>) d))"

end
