(* ===== verification/Ledger_Resolution.thy ===== *)
theory Ledger_Resolution
  imports Ledger
begin

text \<open>
  The resolution of weight emissions against a finalized chain snapshot, the window of the CR4
  reveal scan, the startup fences and the health summary (the rest of the ledger's code in
  \<open>endure/storage/repository.py\<close>).
\<close>

subsection \<open>Chain evidence\<close>

record commit_evidence =
  ce_hotkey :: string
  ce_block :: int
  ce_hash :: string
  ce_round :: int

record reveal_evidence =
  re_hotkey :: string
  re_netuid :: int
  re_block :: int

record chain_snapshot =
  cs_identity :: string
  cs_netuid :: int
  cs_uid :: int
  cs_hotkey :: string
  cs_block :: int
  cs_last_update :: int
  cs_weights :: "(int \<times> int) list"
  cs_commitments :: "commit_evidence list"
  cs_reveals :: "reveal_evidence list"
  cs_hotkeys :: "(int \<times> string) list"
  cs_scan_complete :: bool

definition validate_weight_chain_snapshot :: "chain_snapshot \<Rightarrow> ledger_error + unit" where
  "validate_weight_chain_snapshot s =
     (if cs_block s < 0 \<or> cs_last_update s < 0 then Inl Invalid_value
      else if cs_last_update s > cs_block s then Inl Invalid_value
      else if list_ex (\<lambda>c. ce_block c > cs_block s) (cs_commitments s) then Inl Invalid_value
      else if list_ex (\<lambda>r. re_block r > cs_block s) (cs_reveals s) then Inl Invalid_value
      else if \<not> distinct (map fst (cs_hotkeys s)) then Inl Invalid_value
      else if \<not> distinct (map fst (cs_weights s)) then Inl Invalid_value
      else Inr ())"

record decision =
  de_confirm :: bool
  de_unconfirm :: bool
  de_commit_block :: "int option"
  de_last_update :: "int option"
  de_hash :: "string option"
  de_round :: "int option"

definition keep_open :: decision where
  "keep_open = \<lparr>de_confirm = False, de_unconfirm = False, de_commit_block = None, de_last_update = None,
                de_hash = None, de_round = None\<rparr>"

definition after :: "int option \<Rightarrow> int \<Rightarrow> bool" where
  "after deadline block \<longleftrightarrow> (case deadline of None \<Rightarrow> False | Some d \<Rightarrow> d < block)"

definition direct_weight_resolution ::
  "chain_snapshot \<Rightarrow> int \<Rightarrow> int \<Rightarrow> int option \<Rightarrow> int \<Rightarrow> bool \<Rightarrow> decision" where
  "direct_weight_resolution s submission baseline deadline margin vector_matches =
     (let confirm = (case deadline of None \<Rightarrow> False | Some d \<Rightarrow>
            cs_last_update s > max submission baseline \<and> cs_last_update s \<le> d - margin \<and> vector_matches)
      in keep_open\<lparr>de_confirm := confirm, de_unconfirm := \<not> confirm \<and> after deadline (cs_block s)\<rparr>)"

definition or_else :: "'a option \<Rightarrow> 'a option \<Rightarrow> 'a option" where
  "or_else a b = (case a of None \<Rightarrow> b | Some x \<Rightarrow> Some x)"

definition cr4_candidates ::
  "chain_snapshot \<Rightarrow> int \<Rightarrow> int \<Rightarrow> int option \<Rightarrow> int \<Rightarrow> string option \<Rightarrow> int option \<Rightarrow> commit_evidence list" where
  "cr4_candidates s submission period deadline margin commitment reveal_round =
     (let inclusion = (case deadline of Some d \<Rightarrow> d - margin | None \<Rightarrow> submission + period)
      in filter (\<lambda>c. ce_hotkey c = cs_hotkey s \<and> submission \<le> ce_block c \<and> ce_block c \<le> inclusion
             \<and> (commitment = None \<and> reveal_round = None
                \<or> commitment = Some (ce_hash c) \<and> reveal_round = Some (ce_round c)))
           (cs_commitments s))"

definition cr4_reveal_matches :: "chain_snapshot \<Rightarrow> int \<Rightarrow> int option \<Rightarrow> int option \<Rightarrow> bool" where
  "cr4_reveal_matches s submission observed reveal_deadline =
     list_ex (\<lambda>r. re_hotkey r = cs_hotkey s \<and> re_netuid r = cs_netuid s
         \<and> (case observed of Some b \<Rightarrow> b | None \<Rightarrow> submission) \<le> re_block r
         \<and> (case reveal_deadline of None \<Rightarrow> True | Some d \<Rightarrow> re_block r \<le> d)) (cs_reveals s)"

definition cr4_weight_resolution ::
  "chain_snapshot \<Rightarrow> int \<Rightarrow> int \<Rightarrow> int option \<Rightarrow> int option \<Rightarrow> int \<Rightarrow> string option \<Rightarrow> int option
     \<Rightarrow> int option \<Rightarrow> int option \<Rightarrow> bool \<Rightarrow> bool \<Rightarrow> decision" where
  "cr4_weight_resolution s submission period deadline reveal_deadline margin commitment reveal_round
       observed seen_update vector_matches scan_complete =
     (let candidates = cr4_candidates s submission period deadline margin commitment reveal_round;
          expiry = or_else reveal_deadline deadline
      in if length candidates > 1 then keep_open\<lparr>de_unconfirm := after deadline (cs_block s)\<rparr>
         else if cr4_reveal_matches s submission observed reveal_deadline \<and> vector_matches
         then keep_open\<lparr>de_confirm := True\<rparr>
         else case (candidates, observed) of
             (c # _, None) \<Rightarrow>
               keep_open\<lparr>de_commit_block := Some (ce_block c), de_last_update := Some (cs_last_update s),
                         de_hash := (if commitment = None then Some (ce_hash c) else None),
                         de_round := (if reveal_round = None then Some (ce_round c) else None)\<rparr>
           | _ \<Rightarrow>
               if observed \<noteq> None \<and> seen_update \<noteq> None
               then keep_open\<lparr>de_unconfirm := scan_complete \<and> candidates = [] \<and> after expiry (cs_block s)\<rparr>
               else keep_open\<lparr>de_unconfirm := scan_complete \<and> after expiry (cs_block s)\<rparr>)"

subsection \<open>Applying a decision\<close>

definition rows_of :: "ledger \<Rightarrow> nat \<Rightarrow> emission_row list" where
  "rows_of d i = map snd (filter (\<lambda>(j, _). j = i) (lg_rows d))"

definition expected_weight_targets :: "ledger \<Rightarrow> nat \<Rightarrow> weight_target list" where
  "expected_weight_targets d i = sort_key fst (row_targets (rows_of d i))"

definition mark_rows :: "nat \<Rightarrow> ledger \<Rightarrow> ledger" where
  "mark_rows i d = d\<lparr>lg_rows := update_where (\<lambda>(j, r). j = i \<and> er_u16 r \<noteq> None)
                      (\<lambda>(j, r). (j, r\<lparr>er_emitted := True\<rparr>)) (lg_rows d)\<rparr>"

definition apply_weight_resolution ::
  "nat \<Rightarrow> string \<Rightarrow> decision \<Rightarrow> string \<Rightarrow> ledger \<Rightarrow> ledger_error + ledger \<times> int \<times> int" where
  "apply_weight_resolution i state decision confirmed_at d =
     (let p = (\<lambda>(j, b). j = i \<and> eb_state b = Some state);
          hit = list_ex p (lg_batches d)
      in case de_commit_block decision of
           Some block \<Rightarrow>
             ebind (constrained (update_batches p
                 (\<lambda>b. b\<lparr>eb_observed := Some block, eb_seen_update := de_last_update decision,
                        eb_commitment := or_else (de_hash decision) (eb_commitment b),
                        eb_reveal_round := or_else (de_round decision) (eb_reveal_round b)\<rparr>) d))
               (\<lambda>d'. Inr (d', 0, 0))
         | None \<Rightarrow>
             if de_confirm decision then
               ebind (constrained (update_batches p
                   (\<lambda>b. b\<lparr>eb_state := Some ''confirmed'', eb_confirmed_at := Some confirmed_at\<rparr>) d)) (\<lambda>d'.
               if \<not> hit then Inr (d', 0, 0)
               else
                 ebind (constrained (mark_rows i d')) (\<lambda>d''. Inr (d'', 1, 0)))
             else if \<not> de_unconfirm decision then Inr (d, 0, 0)
             else
               ebind (constrained (update_batches p (\<lambda>b. b\<lparr>eb_state := Some ''unconfirmed''\<rparr>) d)) (\<lambda>d'.
               Inr (d', 0, if hit then 1 else 0)))"

subsection \<open>Resolution\<close>

definition same_identity :: "chain_snapshot \<Rightarrow> emission_batch \<Rightarrow> bool" where
  "same_identity s b \<longleftrightarrow> eb_identity b = Some (cs_identity s) \<and> eb_netuid b = Some (cs_netuid s)
     \<and> eb_uid b = Some (cs_uid s) \<and> eb_hotkey b = Some (cs_hotkey s)"

definition vector_matches :: "chain_snapshot \<Rightarrow> weight_target list \<Rightarrow> bool" where
  "vector_matches s targets \<longleftrightarrow>
     map (\<lambda>(uid, _, weight). (uid, weight)) targets = sort (cs_weights s)
     \<and> list_all (\<lambda>(uid, hotkey, _). map_of (cs_hotkeys s) uid = Some hotkey) targets"

definition intent_matches ::
  "(bytes \<Rightarrow> bytes) \<Rightarrow> chain_snapshot \<Rightarrow> weight_target list \<Rightarrow> string option \<Rightarrow> bool" where
  "intent_matches blake2b s targets intent =
     (case intent of
        None \<Rightarrow> False
      | Some h \<Rightarrow>
          (case recorded_protocol_version h of
             Inl _ \<Rightarrow> False
           | Inr recorded \<Rightarrow>
               (recorded = None \<or> recorded = Some current_version_key)
               \<and> h = weight_intent_hash blake2b (cs_identity s) (cs_netuid s) (cs_uid s) (cs_hotkey s)
                      targets recorded))"

text \<open>A batch prepared under another identity is closed after its last deadline.\<close>

definition foreign_decision :: "chain_snapshot \<Rightarrow> emission_batch \<Rightarrow> decision" where
  "foreign_decision s b =
     (let last = (case (eb_deadline b, eb_reveal_deadline b) of
                    (Some x, Some y) \<Rightarrow> Some (max x y) | (Some x, None) \<Rightarrow> Some x | (None, y) \<Rightarrow> y)
      in keep_open\<lparr>de_unconfirm := after last (cs_block s)\<rparr>)"

definition weight_decision ::
  "(bytes \<Rightarrow> bytes) \<Rightarrow> chain_snapshot \<Rightarrow> int \<Rightarrow> weight_target list \<Rightarrow> emission_batch
     \<Rightarrow> ledger_error + decision" where
  "weight_decision blake2b s margin targets b =
     (if \<not> same_identity s b then Inr (foreign_decision s b)
      else case (eb_submission b, eb_baseline b) of
          (Some submission, Some baseline) \<Rightarrow>
            if cs_block s < max submission baseline then Inr keep_open
            else
              let matches = vector_matches s targets \<and> intent_matches blake2b s targets (eb_intent b)
              in if eb_mode b = Some ''direct''
                 then Inr (direct_weight_resolution s submission baseline (eb_deadline b) margin matches)
                 else (case eb_period b of
                     None \<Rightarrow> Inl Type_failed
                   | Some period \<Rightarrow>
                       Inr (cr4_weight_resolution s submission period (eb_deadline b) (eb_reveal_deadline b)
                         margin (eb_commitment b) (eb_reveal_round b) (eb_observed b) (eb_seen_update b)
                         matches (cs_scan_complete s)))
        | _ \<Rightarrow> Inr keep_open)"

fun resolve_batches ::
  "(bytes \<Rightarrow> bytes) \<Rightarrow> chain_snapshot \<Rightarrow> int \<Rightarrow> string \<Rightarrow> (nat \<times> emission_batch) list
     \<Rightarrow> ledger \<times> int \<times> int \<Rightarrow> ledger_error + ledger \<times> int \<times> int" where
  "resolve_batches blake2b s margin confirmed_at [] acc = Inr acc"
| "resolve_batches blake2b s margin confirmed_at ((i, b) # rest) (d, confirmed, unconfirmed) =
     ebind (weight_decision blake2b s margin (expected_weight_targets d i) b) (\<lambda>decision.
     ebind (apply_weight_resolution i (case eb_state b of None \<Rightarrow> '''' | Some t \<Rightarrow> t) decision confirmed_at d)
       (\<lambda>(d', c, u). resolve_batches blake2b s margin confirmed_at rest (d', confirmed + c, unconfirmed + u)))"

definition open_batches :: "string \<Rightarrow> ledger \<Rightarrow> (nat \<times> emission_batch) list" where
  "open_batches schema d = filter (\<lambda>(_, b). eb_schema b = schema \<and> is_open b) (lg_batches d)"

definition resolve_weight_emission_confirmations ::
  "(bytes \<Rightarrow> bytes) \<Rightarrow> string \<Rightarrow> chain_snapshot \<Rightarrow> int \<Rightarrow> string \<Rightarrow> ledger
     \<Rightarrow> ledger_error + ledger \<times> int \<times> int" where
  "resolve_weight_emission_confirmations blake2b schema s margin confirmed_at d =
     (if margin < 0 then Inl Invalid_value
      else ebind (validate_weight_chain_snapshot s) (\<lambda>_.
        resolve_batches blake2b s margin confirmed_at (open_batches schema d) (d, 0, 0)))"

subsection \<open>Queries\<close>

definition has_open_weight_emission_confirmation :: "string \<Rightarrow> ledger \<Rightarrow> bool" where
  "has_open_weight_emission_confirmation schema d \<longleftrightarrow> length (open_batches schema d) > 0"

definition in_state :: "string \<Rightarrow> string \<Rightarrow> ledger \<Rightarrow> (nat \<times> emission_batch) list" where
  "in_state schema state d = filter (\<lambda>(_, b). eb_schema b = schema \<and> eb_state b = Some state) (lg_batches d)"

definition has_confirmed_weight_emission :: "string \<Rightarrow> ledger \<Rightarrow> bool" where
  "has_confirmed_weight_emission schema d \<longleftrightarrow> length (in_state schema ''confirmed'' d) > 0"

definition weight_emission_startup_fence :: "string \<Rightarrow> int \<Rightarrow> ledger \<Rightarrow> int option" where
  "weight_emission_startup_fence schema key d = map_of (lg_fences d) (schema, key)"

text \<open>\<open>on_conflict_do_nothing\<close> covers the primary key only, not the checks.\<close>

definition record_weight_emission_startup_fence ::
  "string \<Rightarrow> int \<Rightarrow> int \<Rightarrow> ledger \<Rightarrow> ledger_error + ledger" where
  "record_weight_emission_startup_fence schema key block d =
     (if key < 0 \<or> block < 0 then Inl Integrity_failed
      else case map_of (lg_fences d) (schema, key) of
          Some _ \<Rightarrow> Inr d
        | None \<Rightarrow> Inr (d\<lparr>lg_fences := lg_fences d @ [((schema, key), block)]\<rparr>))"

record scan_window =
  sw_batch :: nat
  sw_start :: int
  sw_end :: int
  sw_complete :: bool

definition batch_scan_window :: "int \<Rightarrow> nat \<times> emission_batch \<Rightarrow> ledger_error + scan_window option" where
  "batch_scan_window finalized ib =
     (case (eb_submission (snd ib), eb_reveal_deadline (snd ib)) of
        (Some submission, Some reveal_deadline) \<Rightarrow>
          (let start = max submission (case eb_cursor (snd ib) of None \<Rightarrow> submission | Some c \<Rightarrow> c + 1);
               last = min (min finalized reveal_deadline) (start + cr4_reveal_scan_batch_blocks - 1)
           in Inr (if start > last then None
                else Some \<lparr>sw_batch = fst ib, sw_start = start, sw_end = last,
                           sw_complete = last \<ge> reveal_deadline\<rparr>))
      | _ \<Rightarrow> Inl Type_failed)"

definition scannable :: "emission_batch \<Rightarrow> bool" where
  "scannable b \<longleftrightarrow> eb_mode b = Some ''cr4'' \<and> eb_reveal_deadline b \<noteq> None"

definition cr4_reveal_scan_window :: "string \<Rightarrow> int \<Rightarrow> ledger \<Rightarrow> ledger_error + scan_window option" where
  "cr4_reveal_scan_window schema finalized d =
     (case filter (\<lambda>(_, b). scannable b) (open_batches schema d) of
        [] \<Rightarrow> Inr None
      | [ib] \<Rightarrow> batch_scan_window finalized ib
      | _ \<Rightarrow> Inl Multiple_rows)"

definition advance_cr4_reveal_scan_cursor :: "nat \<Rightarrow> int \<Rightarrow> ledger \<Rightarrow> ledger" where
  "advance_cr4_reveal_scan_cursor i through d =
     update_batches (\<lambda>(j, b). j = i \<and> is_open b)
       (\<lambda>b. b\<lparr>eb_cursor := raise_or_set (eb_cursor b) (Some through)\<rparr>) d"

text \<open>SQL's \<open>min\<close> and \<open>max\<close> over a column skip nulls and are null on none.\<close>

definition column_min :: "int option list \<Rightarrow> int option" where
  "column_min col = (case List.map_filter id col of [] \<Rightarrow> None | v # vs \<Rightarrow> Some (fold min vs v))"

definition column_max :: "('a :: linorder) option list \<Rightarrow> 'a option" where
  "column_max col = (case List.map_filter id col of [] \<Rightarrow> None | v # vs \<Rightarrow> Some (fold max vs v))"

record confirmation_health =
  ch_last_confirmed :: "string option"
  ch_open :: int
  ch_oldest_age :: "int option"
  ch_oldest_deadline :: "int option"
  ch_unconfirmed_block :: "int option"
  ch_confirmed_block :: "int option"
  ch_failed :: int

definition weight_emission_confirmation_health ::
  "string \<Rightarrow> int option \<Rightarrow> ledger \<Rightarrow> confirmation_health" where
  "weight_emission_confirmation_health schema current d =
     (let open_bs = map snd (open_batches schema d);
          of_state = (\<lambda>t. map snd (in_state schema t d))
      in \<lparr>ch_last_confirmed = column_max (map eb_confirmed_at (of_state ''confirmed'')),
          ch_open = int (length open_bs),
          ch_oldest_age = (case (current, column_min (map eb_submission open_bs)) of
             (Some c, Some s) \<Rightarrow> Some (max 0 (c - s)) | _ \<Rightarrow> None),
          ch_oldest_deadline = column_min (map (\<lambda>b. or_else (eb_reveal_deadline b) (eb_deadline b)) open_bs),
          ch_unconfirmed_block = column_max (map eb_submission (of_state ''unconfirmed'')),
          ch_confirmed_block = column_max (map eb_submission (of_state ''confirmed'')),
          ch_failed = int (length (of_state ''failed''))\<rparr>)"

text \<open>The newest batches, each with its rows by uid; \<open>emitted\<close> is recomputed from the batch's state.\<close>

definition history_row :: "bool \<Rightarrow> emission_row \<Rightarrow> emission_row" where
  "history_row batch_confirmed r =
     r\<lparr>er_emitted := batch_confirmed \<and> er_u16 r \<noteq> None, er_confirmed := batch_confirmed \<and> er_u16 r \<noteq> None\<rparr>"

definition weight_emission_history ::
  "string \<Rightarrow> int \<Rightarrow> ledger \<Rightarrow> ledger_error + (nat \<times> emission_batch \<times> emission_row list) list" where
  "weight_emission_history schema limit d =
     (if limit \<le> 0 then Inl Invalid_value
      else Inr (map (\<lambda>(i, b). (i, b, map (history_row (eb_state b = Some ''confirmed''))
                    (sort_key er_uid (rows_of d i))))
             (take (nat limit) (rev (sort_key fst (filter (\<lambda>(_, b). eb_schema b = schema) (lg_batches d)))))))"

end
