(* ===== verification/Ledger_Facts.thy ===== *)
theory Ledger_Facts
  imports Ledger_Resolution
begin

text \<open>
  The lemmas of the ledger: what each operation does to a batch and its rows, the steps of a
  ledger and the invariant that every reachable ledger satisfies.
\<close>

subsection \<open>Batches and rows\<close>

lemma is_open_iff: "is_open b \<longleftrightarrow> (\<exists>s. eb_state b = Some s \<and> s \<in> set open_states)"
  by (simp add: is_open_def split: option.split)

lemma constrained_Inr [simp]: "constrained d = Inr d' \<longleftrightarrow> ledger_ok d \<and> d' = d"
  by (auto simp: constrained_def)

lemma update_batches_other [simp]:
  "lg_next (update_batches p f d) = lg_next d" "lg_rows (update_batches p f d) = lg_rows d"
  "lg_fences (update_batches p f d) = lg_fences d"
  by (simp_all add: update_batches_def)

lemma update_batches_ids [simp]:
  "map fst (lg_batches (update_batches p f d)) = map fst (lg_batches d)"
  by (simp add: update_batches_def case_prod_unfold)

lemma in_update_batches:
  "(i, b) \<in> set (lg_batches (update_batches p f d)) \<longleftrightarrow>
     (\<exists>b0. (i, b0) \<in> set (lg_batches d) \<and> b = (if p (i, b0) then f b0 else b0))"
  by (auto simp: update_batches_def set_update_where)

lemma update_batches_none: "(\<And>ib. ib \<in> set (lg_batches d) \<Longrightarrow> \<not> p ib) \<Longrightarrow> update_batches p f d = d"
  by (simp add: update_batches_def update_where_id)

lemma rows_of_other [simp]:
  "rows_of (d\<lparr>lg_batches := bs\<rparr>) i = rows_of d i" "rows_of (update_batches p f d) i = rows_of d i"
  "rows_of (d\<lparr>lg_next := n\<rparr>) i = rows_of d i" "rows_of (d\<lparr>lg_fences := fs\<rparr>) i = rows_of d i"
  by (simp_all add: rows_of_def)

text \<open>Marking the rows of a confirmed batch.\<close>

definition mark :: "emission_row \<Rightarrow> emission_row" where
  "mark r = (if er_u16 r \<noteq> None then r\<lparr>er_emitted := True\<rparr> else r)"

lemma mark_rows_other [simp]:
  "lg_next (mark_rows i d) = lg_next d" "lg_batches (mark_rows i d) = lg_batches d"
  "lg_fences (mark_rows i d) = lg_fences d"
  by (simp_all add: mark_rows_def)

lemma rows_of_mark: "rows_of (mark_rows i d) j = (if j = i then map mark (rows_of d j) else rows_of d j)"
proof -
  have "map snd (filter (\<lambda>(k, _). k = j) (update_where (\<lambda>(k, r). k = i \<and> er_u16 r \<noteq> None)
            (\<lambda>(k, r). (k, r\<lparr>er_emitted := True\<rparr>)) rs))
        = (if j = i then map mark (map snd (filter (\<lambda>(k, _). k = j) rs)) else map snd (filter (\<lambda>(k, _). k = j) rs))"
    for rs by (induction rs) (auto simp: mark_def)
  then show ?thesis by (simp add: rows_of_def mark_rows_def)
qed

lemma row_keys_mark [simp]: "map fst (lg_rows (mark_rows i d)) = map fst (lg_rows d)"
proof -
  have "map fst (update_where p (\<lambda>(j, r). (j, g r)) rs) = map fst rs" for p g and rs :: "(nat \<times> emission_row) list"
    by (induction rs) auto
  then show ?thesis by (simp add: mark_rows_def)
qed

lemma row_targets_mark [simp]: "row_targets (map mark rows) = row_targets rows"
  by (induction rows) (auto simp: row_targets_def mark_def)

lemma expected_targets_mark [simp]:
  "expected_weight_targets (mark_rows i d) j = expected_weight_targets d j"
  by (simp add: expected_weight_targets_def rows_of_mark)

lemma expected_targets_update [simp]:
  "expected_weight_targets (update_batches p f d) j = expected_weight_targets d j"
  by (simp add: expected_weight_targets_def)

subsection \<open>What an operation may do to a batch\<close>

text \<open>The columns that no operation changes after the insertion.\<close>

definition core ::
  "emission_batch \<Rightarrow> string \<times> int option \<times> int option \<times> int option \<times> string option \<times> int option \<times> int option
     \<times> string option \<times> string option" where
  "core b = (eb_schema b, eb_submission b, eb_baseline b, eb_period b, eb_identity b, eb_netuid b, eb_uid b,
             eb_hotkey b, eb_intent b)"

text \<open>An operation other than an insertion touches open batches only, keeps their core, and marks
  the rows of the batches that it confirms.\<close>

definition batch_move :: "emission_batch \<Rightarrow> emission_batch \<Rightarrow> bool" where
  "batch_move b b' \<longleftrightarrow> b' = b \<or> is_open b \<and> core b' = core b"

definition rows_follow :: "emission_batch \<Rightarrow> emission_batch \<Rightarrow> emission_row list \<Rightarrow> emission_row list \<Rightarrow> bool" where
  "rows_follow b b' rows rows' \<longleftrightarrow>
     rows' = (if eb_state b' = Some ''confirmed'' \<and> eb_state b \<noteq> Some ''confirmed'' then map mark rows else rows)"

definition moves :: "ledger \<Rightarrow> ledger \<Rightarrow> bool" where
  "moves d d' \<longleftrightarrow> lg_next d' = lg_next d \<and> map fst (lg_batches d') = map fst (lg_batches d)
     \<and> map fst (lg_rows d') = map fst (lg_rows d)
     \<and> (\<forall>i b'. (i, b') \<in> set (lg_batches d') \<longrightarrow>
          (\<exists>b. (i, b) \<in> set (lg_batches d) \<and> batch_move b b' \<and> rows_follow b b' (rows_of d i) (rows_of d' i)))"

lemma mark_mark [simp]: "mark (mark r) = mark r"
  by (simp add: mark_def)

lemma not_open_confirmed: "is_open b \<Longrightarrow> eb_state b \<noteq> Some ''confirmed''"
  by (auto simp: is_open_iff open_states_def)

lemma moves_refl [simp]: "moves d d"
  by (auto simp: moves_def batch_move_def rows_follow_def)

lemma rows_follow_trans:
  assumes "batch_move b b1" "rows_follow b b1 r r1" "batch_move b1 b2" "rows_follow b1 b2 r1 r2"
  shows "rows_follow b b2 r r2"
proof (cases "is_open b1")
  case True
  then have "eb_state b1 \<noteq> Some ''confirmed''" by (rule not_open_confirmed)
  moreover have "eb_state b \<noteq> Some ''confirmed''"
    using assms(1) True by (auto simp: batch_move_def dest: not_open_confirmed)
  ultimately show ?thesis using assms by (auto simp: rows_follow_def)
next
  case False
  then have "b2 = b1" using assms(3) by (simp add: batch_move_def)
  then show ?thesis using assms by (auto simp: rows_follow_def)
qed

lemma movesD:
  assumes "moves d d'" "(i, b') \<in> set (lg_batches d')"
  obtains b where "(i, b) \<in> set (lg_batches d)" "batch_move b b'" "rows_follow b b' (rows_of d i) (rows_of d' i)"
  using assms unfolding moves_def by blast

lemma moves_trans:
  assumes "moves d d1" "moves d1 d2"
  shows "moves d d2"
proof -
  have "\<exists>b. (i, b) \<in> set (lg_batches d) \<and> batch_move b b2 \<and> rows_follow b b2 (rows_of d i) (rows_of d2 i)"
    if step: "(i, b2) \<in> set (lg_batches d2)" for i b2
  proof -
    obtain b1 where b1: "(i, b1) \<in> set (lg_batches d1)" "batch_move b1 b2"
        "rows_follow b1 b2 (rows_of d1 i) (rows_of d2 i)"
      using movesD [OF assms(2) step] by metis
    obtain b where b: "(i, b) \<in> set (lg_batches d)" "batch_move b b1" "rows_follow b b1 (rows_of d i) (rows_of d1 i)"
      using movesD [OF assms(1) b1(1)] by metis
    have "batch_move b b2" using b(2) b1(2) by (auto simp: batch_move_def)
    with b b1 show ?thesis using rows_follow_trans by blast
  qed
  with assms show ?thesis unfolding moves_def by metis
qed

lemma moves_update:
  assumes "\<And>i b. (i, b) \<in> set (lg_batches d) \<Longrightarrow> p (i, b) \<Longrightarrow>
             is_open b \<and> core (f b) = core b \<and> eb_state (f b) \<noteq> Some ''confirmed''"
  shows "moves d (update_batches p f d)"
proof -
  have "\<exists>b. (i, b) \<in> set (lg_batches d) \<and> batch_move b b' \<and> rows_follow b b' (rows_of d i) (rows_of d i)"
    if updated: "(i, b') \<in> set (lg_batches (update_batches p f d))" for i b'
  proof -
    obtain b where b: "(i, b) \<in> set (lg_batches d)" "b' = (if p (i, b) then f b else b)"
      using updated unfolding in_update_batches by blast
    then show ?thesis using assms [of i b]
      by (cases "p (i, b)") (auto simp: batch_move_def rows_follow_def)
  qed
  then show ?thesis by (simp add: moves_def)
qed

subsection \<open>The operations move batches\<close>

lemma open_states_open: "st \<in> set open_states \<Longrightarrow> eb_state b = Some st \<Longrightarrow> is_open b"
  by (simp add: is_open_iff)

lemma confirm_moves:
  assumes "st \<in> set open_states" "unique_on fst (lg_batches d)"
    and "(i, b) \<in> set (lg_batches d)" "eb_state b = Some st"
  shows "moves d (mark_rows i (update_batches (\<lambda>(j, b). j = i \<and> eb_state b = Some st)
           (\<lambda>b. b\<lparr>eb_state := Some ''confirmed'', eb_confirmed_at := Some now\<rparr>) d))"
    (is "moves d (mark_rows i (update_batches ?p ?f d))")
proof -
  have "\<exists>b0. (j, b0) \<in> set (lg_batches d) \<and> batch_move b0 b'
          \<and> rows_follow b0 b' (rows_of d j) (rows_of (mark_rows i (update_batches ?p ?f d)) j)"
    if updated: "(j, b') \<in> set (lg_batches (update_batches ?p ?f d))" for j b'
  proof -
    obtain b0 where b0: "(j, b0) \<in> set (lg_batches d)" "b' = (if ?p (j, b0) then ?f b0 else b0)"
      using updated unfolding in_update_batches by blast
    have "b0 = b" if "j = i"
      using unique_on_eq [OF assms(2) b0(1) assms(3)] that by simp
    moreover have "is_open b" using assms(1,4) by (rule open_states_open)
    ultimately show ?thesis
      using b0 assms(4) not_open_confirmed [OF \<open>is_open b\<close>]
      by (cases "j = i") (auto simp: batch_move_def rows_follow_def rows_of_mark core_def intro!: exI [of _ b0])
  qed
  then show ?thesis by (simp add: moves_def)
qed

lemma apply_moves:
  assumes "apply_weight_resolution i st decision now d = Inr (d', c, u)"
    and st: "st \<in> set open_states" "unique_on fst (lg_batches d)"
  shows "moves d d' \<and> (d' = d \<or> ledger_ok d')"
proof -
  let ?p = "\<lambda>(j, b). j = i \<and> eb_state b = Some st"
  have nc: "st \<noteq> ''confirmed''" using st(1) by (auto simp: open_states_def)
  show ?thesis
  proof (cases "de_commit_block decision")
    case (Some block)
    then show ?thesis
      using assms(1) by (auto simp: apply_weight_resolution_def core_def nc
          intro!: moves_update open_states_open [OF st(1)])
  next
    case None
    consider "de_confirm decision" "list_ex ?p (lg_batches d)" | "de_confirm decision" "\<not> list_ex ?p (lg_batches d)"
      | "\<not> de_confirm decision" by blast
    then show ?thesis
    proof cases
      case 1
      then obtain b where b: "(i, b) \<in> set (lg_batches d)" "eb_state b = Some st" by (auto simp: list_ex_iff)
      then show ?thesis
        using assms(1) 1 None confirm_moves [OF st b]
        by (auto simp: apply_weight_resolution_def Let_def)
    next
      case 2
      then have "\<not> ?p ib" if "ib \<in> set (lg_batches d)" for ib using that by (auto simp: list_ex_iff)
      then have "update_batches ?p f d = d" for f by (rule update_batches_none)
      then show ?thesis using assms(1) 2 None by (auto simp: apply_weight_resolution_def Let_def)
    next
      case 3
      then show ?thesis
        using assms(1) None by (auto simp: apply_weight_resolution_def Let_def core_def split: if_splits
            intro!: moves_update dest: open_states_open [OF st(1)] not_open_confirmed)
    qed
  qed
qed

lemma moves_unique: "moves d d' \<Longrightarrow> unique_on fst (lg_batches d) \<Longrightarrow> unique_on fst (lg_batches d')"
  by (simp add: moves_def unique_on_def)

lemma resolve_moves:
  assumes "resolve_batches blake2b s margin now bs (d, c, u) = Inr (d', c', u')"
    and "unique_on fst (lg_batches d)" "list_all (\<lambda>(_, b). is_open b) bs"
  shows "moves d d' \<and> (d' = d \<or> ledger_ok d')"
  using assms
proof (induction bs arbitrary: d c u)
  case (Cons ib bs)
  obtain i b where ib: "ib = (i, b)" by force
  obtain st where st: "eb_state b = Some st" "st \<in> set open_states"
    using Cons.prems(3) ib by (auto simp: is_open_iff)
  obtain decision d1 c1 u1 where d1: "apply_weight_resolution i st decision now d = Inr (d1, c1, u1)"
      "resolve_batches blake2b s margin now bs (d1, c + c1, u + u1) = Inr (d', c', u')"
    using Cons.prems(1) ib st by auto
  have move: "moves d d1" "d1 = d \<or> ledger_ok d1" using apply_moves [OF d1(1) st(2) Cons.prems(2)] by auto
  have "moves d1 d' \<and> (d' = d1 \<or> ledger_ok d')"
    using Cons.IH [OF d1(2) moves_unique [OF move(1) Cons.prems(2)]] Cons.prems(3) by simp
  with move show ?case using moves_trans by blast
qed simp

lemma open_batches_open: "list_all (\<lambda>(_, b). is_open b) (open_batches schema d)"
  by (auto simp: open_batches_def list_all_iff)

lemma transition_moves:
  "transition_weight_emission_attempt i status state mode commitment reveal_round deadline reveal_deadline d = Inr d'
     \<Longrightarrow> moves d d' \<and> ledger_ok d'"
  by (auto simp: transition_weight_emission_attempt_def Let_def core_def is_open_iff open_states_def
      split: if_splits intro!: moves_update)

lemma advance_moves: "moves d (advance_cr4_reveal_scan_cursor i through d)"
  unfolding advance_cr4_reveal_scan_cursor_def
  by (rule moves_update) (auto simp: core_def dest: not_open_confirmed)

lemma moves_other_ok:
  assumes "ledger_ok d" "lg_batches d' = lg_batches d" "lg_rows d' = lg_rows d"
  shows "ledger_ok d'"
  using assms by (simp add: ledger_ok_def)

lemma advance_ok: "ledger_ok d \<Longrightarrow> ledger_ok (advance_cr4_reveal_scan_cursor i through d)"
proof -
  let ?p = "\<lambda>(j :: nat, b). j = i \<and> is_open b"
    and ?f = "\<lambda>(j :: nat, b). (j, b\<lparr>eb_cursor := raise_or_set (eb_cursor b) (Some through)\<rparr>)"
  have checks: "batch_checks (b\<lparr>eb_cursor := x\<rparr>) = batch_checks b" for b x
    by (simp add: batch_checks_def is_open_iff resolution_fields_def)
  have openb: "is_open (b\<lparr>eb_cursor := x\<rparr>) = is_open b" for b x by (simp add: is_open_iff)
  have "list_all (\<lambda>(_, b). batch_checks b) (update_where ?p ?f bs) = list_all (\<lambda>(_, b). batch_checks b) bs" for bs
    by (induction bs) (auto simp: checks)
  moreover have "map (\<lambda>(_, b). eb_schema b) (filter (\<lambda>(_, b). is_open b) (update_where ?p ?f bs))
      = map (\<lambda>(_, b). eb_schema b) (filter (\<lambda>(_, b). is_open b) bs)" for bs
    by (induction bs) (auto simp: openb)
  moreover assume "ledger_ok d"
  ultimately show ?thesis
    by (simp add: ledger_ok_def advance_cr4_reveal_scan_cursor_def update_batches_def unique_on_def)
qed

end
