(* ===== verification/Ledger_Properties.thy ===== *)
theory Ledger_Properties
  imports Ledger_Facts
begin

text \<open>
  The steps of a ledger, the invariant of the reachable ledgers, and the properties of weight
  emissions: confirmation rests on chain evidence, a closed batch is final, a deadline closes.
\<close>

subsection \<open>Steps\<close>

inductive ledger_step :: "(bytes \<Rightarrow> bytes) \<Rightarrow> ledger \<Rightarrow> ledger \<Rightarrow> bool" for blake2b where
  recorded: "record_weight_emission blake2b b key rows d = Inr (d', i) \<Longrightarrow> ledger_step blake2b d d'"
| transitioned:
    "transition_weight_emission_attempt i status state mode commitment reveal_round deadline reveal_deadline d
       = Inr d' \<Longrightarrow> ledger_step blake2b d d'"
| resolved: "resolve_weight_emission_confirmations blake2b schema s margin now d = Inr (d', c, u)
     \<Longrightarrow> ledger_step blake2b d d'"
| advanced: "ledger_step blake2b d (advance_cr4_reveal_scan_cursor i through d)"
| fenced: "record_weight_emission_startup_fence schema key block d = Inr d' \<Longrightarrow> ledger_step blake2b d d'"

inductive ledger_reachable :: "(bytes \<Rightarrow> bytes) \<Rightarrow> ledger \<Rightarrow> bool" for blake2b where
  empty: "ledger_reachable blake2b empty_ledger"
| stepped: "ledger_reachable blake2b d \<Longrightarrow> ledger_step blake2b d d' \<Longrightarrow> ledger_reachable blake2b d'"

subsection \<open>The invariant\<close>

text \<open>The intent that the rows and the identity of a batch hash to, under the current version key.\<close>

definition batch_intent :: "(bytes \<Rightarrow> bytes) \<Rightarrow> emission_batch \<Rightarrow> emission_row list \<Rightarrow> string option" where
  "batch_intent blake2b b rows =
     (case (eb_identity b, eb_netuid b, eb_uid b, eb_hotkey b) of
        (Some identity, Some netuid, Some uid, Some hotkey) \<Rightarrow>
          Some (weight_intent_hash blake2b identity netuid uid hotkey (row_targets rows) (Some current_version_key))
      | _ \<Rightarrow> None)"

definition batch_inv :: "(bytes \<Rightarrow> bytes) \<Rightarrow> emission_batch \<Rightarrow> emission_row list \<Rightarrow> bool" where
  "batch_inv blake2b b rows \<longleftrightarrow>
     (is_open b \<or> eb_state b = Some ''confirmed'' \<longrightarrow> (\<exists>h. eb_intent b = Some h \<and> batch_intent blake2b b rows = Some h))
     \<and> list_all (\<lambda>r. er_emitted r \<longleftrightarrow> er_u16 r \<noteq> None \<and> eb_state b = Some ''confirmed'') rows"

definition ledger_inv :: "(bytes \<Rightarrow> bytes) \<Rightarrow> ledger \<Rightarrow> bool" where
  "ledger_inv blake2b d \<longleftrightarrow> ledger_ok d \<and> unique_on fst (lg_batches d)
     \<and> list_all (\<lambda>i. i < lg_next d) (map fst (lg_batches d) @ map fst (lg_rows d))
     \<and> list_all (\<lambda>(i, b). batch_inv blake2b b (rows_of d i)) (lg_batches d)"

lemma batch_inv_move:
  assumes "batch_inv blake2b b rows" "batch_move b b'" "rows_follow b b' rows rows'"
  shows "batch_inv blake2b b' rows'"
proof (cases "b' = b")
  case True
  then show ?thesis using assms by (auto simp: rows_follow_def)
next
  case False
  then have b: "is_open b" "core b' = core b" using assms(2) by (auto simp: batch_move_def)
  have none: "list_all (\<lambda>r. \<not> er_emitted r) rows"
    using assms(1) not_open_confirmed [OF b(1)] by (auto simp: batch_inv_def list_all_iff)
  have targets: "row_targets rows' = row_targets rows" using assms(3) by (simp add: rows_follow_def)
  have emitted: "list_all (\<lambda>r. er_emitted r \<longleftrightarrow> er_u16 r \<noteq> None \<and> eb_state b' = Some ''confirmed'') rows'"
    using assms(3) none not_open_confirmed [OF b(1)] by (auto simp: rows_follow_def list_all_iff mark_def)
  have "batch_intent blake2b b' rows' = batch_intent blake2b b rows" "eb_intent b' = eb_intent b"
    using b(2) targets by (auto simp: batch_intent_def core_def split: option.splits)
  moreover have "(\<exists>h. eb_intent b = Some h \<and> batch_intent blake2b b rows = Some h)"
    using assms(1) b(1) by (simp add: batch_inv_def)
  ultimately show ?thesis using emitted by (simp add: batch_inv_def)
qed

lemma ledger_inv_moves:
  assumes "ledger_inv blake2b d" "moves d d'" "ledger_ok d'"
  shows "ledger_inv blake2b d'"
proof -
  have "batch_inv blake2b b' (rows_of d' i)" if new: "(i, b') \<in> set (lg_batches d')" for i b'
  proof -
    obtain b where b: "(i, b) \<in> set (lg_batches d)" "batch_move b b'" "rows_follow b b' (rows_of d i) (rows_of d' i)"
      using movesD [OF assms(2) new] by metis
    have "batch_inv blake2b b (rows_of d i)"
      using assms(1) b(1) by (auto simp: ledger_inv_def list_all_iff)
    with b show ?thesis using batch_inv_move by blast
  qed
  moreover have "map fst (lg_batches d') = map fst (lg_batches d)" "map fst (lg_rows d') = map fst (lg_rows d)"
    "lg_next d' = lg_next d" using assms(2) by (auto simp: moves_def)
  ultimately show ?thesis
    using assms(1,3) by (auto simp: ledger_inv_def unique_on_def list_all_iff)
qed

subsection \<open>Insertions\<close>

lemma rows_of_fresh: "(\<And>j. j \<in> fst ` set (lg_rows d) \<Longrightarrow> j < i) \<Longrightarrow> rows_of d i = []"
  by (force simp: rows_of_def filter_empty_conv)

lemma rows_of_append:
  "rows_of (d\<lparr>lg_next := n, lg_batches := bs, lg_rows := lg_rows d @ map (Pair i) rows\<rparr>) j =
     rows_of d j @ (if j = i then rows else [])"
  by (auto simp: rows_of_def filter_map o_def)

definition stored_batch :: "emission_batch \<Rightarrow> emission_batch" where
  "stored_batch b = b\<lparr>eb_cursor := None, eb_seen_update := None\<rparr>"

definition stored_rows :: "emission_row list \<Rightarrow> emission_row list" where
  "stored_rows rows = map (\<lambda>r. r\<lparr>er_emitted := False\<rparr>) rows"

lemma row_targets_stored [simp]: "row_targets (stored_rows rows) = row_targets rows"
  by (induction rows) (auto simp: row_targets_def stored_rows_def split: option.splits)

lemma record_result:
  assumes "record_weight_emission blake2b b key rows d = Inr (d', i)"
  shows "i = lg_next d" "ledger_ok d'"
    and "d' = d\<lparr>lg_next := i + 1, lg_batches := lg_batches d @ [(i, stored_batch b)],
                lg_rows := lg_rows d @ map (Pair i) (stored_rows rows)\<rparr>"
    and "validate_emission_transport (eb_status b) (eb_state b) (eb_confirmed_at b) = Inr ()"
    and "validate_emission_evidence blake2b b key rows = Inr ()"
  using assms by (auto simp: record_weight_emission_def Let_def stored_batch_def stored_rows_def o_def split: if_splits)

lemma open_fields:
  assumes "validate_emission_evidence blake2b b key rows = Inr ()" "is_open b"
  shows "(\<exists>h. eb_intent b = Some h \<and> batch_intent blake2b b rows = Some h)"
proof -
  obtain identity netuid uid hotkey mode intent where f: "eb_identity b = Some identity" "eb_netuid b = Some netuid"
      "eb_uid b = Some uid" "eb_hotkey b = Some hotkey" "eb_mode b = Some mode" "eb_intent b = Some intent"
    using assms by (auto simp: validate_emission_evidence_def resolution_fields_def split: if_splits)
  have "validate_emission_intent blake2b b key rows = Inr ()"
    using assms by (auto simp: validate_emission_evidence_def split: if_splits)
  then obtain v where "recorded_protocol_version intent = Inr (Some v)" "v = current_version_key"
      "intent = weight_intent_hash blake2b identity netuid uid hotkey (row_targets rows) (Some v)"
    using f assms(2) by (auto simp: validate_emission_intent_def split: if_splits option.splits)
  with f show ?thesis by (simp add: batch_intent_def)
qed

lemma stored_batch_simps [simp]:
  "eb_state (stored_batch b) = eb_state b" "is_open (stored_batch b) = is_open b"
  "eb_intent (stored_batch b) = eb_intent b" "batch_intent blake2b (stored_batch b) rows = batch_intent blake2b b rows"
  by (simp_all add: stored_batch_def is_open_iff batch_intent_def)

lemma batch_intent_stored [simp]: "batch_intent blake2b b (stored_rows rows) = batch_intent blake2b b rows"
  by (simp add: batch_intent_def split: option.splits)

lemma record_new_inv:
  assumes "record_weight_emission blake2b b key rows d = Inr (d', i)"
  shows "batch_inv blake2b (stored_batch b) (stored_rows rows)"
proof -
  have "eb_state b \<noteq> Some ''confirmed''"
    using record_result(4) [OF assms] by (auto simp: validate_emission_transport_def split: if_splits)
  then show ?thesis
    using open_fields [OF record_result(5) [OF assms]]
    by (auto simp: batch_inv_def list_all_iff) (auto simp: stored_rows_def)
qed

lemma ledger_inv_record:
  assumes "ledger_inv blake2b d" "record_weight_emission blake2b b key rows d = Inr (d', i)"
  shows "ledger_inv blake2b d'"
proof -
  note r = record_result [OF assms(2)]
  have below: "j < i" if "j \<in> fst ` set (lg_batches d) \<union> fst ` set (lg_rows d)" for j
    using assms(1) that r(1) by (auto simp: ledger_inv_def list_all_iff)
  have rows: "rows_of d' j = rows_of d j @ (if j = i then stored_rows rows else [])" for j
    unfolding r(3) by (rule rows_of_append)
  have "rows_of d i = []" using below by (intro rows_of_fresh) auto
  then have new: "batch_inv blake2b (stored_batch b) (rows_of d' i)"
    using record_new_inv [OF assms(2)] rows by simp
  have old: "batch_inv blake2b b0 (rows_of d' j)" if "(j, b0) \<in> set (lg_batches d)" for j b0
  proof -
    have "j \<noteq> i" using below [of j] that by force
    then show ?thesis using assms(1) that rows by (auto simp: ledger_inv_def list_all_iff)
  qed
  have "unique_on fst (lg_batches d')"
    using assms(1) below unfolding r(3) by (auto simp: ledger_inv_def)
  moreover have "list_all (\<lambda>j. j < lg_next d') (map fst (lg_batches d') @ map fst (lg_rows d'))"
    using below unfolding r(3) by (auto simp: list_all_iff less_Suc_eq)
  ultimately show ?thesis
    using r(2) new old by (auto simp: ledger_inv_def list_all_iff r(3))
qed

lemma fence_result:
  "record_weight_emission_startup_fence schema key block d = Inr d' \<Longrightarrow>
     lg_batches d' = lg_batches d \<and> lg_rows d' = lg_rows d \<and> lg_next d' = lg_next d"
  by (auto simp: record_weight_emission_startup_fence_def split: if_splits option.splits)

lemma resolve_result:
  assumes "resolve_weight_emission_confirmations blake2b schema s margin now d = Inr (d', c, u)"
  shows "0 \<le> margin" "validate_weight_chain_snapshot s = Inr ()"
    and "resolve_batches blake2b s margin now (open_batches schema d) (d, 0, 0) = Inr (d', c, u)"
  using assms by (auto simp: resolve_weight_emission_confirmations_def split: if_splits)

lemma step_moves:
  assumes "ledger_step blake2b d d'" "ledger_inv blake2b d"
  obtains b key rows i where "record_weight_emission blake2b b key rows d = Inr (d', i)"
    | "moves d d'" "ledger_ok d'"
  using assms(1)
proof cases
  case (transitioned i status state mode commitment reveal_round deadline reveal_deadline)
  then show ?thesis using that(2) transition_moves by blast
next
  case (resolved schema s margin now c u)
  have "unique_on fst (lg_batches d)" using assms(2) by (simp add: ledger_inv_def)
  then have "moves d d' \<and> (d' = d \<or> ledger_ok d')"
    using resolve_moves [OF resolve_result(3) [OF resolved] _ open_batches_open] by blast
  then show ?thesis using that(2) assms(2) by (auto simp: ledger_inv_def)
next
  case (advanced i through)
  then show ?thesis using that(2) advance_moves advance_ok assms(2) by (auto simp: ledger_inv_def)
next
  case (fenced schema key block)
  then have same: "lg_batches d' = lg_batches d" "lg_rows d' = lg_rows d" "lg_next d' = lg_next d"
    by (auto dest: fence_result)
  then have "moves d d'" by (auto simp: moves_def batch_move_def rows_follow_def rows_of_def)
  then show ?thesis using that(2) moves_other_ok [OF _ same(1,2)] assms(2) by (auto simp: ledger_inv_def)
qed (use that(1) in blast)

lemma ledger_inv_step: "ledger_step blake2b d d' \<Longrightarrow> ledger_inv blake2b d \<Longrightarrow> ledger_inv blake2b d'"
  by (metis step_moves ledger_inv_record ledger_inv_moves)

lemma ledger_inv_reachable: "ledger_reachable blake2b d \<Longrightarrow> ledger_inv blake2b d"
proof (induction rule: ledger_reachable.induct)
  case empty
  show ?case by (simp add: ledger_inv_def ledger_ok_def empty_ledger_def)
next
  case (stepped d d')
  then show ?case using ledger_inv_step by blast
qed

subsection \<open>Confirmation\<close>

text \<open>The chain evidence that confirms a batch: its own identity, the persisted vector on chain and
  its intent, and an update after the submission and before the margin of the deadline, or a reveal.\<close>

definition direct_evidence :: "chain_snapshot \<Rightarrow> int \<Rightarrow> emission_batch \<Rightarrow> bool" where
  "direct_evidence s margin b \<longleftrightarrow>
     (\<exists>submission baseline deadline. eb_submission b = Some submission \<and> eb_baseline b = Some baseline
        \<and> eb_deadline b = Some deadline \<and> max submission baseline < cs_last_update s
        \<and> cs_last_update s \<le> deadline - margin)"

definition reveal_evidence_for :: "chain_snapshot \<Rightarrow> emission_batch \<Rightarrow> bool" where
  "reveal_evidence_for s b \<longleftrightarrow>
     (\<exists>submission. eb_submission b = Some submission
        \<and> cr4_reveal_matches s submission (eb_observed b) (eb_reveal_deadline b))"

definition chain_confirms ::
  "(bytes \<Rightarrow> bytes) \<Rightarrow> chain_snapshot \<Rightarrow> int \<Rightarrow> weight_target list \<Rightarrow> emission_batch \<Rightarrow> bool" where
  "chain_confirms blake2b s margin targets b \<longleftrightarrow>
     same_identity s b \<and> vector_matches s targets \<and> intent_matches blake2b s targets (eb_intent b)
     \<and> (if eb_mode b = Some ''direct'' then direct_evidence s margin b else reveal_evidence_for s b)"

lemma direct_confirm:
  "de_confirm (direct_weight_resolution s submission baseline deadline margin m) \<longleftrightarrow>
     m \<and> (\<exists>d. deadline = Some d \<and> max submission baseline < cs_last_update s \<and> cs_last_update s \<le> d - margin)"
  by (auto simp: direct_weight_resolution_def keep_open_def split: option.splits)

lemma cr4_confirm:
  "de_confirm (cr4_weight_resolution s submission period deadline reveal_deadline margin commitment reveal_round
       observed seen m scanned) \<Longrightarrow> m \<and> cr4_reveal_matches s submission observed reveal_deadline"
  by (auto simp: cr4_weight_resolution_def keep_open_def Let_def split: if_splits option.splits list.splits)

lemma decision_confirm:
  assumes "weight_decision blake2b s margin targets b = Inr decision" "de_confirm decision"
  shows "chain_confirms blake2b s margin targets b"
  using assms
  by (auto simp: weight_decision_def chain_confirms_def direct_evidence_def reveal_evidence_for_def
      foreign_decision_def keep_open_def direct_confirm Let_def split: if_splits option.splits dest: cr4_confirm)

lemma apply_confirms:
  assumes "apply_weight_resolution i st decision now d = Inr (d', c, u)"
    and "(j, b') \<in> set (lg_batches d')" "eb_state b' = Some ''confirmed''"
  shows "(j, b') \<in> set (lg_batches d) \<or> j = i \<and> de_confirm decision \<or> j = i \<and> st = ''confirmed''"
  using assms
  by (auto simp: apply_weight_resolution_def Let_def in_update_batches split: if_splits option.splits)

lemma apply_targets:
  "apply_weight_resolution i st decision now d = Inr (d', c, u) \<Longrightarrow>
     expected_weight_targets d' j = expected_weight_targets d j"
  by (auto simp: apply_weight_resolution_def Let_def split: if_splits option.splits)

lemma resolve_confirms:
  assumes "resolve_batches blake2b s margin now bs (d, c, u) = Inr (d', c', u')"
    and "list_all (\<lambda>(_, b). is_open b) bs"
    and "(j, b') \<in> set (lg_batches d')" "eb_state b' = Some ''confirmed''"
  shows "(j, b') \<in> set (lg_batches d)
     \<or> (\<exists>b. (j, b) \<in> set bs \<and> chain_confirms blake2b s margin (expected_weight_targets d j) b)"
  using assms
proof (induction bs arbitrary: d c u)
  case (Cons ib bs)
  obtain i b where ib: "ib = (i, b)" by force
  obtain st where st: "eb_state b = Some st" "st \<in> set open_states"
    using Cons.prems(2) ib by (auto simp: is_open_iff)
  obtain decision d1 c1 u1 where d1: "weight_decision blake2b s margin (expected_weight_targets d i) b = Inr decision"
      "apply_weight_resolution i st decision now d = Inr (d1, c1, u1)"
      "resolve_batches blake2b s margin now bs (d1, c + c1, u + u1) = Inr (d', c', u')"
    using Cons.prems(1) ib st by auto
  have "st \<noteq> ''confirmed''" using st(2) by (auto simp: open_states_def)
  then have new: "(j, b') \<in> set (lg_batches d) \<or> j = i \<and> de_confirm decision" if "(j, b') \<in> set (lg_batches d1)"
    using apply_confirms [OF d1(2) that Cons.prems(4)] by blast
  have "(j, b') \<in> set (lg_batches d1)
     \<or> (\<exists>b. (j, b) \<in> set bs \<and> chain_confirms blake2b s margin (expected_weight_targets d j) b)"
    using Cons.IH [OF d1(3)] Cons.prems(2-) apply_targets [OF d1(2)] by simp
  then show ?case
    using new decision_confirm [OF d1(1)] ib by auto
qed simp

text \<open>Only a resolution confirms.\<close>

lemma moved_confirmed:
  assumes "moves d d'" "(j, b') \<in> set (lg_batches d')" "(j, b') \<notin> set (lg_batches d)"
  obtains b where "(j, b) \<in> set (lg_batches d)" "is_open b" "core b' = core b"
    "rows_follow b b' (rows_of d j) (rows_of d' j)"
  using movesD [OF assms(1,2)] assms(3) by (metis batch_move_def)

lemma transition_confirms:
  assumes "transition_weight_emission_attempt i status state mode commitment reveal_round deadline reveal_deadline d = Inr d'"
    and "(j, b') \<in> set (lg_batches d')" "eb_state b' = Some ''confirmed''"
  shows "(j, b') \<in> set (lg_batches d)"
  using assms by (auto simp: transition_weight_emission_attempt_def Let_def in_update_batches split: if_splits)

text \<open>The operations with their inputs.\<close>

datatype ledger_op =
    Record emission_batch "int option" "emission_row list"
  | Transition nat string string string "string option" "int option" "int option" "int option"
  | Resolve string chain_snapshot int string
  | Advance nat int
  | Fence string int int

fun perform :: "(bytes \<Rightarrow> bytes) \<Rightarrow> ledger_op \<Rightarrow> ledger \<Rightarrow> ledger_error + ledger" where
  "perform blake2b (Record b key rows) d = ebind (record_weight_emission blake2b b key rows d) (\<lambda>(d', _). Inr d')"
| "perform blake2b (Transition i status state mode commitment reveal_round deadline reveal_deadline) d =
     transition_weight_emission_attempt i status state mode commitment reveal_round deadline reveal_deadline d"
| "perform blake2b (Resolve schema s margin now) d =
     ebind (resolve_weight_emission_confirmations blake2b schema s margin now d) (\<lambda>(d', _, _). Inr d')"
| "perform blake2b (Advance i through) d = Inr (advance_cr4_reveal_scan_cursor i through d)"
| "perform blake2b (Fence schema key block) d = record_weight_emission_startup_fence schema key block d"

text \<open>The validator's update, or its reveal, came in the time the batch gives it.\<close>

definition timely_evidence :: "chain_snapshot \<Rightarrow> int \<Rightarrow> emission_batch \<Rightarrow> bool" where
  "timely_evidence s margin b \<longleftrightarrow>
     (\<exists>submission. eb_submission b = Some submission
          \<and> (if eb_mode b = Some ''direct''
             then \<exists>baseline deadline. eb_baseline b = Some baseline \<and> eb_deadline b = Some deadline
                  \<and> submission < cs_last_update s \<and> baseline < cs_last_update s
                  \<and> cs_last_update s \<le> deadline - margin
             else list_ex (\<lambda>r. re_hotkey r = cs_hotkey s \<and> re_netuid r = cs_netuid s
                  \<and> (case eb_observed b of Some seen \<Rightarrow> seen | None \<Rightarrow> submission) \<le> re_block r
                  \<and> (case eb_reveal_deadline b of None \<Rightarrow> True | Some stop \<Rightarrow> re_block r \<le> stop)) (cs_reveals s)))"

text \<open>What a snapshot shows of a batch: its chain, subnet and validator; exactly the weights of its rows,
  each under the row's hotkey; its intent; and the validator's update or reveal in time.\<close>

definition chain_shows ::
  "(bytes \<Rightarrow> bytes) \<Rightarrow> chain_snapshot \<Rightarrow> int \<Rightarrow> emission_row list \<Rightarrow> emission_batch \<Rightarrow> bool" where
  "chain_shows blake2b s margin rows b \<longleftrightarrow>
     eb_identity b = Some (cs_identity s) \<and> eb_netuid b = Some (cs_netuid s)
     \<and> eb_uid b = Some (cs_uid s) \<and> eb_hotkey b = Some (cs_hotkey s)
     \<and> mset (cs_weights s) = mset (map (\<lambda>(uid, _, units). (uid, units)) (row_targets rows))
     \<and> list_all (\<lambda>(uid, hotkey, _). map_of (cs_hotkeys s) uid = Some hotkey) (row_targets rows)
     \<and> eb_intent b = Some (weight_intent_hash blake2b (cs_identity s) (cs_netuid s) (cs_uid s) (cs_hotkey s)
           (row_targets rows) (Some current_version_key))
     \<and> timely_evidence s margin b"

lemma confirms_shows:
  assumes "chain_confirms blake2b s margin (expected_weight_targets d i) b"
    and "batch_inv blake2b b (rows_of d i)" "is_open b"
  shows "chain_shows blake2b s margin (rows_of d i) b"
proof -
  have id: "eb_identity b = Some (cs_identity s)" "eb_netuid b = Some (cs_netuid s)"
      "eb_uid b = Some (cs_uid s)" "eb_hotkey b = Some (cs_hotkey s)"
    and v: "vector_matches s (expected_weight_targets d i)"
    using assms(1) by (auto simp: chain_confirms_def same_identity_def)
  have intent: "eb_intent b = Some (weight_intent_hash blake2b (cs_identity s) (cs_netuid s) (cs_uid s) (cs_hotkey s)
      (row_targets (rows_of d i)) (Some current_version_key))"
    using assms(2,3) id by (auto simp: batch_inv_def batch_intent_def)
  have "mset (cs_weights s) = mset (map (\<lambda>(uid, _, units). (uid, units)) (expected_weight_targets d i))"
    using v unfolding vector_matches_def by (metis mset_sort)
  then have w: "mset (cs_weights s) = mset (map (\<lambda>(uid, _, units). (uid, units)) (row_targets (rows_of d i)))"
    by (simp add: expected_weight_targets_def)
  have h: "list_all (\<lambda>(uid, hotkey, _). map_of (cs_hotkeys s) uid = Some hotkey) (row_targets (rows_of d i))"
    using v by (auto simp: vector_matches_def expected_weight_targets_def list_all_iff)
  have "if eb_mode b = Some ''direct'' then direct_evidence s margin b else reveal_evidence_for s b"
    using assms(1) by (simp add: chain_confirms_def)
  then have "timely_evidence s margin b"
    by (cases "eb_mode b = Some ''direct''")
      (auto simp: timely_evidence_def direct_evidence_def reveal_evidence_for_def cr4_reveal_matches_def)
  then show ?thesis using w h intent by (simp add: chain_shows_def id)
qed

lemma perform_step: "perform blake2b op d = Inr d' \<Longrightarrow> ledger_step blake2b d d'"
  by (cases op) (auto intro: ledger_step.intros)

lemma perform_confirms:
  assumes "perform blake2b op d = Inr d'" "ledger_inv blake2b d"
    and b': "(j, b') \<in> set (lg_batches d')" "eb_state b' = Some ''confirmed''" "(j, b') \<notin> set (lg_batches d)"
  shows "\<exists>schema s margin now b. op = Resolve schema s margin now \<and> 0 \<le> margin
     \<and> validate_weight_chain_snapshot s = Inr () \<and> (j, b) \<in> set (lg_batches d) \<and> is_open b \<and> eb_schema b = schema
     \<and> chain_shows blake2b s margin (rows_of d j) b \<and> core b' = core b \<and> rows_of d' j = map mark (rows_of d j)"
proof (cases op)
  case (Record b key rows)
  then obtain i where r: "record_weight_emission blake2b b key rows d = Inr (d', i)" using assms(1) by auto
  then have "eb_state b \<noteq> Some ''confirmed''"
    using record_result(4) [OF r] by (auto simp: validate_emission_transport_def split: if_splits)
  then show ?thesis using record_result(3) [OF r] b' by auto
next
  case (Transition i status state mode commitment reveal_round deadline reveal_deadline)
  then show ?thesis using transition_confirms [OF _ b'(1,2)] b'(3) assms(1) by auto
next
  case (Resolve schema s margin now)
  then obtain c u where "resolve_weight_emission_confirmations blake2b schema s margin now d = Inr (d', c, u)"
    using assms(1) by auto
  note r = resolve_result [OF this]
  obtain b where b: "(j, b) \<in> set (open_batches schema d)"
      "chain_confirms blake2b s margin (expected_weight_targets d j) b"
    using resolve_confirms [OF r(3) open_batches_open b'(1,2)] b'(3) by blast
  have inv: "unique_on fst (lg_batches d)" using assms(2) by (simp add: ledger_inv_def)
  have "moves d d'" using resolve_moves [OF r(3) inv open_batches_open] by blast
  then obtain b0 where b0: "(j, b0) \<in> set (lg_batches d)" "is_open b0" "core b' = core b0"
      "rows_follow b0 b' (rows_of d j) (rows_of d' j)"
    using moved_confirmed [OF _ b'(1,3)] by metis
  have mem: "(j, b) \<in> set (lg_batches d)" "is_open b" "eb_schema b = schema" using b(1) by (simp_all add: open_batches_def)
  then have same: "b0 = b" using unique_on_eq [OF inv b0(1) mem(1)] by simp
  have "batch_inv blake2b b (rows_of d j)" using assms(2) mem(1) by (auto simp: ledger_inv_def list_all_iff)
  then have "chain_shows blake2b s margin (rows_of d j) b" by (rule confirms_shows [OF b(2) _ mem(2)])
  moreover have "rows_of d' j = map mark (rows_of d j)"
    using b0 b'(2) not_open_confirmed [OF b0(2)] by (simp add: rows_follow_def)
  ultimately show ?thesis using Resolve r(1,2) mem b0(3) same by auto
next
  case (Advance i through)
  then have d': "d' = advance_cr4_reveal_scan_cursor i through d" using assms(1) by simp
  have False
    using b' by (auto simp: d' advance_cr4_reveal_scan_cursor_def in_update_batches split: if_splits dest: not_open_confirmed)
  then show ?thesis ..
next
  case (Fence schema key block)
  then show ?thesis using fence_result b' assms(1) by fastforce
qed

lemma closed_stays:
  assumes "ledger_step blake2b d d'" "ledger_inv blake2b d" "(i, b) \<in> set (lg_batches d)" "\<not> is_open b"
  shows "(i, b) \<in> set (lg_batches d') \<and> rows_of d' i = rows_of d i"
proof -
  have "i \<in> set (map fst (lg_batches d))" using assms(3) by force
  then have inv: "unique_on fst (lg_batches d)" "i < lg_next d"
    using assms(2) by (simp_all add: ledger_inv_def list_all_iff)
  consider (new) c key rows k where "record_weight_emission blake2b c key rows d = Inr (d', k)"
    | (move) "moves d d'"
    using step_moves [OF assms(1,2)] by metis
  then show ?thesis
  proof cases
    case new
    then show ?thesis
      using record_result(1,3) [OF new] inv(2) assms(3) rows_of_append by auto
  next
    case move
    have "i \<in> fst ` set (lg_batches d')"
      using move assms(3) by (metis fst_conv image_eqI list.set_map moves_def)
    then obtain b' where "(i, b') \<in> set (lg_batches d')" by auto
    then obtain b0 where "(i, b') \<in> set (lg_batches d')" "(i, b0) \<in> set (lg_batches d)" "batch_move b0 b'"
        "rows_follow b0 b' (rows_of d i) (rows_of d' i)"
      using movesD [OF move] by metis
    moreover have "b0 = b" using unique_on_eq [OF inv(1) calculation(2) assms(3)] by simp
    ultimately show ?thesis using assms(4) by (auto simp: batch_move_def rows_follow_def)
  qed
qed

end
