(* ===== verification/Ledger_Liveness.thy ===== *)
theory Ledger_Liveness
  imports Ledger_Properties
begin

text \<open>
  The deadlines of a weight emission close it, and the reveal scan reads every block of its range
  once.  The properties of the ledger and their witnesses stand at the end.
\<close>

subsection \<open>Closing a batch keeps the constraints\<close>

lemma filter_closed:
  "(\<And>r. r \<in> set rows \<Longrightarrow> p r \<Longrightarrow> \<not> q (f r)) \<Longrightarrow>
     filter q (update_where p f rows) = filter (\<lambda>r. q r \<and> \<not> p r) rows"
  by (induction rows) auto

lemma unique_on_filter: "unique_on key (filter q rows) \<Longrightarrow> unique_on key (filter (\<lambda>r. q r \<and> s r) rows)"
  by (induction rows) (auto split: if_splits)

lemma close_ok:
  assumes "ledger_ok d"
    and "\<And>j b. (j, b) \<in> set (lg_batches d) \<Longrightarrow> p (j, b) \<Longrightarrow> batch_checks (f b) \<and> \<not> is_open (f b)"
  shows "ledger_ok (update_batches p f d)"
proof -
  have "filter (\<lambda>(_, b). is_open b) (lg_batches (update_batches p f d))
      = filter (\<lambda>ib. (case ib of (_, b) \<Rightarrow> is_open b) \<and> \<not> p ib) (lg_batches d)"
    unfolding update_batches_def using assms(2) by (simp, intro filter_closed) auto
  then have "unique_on (\<lambda>(_, b). eb_schema b) (filter (\<lambda>(_, b). is_open b) (lg_batches (update_batches p f d)))"
    using assms(1) by (simp add: ledger_ok_def unique_on_filter)
  moreover have "list_all (\<lambda>(_, b). batch_checks b) (lg_batches (update_batches p f d))"
    using assms by (auto simp: ledger_ok_def list_all_iff in_update_batches split: if_splits)
  ultimately show ?thesis using assms(1) by (simp add: ledger_ok_def)
qed

lemma mark_rows_ok: "ledger_ok d \<Longrightarrow> ledger_ok (mark_rows i d)"
proof -
  have "list_all (\<lambda>(_, r). row_checks r) (update_where (\<lambda>(j, r). j = i \<and> er_u16 r \<noteq> None)
            (\<lambda>(j, r). (j, r\<lparr>er_emitted := True\<rparr>)) rs) = list_all (\<lambda>(_, r). row_checks r) rs"
    if "list_all (\<lambda>(_, r). row_checks r) rs" for rs :: "(nat \<times> emission_row) list"
    using that by (induction rs) (auto simp: row_checks_def)
  moreover have "unique_on (\<lambda>(i, r). (i, er_uid r)) (update_where (\<lambda>(j, r). j = i \<and> er_u16 r \<noteq> None)
            (\<lambda>(j, r). (j, r\<lparr>er_emitted := True\<rparr>)) rs)" if "unique_on (\<lambda>(i, r). (i, er_uid r)) rs"
    for rs :: "(nat \<times> emission_row) list"
    using that by (rule unique_on_update_where) (simp add: split_beta)
  moreover assume "ledger_ok d"
  ultimately show ?thesis by (simp add: ledger_ok_def mark_rows_def del: not_None_eq)
qed

lemma closed_states [simp]:
  "\<not> is_open (b\<lparr>eb_state := Some ''unconfirmed''\<rparr>)"
  "\<not> is_open (b\<lparr>eb_state := Some ''confirmed'', eb_confirmed_at := now\<rparr>)"
  by (simp_all add: is_open_iff open_states_def)

lemma confirmed_checks:
  assumes "batch_checks b" "is_open b"
  shows "batch_checks (b\<lparr>eb_state := Some ''confirmed'', eb_confirmed_at := Some now\<rparr>)"
proof -
  have "resolution_fields b" using assms unfolding batch_checks_def by blast
  then show ?thesis
    using assms(1) unfolding batch_checks_def
    by (elim conjE, intro conjI) (simp_all add: confirmation_states_def resolution_fields_def)
qed

lemma unconfirmed_checks:
  assumes "batch_checks b" "is_open b"
  shows "batch_checks (b\<lparr>eb_state := Some ''unconfirmed''\<rparr>)"
proof -
  have "resolution_fields b" "eb_confirmed_at b = None"
    using assms not_open_confirmed [OF assms(2)] unfolding batch_checks_def by blast+
  then show ?thesis
    using assms(1) unfolding batch_checks_def
    by (elim conjE, intro conjI) (simp_all add: confirmation_states_def resolution_fields_def)
qed

lemma open_after_close:
  assumes "\<And>b. \<not> is_open (f b)"
  shows "set (open_batches schema (update_batches p f d)) \<subseteq> {ib \<in> set (open_batches schema d). \<not> p ib}"
  using assms by (auto simp: open_batches_def in_update_batches split: if_splits) metis

lemma open_batches_mark [simp]: "open_batches schema (mark_rows i d) = open_batches schema d"
  by (simp add: open_batches_def)

lemma apply_closes:
  assumes "ledger_ok d" "st \<in> set open_states" "de_commit_block decision = None"
    and "de_confirm decision \<or> de_unconfirm decision"
  shows "\<exists>d1 c u. apply_weight_resolution i st decision now d = Inr (d1, c, u) \<and> ledger_ok d1
    \<and> set (open_batches schema d1) \<subseteq> {ib \<in> set (open_batches schema d). \<not> (fst ib = i \<and> eb_state (snd ib) = Some st)}"
proof -
  let ?p = "\<lambda>(j, b). j = i \<and> eb_state b = Some st"
  let ?c = "update_batches ?p (\<lambda>b. b\<lparr>eb_state := Some ''confirmed'', eb_confirmed_at := Some now\<rparr>) d"
  let ?u = "update_batches ?p (\<lambda>b. b\<lparr>eb_state := Some ''unconfirmed''\<rparr>) d"
  have checked: "batch_checks b \<and> is_open b" if "(j, b) \<in> set (lg_batches d)" "?p (j, b)" for j b
    using assms(1) that open_states_open [OF assms(2)] by (auto simp: ledger_ok_def list_all_iff)
  have ok: "ledger_ok ?c" "ledger_ok ?u"
    using checked confirmed_checks unconfirmed_checks closed_states by (intro close_ok [OF assms(1)], blast)+
  have sub: "set (open_batches schema ?c) \<subseteq> {ib \<in> set (open_batches schema d). \<not> ?p ib}"
    "set (open_batches schema ?u) \<subseteq> {ib \<in> set (open_batches schema d). \<not> ?p ib}"
    by (rule open_after_close, simp)+
  have shape: "{ib \<in> set (open_batches schema d). \<not> ?p ib}
      = {ib \<in> set (open_batches schema d). \<not> (fst ib = i \<and> eb_state (snd ib) = Some st)}" by auto
  show ?thesis
  proof (cases "de_confirm decision")
    case True
    define d1 where "d1 = (if list_ex ?p (lg_batches d) then mark_rows i ?c else ?c)"
    have "apply_weight_resolution i st decision now d = Inr (d1, if list_ex ?p (lg_batches d) then 1 else 0, 0)"
      using True assms(3) ok(1) mark_rows_ok [OF ok(1)]
      by (simp add: apply_weight_resolution_def constrained_def d1_def)
    moreover have "ledger_ok d1" using ok(1) mark_rows_ok by (simp add: d1_def)
    moreover have "set (open_batches schema d1) \<subseteq> {ib \<in> set (open_batches schema d). \<not> ?p ib}"
      using sub(1) by (simp add: d1_def)
    ultimately show ?thesis unfolding shape by (intro exI conjI)
  next
    case False
    then have "apply_weight_resolution i st decision now d = Inr (?u, 0, if list_ex ?p (lg_batches d) then 1 else 0)"
      using assms(3,4) ok(2) by (simp add: apply_weight_resolution_def constrained_def)
    then show ?thesis using ok(2) sub(2) unfolding shape by (intro exI conjI)
  qed
qed

subsection \<open>Deadlines\<close>

text \<open>Every deadline of the batch has passed at the finalized block.\<close>

definition expired :: "chain_snapshot \<Rightarrow> emission_batch \<Rightarrow> bool" where
  "expired s b \<longleftrightarrow> after (eb_deadline b) (cs_block s)
     \<and> (eb_reveal_deadline b = None \<or> after (eb_reveal_deadline b) (cs_block s))"

lemma after_Some [simp]: "after (Some x) block \<longleftrightarrow> x < block" "\<not> after None block"
  by (simp_all add: after_def)

lemma direct_expired:
  assumes "after deadline (cs_block s)"
  shows "de_confirm (direct_weight_resolution s submission baseline deadline margin m)
     \<or> de_unconfirm (direct_weight_resolution s submission baseline deadline margin m)"
    "de_commit_block (direct_weight_resolution s submission baseline deadline margin m) = None"
  using assms by (auto simp: direct_weight_resolution_def keep_open_def Let_def)

lemma cr4_expired:
  assumes "after deadline (cs_block s)" "reveal_deadline = None \<or> after reveal_deadline (cs_block s)"
    and "list_all (\<lambda>c. ce_hotkey c \<noteq> cs_hotkey s) (cs_commitments s)"
  shows "let r = cr4_weight_resolution s submission period deadline reveal_deadline margin commitment reveal_round
             observed seen m True
         in (de_confirm r \<or> de_unconfirm r) \<and> de_commit_block r = None"
proof -
  have none: "cr4_candidates s submission period deadline margin commitment reveal_round = []"
    using assms(3) by (auto simp: cr4_candidates_def Let_def filter_empty_conv list_all_iff)
  show ?thesis
    unfolding cr4_weight_resolution_def none
    using assms(1,2) by (auto simp: keep_open_def or_else_def Let_def split: option.splits)
qed

lemma foreign_expired:
  assumes "expired s b"
  shows "de_unconfirm (foreign_decision s b) \<and> de_commit_block (foreign_decision s b) = None"
  using assms by (auto simp: foreign_decision_def expired_def keep_open_def Let_def after_def split: option.splits)

lemma batch_checksD:
  assumes "batch_checks b"
  shows "is_open b \<Longrightarrow> resolution_fields b \<and> eb_deadline b \<noteq> None"
    "safe_deadline (eb_deadline b) (eb_submission b) (eb_period b)"
    "case (eb_submission b, eb_baseline b) of (Some s, Some l) \<Rightarrow> l \<le> s | _ \<Rightarrow> True"
    "case eb_period b of None \<Rightarrow> True | Some p \<Rightarrow> 0 < p"
  using assms unfolding batch_checks_def by blast+

lemma decision_expired:
  assumes "batch_checks b" "is_open b" "expired s b" "cs_scan_complete s"
    and "list_all (\<lambda>c. ce_hotkey c \<noteq> cs_hotkey s) (cs_commitments s)"
  obtains decision where "weight_decision blake2b s margin targets b = Inr decision"
    "de_confirm decision \<or> de_unconfirm decision" "de_commit_block decision = None"
proof -
  obtain sub base period deadline where f: "eb_submission b = Some sub" "eb_baseline b = Some base"
      "eb_period b = Some period" "eb_deadline b = Some deadline"
    using batch_checksD(1) [OF assms(1,2)] unfolding resolution_fields_def by blast
  have "base \<le> sub" "0 < period" "sub + period \<le> deadline" "deadline < cs_block s"
    using batch_checksD(2-) [OF assms(1)] assms(3) f by (simp_all add: safe_deadline_def expired_def)
  then have late: "\<not> cs_block s < max sub base" by simp
  have expired: "after (Some deadline) (cs_block s)"
      "eb_reveal_deadline b = None \<or> after (eb_reveal_deadline b) (cs_block s)"
    using assms(3) f by (auto simp: expired_def)
  show ?thesis
  proof (cases "same_identity s b")
    case False
    then show ?thesis using that [of "foreign_decision s b"] foreign_expired [OF assms(3)]
      by (simp add: weight_decision_def)
  next
    case True
    then show ?thesis
      using f late assms(4) that direct_expired [OF expired(1)] cr4_expired [OF expired assms(5)]
      by (cases "eb_mode b = Some ''direct''") (auto simp: weight_decision_def Let_def)
  qed
qed

lemma resolve_closes:
  assumes "ledger_ok d" "set (open_batches schema d) \<subseteq> set bs" "unique_on fst bs"
    and "list_all (\<lambda>(_, b). batch_checks b \<and> is_open b \<and> expired s b) bs" "cs_scan_complete s"
    and "list_all (\<lambda>c. ce_hotkey c \<noteq> cs_hotkey s) (cs_commitments s)"
  shows "\<exists>d' c' u'. resolve_batches blake2b s margin now bs (d, c, u) = Inr (d', c', u') \<and> open_batches schema d' = []"
  using assms(1-4)
proof (induction bs arbitrary: d c u)
  case (Cons ib bs)
  obtain i b where ib: "ib = (i, b)" by force
  have b: "batch_checks b" "is_open b" "expired s b" using Cons.prems(4) ib by auto
  obtain st where st: "eb_state b = Some st" "st \<in> set open_states" using b(2) by (auto simp: is_open_iff)
  obtain decision where dec: "weight_decision blake2b s margin (expected_weight_targets d i) b = Inr decision"
      "de_confirm decision \<or> de_unconfirm decision" "de_commit_block decision = None"
    using decision_expired [OF b assms(5,6)] by metis
  obtain d1 c1 u1 where d1: "apply_weight_resolution i st decision now d = Inr (d1, c1, u1)" "ledger_ok d1"
      "set (open_batches schema d1) \<subseteq> {ib \<in> set (open_batches schema d). \<not> (fst ib = i \<and> eb_state (snd ib) = Some st)}"
    using apply_closes [OF Cons.prems(1) st(2) dec(3,2), where schema = schema and now = now] by blast
  have "set (open_batches schema d1) \<subseteq> set bs"
  proof
    fix x assume "x \<in> set (open_batches schema d1)"
    then have "x \<in> set (open_batches schema d)" "\<not> (fst x = i \<and> eb_state (snd x) = Some st)"
      using d1(3) by blast+
    moreover from this(1) have "x = (i, b) \<or> x \<in> set bs" using Cons.prems(2) ib by auto
    ultimately show "x \<in> set bs" using st(1) by auto
  qed
  then have "\<exists>d' c' u'. resolve_batches blake2b s margin now bs (d1, c + c1, u + u1) = Inr (d', c', u')
      \<and> open_batches schema d' = []"
    using Cons.IH [OF d1(2)] Cons.prems(3,4) by simp
  then show ?case using ib st(1) dec(1) d1(1) by simp
qed simp

subsection \<open>The reveal scan\<close>

lemma unique_on_at_most_one:
  "unique_on key (filter q rows) \<Longrightarrow> length (filter (\<lambda>r. key r = k \<and> q r) rows) \<le> 1"
proof (induction rows)
  case (Cons r rows)
  have "filter (\<lambda>r. key r = k \<and> q r) rows = []" if "q r" "key r = k"
    using Cons.prems that by (auto simp: filter_empty_conv image_iff)
  with Cons show ?case by (auto split: if_splits)
qed simp

lemma one_open:
  assumes "ledger_ok d" "ib \<in> set (open_batches schema d)"
  shows "open_batches schema d = [ib]"
proof -
  have "open_batches schema d = filter (\<lambda>ib. (case ib of (_, b) \<Rightarrow> eb_schema b) = schema
          \<and> (case ib of (_, b) \<Rightarrow> is_open b)) (lg_batches d)"
    by (simp add: open_batches_def case_prod_unfold)
  then have "length (open_batches schema d) \<le> 1"
    using assms(1) unique_on_at_most_one [of "\<lambda>(_, b). eb_schema b" "\<lambda>(_, b). is_open b" "lg_batches d" schema]
    by (simp add: ledger_ok_def)
  with assms(2) show ?thesis by (cases "open_batches schema d") auto
qed

text \<open>\<open>n\<close> passes of the scan at one finalized block, each reading its window and advancing the cursor.\<close>

fun scan_run :: "nat \<Rightarrow> string \<Rightarrow> int \<Rightarrow> ledger \<Rightarrow> scan_window list \<times> ledger" where
  "scan_run 0 schema finalized d = ([], d)"
| "scan_run (Suc n) schema finalized d =
     (case cr4_reveal_scan_window schema finalized d of
        Inr (Some w) \<Rightarrow>
          (let (ws, d') = scan_run n schema finalized (advance_cr4_reveal_scan_cursor (sw_batch w) (sw_end w) d)
           in (w # ws, d'))
      | _ \<Rightarrow> ([], d))"

definition scan_start :: "int \<Rightarrow> emission_batch \<Rightarrow> int" where
  "scan_start submission b = max submission (case eb_cursor b of None \<Rightarrow> submission | Some c \<Rightarrow> c + 1)"

lemma scan_window_of:
  "eb_submission b = Some submission \<Longrightarrow> eb_reveal_deadline b = Some deadline \<Longrightarrow> deadline \<le> finalized \<Longrightarrow>
     batch_scan_window finalized (i, b) =
       (let start = scan_start submission b; last = min deadline (start + 31)
        in Inr (if start > last then None
                else Some \<lparr>sw_batch = i, sw_start = start, sw_end = last, sw_complete = deadline \<le> last\<rparr>))"
  by (simp add: batch_scan_window_def scan_start_def cr4_reveal_scan_batch_blocks_def min_absorb2 Let_def ac_simps
      min_less_iff_disj)

lemma filter_update_where:
  "(\<And>r. q (f r) = q r) \<Longrightarrow> filter q (update_where p f rows) = update_where p f (filter q rows)"
  by (induction rows) auto

lemma open_batches_advance:
  "open_batches schema (advance_cr4_reveal_scan_cursor i through d) =
     update_where (\<lambda>(j, b). j = i \<and> is_open b)
       (\<lambda>(j, b). (j, b\<lparr>eb_cursor := raise_or_set (eb_cursor b) (Some through)\<rparr>)) (open_batches schema d)"
  unfolding open_batches_def advance_cr4_reveal_scan_cursor_def update_batches_def
  by (simp, rule filter_update_where) (auto simp: is_open_iff)

lemma scan_run_covers:
  assumes "open_batches schema d = [(i, b)]" "scannable b" "eb_submission b = Some submission"
    and "eb_reveal_deadline b = Some deadline" "deadline \<le> finalized" "deadline - scan_start submission b < 32 * int n"
  shows "concat (map (\<lambda>w. [sw_start w..sw_end w]) (fst (scan_run n schema finalized d))) = [scan_start submission b..deadline]
    \<and> list_all (\<lambda>w. sw_batch w = i \<and> sw_start w \<le> sw_end w \<and> sw_end w - sw_start w < 32
          \<and> (sw_complete w \<longleftrightarrow> sw_end w = deadline)) (fst (scan_run n schema finalized d))"
  using assms
proof (induction n arbitrary: d b)
  case 0
  then show ?case by simp
next
  case (Suc n)
  let ?x = "scan_start submission b"
  let ?e = "min deadline (?x + 31)"
  have openb: "is_open b" using Suc.prems(1) by (metis (mono_tags, lifting) case_prodD list.set_intros(1) list_all_iff open_batches_open)
  have window: "cr4_reveal_scan_window schema finalized d =
      Inr (if ?x > ?e then None else Some \<lparr>sw_batch = i, sw_start = ?x, sw_end = ?e, sw_complete = deadline \<le> ?e\<rparr>)"
    using Suc.prems by (simp add: cr4_reveal_scan_window_def scan_window_of Let_def)
  show ?case
  proof (cases "?x > ?e")
    case True
    then have "deadline < ?x" by auto
    then show ?thesis using window True by simp
  next
    case False
    let ?b' = "b\<lparr>eb_cursor := raise_or_set (eb_cursor b) (Some ?e)\<rparr>"
    let ?d' = "advance_cr4_reveal_scan_cursor i ?e d"
    have start: "scan_start submission ?b' = ?e + 1"
      using False by (auto simp: scan_start_def raise_or_set_def split: option.splits)
    have "open_batches schema ?d' = [(i, ?b')]"
      using Suc.prems(1) openb by (simp add: open_batches_advance)
    moreover have "scannable ?b'" using Suc.prems(2) by (simp add: scannable_def)
    ultimately have IH: "concat (map (\<lambda>w. [sw_start w..sw_end w]) (fst (scan_run n schema finalized ?d'))) = [?e + 1..deadline]"
      "list_all (\<lambda>w. sw_batch w = i \<and> sw_start w \<le> sw_end w \<and> sw_end w - sw_start w < 32
          \<and> (sw_complete w \<longleftrightarrow> sw_end w = deadline)) (fst (scan_run n schema finalized ?d'))"
      using Suc.IH [of ?d' ?b'] Suc.prems(3-) start by auto
    have "[?x..?e] @ [?e + 1..deadline] = [?x..deadline]"
      using False by (metis add_le_cancel_right le_add1 min.cobounded1 min_le_iff_disj not_le upto_split1 upto_split2 add.commute le_less_linear order.trans)
    then show ?thesis using IH window False by (simp add: split_beta) linarith
  qed
qed

end
