(* ===== verification/Emission_Properties.thy ===== *)
theory Emission_Properties
  imports Ledger_Liveness
begin

text \<open>
  The properties of the ledger of weight emissions, over every ledger that its operations reach,
  with a batch of two weights as the witness.
\<close>

subsection \<open>A batch of two weights\<close>

definition demo_blake :: "bytes \<Rightarrow> bytes" where
  "demo_blake input = replicate 32 0"

definition demo_rows :: "emission_row list" where
  "demo_rows =
     [\<lparr>er_hotkey = ''b'', er_uid = 2, er_blended = None, er_norm_precap = None, er_processed = 1/3,
       er_u16 = Some 30000, er_emitted = False, er_confirmed = False\<rparr>,
      \<lparr>er_hotkey = ''a'', er_uid = 1, er_blended = None, er_norm_precap = None, er_processed = 2/3,
       er_u16 = Some 65535, er_emitted = False, er_confirmed = False\<rparr>]"

definition demo_batch :: "string \<Rightarrow> emission_batch" where
  "demo_batch mode =
     \<lparr>eb_schema = ''risk'', eb_round = None, eb_emitted_at = ''2026-01-05'', eb_block = Some 105,
      eb_min_allowed = None, eb_max_limit = None, eb_metagraph_size = 3, eb_status = ''error'',
      eb_submission = Some 105, eb_state = Some ''prepared'', eb_confirmed_at = None, eb_deadline = Some 160,
      eb_reveal_deadline = None, eb_cursor = None, eb_baseline = Some 100, eb_period = Some 50,
      eb_identity = Some ''net'', eb_netuid = Some 30, eb_uid = Some 7, eb_hotkey = Some ''v'',
      eb_mode = Some mode, eb_intent = Some (''2044:'' @ replicate 64 (CHR ''0'')), eb_commitment = None,
      eb_reveal_round = None, eb_observed = None, eb_seen_update = None\<rparr>"

definition demo_ledger :: "emission_batch \<Rightarrow> emission_row list \<Rightarrow> ledger" where
  "demo_ledger b rows = \<lparr>lg_next = 2, lg_batches = [(1, b)], lg_rows = map (Pair 1) rows, lg_fences = []\<rparr>"

definition demo_prepared :: ledger where
  "demo_prepared = demo_ledger (demo_batch ''direct'') demo_rows"

definition demo_snapshot :: "int \<Rightarrow> (int \<times> int) list \<Rightarrow> chain_snapshot" where
  "demo_snapshot block weights =
     \<lparr>cs_identity = ''net'', cs_netuid = 30, cs_uid = 7, cs_hotkey = ''v'', cs_block = block, cs_last_update = 110,
      cs_weights = weights, cs_commitments = [], cs_reveals = [], cs_hotkeys = [(1, ''a''), (2, ''b'')],
      cs_scan_complete = True\<rparr>"

definition demo_closed :: emission_batch where
  "demo_closed = (demo_batch ''direct'')\<lparr>eb_state := Some ''confirmed'', eb_confirmed_at := Some ''2026-01-06''\<rparr>"

definition demo_confirmed :: ledger where
  "demo_confirmed = demo_ledger demo_closed (map mark demo_rows)"

lemma demo_record:
  "record_weight_emission demo_blake (demo_batch ''direct'') (Some 2044) demo_rows empty_ledger = Inr (demo_prepared, 1)"
  by code_simp

lemma demo_ledger_resolve:
  "resolve_weight_emission_confirmations demo_blake ''risk'' (demo_snapshot 120 [(2, 30000), (1, 65535)]) 5
     ''2026-01-06'' demo_prepared = Inr (demo_confirmed, 1, 0)"
  by code_simp

lemma demo_ledger_reachable: "ledger_reachable demo_blake demo_prepared" "ledger_reachable demo_blake demo_confirmed"
proof -
  show p: "ledger_reachable demo_blake demo_prepared"
    using ledger_reachable.empty demo_record by (blast intro: ledger_reachable.stepped ledger_step.recorded)
  show "ledger_reachable demo_blake demo_confirmed"
    using p demo_ledger_resolve by (blast intro: ledger_reachable.stepped ledger_step.resolved)
qed

lemma demo_facts:
  "(1, demo_closed) \<in> set (lg_batches demo_confirmed)" "eb_state demo_closed = Some ''confirmed''" "\<not> is_open demo_closed"
  "(1, demo_closed) \<notin> set (lg_batches demo_prepared)"
  by (simp_all add: demo_confirmed_def demo_prepared_def demo_ledger_def demo_closed_def demo_batch_def
      is_open_def open_states_def)

subsection \<open>Intents\<close>

text \<open>
  C18: In every ledger that the operations reach, the intent hash of a batch that is open or
  confirmed is the hash, under the current protocol version key, of its chain identity, its
  validator and its persisted weights, and its rows are marked as emitted exactly when the batch is
  confirmed and the row has a chain weight.
\<close>

theorem recorded_intent_matches_rows:
  assumes "ledger_reachable blake2b d" "(i, b) \<in> set (lg_batches d)"
    and "is_open b \<or> eb_state b = Some ''confirmed''"
  shows "(\<exists>h. eb_intent b = Some h \<and> batch_intent blake2b b (rows_of d i) = Some h)
     \<and> list_all (\<lambda>r. er_emitted r \<longleftrightarrow> er_u16 r \<noteq> None \<and> eb_state b = Some ''confirmed'') (rows_of d i)"
proof -
  have "batch_inv blake2b b (rows_of d i)"
    using ledger_inv_reachable [OF assms(1)] assms(2) by (auto simp: ledger_inv_def list_all_iff)
  then show ?thesis using assms(3) by (simp add: batch_inv_def)
qed

lemma recorded_intent_matches_rows_witness:
  "\<exists>h. eb_intent demo_closed = Some h \<and> batch_intent demo_blake demo_closed (rows_of demo_confirmed 1) = Some h"
  using recorded_intent_matches_rows [OF demo_ledger_reachable(2) demo_facts(1)] demo_facts(2) by blast

subsection \<open>Confirmation\<close>

text \<open>
  C15: An operation on the ledger that leaves a batch confirmed which was not confirmed before is a
  resolution, and the snapshot it was given is evidence for it: valid, of the batch's own chain, subnet and
  validator, with exactly the weights of the batch's rows on chain, each under the row's hotkey, and the
  stored intent; and in direct mode the validator's last update lies after the submission and at
  least the margin before the deadline, in CR4 mode the snapshot has a reveal of the validator in the
  batch's window.  The rows of the batch are then marked as emitted.
\<close>

theorem confirmation_needs_chain_evidence:
  assumes "ledger_reachable blake2b d" "perform blake2b op d = Inr d'"
    and "(i, b') \<in> set (lg_batches d')" "eb_state b' = Some ''confirmed''" "(i, b') \<notin> set (lg_batches d)"
  shows "\<exists>schema s margin now b. op = Resolve schema s margin now \<and> 0 \<le> margin
     \<and> validate_weight_chain_snapshot s = Inr () \<and> (i, b) \<in> set (lg_batches d) \<and> is_open b \<and> eb_schema b = schema
     \<and> chain_shows blake2b s margin (rows_of d i) b \<and> core b' = core b \<and> rows_of d' i = map mark (rows_of d i)"
  by (rule perform_confirms [OF assms(2) ledger_inv_reachable [OF assms(1)] assms(3-5)])

definition demo_resolution :: ledger_op where
  "demo_resolution = Resolve ''risk'' (demo_snapshot 120 [(2, 30000), (1, 65535)]) 5 ''2026-01-06''"

lemma demo_performed: "perform demo_blake demo_resolution demo_prepared = Inr demo_confirmed"
  by (simp add: demo_resolution_def demo_ledger_resolve)

lemma confirmation_needs_chain_evidence_witness:
  "\<exists>b. (1, b) \<in> set (lg_batches demo_prepared) \<and> is_open b
     \<and> chain_shows demo_blake (demo_snapshot 120 [(2, 30000), (1, 65535)]) 5 (rows_of demo_prepared 1) b
     \<and> rows_of demo_confirmed 1 = map mark (rows_of demo_prepared 1)"
  using confirmation_needs_chain_evidence [OF demo_ledger_reachable(1) demo_performed demo_facts(1,2,4)]
  by (auto simp: demo_resolution_def)

subsection \<open>Final batches\<close>

text \<open>
  C16: Once a batch is confirmed, unconfirmed or failed, no sequence of operations changes the batch
  or its rows again.
\<close>

theorem closed_emission_is_final:
  assumes "ledger_reachable blake2b d" "(i, b) \<in> set (lg_batches d)" "\<not> is_open b"
    and "(ledger_step blake2b)\<^sup>*\<^sup>* d d'"
  shows "(i, b) \<in> set (lg_batches d') \<and> rows_of d' i = rows_of d i"
proof -
  have "ledger_reachable blake2b d' \<and> (i, b) \<in> set (lg_batches d') \<and> rows_of d' i = rows_of d i"
    using assms(4)
  proof (induction rule: rtranclp_induct)
    case (step d1 d2)
    then show ?case
      using closed_stays [OF step(2) ledger_inv_reachable _ assms(3)] ledger_reachable.stepped by metis
  qed (use assms in simp)
  then show ?thesis by simp
qed

definition demo_second_batch :: emission_batch where
  "demo_second_batch = (demo_batch ''direct'')\<lparr>eb_submission := Some 170, eb_deadline := Some 230\<rparr>"

definition demo_later :: ledger where
  "demo_later = demo_confirmed\<lparr>lg_next := 3, lg_batches := [(1, demo_closed), (2, demo_second_batch)],
                 lg_rows := map (Pair 1) (map mark demo_rows) @ map (Pair 2) demo_rows\<rparr>"

lemma demo_second:
  "record_weight_emission demo_blake demo_second_batch (Some 2044) demo_rows demo_confirmed = Inr (demo_later, 2)"
  by code_simp

lemma closed_emission_is_final_witness:
  "(1, demo_closed) \<in> set (lg_batches demo_later) \<and> rows_of demo_later 1 = rows_of demo_confirmed 1"
  by (rule closed_emission_is_final
      [OF demo_ledger_reachable(2) demo_facts(1,3) r_into_rtranclp [where r = "ledger_step demo_blake", OF ledger_step.recorded [OF demo_second]]])

subsection \<open>Deadlines\<close>

text \<open>
  C17: A resolution after the deadlines closes: against a valid snapshot past every deadline of the
  schema's open batch, with the reveal scan complete and no commitment of the validator pending, the
  resolution succeeds and leaves no open batch, whichever validator the batch was prepared by.  So
  an emission never waits for its confirmation forever.
\<close>

theorem expired_emissions_are_closed:
  assumes "ledger_reachable blake2b d" "0 \<le> margin" "validate_weight_chain_snapshot s = Inr ()" "cs_scan_complete s"
    and "list_all (\<lambda>c. ce_hotkey c \<noteq> cs_hotkey s) (cs_commitments s)"
    and "list_all (\<lambda>(_, b). expired s b) (open_batches schema d)"
  shows "\<exists>d' c u. resolve_weight_emission_confirmations blake2b schema s margin now d = Inr (d', c, u)
     \<and> \<not> has_open_weight_emission_confirmation schema d'"
proof -
  note inv = ledger_inv_reachable [OF assms(1)]
  have "unique_on fst (open_batches schema d)"
    using inv by (auto simp: ledger_inv_def unique_on_def open_batches_def distinct_map_filter)
  moreover have "list_all (\<lambda>(_, b). batch_checks b \<and> is_open b \<and> expired s b) (open_batches schema d)"
    using inv assms(6) by (auto simp: ledger_inv_def ledger_ok_def list_all_iff open_batches_def)
  ultimately obtain d' c u where "resolve_batches blake2b s margin now (open_batches schema d) (d, 0, 0) = Inr (d', c, u)"
      "open_batches schema d' = []"
    using resolve_closes [OF _ _ _ _ assms(4,5), of d schema "open_batches schema d" blake2b margin now 0 0] inv
    by (auto simp: ledger_inv_def)
  then show ?thesis
    using assms(2,3)
    by (auto simp: resolve_weight_emission_confirmations_def has_open_weight_emission_confirmation_def)
qed

lemma expired_emissions_are_closed_witness:
  "\<exists>d' c u. resolve_weight_emission_confirmations demo_blake ''risk'' (demo_snapshot 161 []) 5 ''2026-01-06'' demo_prepared
       = Inr (d', c, u)
     \<and> \<not> has_open_weight_emission_confirmation ''risk'' d'"
  by (rule expired_emissions_are_closed [OF demo_ledger_reachable(1)]) code_simp+

subsection \<open>The reveal scan\<close>

text \<open>
  Repeated passes of the CR4 reveal scan over an open batch read every block from its start to
  the reveal deadline exactly once, in order, in windows of at most 32 blocks; the scan is over
  after as many passes as the range has windows, and exactly the window that ends at the deadline
  says that it is complete.
\<close>

theorem reveal_scan_reads_each_block_once:
  assumes "ledger_reachable blake2b d" "(i, b) \<in> set (open_batches schema d)" "scannable b"
    and "eb_submission b = Some submission" "eb_reveal_deadline b = Some deadline" "deadline \<le> finalized"
    and "deadline - scan_start submission b < 32 * int n"
  shows "concat (map (\<lambda>w. [sw_start w..sw_end w]) (fst (scan_run n schema finalized d))) = [scan_start submission b..deadline]
    \<and> list_all (\<lambda>w. sw_batch w = i \<and> sw_start w \<le> sw_end w \<and> sw_end w - sw_start w < 32
          \<and> (sw_complete w \<longleftrightarrow> sw_end w = deadline)) (fst (scan_run n schema finalized d))"
proof -
  have "open_batches schema d = [(i, b)]"
    using one_open [OF _ assms(2)] ledger_inv_reachable [OF assms(1)] by (simp add: ledger_inv_def)
  then show ?thesis by (rule scan_run_covers [OF _ assms(3-7)])
qed

definition demo_committed :: ledger where
  "demo_committed = demo_ledger ((demo_batch ''cr4'')\<lparr>eb_reveal_deadline := Some 200\<rparr>) demo_rows"

lemma demo_cr4:
  "record_weight_emission demo_blake ((demo_batch ''cr4'')\<lparr>eb_reveal_deadline := Some 200\<rparr>) (Some 2044) demo_rows
     empty_ledger = Inr (demo_committed, 1)"
  by code_simp

lemma reveal_scan_reads_each_block_once_witness:
  "concat (map (\<lambda>w. [sw_start w..sw_end w]) (fst (scan_run 3 ''risk'' 210 demo_committed))) = [105..200]"
proof -
  let ?b = "(demo_batch ''cr4'')\<lparr>eb_reveal_deadline := Some 200\<rparr>"
  have reachable: "ledger_reachable demo_blake demo_committed"
    using ledger_reachable.empty demo_cr4 by (blast intro: ledger_reachable.stepped ledger_step.recorded)
  have f: "(1, ?b) \<in> set (open_batches ''risk'' demo_committed)" "scannable ?b" "eb_submission ?b = Some 105"
    "eb_reveal_deadline ?b = Some 200" "scan_start 105 ?b = 105"
    by (simp_all add: open_batches_def demo_committed_def demo_ledger_def demo_batch_def is_open_def open_states_def
        scannable_def scan_start_def)
  have n: "(200 :: int) - scan_start 105 ?b < 32 * int 3" using f(5) by simp
  show ?thesis using reveal_scan_reads_each_block_once [OF reachable f(1-4) _ n, of 210] f(5) by simp
qed

end
