(* ===== verification/Weight_Processing.thy ===== *)
theory Weight_Processing
  imports Weights
begin

text \<open>
  From scores to the vector a validator sends (\<open>endure/scoring/weight_processing.py\<close>): normalised
  scores, the chain's minimum count and maximum weight, the u16 encoding with identical-forecast
  pools rounded as one entry.  A weight is a finite Decimal, so \<open>coerce_decimal\<close> is the identity on
  it.  Every operation rounds to 28 digits, and a division by zero is an error of its own.
\<close>

datatype weight_error = Bad_weights | Division_failed | Index_failed

definition u16_max :: int where
  "u16_max = 65535"

definition epsilon :: rat where
  "epsilon = 1 / 10 ^ 7"

definition min_non_zero_weight :: rat where
  "min_non_zero_weight = 1 / 10 ^ 5"

definition pdiv :: "rat \<Rightarrow> rat \<Rightarrow> weight_error + rat" where
  "pdiv a b = (if b = 0 then Inl Division_failed else Inr (ddiv a b))"

definition drange :: "nat \<Rightarrow> int list" where
  "drange n = map int [0..<n]"

definition normalize_scores :: "rat list \<Rightarrow> rat list" where
  "normalize_scores scores =
     (let clamped = map (\<lambda>s. if 0 < s then s else 0) scores; norm = dsum clamped
      in if norm \<le> 0 then replicate (length scores) 0 else map (\<lambda>s. ddiv s norm) clamped)"

fun cumulative_sums :: "rat \<Rightarrow> rat list \<Rightarrow> rat list" where
  "cumulative_sums acc [] = []"
| "cumulative_sums acc (v # vs) = dadd acc v # cumulative_sums (dadd acc v) vs"

definition uniform :: "nat \<Rightarrow> rat list" where
  "uniform n = replicate n (ddiv 1 (of_nat n))"

definition normalize_to_unit :: "rat list \<Rightarrow> rat list" where
  "normalize_to_unit weights =
     (if weights = [] then []
      else
        let total = dsum weights;
            normalized = (if total = 0 then uniform (length weights) else map (\<lambda>w. ddiv w total) weights);
            correction = dsub 1 (dsum normalized)
        in butlast normalized @ [dadd (last normalized) correction])"

text \<open>Python's index, negative ones from the end, and its \<open>int\<close> of a Decimal.\<close>

definition py_nth :: "'a list \<Rightarrow> int \<Rightarrow> weight_error + 'a" where
  "py_nth xs i =
     (let j = (if i < 0 then i + int (length xs) else i)
      in if 0 \<le> j \<and> j < int (length xs) then Inr (xs ! nat j) else Inl Index_failed)"

definition trunc :: "rat \<Rightarrow> int" where
  "trunc x = (if 0 \<le> x then \<lfloor>x\<rfloor> else \<lceil>x\<rceil>)"

definition decimal_quantile :: "rat list \<Rightarrow> rat \<Rightarrow> weight_error + rat" where
  "decimal_quantile values q =
     (let ordered = sort values; n = int (length ordered)
      in if n = 0 then Inl Bad_weights
         else if n = 1 then Inr (hd ordered)
         else
           let position = dmul q (of_int (n - 1)); lower = trunc position; upper = min (lower + 1) (n - 1);
               fraction = dsub position (of_int lower)
           in ebind (py_nth ordered lower) (\<lambda>lo. ebind (py_nth ordered upper) (\<lambda>up.
              Inr (dadd lo (dmul (dsub up lo) fraction)))))"

text \<open>The estimates that the cap keeps; \<open>estimation\<close> is sorted.\<close>

definition below_cap :: "rat list \<Rightarrow> rat list \<Rightarrow> rat \<Rightarrow> weight_error + nat" where
  "below_cap estimation cumsum limit =
     (let n = length estimation
      in ebind (etraverse (\<lambda>i. pdiv (estimation ! i)
               (dadd (dadd (dmul (of_nat (n - i - 1)) (estimation ! i)) (cumsum ! i)) epsilon)) [0..<n]) (\<lambda>shares.
         Inr (length (filter (\<lambda>share. share < limit) shares))))"

definition cap_weights :: "rat list \<Rightarrow> rat \<Rightarrow> rat \<Rightarrow> rat list" where
  "cap_weights weights cutoff_scale value_sum =
     (let cutoff = dmul cutoff_scale value_sum; capped = map (\<lambda>w. min w cutoff) weights
      in if dsum capped = 0 then uniform (length capped) else normalize_to_unit capped)"

definition normalize_max_weight :: "rat list \<Rightarrow> rat \<Rightarrow> weight_error + rat list" where
  "normalize_max_weight weights limit =
     (let n = length weights
      in if n = 0 then Inr []
         else if dsum weights = 0 \<or> dmul (of_nat n) limit \<le> 1 then Inr (uniform n)
         else
           let values = sort weights; value_sum = dsum values
           in ebind (etraverse (\<lambda>v. pdiv v value_sum) values) (\<lambda>estimation.
              if Max (set estimation) \<le> limit then Inr (normalize_to_unit weights)
              else
                let cumsum = cumulative_sums 0 estimation
                in ebind (below_cap estimation cumsum limit) (\<lambda>k.
                   if k = 0 then Inr (normalize_to_unit weights)
                   else
                     let denominator = dsub 1 (dmul limit (of_nat (n - k)))
                     in if denominator \<le> 0 then Inr (normalize_to_unit weights)
                        else Inr (cap_weights weights
                               (ddiv (dsub (dmul limit (cumsum ! (k - 1))) epsilon) denominator) value_sum))))"

subsection \<open>The u16 encoding\<close>

definition group_positions :: "int list \<Rightarrow> int list list \<Rightarrow> weight_error + nat list list" where
  "group_positions uids groups =
     (if groups = [] then Inr []
      else if \<not> distinct uids then Inl Bad_weights
      else if \<not> distinct (concat groups) then Inl Bad_weights
      else
        let position = map_of (zip uids [0..<length uids])
        in Inr (map (List.map_filter position) groups))"

definition spare_units :: "rat list \<Rightarrow> nat list \<Rightarrow> int" where
  "spare_units scaled members =
     round_half_up (dsum (sort (map (\<lambda>i. dsub (scaled ! i) (of_int \<lfloor>scaled ! i\<rfloor>)) members)))"

definition round_group :: "rat list \<Rightarrow> nat list \<Rightarrow> int list \<Rightarrow> int list" where
  "round_group scaled members units =
     (let remainder = (\<lambda>i. dsub (scaled ! i) (of_int \<lfloor>scaled ! i\<rfloor>));
          spare = spare_units scaled members;
          ranked = sort_key (\<lambda>i. - remainder i) members
      in fold (\<lambda>(rank, i) units. units[i := \<lfloor>scaled ! i\<rfloor> + (if int rank < spare then 1 else 0)])
           (zip [0..<length ranked] ranked) units)"

definition scaled_weights :: "rat list \<Rightarrow> rat list" where
  "scaled_weights weights = map (\<lambda>w. dmul (ddiv w (Max (set weights))) (of_int u16_max)) weights"

definition all_units :: "rat list \<Rightarrow> nat list list \<Rightarrow> int list" where
  "all_units scaled groups = fold (round_group scaled) groups (map round_half_up scaled)"

definition convert_weights_and_uids_for_emit ::
  "int list \<Rightarrow> rat list \<Rightarrow> int list list \<Rightarrow> weight_error + int list \<times> int list" where
  "convert_weights_and_uids_for_emit uids weights groups =
     (if length uids \<noteq> length weights then Inl Bad_weights
      else if list_ex (\<lambda>w. w < 0) weights then Inl Bad_weights
      else if list_ex (\<lambda>u. u < 0) uids then Inl Bad_weights
      else if dsum weights = 0 then Inr ([], [])
      else
        ebind (group_positions uids groups) (\<lambda>positions.
        let kept = filter (\<lambda>(u, unit). unit \<noteq> 0) (zip uids (all_units (scaled_weights weights) positions))
        in Inr (map fst kept, map snd kept)))"

subsection \<open>Chain limits\<close>

definition pad_weights :: "nat \<Rightarrow> (int \<times> rat) list \<Rightarrow> rat list" where
  "pad_weights msize pairs =
     fold (\<lambda>(uid, w) padded. padded[nat uid := dadd (padded ! nat uid) w]) pairs (replicate msize min_non_zero_weight)"

definition process_weights ::
  "int list \<Rightarrow> rat list \<Rightarrow> nat \<Rightarrow> int \<Rightarrow> rat \<Rightarrow> int \<Rightarrow> weight_error + int list \<times> rat list" where
  "process_weights uids weights msize min_allowed limit exclude_quantile =
     (if length uids \<noteq> length weights then Inl Bad_weights
      else if list_ex (\<lambda>u. u < 0 \<or> int msize \<le> u) uids then Inl Bad_weights
      else if msize = 0 then Inr ([], [])
      else
        let pairs = filter (\<lambda>(u, w). 0 < w) (zip uids weights); n = int (length pairs)
        in if n = 0 \<or> int msize < min_allowed then Inr (drange msize, uniform msize)
           else if n < min_allowed
           then ebind (normalize_max_weight (pad_weights msize pairs) limit) (\<lambda>ws. Inr (drange msize, ws))
           else
             let max_exclude = max 0 (ddiv (of_int (n - min_allowed)) (of_int n));
                 q = min (ddiv (of_int exclude_quantile) (of_int u16_max)) max_exclude
             in ebind (decimal_quantile (map snd pairs) q) (\<lambda>lowest.
                let kept = filter (\<lambda>(u, w). lowest \<le> w) pairs
                in ebind (normalize_max_weight (map snd kept) limit) (\<lambda>ws. Inr (map fst kept, ws))))"

definition emission_exclude_quantile :: int where
  "emission_exclude_quantile = 0"

definition emission_candidate :: "rat list \<Rightarrow> rat list option" where
  "emission_candidate scores =
     (let raw = normalize_scores scores in if list_ex (\<lambda>w. 0 < w) raw then Some raw else None)"

record chain_vector =
  cv_processed_uids :: "int list"
  cv_processed :: "rat list"
  cv_uids :: "int list"
  cv_units :: "int list"

definition chain_weight_vector ::
  "rat list \<Rightarrow> int list \<Rightarrow> nat \<Rightarrow> int \<Rightarrow> rat \<Rightarrow> int list list \<Rightarrow> weight_error + chain_vector" where
  "chain_weight_vector raw uids msize min_allowed limit groups =
     ebind (process_weights uids raw msize min_allowed limit emission_exclude_quantile) (\<lambda>(pu, pw).
     ebind (convert_weights_and_uids_for_emit pu pw groups) (\<lambda>(uu, uw).
     Inr \<lparr>cv_processed_uids = pu, cv_processed = pw, cv_uids = uu, cv_units = uw\<rparr>))"

end
