(* ===== verification/Weight_Vector.thy ===== *)
theory Weight_Vector
  imports Weight_Processing
begin

text \<open>
  The u16 vector that is sent: every unit lies between 1 and 65535, and a pool of identical
  forecasts gets, whatever its size and order, the units that one entry with its total would.
\<close>

subsection \<open>Scaled weights\<close>

definition in_u16 :: "int \<Rightarrow> bool" where
  "in_u16 n \<longleftrightarrow> 0 \<le> n \<and> n \<le> u16_max"

lemma scaled_bounds:
  assumes "\<And>w. w \<in> set weights \<Longrightarrow> 0 \<le> w" "s \<in> set (scaled_weights weights)"
  shows "0 \<le> s" "s \<le> of_int u16_max"
proof -
  obtain w where w: "w \<in> set weights" "s = rnd28 (rnd28 (w / Max (set weights)) * of_int u16_max)"
    using assms(2) by (auto simp: scaled_weights_def dec_ops)
  have "w \<le> Max (set weights)" using w(1) by simp
  then have q: "0 \<le> rnd28 (w / Max (set weights))" "rnd28 (w / Max (set weights)) \<le> 1"
    using dec.quotient_unit assms(1) [OF w(1)] by auto
  show "0 \<le> s" unfolding w(2) using q by (intro dec.nonneg) (simp add: u16_max_def)
  have "rnd28 (w / Max (set weights)) * of_int u16_max \<le> of_int u16_max"
    using q mult_right_mono [OF q(2), of "of_int u16_max"] by (simp add: u16_max_def)
  then show "s \<le> of_int u16_max"
    unfolding w(2) by (intro dec.le_fix dec.small_int) (simp_all add: u16_max_def)
qed

lemma round_half_up_u16: "0 \<le> x \<Longrightarrow> x \<le> of_int u16_max \<Longrightarrow> in_u16 (round_half_up x)"
  using round_half_up_mono [of 0 x] round_half_up_mono [of x "of_int u16_max"] round_half_up_of_int [of 0]
  by (simp add: in_u16_def)

subsection \<open>Remainders\<close>

definition remainder_of :: "rat list \<Rightarrow> nat \<Rightarrow> rat" where
  "remainder_of scaled i = dsub (scaled ! i) (of_int \<lfloor>scaled ! i\<rfloor>)"

lemma remainder_unit: "0 \<le> remainder_of scaled i" "remainder_of scaled i \<le> 1"
proof -
  have "0 \<le> scaled ! i - of_int \<lfloor>scaled ! i\<rfloor>" "scaled ! i - of_int \<lfloor>scaled ! i\<rfloor> \<le> 1"
    using floor_correct [of "scaled ! i"] by linarith+
  then show "0 \<le> remainder_of scaled i" "remainder_of scaled i \<le> 1"
    by (auto simp: remainder_of_def dsub_def intro: dec.nonneg dec.le_fix dec.one)
qed

lemma remainder_pos: "0 < remainder_of scaled i \<Longrightarrow> of_int \<lfloor>scaled ! i\<rfloor> < scaled ! i"
  using dec.zero by (cases "of_int \<lfloor>scaled ! i\<rfloor> = scaled ! i") (auto simp: remainder_of_def dsub_def less_le)

text \<open>The rounded sum of remainders is at most the number of positive ones.\<close>

lemma dsum_skip_zeros: "(\<And>x. x \<in> set zs \<Longrightarrow> x = 0) \<Longrightarrow> dsum (zs @ xs) = dsum xs"
  by (simp add: dsum_foldl dec.sum_all_zero)

lemma sort_zeros_first:
  assumes "\<And>x. x \<in> set xs \<Longrightarrow> (0 :: rat) \<le> x"
  shows "sort xs = filter (\<lambda>x. x = 0) (sort xs) @ filter (\<lambda>x. 0 < x) (sort xs)"
proof -
  have "ys = filter (\<lambda>x. x = 0) ys @ filter (\<lambda>x. 0 < x) ys"
    if "sorted ys" "\<forall>y \<in> set ys. 0 \<le> y" for ys :: "rat list"
    using that
  proof (induction ys)
    case (Cons y ys)
    show ?case
    proof (cases "y = 0")
      case False
      then have "0 < y" using Cons.prems(2) by force
      then have "\<forall>z \<in> set ys. 0 < z" using Cons.prems(1) by fastforce
      then have "filter (\<lambda>x. 0 < x) ys = ys" "filter (\<lambda>x. x = 0) ys = []"
        by (auto simp: filter_empty_conv filter_id_conv)
      then show ?thesis using \<open>0 < y\<close> False by simp
    qed (use Cons in simp)
  qed simp
  then show ?thesis using assms by simp
qed

lemma spare_le_positive:
  assumes "length members < 10 ^ 28"
  shows "0 \<le> spare_units scaled members"
    and "spare_units scaled members \<le> int (length (filter (\<lambda>i. 0 < remainder_of scaled i) members))"
proof -
  let ?r = "map (remainder_of scaled) members"
  let ?p = "filter (\<lambda>x. 0 < x) (sort ?r)"
  have nonneg: "0 \<le> x" if "x \<in> set ?r" for x using that remainder_unit by auto
  have spare: "spare_units scaled members = round_half_up (dsum (sort ?r))"
    by (simp add: spare_units_def remainder_of_def [abs_def])
  have "length ?p = length (filter (\<lambda>x. 0 < x) ?r)"
    by (metis mset_filter mset_sort size_mset)
  also have "\<dots> = length (filter (\<lambda>i. 0 < remainder_of scaled i) members)"
    by (simp add: filter_map o_def)
  finally have len: "length ?p = length (filter (\<lambda>i. 0 < remainder_of scaled i) members)" .
  have "dsum (sort ?r) = dsum ?p"
    by (subst sort_zeros_first [OF nonneg]) (auto intro: dsum_skip_zeros)
  also have "\<dots> \<le> of_nat (0 + length ?p)"
    unfolding dsum_foldl
  proof (rule dec.sum_le_length)
    show "x \<le> 1" if "x \<in> set ?p" for x using that remainder_unit(2) by auto
    show "0 + length ?p < 10 ^ 28"
      using le_less_trans [OF length_filter_le assms] by (simp add: len)
  qed simp
  finally have "dsum (sort ?r) \<le> of_int (int (length ?p))" by simp
  from round_half_up_mono [OF this] show "spare_units scaled members
      \<le> int (length (filter (\<lambda>i. 0 < remainder_of scaled i) members))"
    unfolding spare len round_half_up_of_int .
  have "0 \<le> dsum (sort ?r)" using nonneg by (intro dsum_nonneg) auto
  from round_half_up_mono [OF this] show "0 \<le> spare_units scaled members"
    unfolding spare using round_half_up_of_int [of 0] by simp
qed

text \<open>So a spare unit only ever goes to a positive remainder.\<close>

lemma ranked_positive:
  assumes "length members < 10 ^ 28" "rank < length members" "int rank < spare_units scaled members"
  shows "0 < remainder_of scaled (sort_key (\<lambda>i. - remainder_of scaled i) members ! rank)"
proof (rule ccontr)
  let ?ranked = "sort_key (\<lambda>i. - remainder_of scaled i) members"
  assume "\<not> ?thesis"
  then have "remainder_of scaled (?ranked ! j) \<le> 0" if "rank \<le> j" "j < length members" for j
    using sorted_nth_mono [OF sorted_sort_key [of "\<lambda>i. - remainder_of scaled i" members], of rank j] that assms(2)
    by simp
  then have "filter (\<lambda>i. 0 < remainder_of scaled i) (drop rank ?ranked) = []"
    by (auto simp: filter_empty_conv in_set_conv_nth not_less)
  then have "filter (\<lambda>i. 0 < remainder_of scaled i) ?ranked = filter (\<lambda>i. 0 < remainder_of scaled i) (take rank ?ranked)"
    by (metis append.right_neutral append_take_drop_id filter_append)
  then have "length (filter (\<lambda>i. 0 < remainder_of scaled i) ?ranked) \<le> rank"
    by (metis length_filter_le length_take min.boundedE order.trans)
  moreover have "length (filter (\<lambda>i. 0 < remainder_of scaled i) ?ranked)
      = length (filter (\<lambda>i. 0 < remainder_of scaled i) members)"
    by (metis mset_filter mset_sort size_mset)
  ultimately show False using spare_le_positive(2) [OF assms(1), of scaled] assms(3) by linarith
qed

subsection \<open>Rounding a group\<close>

definition assign :: "(nat \<times> nat \<Rightarrow> int) \<Rightarrow> (nat \<times> nat) list \<Rightarrow> int list \<Rightarrow> int list" where
  "assign g ps units = fold (\<lambda>(rank, i) units. units[i := g (rank, i)]) ps units"

lemma assign_simps [simp]:
  "assign g [] units = units" "assign g ((r, i) # ps) units = assign g ps (units[i := g (r, i)])"
  by (simp_all add: assign_def)

lemma length_assign [simp]: "length (assign g ps units) = length units"
  by (induction ps arbitrary: units) auto

lemma assign_other: "j \<notin> snd ` set ps \<Longrightarrow> assign g ps units ! j = units ! j"
  by (induction ps arbitrary: units) auto

lemma assign_member:
  "distinct (map snd ps) \<Longrightarrow> (r, j) \<in> set ps \<Longrightarrow> j < length units \<Longrightarrow> assign g ps units ! j = g (r, j)"
proof (induction ps arbitrary: units)
  case (Cons p ps)
  obtain r' i where p: "p = (r', i)" by force
  show ?case
  proof (cases "(r, j) = p")
    case True
    then have "j \<notin> snd ` set ps" using Cons.prems(1) p by force
    then show ?thesis using True Cons.prems(3) p by (simp add: assign_other)
  next
    case False
    then have "(r, j) \<in> set ps" using Cons.prems(2) by simp
    then show ?thesis using Cons.IH [of "units[i := g (r', i)]"] Cons.prems p by simp
  qed
qed simp

definition ranked :: "rat list \<Rightarrow> nat list \<Rightarrow> nat list" where
  "ranked scaled members = sort_key (\<lambda>i. - remainder_of scaled i) members"

lemma ranked_simps [simp]:
  "set (ranked scaled members) = set members" "length (ranked scaled members) = length members"
  "distinct (ranked scaled members) = distinct members" "mset (ranked scaled members) = mset members"
  by (simp_all add: ranked_def)

lemma round_group_assign:
  "round_group scaled members units =
     assign (\<lambda>(rank, i). \<lfloor>scaled ! i\<rfloor> + (if int rank < spare_units scaled members then 1 else 0))
       (zip [0..<length members] (ranked scaled members)) units"
  by (simp add: round_group_def assign_def ranked_def remainder_of_def [abs_def] Let_def)

lemma length_round_group [simp]: "length (round_group scaled members units) = length units"
  by (simp add: round_group_assign)

lemma round_group_other: "j \<notin> set members \<Longrightarrow> round_group scaled members units ! j = units ! j"
  unfolding round_group_assign by (rule assign_other) (force dest: set_zip_rightD)

lemma round_group_rank:
  assumes "distinct members" "rank < length members" "set members \<subseteq> {..<length units}"
  shows "round_group scaled members units ! (ranked scaled members ! rank) =
     \<lfloor>scaled ! (ranked scaled members ! rank)\<rfloor> + (if int rank < spare_units scaled members then 1 else 0)"
proof -
  let ?i = "ranked scaled members ! rank"
  have "?i \<in> set members" using assms(2) by (metis nth_mem ranked_simps(1,2))
  moreover have "(rank, ?i) \<in> set (zip [0..<length members] (ranked scaled members))"
    using assms(2) by (auto simp: in_set_zip intro!: exI [of _ rank])
  moreover have "distinct (map snd (zip [0..<length members] (ranked scaled members)))"
    using assms(1) by simp
  ultimately show ?thesis
    unfolding round_group_assign using assms(3) by (subst assign_member) auto
qed

lemma round_group_u16:
  assumes "distinct members" "set members \<subseteq> {..<length units}" "length members < 10 ^ 28"
    and "\<And>i. i \<in> set members \<Longrightarrow> 0 \<le> scaled ! i \<and> scaled ! i \<le> of_int u16_max" "list_all in_u16 units"
  shows "list_all in_u16 (round_group scaled members units)"
proof -
  have "in_u16 (round_group scaled members units ! j)" if "j < length units" for j
  proof (cases "j \<in> set members")
    case False
    then show ?thesis using that assms(5) by (simp add: round_group_other list_all_length)
  next
    case True
    then obtain rank where rank: "rank < length members" "j = ranked scaled members ! rank"
      by (metis in_set_conv_nth ranked_simps(1,2))
    have bounds: "0 \<le> scaled ! j" "scaled ! j \<le> of_int u16_max" using assms(4) True by auto
    then have "0 \<le> \<lfloor>scaled ! j\<rfloor>" "\<lfloor>scaled ! j\<rfloor> \<le> u16_max" by (simp_all add: floor_le_iff)
    moreover have "\<lfloor>scaled ! j\<rfloor> < u16_max" if "int rank < spare_units scaled members"
    proof -
      have "of_int \<lfloor>scaled ! j\<rfloor> < scaled ! j"
        using remainder_pos [OF ranked_positive [OF assms(3) rank(1) that, folded ranked_def]] rank(2) by simp
      then have "of_int \<lfloor>scaled ! j\<rfloor> < (of_int u16_max :: rat)" using bounds(2) by (rule less_le_trans)
      then show ?thesis by simp
    qed
    ultimately show ?thesis
      using round_group_rank [OF assms(1) rank(1) assms(2), of scaled] rank(2) by (auto simp: in_u16_def)
  qed
  then show ?thesis by (simp add: list_all_length)
qed

lemma sum_ranks:
  "0 \<le> s \<Longrightarrow> s \<le> int n \<Longrightarrow> sum_list (map (\<lambda>rank. if int rank < s then 1 else 0) [0..<n]) = s"
proof (induction n)
  case (Suc n)
  then show ?case
  proof (cases "s \<le> int n")
    case False
    then have "s = int (Suc n)" using Suc.prems by simp
    moreover have "sum_list (map (\<lambda>rank. if int rank < s then 1 else 0) [0..<n]) = sum_list (map (\<lambda>rank. 1 :: int) [0..<n])"
      using False by (intro arg_cong [where f = sum_list] map_cong) auto
    moreover have "sum_list (map (\<lambda>rank. 1 :: int) [0..<n]) = int n" by (simp add: sum_list_triv)
    ultimately show ?thesis by simp
  qed simp
qed simp

lemma round_group_total:
  assumes "distinct members" "set members \<subseteq> {..<length units}" "length members < 10 ^ 28"
  shows "sum_list (map ((!) (round_group scaled members units)) members) =
     sum_list (map (\<lambda>i. \<lfloor>scaled ! i\<rfloor>) members) + spare_units scaled members"
proof -
  let ?n = "length members" and ?r = "ranked scaled members" and ?s = "spare_units scaled members"
  have perm: "sum_list (map f members) = sum_list (map f ?r)" for f :: "nat \<Rightarrow> int"
    by (metis mset_map ranked_simps(4) sum_mset_sum_list)
  have "sum_list (map ((!) (round_group scaled members units)) ?r)
      = sum_list (map (\<lambda>rank. round_group scaled members units ! (?r ! rank)) [0..<?n])"
    by (subst (2) map_nth [symmetric]) (simp add: o_def)
  also have "\<dots> = sum_list (map (\<lambda>rank. \<lfloor>scaled ! (?r ! rank)\<rfloor> + (if int rank < ?s then 1 else 0)) [0..<?n])"
    by (intro arg_cong [where f = sum_list] map_cong) (auto simp: round_group_rank [OF assms(1) _ assms(2)])
  also have "\<dots> = sum_list (map (\<lambda>rank. \<lfloor>scaled ! (?r ! rank)\<rfloor>) [0..<?n])
      + sum_list (map (\<lambda>rank. if int rank < ?s then 1 else 0) [0..<?n])"
    by (rule sum_list_addf)
  also have "sum_list (map (\<lambda>rank. \<lfloor>scaled ! (?r ! rank)\<rfloor>) [0..<?n]) = sum_list (map (\<lambda>i. \<lfloor>scaled ! i\<rfloor>) ?r)"
    by (subst (2) map_nth [symmetric]) (simp add: o_def)
  also have "sum_list (map (\<lambda>rank. if int rank < ?s then 1 else 0) [0..<?n]) = ?s"
    using spare_le_positive [OF assms(3), of scaled] length_filter_le [of "\<lambda>i. 0 < remainder_of scaled i" members]
    by (intro sum_ranks) (simp, linarith)
  finally show ?thesis by (simp add: perm)
qed

subsection \<open>All groups\<close>

definition groups_ok :: "nat \<Rightarrow> nat list list \<Rightarrow> bool" where
  "groups_ok n positions \<longleftrightarrow> distinct (concat positions) \<and> list_all (\<lambda>p. set p \<subseteq> {..<n}) positions"

lemma groups_ok_member:
  assumes "groups_ok n positions" "p \<in> set positions"
  shows "distinct p" "set p \<subseteq> {..<n}" "length p \<le> n"
proof -
  show d: "distinct p" "set p \<subseteq> {..<n}"
    using assms by (auto simp: groups_ok_def list_all_iff distinct_concat_iff)
  show "length p \<le> n" using card_mono [OF _ d(2)] distinct_card [OF d(1)] by simp
qed

lemma groups_ok_Cons: "groups_ok n (p # ps) \<Longrightarrow> groups_ok n ps \<and> set p \<inter> \<Union> (set ` set ps) = {}"
  by (auto simp: groups_ok_def)

lemma length_fold_groups [simp]: "length (fold (round_group scaled) ps units) = length units"
  by (induction ps arbitrary: units) auto

lemma fold_groups_other:
  "j \<notin> \<Union> (set ` set ps) \<Longrightarrow> fold (round_group scaled) ps units ! j = units ! j"
  by (induction ps arbitrary: units) (auto simp: round_group_other)

lemma fold_groups_u16:
  assumes "groups_ok (length units) ps" "length units < 10 ^ 28" "list_all in_u16 units"
    and "\<And>i. i < length units \<Longrightarrow> 0 \<le> scaled ! i \<and> scaled ! i \<le> of_int u16_max"
  shows "list_all in_u16 (fold (round_group scaled) ps units)"
  using assms
proof (induction ps arbitrary: units)
  case (Cons p ps)
  note p = groups_ok_member [OF Cons.prems(1), of p, simplified]
  have "list_all in_u16 (round_group scaled p units)"
    using p Cons.prems(2-) by (intro round_group_u16) auto
  then show ?case
    using Cons.IH [of "round_group scaled p units"] groups_ok_Cons [OF Cons.prems(1)] Cons.prems(2,4) by simp
qed simp

lemma fold_groups_total:
  assumes "groups_ok (length units) ps" "length units < 10 ^ 28" "p \<in> set ps"
  shows "sum_list (map ((!) (fold (round_group scaled) ps units)) p) =
     sum_list (map (\<lambda>i. \<lfloor>scaled ! i\<rfloor>) p) + spare_units scaled p"
  using assms
proof (induction ps arbitrary: units)
  case (Cons q ps)
  note ok = groups_ok_Cons [OF Cons.prems(1)]
  show ?case
  proof (cases "p \<in> set ps")
    case True
    then show ?thesis using Cons.IH [of "round_group scaled q units"] ok Cons.prems(2) by simp
  next
    case False
    then have q: "p = q" using Cons.prems(3) by simp
    have "map ((!) (fold (round_group scaled) ps (round_group scaled p units))) p = map ((!) (round_group scaled p units)) p"
      using ok q by (intro map_cong) (auto intro!: fold_groups_other)
    then have "sum_list (map ((!) (fold (round_group scaled) (q # ps) units)) p)
        = sum_list (map ((!) (round_group scaled p units)) p)" using q by (simp only: fold_simps)
    moreover note groups_ok_member [OF Cons.prems(1), of p]
    ultimately show ?thesis
      using q round_group_total [of p units scaled] Cons.prems(2) by simp
  qed
qed simp

lemma fold_groups_floor:
  assumes "groups_ok (length units) ps" "j < length units" "\<lfloor>scaled ! j\<rfloor> \<le> units ! j"
  shows "\<lfloor>scaled ! j\<rfloor> \<le> fold (round_group scaled) ps units ! j"
  using assms
proof (induction ps arbitrary: units)
  case (Cons p ps)
  note p = groups_ok_member [OF Cons.prems(1), of p, simplified]
  have "\<lfloor>scaled ! j\<rfloor> \<le> round_group scaled p units ! j"
  proof (cases "j \<in> set p")
    case True
    then obtain rank where rank: "rank < length p" "j = ranked scaled p ! rank"
      by (metis in_set_conv_nth ranked_simps(1,2))
    then show ?thesis using round_group_rank [OF p(1) rank(1) p(2), of scaled] by auto
  qed (use Cons.prems in \<open>simp add: round_group_other\<close>)
  then show ?case
    using Cons.IH [of "round_group scaled p units"] groups_ok_Cons [OF Cons.prems(1)] Cons.prems(2) by simp
qed simp

subsection \<open>Positions\<close>

definition position_of :: "int list \<Rightarrow> int \<Rightarrow> nat option" where
  "position_of uids = map_of (zip uids [0..<length uids])"

lemma position_of_Some: "distinct uids \<Longrightarrow> position_of uids u = Some i \<longleftrightarrow> i < length uids \<and> uids ! i = u"
  by (auto simp: position_of_def in_set_zip)

lemma map_of_zip_position:
  assumes "length ys = length uids"
  shows "map_of (zip uids ys) u = map_option ((!) ys) (position_of uids u)"
proof -
  have "map ((!) ys) [0..<length uids] = ys" unfolding assms [symmetric] by (rule map_nth)
  then have "zip uids ys = zip uids (map ((!) ys) [0..<length uids])" by simp
  also have "\<dots> = map (\<lambda>(k, i). (k, ys ! i)) (zip uids [0..<length uids])" by (simp add: zip_map2)
  finally show ?thesis by (simp add: position_of_def map_of_map)
qed

lemma set_map_filter: "x \<in> set (List.map_filter f xs) \<longleftrightarrow> (\<exists>y \<in> set xs. f y = Some x)"
  by (induction xs) (auto split: option.splits)

lemma distinct_positions:
  assumes "distinct uids" "distinct us"
  shows "distinct (List.map_filter (position_of uids) us)"
  using assms(2)
  by (induction us) (auto simp: set_map_filter position_of_Some [OF assms(1)] split: option.splits)

lemma concat_map_filter: "concat (map (List.map_filter f) xss) = List.map_filter f (concat xss)"
  by (induction xss) (auto simp: List.map_filter_def)

lemma group_positions_ok:
  assumes "group_positions uids groups = Inr positions"
  shows "positions = map (List.map_filter (position_of uids)) groups" "groups_ok (length uids) positions"
    and "groups = [] \<or> distinct uids"
proof -
  show e: "positions = map (List.map_filter (position_of uids)) groups" "groups = [] \<or> distinct uids"
    using assms by (auto simp: group_positions_def position_of_def split: if_splits)
  show "groups_ok (length uids) positions"
  proof (cases "groups = []")
    case False
    then have d: "distinct uids" "distinct (concat groups)"
      using assms by (auto simp: group_positions_def split: if_splits)
    then show ?thesis
      by (auto simp: groups_ok_def e(1) concat_map_filter distinct_positions list_all_iff set_map_filter position_of_Some)
  qed (simp add: e(1) groups_ok_def)
qed

lemma sum_map_filter:
  "sum_list (map (\<lambda>u. case f u of None \<Rightarrow> 0 | Some i \<Rightarrow> g i) us) = sum_list (map g (List.map_filter f us))"
  for g :: "nat \<Rightarrow> int"
  by (induction us) (auto split: option.splits)

definition unit_of :: "(int \<times> int) list \<Rightarrow> int \<Rightarrow> int" where
  "unit_of vector u = (case map_of vector u of None \<Rightarrow> 0 | Some n \<Rightarrow> n)"

lemma unit_of_nonzero:
  "distinct (map fst xs) \<Longrightarrow> unit_of (filter (\<lambda>(u, n). n \<noteq> 0) xs) u = unit_of xs u"
proof (induction xs)
  case (Cons x xs)
  obtain k n where x: "x = (k, n)" by force
  have "map_of (filter (\<lambda>(u, n). n \<noteq> 0) xs) k = None"
    using Cons.prems x by (force simp: map_of_eq_None_iff)
  then show ?case using Cons x by (auto simp: unit_of_def split: option.splits)
qed (simp add: unit_of_def)

subsection \<open>The properties\<close>

text \<open>
  C20: Whatever identical-forecast pools are rounded as one, every unit of the u16 vector that is
  sent lies between 1 and 65535, its uids are uids of the input, one per unit, and a vector that is
  not empty holds the maximum 65535, which is the form that the chain and the owner's recheck
  expect.
\<close>

theorem emitted_units_are_u16:
  assumes "convert_weights_and_uids_for_emit uids weights groups = Inr (us, ns)" "length uids < 10 ^ 28"
  shows "length us = length ns \<and> set us \<subseteq> set uids \<and> list_all (\<lambda>n. 1 \<le> n \<and> n \<le> 65535) ns \<and> (ns = [] \<or> 65535 \<in> set ns)"
proof (cases "dsum weights = 0")
  case True
  then show ?thesis using assms(1) by (auto simp: convert_weights_and_uids_for_emit_def split: if_splits)
next
  case False
  let ?s = "scaled_weights weights"
  obtain positions where lens: "length uids = length weights" and nonneg: "\<And>w. w \<in> set weights \<Longrightarrow> 0 \<le> w"
      and pos: "group_positions uids groups = Inr positions"
      and out: "us = map fst (filter (\<lambda>(u, n). n \<noteq> 0) (zip uids (all_units ?s positions)))"
        "ns = map snd (filter (\<lambda>(u, n). n \<noteq> 0) (zip uids (all_units ?s positions)))"
    using assms(1) False by (auto simp: convert_weights_and_uids_for_emit_def list_ex_iff not_less Let_def split: if_splits)
  have ls: "length ?s = length uids" using lens by (simp add: scaled_weights_def)
  have bounds: "0 \<le> ?s ! i \<and> ?s ! i \<le> of_int u16_max" if "i < length ?s" for i
    using scaled_bounds [OF nonneg nth_mem [OF that]] by simp
  have ok: "groups_ok (length (map round_half_up ?s)) positions" using group_positions_ok(2) [OF pos] ls by simp
  have u16: "list_all in_u16 (all_units ?s positions)"
    unfolding all_units_def using bounds ok assms(2) ls
    by (intro fold_groups_u16) (auto simp: list_all_length intro!: round_half_up_u16)
  have "list_all (\<lambda>n. 1 \<le> n \<and> n \<le> 65535) ns"
    using u16 by (auto simp: out(2) list_all_iff in_u16_def u16_max_def dest!: set_zip_rightD)
  moreover have "length us = length ns" "set us \<subseteq> set uids" by (auto simp: out dest: set_zip_leftD)
  moreover have "65535 \<in> set ns"
  proof -
    have "weights \<noteq> []" using False by (auto simp: dsum_def)
    then have "Max (set weights) \<in> set weights" by simp
    then obtain j where j: "j < length weights" "weights ! j = Max (set weights)" by (metis in_set_conv_nth)
    have "\<exists>w \<in> set weights. w \<noteq> 0" using False dec.sum_all_zero [of weights] by (auto simp: dsum_foldl)
    then have "0 < Max (set weights)"
      using nonneg by (metis List.finite_set Max_ge antisym_conv2 leD not_le order.trans)
    then have "?s ! j = rnd28 (of_int u16_max)"
      using j by (simp add: scaled_weights_def dec_ops dec.one)
    then have top: "?s ! j = of_int u16_max" using dec.small_int [of u16_max] by (simp add: u16_max_def)
    have jl: "j < length (map round_half_up ?s)" using j(1) lens ls by simp
    then have "u16_max \<le> all_units ?s positions ! j"
      unfolding all_units_def using fold_groups_floor [OF ok jl, of ?s] top by simp
    moreover have "all_units ?s positions ! j \<le> u16_max"
      using u16 jl by (auto simp: list_all_length in_u16_def all_units_def)
    ultimately have "(uids ! j, 65535) \<in> set (zip uids (all_units ?s positions))"
      using jl ls by (auto simp: in_set_zip u16_max_def all_units_def intro!: exI [of _ j])
    then show ?thesis by (force simp: out(2))
  qed
  ultimately show ?thesis by blast
qed

lemma demo_vector:
  "convert_weights_and_uids_for_emit [4, 2, 7] [1/2, 1, 1/2] [[7, 4]] = Inr ([4, 2, 7], [32767, 65535, 32768])"
  by code_simp

lemma emitted_units_are_u16_witness:
  "length [4 :: int, 2, 7] = length [32767 :: int, 65535, 32768] \<and> set [4 :: int, 2, 7] \<subseteq> set [4, 2, 7]
     \<and> list_all (\<lambda>n. 1 \<le> n \<and> n \<le> 65535) [32767 :: int, 65535, 32768]
     \<and> ([32767 :: int, 65535, 32768] = [] \<or> 65535 \<in> set [32767 :: int, 65535, 32768])"
  by (rule emitted_units_are_u16 [OF demo_vector]) simp

text \<open>
  C21: A pool of identical forecasts is rounded as one entry: the units of its hotkeys add up to the
  whole parts of their scaled weights and the half-up rounding of the sum of their remainders.  This
  total depends on the weights of the pool only, not on the order that breaks its ties, so splitting
  a forecast over many hotkeys cannot collect one rounded-up unit per hotkey.
\<close>

theorem pools_round_as_one_entry:
  assumes "convert_weights_and_uids_for_emit uids weights groups = Inr (us, ns)" "length uids < 10 ^ 28"
    and "us \<noteq> []" "g \<in> set groups"
  defines "scaled \<equiv> List.map_filter (map_of (zip uids (scaled_weights weights))) g"
  shows "sum_list (map (unit_of (zip us ns)) g) =
     sum_list (map floor scaled) + round_half_up (dsum (sort (map (\<lambda>s. dsub s (of_int \<lfloor>s\<rfloor>)) scaled)))"
proof -
  let ?s = "scaled_weights weights"
  obtain positions where lens: "length uids = length weights"
      and pos: "group_positions uids groups = Inr positions"
      and out: "us = map fst (filter (\<lambda>(u, n). n \<noteq> 0) (zip uids (all_units ?s positions)))"
        "ns = map snd (filter (\<lambda>(u, n). n \<noteq> 0) (zip uids (all_units ?s positions)))"
    using assms(1,3) by (auto simp: convert_weights_and_uids_for_emit_def Let_def split: if_splits)
  let ?units = "all_units ?s positions" and ?p = "List.map_filter (position_of uids) g"
  have ls: "length ?s = length uids" using lens by (simp add: scaled_weights_def)
  note gp = group_positions_ok [OF pos]
  have d: "distinct uids" using gp(3) assms(4) by auto
  have p: "?p \<in> set positions" using gp(1) assms(4) by simp
  have lu: "length ?units = length uids" using ls by (simp add: all_units_def)
  have unit: "unit_of (zip us ns) u = (case position_of uids u of None \<Rightarrow> 0 | Some i \<Rightarrow> ?units ! i)" for u
    using unit_of_nonzero [of "zip uids ?units" u] d lu map_of_zip_position [OF lu, of u]
    by (simp add: out zip_map_fst_snd unit_of_def split: option.splits)
  have "sum_list (map (unit_of (zip us ns)) g) = sum_list (map ((!) ?units) ?p)"
    unfolding unit [abs_def] by (rule sum_map_filter)
  also have total: "\<dots> = sum_list (map (\<lambda>i. \<lfloor>?s ! i\<rfloor>) ?p) + spare_units ?s ?p"
    unfolding all_units_def by (rule fold_groups_total) (use gp(2) ls assms(2) p in auto)
  finally have "sum_list (map (unit_of (zip us ns)) g) = \<dots>" .
  moreover have "scaled = map ((!) ?s) ?p"
    unfolding scaled_def using map_of_zip_position [OF ls]
    by (induction g) (auto split: option.splits)
  then have "sum_list (map (\<lambda>i. \<lfloor>?s ! i\<rfloor>) ?p) = sum_list (map floor scaled)"
    "spare_units ?s ?p = round_half_up (dsum (sort (map (\<lambda>s. dsub s (of_int \<lfloor>s\<rfloor>)) scaled)))"
    by (simp_all add: spare_units_def o_def)
  ultimately show ?thesis by simp
qed

lemma pools_round_as_one_entry_witness:
  "sum_list (map (unit_of (zip [4, 2, 7] [32767, 65535, 32768])) [7, 4]) =
     sum_list (map floor (List.map_filter (map_of (zip [4 :: int, 2, 7] (scaled_weights [1/2, 1, 1/2]))) [7, 4]))
     + round_half_up (dsum (sort (map (\<lambda>s. dsub s (of_int \<lfloor>s\<rfloor>))
         (List.map_filter (map_of (zip [4 :: int, 2, 7] (scaled_weights [1/2, 1, 1/2]))) [7, 4]))))"
  by (rule pools_round_as_one_entry [OF demo_vector]) simp_all

end
