(* ===== verification/Emission_Policy.thy ===== *)
theory Emission_Policy
  imports Weight_Processing Decimal_Text
begin

text \<open>
  What a validator emits (\<open>endure/scoring/emission_policy.py\<close> and the identities of
  \<open>endure/protocol/consensus_policy.py\<close>): earned weights, the owner's burn share or the owner vote,
  planned from one chain snapshot, and the checks of the prepared vector before it is sent.  A raised
  \<open>EmissionBlocked\<close> is its reason.  A commitment record is the Python object that the chain client
  returns, as a \<open>node\<close>.  Where several uids of a vector fail a recheck, Python's set order decides
  which reason is raised; the model visits them in the vector's order.
\<close>

datatype block_reason =
    Vote_chain_mismatch | Owner_hotkey_mismatch | Owner_unregistered | Owner_snapshot_inconsistent
  | Chain_snapshot_inconsistent | Validator_identity_invalid | Vote_vector_invalid

datatype emission_mode = Scored | Owner_vote | Abstain

datatype vote_network = Vote_mainnet | Vote_testnet

definition full_burn_bps :: int where
  "full_burn_bps = 10000"

definition burn_bps_denominator :: int where
  "burn_bps_denominator = 10000"

definition burn_commitment_prefix :: string where
  "burn_commitment_prefix = ''endure.burn_bps=''"

definition mainnet_genesis_hash :: string where
  "mainnet_genesis_hash = ''0x2f0555cc76fc2840a25a6ea3b9637146806f1f44b090c175ffde2a7e5ab36c03''"

definition sn30_netuid :: int where
  "sn30_netuid = 30"

definition sn30_owner_hotkey :: string where
  "sn30_owner_hotkey = ''5HW12NvEZoGz8ZzcWMh4xyDUy6H1Af85m5LB8V1L11erK1S1''"

text \<open>\<open>str.lower\<close> on Latin-1.\<close>

definition lower_char :: "char \<Rightarrow> char" where
  "lower_char c =
     (let n = of_char c :: nat
      in if 65 \<le> n \<and> n \<le> 90 \<or> 192 \<le> n \<and> n \<le> 222 \<and> n \<noteq> 215 then char_of (n + 32) else c)"

definition normalize_genesis_hash :: "string \<Rightarrow> string" where
  "normalize_genesis_hash value =
     (let text = map lower_char (strip value) in if starts_with ''0x'' text then text else ''0x'' @ text)"

record vote_recipient =
  ov_network :: vote_network
  ov_hotkey :: string
  ov_uid :: nat
  ov_burn_bps :: int
  ov_coldkey :: "string option"
  ov_withheld :: "nat list"

record emission_snapshot =
  es_block :: int
  es_hotkeys :: "string list"
  es_owner_hotkey :: "string option"
  es_owner_coldkey :: "string option"
  es_coldkeys :: "string list option"
  es_permits :: "bool list"
  es_last_updates :: "int list"
  es_rate_limit :: int

record owner_commitment =
  oc_hotkey :: string
  oc_block :: int
  oc_record :: node

record emission_plan =
  ep_due :: bool
  ep_permit :: bool
  ep_next_block :: int
  ep_weights :: "rat list"
  ep_recipient :: "vote_recipient option"
  ep_burn_bps :: "int option"
  ep_commitment_owner :: "string option"
  ep_groups :: "nat list list"

definition select_emission_mode :: "rat list \<Rightarrow> vote_network option \<Rightarrow> emission_mode" where
  "select_emission_mode scores network =
     (if list_ex (\<lambda>s. 0 < s) scores then Scored else if network = None then Abstain else Owner_vote)"

text \<open>Python's truth of an optional text.\<close>

definition truthy :: "string option \<Rightarrow> bool" where
  "truthy t \<longleftrightarrow> t \<noteq> None \<and> t \<noteq> Some []"

definition chain_withheld_uids :: "emission_snapshot \<Rightarrow> nat \<Rightarrow> block_reason + nat list" where
  "chain_withheld_uids s owner_uid =
     (case es_coldkeys s of
        None \<Rightarrow> Inl Owner_snapshot_inconsistent
      | Some coldkeys \<Rightarrow>
          if \<not> truthy (es_owner_coldkey s) \<or> length coldkeys \<noteq> length (es_hotkeys s)
          then Inl Owner_snapshot_inconsistent
          else Inr (remdups (filter (\<lambda>uid. Some (coldkeys ! uid) = es_owner_coldkey s) [0..<length coldkeys] @ [owner_uid])))"

subsection \<open>The owner's commitment\<close>

definition raw_field_length :: "string \<Rightarrow> nat option" where
  "raw_field_length variant =
     (let digits = drop 3 variant
      in if starts_with ''Raw'' variant \<and> 1 \<le> length digits \<and> length digits \<le> 3 \<and> list_all is_digit digits
         then Some (nat (int_of_digits digits)) else None)"

definition remove_prefix :: "string \<Rightarrow> string \<Rightarrow> string" where
  "remove_prefix p s = (if starts_with p s then drop (length p) s else s)"

text \<open>\<open>Mapping.get\<close> with a text key, \<open>NNone\<close> when the object is no mapping or lacks it.\<close>

definition node_get :: "string \<Rightarrow> node \<Rightarrow> node" where
  "node_get key v =
     (case v of
        NDict kvs \<Rightarrow> (case map_of kvs (NStr key) of None \<Rightarrow> NNone | Some x \<Rightarrow> x)
      | _ \<Rightarrow> NNone)"

definition field_text_of :: "node \<times> node \<Rightarrow> string" where
  "field_text_of kv =
     (case kv of
        (NStr variant, NStr value) \<Rightarrow>
          (case (raw_field_length variant, fromhex (remove_prefix ''0x'' value)) of
             (Some n, Some payload) \<Rightarrow>
               (case utf8_decode payload of None \<Rightarrow> [] | Some text \<Rightarrow> if length payload = n then text else [])
           | _ \<Rightarrow> [])
      | _ \<Rightarrow> [])"

definition commitment_text :: "node \<Rightarrow> string option" where
  "commitment_text metadata =
     (if metadata = NNone \<or> metadata = NStr [] then None
      else case node_get ''fields'' (node_get ''info'' metadata) of
          NList [NDict [kv]] \<Rightarrow> Some (field_text_of kv)
        | _ \<Rightarrow> Some [])"

definition parse_burn_rate :: "string option \<Rightarrow> int" where
  "parse_burn_rate text =
     (case text of
        None \<Rightarrow> full_burn_bps
      | Some t \<Rightarrow>
          let digits = drop (length burn_commitment_prefix) t
          in if starts_with burn_commitment_prefix t \<and> digits \<noteq> [] \<and> list_all is_digit digits
                \<and> (digits = ''0'' \<or> hd digits \<noteq> CHR ''0'' \<and> length digits \<le> 5)
             then min (int_of_digits digits) full_burn_bps else full_burn_bps)"

definition burn_commitment_text :: "int \<Rightarrow> string option" where
  "burn_commitment_text bps =
     (if 0 \<le> bps \<and> bps \<le> full_burn_bps then Some (burn_commitment_prefix @ str_int bps) else None)"

definition observed_burn_rate :: "owner_commitment option \<Rightarrow> emission_snapshot \<Rightarrow> block_reason + int" where
  "observed_burn_rate commitment s =
     (case commitment of
        None \<Rightarrow> Inr full_burn_bps
      | Some c \<Rightarrow>
          if Some (oc_hotkey c) \<noteq> es_owner_hotkey s \<or> oc_block c \<noteq> es_block s
          then Inl Chain_snapshot_inconsistent
          else case node_get ''block'' (oc_record c) of
              NInt recorded \<Rightarrow>
                if recorded > oc_block c then Inl Chain_snapshot_inconsistent
                else Inr (parse_burn_rate (commitment_text (oc_record c)))
            | _ \<Rightarrow> Inr (parse_burn_rate (commitment_text (oc_record c))))"

subsection \<open>Vectors\<close>

definition owner_vote_weights :: "nat \<Rightarrow> nat \<Rightarrow> block_reason + rat list" where
  "owner_vote_weights msize owner_uid =
     (if owner_uid < msize then Inr (map (\<lambda>uid. if uid = owner_uid then 1 else 0) [0..<msize])
      else Inl Owner_snapshot_inconsistent)"

definition owner_burn_weights :: "rat list \<Rightarrow> nat \<Rightarrow> int \<Rightarrow> block_reason + rat list option" where
  "owner_burn_weights scores owner_uid bps =
     (if \<not> owner_uid < length scores then Inl Owner_snapshot_inconsistent
      else
        let earned = map (\<lambda>uid. if uid \<noteq> owner_uid \<and> 0 < scores ! uid then scores ! uid else 0) [0..<length scores];
            total_earned = dsum earned
        in if total_earned \<le> 0 then Inr None
           else
             let burn = ddiv (of_int bps) (of_int burn_bps_denominator); miners = dsub 1 burn
             in Inr (Some ((map (\<lambda>s. ddiv (dmul miners s) total_earned) earned)[owner_uid := burn])))"

definition vote_network_weights :: "rat list \<Rightarrow> nat \<Rightarrow> nat \<Rightarrow> int \<Rightarrow> block_reason + rat list \<times> int" where
  "vote_network_weights earned owner_uid msize bps =
     (let fallback = ebind (owner_vote_weights msize owner_uid) (\<lambda>ws. Inr (ws, full_burn_bps))
      in if bps = 0 \<and> list_ex (\<lambda>s. 0 < s) earned then Inr (earned, 0)
         else if 0 < bps \<and> bps < full_burn_bps
         then ebind (owner_burn_weights earned owner_uid bps) (\<lambda>burned.
              case burned of Some ws \<Rightarrow> Inr (ws, bps) | None \<Rightarrow> fallback)
         else fallback)"

definition pool_uids :: "string list list \<Rightarrow> string list \<Rightarrow> nat list \<Rightarrow> nat list list" where
  "pool_uids pools hotkeys withheld =
     (let uid_of = map_of (rev (zip hotkeys [0..<length hotkeys]));
          groups = map (\<lambda>pool. filter (\<lambda>uid. uid \<notin> set withheld) (List.map_filter uid_of pool)) pools
      in sort_key sort (filter (\<lambda>g. length g > 1) groups))"

definition resolve_owner_vote_uid ::
  "vote_network \<Rightarrow> string \<Rightarrow> int \<Rightarrow> string list \<Rightarrow> string option \<Rightarrow> block_reason + nat" where
  "resolve_owner_vote_uid network identity netuid hotkeys owner_hotkey =
     (let chain = (if identity = [] then [] else normalize_genesis_hash identity);
          matches = filter (\<lambda>uid. Some (hotkeys ! uid) = owner_hotkey) [0..<length hotkeys]
      in if network = Vote_mainnet \<and> (chain \<noteq> mainnet_genesis_hash \<or> netuid \<noteq> sn30_netuid)
         then Inl Vote_chain_mismatch
         else if network = Vote_mainnet \<and> owner_hotkey \<noteq> Some sn30_owner_hotkey then Inl Owner_hotkey_mismatch
         else if network = Vote_testnet \<and> chain = mainnet_genesis_hash then Inl Vote_chain_mismatch
         else if \<not> truthy owner_hotkey then Inl Owner_snapshot_inconsistent
         else case matches of
             [] \<Rightarrow> Inl Owner_unregistered
           | [uid] \<Rightarrow> Inr uid
           | _ \<Rightarrow> Inl Owner_snapshot_inconsistent)"

definition local_owner_uid ::
  "vote_network \<Rightarrow> string \<Rightarrow> int \<Rightarrow> emission_snapshot \<Rightarrow> string list \<Rightarrow> block_reason + nat" where
  "local_owner_uid network identity netuid s local_hotkeys =
     ebind (resolve_owner_vote_uid network identity netuid (es_hotkeys s) (es_owner_hotkey s)) (\<lambda>owner_uid.
     if length local_hotkeys \<le> owner_uid \<or> Some (local_hotkeys ! owner_uid) \<noteq> es_owner_hotkey s
     then Inl Owner_snapshot_inconsistent else Inr owner_uid)"

definition submission_due ::
  "int \<Rightarrow> string \<Rightarrow> string list \<Rightarrow> bool list \<Rightarrow> int list \<Rightarrow> int \<Rightarrow> int \<Rightarrow> block_reason + bool" where
  "submission_due uid hotkey hotkeys permits last_updates block rate_limit =
     (if uid < 0 \<or> int (length hotkeys) \<le> uid then Inl Validator_identity_invalid
      else if hotkey = [] \<or> hotkeys ! nat uid \<noteq> hotkey then Inl Validator_identity_invalid
      else if int (length permits) \<le> uid \<or> int (length last_updates) \<le> uid then Inl Chain_snapshot_inconsistent
      else
        let last_update = last_updates ! nat uid
        in if block < 0 \<or> rate_limit < 0 \<or> last_update < 0 \<or> last_update > block
           then Inl Chain_snapshot_inconsistent
           else Inr (permits ! nat uid \<and> block - last_update > rate_limit))"

subsection \<open>The plan\<close>

record emission_attempt =
  at_mode :: emission_mode
  at_network :: "vote_network option"
  at_block :: int
  at_identity :: string
  at_netuid :: int
  at_uid :: int
  at_hotkey :: string
  at_local_hotkeys :: "string list"
  at_scores :: "rat list"
  at_commitment :: "owner_commitment option"
  at_pools :: "string list list"

definition scored_uid_agrees :: "emission_attempt \<Rightarrow> emission_snapshot \<Rightarrow> nat \<Rightarrow> bool" where
  "scored_uid_agrees a s uid \<longleftrightarrow> uid < length (at_local_hotkeys a) \<and> uid < length (es_hotkeys s)
     \<and> at_local_hotkeys a ! uid = es_hotkeys s ! uid"

text \<open>The vote network's part of a plan: the vector, the burn, the recipient, whether the owner's
  commitment has still to be read, and the withheld uids.\<close>

definition network_plan ::
  "emission_attempt \<Rightarrow> emission_snapshot \<Rightarrow> vote_network
     \<Rightarrow> block_reason + rat list \<times> int \<times> vote_recipient \<times> bool \<times> nat list" where
  "network_plan a s network =
     ebind (local_owner_uid network (at_identity a) (at_netuid a) s (at_local_hotkeys a)) (\<lambda>owner_uid.
     if \<not> truthy (es_owner_coldkey s) then Inl Owner_snapshot_inconsistent
     else
       ebind (if at_mode a = Scored then chain_withheld_uids s owner_uid else Inr [owner_uid]) (\<lambda>withheld.
       let earned = map (\<lambda>uid. if uid \<in> set withheld then 0 else at_scores a ! uid) [0..<length (at_scores a)];
           scored = (at_mode a = Scored \<and> list_ex (\<lambda>x. 0 < x) earned);
           needs_commitment = (scored \<and> at_commitment a = None)
       in ebind (if scored \<and> \<not> needs_commitment then observed_burn_rate (at_commitment a) s else Inr full_burn_bps)
            (\<lambda>rate.
          ebind (vote_network_weights earned owner_uid (length (at_local_hotkeys a)) rate) (\<lambda>(weights, burn).
          Inr (weights, burn,
               \<lparr>ov_network = network, ov_hotkey = at_local_hotkeys a ! owner_uid, ov_uid = owner_uid, ov_burn_bps = burn,
                ov_coldkey = es_owner_coldkey s, ov_withheld = withheld\<rparr>, needs_commitment, withheld)))))"

definition finish_plan ::
  "emission_attempt \<Rightarrow> emission_snapshot \<Rightarrow> rat list \<Rightarrow> int option \<Rightarrow> vote_recipient option \<Rightarrow> bool \<Rightarrow> nat list
     \<Rightarrow> block_reason + emission_plan" where
  "finish_plan a s weights burn recipient needs_commitment withheld =
     ebind (submission_due (at_uid a) (at_hotkey a) (es_hotkeys s) (es_permits s) (es_last_updates s) (at_block a)
         (es_rate_limit s)) (\<lambda>due.
     let p = \<lparr>ep_due = due, ep_permit = es_permits s ! nat (at_uid a),
              ep_next_block = es_last_updates s ! nat (at_uid a) + es_rate_limit s + 1,
              ep_weights = weights, ep_recipient = recipient, ep_burn_bps = burn, ep_commitment_owner = None,
              ep_groups = pool_uids (at_pools a) (at_local_hotkeys a) withheld\<rparr>
     in Inr (if needs_commitment
             then p\<lparr>ep_weights := [], ep_recipient := None, ep_burn_bps := None,
                    ep_commitment_owner := (if due then es_owner_hotkey s else None), ep_groups := []\<rparr>
             else p))"

definition plan_emission :: "emission_attempt \<Rightarrow> emission_snapshot option \<Rightarrow> block_reason + emission_plan" where
  "plan_emission a snapshot =
     (case snapshot of
        None \<Rightarrow> Inl Chain_snapshot_inconsistent
      | Some s \<Rightarrow>
          if es_block s \<noteq> at_block a then Inl Chain_snapshot_inconsistent
          else if at_mode a = Scored
              \<and> list_ex (\<lambda>uid. 0 < at_scores a ! uid \<and> \<not> scored_uid_agrees a s uid) [0..<length (at_scores a)]
          then Inl Chain_snapshot_inconsistent
          else
            (case at_network a of
               None \<Rightarrow>
                 if at_mode a = Owner_vote then Inl Vote_chain_mismatch
                 else finish_plan a s (at_scores a) None None False []
             | Some network \<Rightarrow>
                 ebind (network_plan a s network) (\<lambda>(weights, burn, recipient, needs_commitment, withheld).
                 finish_plan a s weights (Some burn) (Some recipient) needs_commitment withheld)))"

subsection \<open>Rechecks before sending\<close>

definition recheck_owner_burn_share ::
  "vote_recipient \<Rightarrow> string list \<Rightarrow> int list \<Rightarrow> int list \<Rightarrow> block_reason + unit" where
  "recheck_owner_burn_share r hotkeys uids units =
     (if units = [] \<or> length uids \<noteq> length units \<or> \<not> distinct uids
         \<or> 0 < ov_burn_bps r \<and> int (ov_uid r) \<notin> set uids
         \<or> list_ex (\<lambda>uid. \<not> (0 \<le> uid \<and> uid < int (length hotkeys))) uids
         \<or> list_ex (\<lambda>w. w \<le> 0 \<or> w > u16_max) units
         \<or> Max (set units) \<noteq> u16_max
      then Inl Vote_vector_invalid
      else if ov_burn_bps r = 0 then Inr ()
      else
        let owner_unit = (case map_of (zip uids units) (int (ov_uid r)) of Some w \<Rightarrow> w | None \<Rightarrow> 0);
            deviation = \<bar>burn_bps_denominator * owner_unit - ov_burn_bps r * sum_list units\<bar>
        in if 2 * deviation > burn_bps_denominator * (int (length hotkeys) + 1) then Inl Vote_vector_invalid
           else Inr ())"

definition recheck_owner_vote ::
  "vote_recipient \<Rightarrow> string \<Rightarrow> int \<Rightarrow> string list \<Rightarrow> int list \<Rightarrow> int list \<Rightarrow> int option \<Rightarrow> py_decimal option
     \<Rightarrow> block_reason + unit" where
  "recheck_owner_vote r identity netuid hotkeys uids units min_allowed max_limit =
     ebind (resolve_owner_vote_uid (ov_network r) identity netuid hotkeys (Some (ov_hotkey r))) (\<lambda>owner_uid.
     if owner_uid \<noteq> ov_uid r then Inl Owner_snapshot_inconsistent
     else if min_allowed \<noteq> Some 1
         \<or> (case max_limit of None \<Rightarrow> True | Some d \<Rightarrow> \<not> is_finite d \<or> dval d \<noteq> 1)
     then Inl Vote_vector_invalid
     else if ov_burn_bps r \<noteq> full_burn_bps
     then ebind (recheck_owner_burn_share r hotkeys uids units) (\<lambda>_.
          let earning = filter (\<lambda>uid. ov_burn_bps r = 0 \<or> uid \<noteq> ov_uid r) (ov_withheld r)
          in if list_ex (\<lambda>uid. uid \<in> set (map int earning)) uids then Inl Vote_vector_invalid else Inr ())
     else if uids \<noteq> [int (ov_uid r)] \<or> units \<noteq> [u16_max] then Inl Vote_vector_invalid
     else Inr ())"

record owner_state =
  os_block :: int
  os_owner_hotkey :: "string option"
  os_owner_coldkey :: "string option"
  os_hotkeys :: "string list option"
  os_coldkeys :: "string list option"

definition recheck_owner_state ::
  "vote_recipient \<Rightarrow> owner_state option \<Rightarrow> int option \<Rightarrow> string list \<Rightarrow> int list \<Rightarrow> block_reason + unit" where
  "recheck_owner_state r state block prepared_hotkeys uids =
     (case (state, block) of
        (Some st, Some b) \<Rightarrow>
          if os_block st \<noteq> b then Inl Chain_snapshot_inconsistent
          else if os_owner_hotkey st \<noteq> Some (ov_hotkey r) \<or> os_owner_coldkey st \<noteq> ov_coldkey r
          then Inl Owner_snapshot_inconsistent
          else (case (os_coldkeys st, os_hotkeys st) of
              (Some coldkeys, Some hotkeys) \<Rightarrow>
                if length coldkeys \<noteq> length hotkeys then Inl Owner_snapshot_inconsistent
                else ebind (etraverse (\<lambda>uid.
                    if \<not> (0 \<le> uid \<and> uid < int (length hotkeys)) \<or> int (length prepared_hotkeys) \<le> uid
                       \<or> hotkeys ! nat uid \<noteq> prepared_hotkeys ! nat uid
                    then Inl Chain_snapshot_inconsistent
                    else
                      let withheld = (uid = int (ov_uid r) \<or> Some (coldkeys ! nat uid) = os_owner_coldkey st)
                      in if withheld \<noteq> (nat uid \<in> set (ov_withheld r)) then Inl Owner_snapshot_inconsistent
                         else Inr ()) (remdups (uids @ [int (ov_uid r)]))) (\<lambda>_. Inr ())
            | _ \<Rightarrow> Inl Owner_snapshot_inconsistent)
      | _ \<Rightarrow> Inl Chain_snapshot_inconsistent)"

subsection \<open>Settings\<close>

definition deregistration_confirmation_syncs :: int where
  "deregistration_confirmation_syncs = 2"

record consensus_settings =
  st_min_stake :: rat
  st_max_commits :: int
  st_max_reveals :: int
  st_epoch_length :: int

definition protocol_consensus_settings :: consensus_settings where
  "protocol_consensus_settings =
     \<lparr>st_min_stake = 0, st_max_commits = 10, st_max_reveals = 10, st_epoch_length = 100\<rparr>"

definition ignored_consensus_settings :: "consensus_settings \<Rightarrow> (string \<times> rat \<times> rat) list" where
  "ignored_consensus_settings given =
     (let p = protocol_consensus_settings
      in filter (\<lambda>(_, actual, canonical). actual \<noteq> canonical)
          [(''endure.min_miner_stake'', st_min_stake given, st_min_stake p),
           (''endure.max_commits_per_round'', of_int (st_max_commits given), of_int (st_max_commits p)),
           (''endure.max_reveals_per_round'', of_int (st_max_reveals given), of_int (st_max_reveals p)),
           (''neuron.epoch_length'', of_int (st_epoch_length given), of_int (st_epoch_length p))])"

datatype chain_class = Chain_mainnet | Chain_testnet | Chain_dev | Chain_unrecognized

definition require_emitting_validator_serves_axon :: "bool \<Rightarrow> bool \<Rightarrow> bool" where
  "require_emitting_validator_serves_axon axon_off disable_set_weights \<longleftrightarrow> \<not> (axon_off \<and> \<not> disable_set_weights)"

definition mainnet_policy_applies :: "chain_class \<Rightarrow> bool \<Rightarrow> bool" where
  "mainnet_policy_applies chain served \<longleftrightarrow> served \<and> chain = Chain_mainnet"

definition reads_live_mainnet :: "chain_class \<Rightarrow> bool \<Rightarrow> bool" where
  "reads_live_mainnet chain compressed \<longleftrightarrow> chain \<noteq> Chain_dev \<and> \<not> compressed"

definition consensus_settings_pinned :: "chain_class \<Rightarrow> bool \<Rightarrow> bool" where
  "consensus_settings_pinned chain served \<longleftrightarrow> served \<and> (chain = Chain_mainnet \<or> chain = Chain_testnet)"

definition chain_owner_vote_network :: "chain_class \<Rightarrow> bool \<Rightarrow> bool \<Rightarrow> vote_network option" where
  "chain_owner_vote_network chain served devnet_owner_vote =
     (if \<not> served then None
      else if chain = Chain_mainnet then Some Vote_mainnet
      else if chain = Chain_testnet \<or> chain = Chain_dev \<and> devnet_owner_vote then Some Vote_testnet
      else None)"

end
