(* ===== verification/Emission_Vote.thy ===== *)
theory Emission_Vote
  imports Emission_Policy Dates
begin

text \<open>
  The properties of the emission policy: what a planned vector may give to whom, and that a burn
  below the full rate needs the owner's exact commitment.
\<close>

subsection \<open>The vector on a vote network\<close>

definition weight_at :: "rat list \<Rightarrow> nat \<Rightarrow> rat" where
  "weight_at ws uid = (if uid < length ws then ws ! uid else 0)"

lemma ddiv_0 [simp]: "ddiv 0 b = 0"
  by (simp add: ddiv_def dec.zero)

lemma ddiv_full [simp]: "ddiv (of_int full_burn_bps) (of_int burn_bps_denominator) = 1"
  by (simp add: full_burn_bps_def burn_bps_denominator_def ddiv_def dec.one)

text \<open>The owner has its burn share, no other uid has weight that it did not earn.\<close>

definition shares_burn :: "rat list \<Rightarrow> nat \<Rightarrow> rat list \<times> int \<Rightarrow> bool" where
  "shares_burn earned owner_uid wb \<longleftrightarrow>
     (case wb of (ws, burn) \<Rightarrow>
        0 \<le> burn \<and> burn \<le> full_burn_bps
        \<and> weight_at ws owner_uid = ddiv (of_int burn) (of_int burn_bps_denominator)
        \<and> (\<forall>uid. uid \<noteq> owner_uid \<longrightarrow> weight_at ws uid = 0 \<or> weight_at earned uid \<noteq> 0)
        \<and> (\<forall>uid. uid \<noteq> owner_uid \<longrightarrow> weight_at ws uid \<le> 0 \<or> 0 < weight_at earned uid))"

lemma owner_vote_shares:
  "owner_vote_weights msize owner_uid = Inr ws \<Longrightarrow> shares_burn earned owner_uid (ws, full_burn_bps)"
  by (auto simp: owner_vote_weights_def shares_burn_def weight_at_def full_burn_bps_def burn_bps_denominator_def
      ddiv_def dec.one split: if_splits)

lemma owner_burn_shares:
  assumes "owner_burn_weights earned owner_uid bps = Inr (Some ws)" "0 \<le> bps" "bps \<le> full_burn_bps"
  shows "shares_burn earned owner_uid (ws, bps)"
proof -
  let ?e = "\<lambda>uid. if uid \<noteq> owner_uid \<and> 0 < earned ! uid then earned ! uid else 0"
  let ?total = "dsum (map ?e [0..<length earned])"
  let ?miners = "dsub 1 (ddiv (of_int bps) (of_int burn_bps_denominator))"
  have owner: "owner_uid < length earned"
    and ws: "ws = (map (\<lambda>s. ddiv (dmul ?miners s) ?total) (map ?e [0..<length earned]))
               [owner_uid := ddiv (of_int bps) (of_int burn_bps_denominator)]"
    using assms(1) by (auto simp: owner_burn_weights_def Let_def split: if_splits)
  have "weight_at ws uid = 0 \<or> 0 < weight_at earned uid" if "uid \<noteq> owner_uid" for uid
    using that by (auto simp: weight_at_def ws dmul_def dec.zero)
  then have "\<forall>uid. uid \<noteq> owner_uid \<longrightarrow> (weight_at ws uid = 0 \<or> weight_at earned uid \<noteq> 0)
      \<and> (weight_at ws uid \<le> 0 \<or> 0 < weight_at earned uid)" by force
  moreover have "weight_at ws owner_uid = ddiv (of_int bps) (of_int burn_bps_denominator)"
    using owner by (simp add: weight_at_def ws)
  ultimately show ?thesis using assms(2,3) by (auto simp: shares_burn_def)
qed

lemma vote_network_shares:
  assumes "vote_network_weights earned owner_uid msize bps = Inr wb" "weight_at earned owner_uid = 0"
  shows "shares_burn earned owner_uid wb"
proof -
  have fallback: "shares_burn earned owner_uid wb"
    if "ebind (owner_vote_weights msize owner_uid) (\<lambda>ws. Inr (ws, full_burn_bps)) = Inr wb"
    using that owner_vote_shares by auto
  consider "bps = 0" "wb = (earned, 0)" | ws where "0 < bps" "bps < full_burn_bps"
      "owner_burn_weights earned owner_uid bps = Inr (Some ws)" "wb = (ws, bps)"
    | "ebind (owner_vote_weights msize owner_uid) (\<lambda>ws. Inr (ws, full_burn_bps)) = Inr wb"
    using assms(1) by (auto simp: vote_network_weights_def Let_def split: if_splits option.splits)
  then show ?thesis
  proof cases
    case 1
    have "weight_at earned uid \<le> 0 \<or> 0 < weight_at earned uid" for uid by linarith
    then show ?thesis using 1 assms(2) by (auto simp: shares_burn_def full_burn_bps_def)
  next
    case 2
    then show ?thesis using owner_burn_shares by simp
  next
    case 3
    then show ?thesis by (rule fallback)
  qed
qed

lemma network_plan_shares:
  assumes "network_plan a s network = Inr (ws, burn, r, needs, withheld)"
  shows "ov_burn_bps r = burn" "ov_withheld r = withheld" "ov_uid r \<in> set withheld"
    and "shares_burn (map (\<lambda>uid. if uid \<in> set withheld then 0 else at_scores a ! uid) [0..<length (at_scores a)])
           (ov_uid r) (ws, burn)"
proof -
  have t: "truthy (es_owner_coldkey s)"
    using assms by (cases "truthy (es_owner_coldkey s)") (simp_all add: network_plan_def)
  obtain owner_uid rate where o: "local_owner_uid network (at_identity a) (at_netuid a) s (at_local_hotkeys a) = Inr owner_uid"
      "(if at_mode a = Scored then chain_withheld_uids s owner_uid else Inr [owner_uid]) = Inr withheld"
      "vote_network_weights (map (\<lambda>uid. if uid \<in> set withheld then 0 else at_scores a ! uid) [0..<length (at_scores a)])
         owner_uid (length (at_local_hotkeys a)) rate = Inr (ws, burn)"
      "ov_uid r = owner_uid" "ov_burn_bps r = burn" "ov_withheld r = withheld"
    using assms t unfolding network_plan_def Let_def ebind_eq_Inr
    by (elim exE conjE) (simp split del: if_split split: prod.splits, elim exE conjE, hypsubst, fastforce split del: if_split)
  have "owner_uid \<in> set withheld"
    using o(2) by (auto simp: chain_withheld_uids_def split: if_splits option.splits)
  moreover have "weight_at (map (\<lambda>uid. if uid \<in> set withheld then 0 else at_scores a ! uid) [0..<length (at_scores a)]) owner_uid = 0"
    using calculation by (simp add: weight_at_def)
  ultimately show "ov_burn_bps r = burn" "ov_withheld r = withheld" "ov_uid r \<in> set withheld"
      "shares_burn (map (\<lambda>uid. if uid \<in> set withheld then 0 else at_scores a ! uid) [0..<length (at_scores a)]) (ov_uid r) (ws, burn)"
    using o vote_network_shares by simp_all
qed

lemma finish_plan_result:
  assumes "finish_plan a s ws burn r needs withheld = Inr p" "ep_recipient p \<noteq> None"
  shows "ep_weights p = ws" "ep_recipient p = r"
  using assms by (auto simp: finish_plan_def Let_def split: if_splits)

lemma plan_recipient:
  assumes "plan_emission a (Some s) = Inr p" "ep_recipient p = Some r"
  obtains network burn needs withheld where
    "network_plan a s network = Inr (ep_weights p, burn, r, needs, withheld)"
    "at_mode a = Scored \<Longrightarrow> list_all (\<lambda>uid. at_scores a ! uid \<le> 0 \<or> scored_uid_agrees a s uid) [0..<length (at_scores a)]"
proof -
  have agree: "list_all (\<lambda>uid. at_scores a ! uid \<le> 0 \<or> scored_uid_agrees a s uid) [0..<length (at_scores a)]"
    if "at_mode a = Scored"
    using assms(1) that by (auto simp: plan_emission_def list_ex_iff list_all_iff not_less split: if_splits)
  obtain network where net: "at_network a = Some network"
    using assms finish_plan_result(2) [of a s "at_scores a" None None False "[]" p]
    by (auto simp: plan_emission_def split: if_splits option.splits)
  then obtain ws burn r' needs withheld where "network_plan a s network = Inr (ws, burn, r', needs, withheld)"
      "finish_plan a s ws (Some burn) (Some r') needs withheld = Inr p"
    using assms(1) by (auto simp: plan_emission_def split: if_splits)
  then show ?thesis using that agree finish_plan_result [of a s ws "Some burn" "Some r'" needs withheld p] assms(2) by auto
qed

text \<open>The uids whose incentive the chain gives to the owner: their hotkey is held by the owner's coldkey.\<close>

definition owner_held :: "emission_snapshot \<Rightarrow> nat \<Rightarrow> bool" where
  "owner_held s uid \<longleftrightarrow>
     (case es_coldkeys s of
        None \<Rightarrow> False
      | Some coldkeys \<Rightarrow> uid < length coldkeys \<and> Some (coldkeys ! uid) = es_owner_coldkey s)"

lemma resolved_owner:
  assumes "local_owner_uid network identity netuid s hotkeys = Inr uid"
  shows "uid < length (es_hotkeys s)" "es_owner_hotkey s = Some (es_hotkeys s ! uid)"
    "uid < length hotkeys" "es_owner_hotkey s = Some (hotkeys ! uid)"
proof -
  have l: "resolve_owner_vote_uid network identity netuid (es_hotkeys s) (es_owner_hotkey s) = Inr uid"
    "uid < length hotkeys" "Some (hotkeys ! uid) = es_owner_hotkey s"
    using assms by (auto simp: local_owner_uid_def split: if_splits)
  then have "filter (\<lambda>u. Some (es_hotkeys s ! u) = es_owner_hotkey s) [0..<length (es_hotkeys s)] = [uid]"
    by (auto simp: resolve_owner_vote_uid_def Let_def split: if_splits list.splits)
  then have "uid \<in> set (filter (\<lambda>u. Some (es_hotkeys s ! u) = es_owner_hotkey s) [0..<length (es_hotkeys s)])"
    by simp
  then show "uid < length (es_hotkeys s)" "es_owner_hotkey s = Some (es_hotkeys s ! uid)" by auto
  show "uid < length hotkeys" "es_owner_hotkey s = Some (hotkeys ! uid)" using l(2,3) by simp_all
qed

lemma withheld_covers:
  assumes "chain_withheld_uids s owner_uid = Inr withheld"
  shows "es_coldkeys s \<noteq> None" "set withheld = insert owner_uid {uid. owner_held s uid}"
  using assms by (auto simp: chain_withheld_uids_def owner_held_def split: option.splits if_splits)

lemma full_burn_votes_owner:
  assumes "vote_network_weights earned owner_uid msize full_burn_bps = Inr (ws, burn)" "uid \<noteq> owner_uid"
  shows "weight_at ws uid = 0"
  using assms
  by (auto simp: vote_network_weights_def full_burn_bps_def owner_vote_weights_def weight_at_def Let_def
      split: if_splits)

lemma network_plan_chain:
  assumes "network_plan a s network = Inr (ws, burn, r, needs, withheld)"
  shows "ov_uid r < length (es_hotkeys s)" "es_owner_hotkey s = Some (es_hotkeys s ! ov_uid r)"
    "ov_uid r < length (at_local_hotkeys a)" "es_owner_hotkey s = Some (at_local_hotkeys a ! ov_uid r)"
    "at_mode a = Scored \<Longrightarrow> es_coldkeys s \<noteq> None \<and> set withheld = insert (ov_uid r) {uid. owner_held s uid}"
    "at_mode a \<noteq> Scored \<Longrightarrow> uid \<noteq> ov_uid r \<Longrightarrow> weight_at ws uid = 0"
proof -
  have t: "truthy (es_owner_coldkey s)"
    using assms by (cases "truthy (es_owner_coldkey s)") (simp_all add: network_plan_def)
  obtain owner_uid rate where o: "local_owner_uid network (at_identity a) (at_netuid a) s (at_local_hotkeys a) = Inr owner_uid"
      "(if at_mode a = Scored then chain_withheld_uids s owner_uid else Inr [owner_uid]) = Inr withheld"
      "vote_network_weights (map (\<lambda>uid. if uid \<in> set withheld then 0 else at_scores a ! uid) [0..<length (at_scores a)])
         owner_uid (length (at_local_hotkeys a)) rate = Inr (ws, burn)"
      "at_mode a \<noteq> Scored \<longrightarrow> rate = full_burn_bps" "ov_uid r = owner_uid"
    using assms t unfolding network_plan_def Let_def ebind_eq_Inr
    by (elim exE conjE) (simp split del: if_split split: prod.splits, elim exE conjE, hypsubst, fastforce split del: if_split)
  show "ov_uid r < length (es_hotkeys s)" "es_owner_hotkey s = Some (es_hotkeys s ! ov_uid r)"
    "ov_uid r < length (at_local_hotkeys a)" "es_owner_hotkey s = Some (at_local_hotkeys a ! ov_uid r)"
    using resolved_owner [OF o(1)] by (simp_all add: o(5))
  show "es_coldkeys s \<noteq> None \<and> set withheld = insert (ov_uid r) {uid. owner_held s uid}" if "at_mode a = Scored"
    using withheld_covers [of s owner_uid withheld] o(2,5) that by simp
  show "weight_at ws uid = 0" if "at_mode a \<noteq> Scored" "uid \<noteq> ov_uid r"
    using full_burn_votes_owner o(3-5) that by metis
qed

text \<open>
  C19: On a vote network, whatever the scores and the owner's commitment, a planned vector gives the
  uid of the chain's owner hotkey, the same in the local metagraph, exactly its burn share, and nothing
  to any other uid whose hotkey the owner's coldkey holds on chain; and positive weight otherwise only
  in scored mode, to uids whose hotkey is the same in the local metagraph and in the chain snapshot.
\<close>

theorem withheld_uids_never_earn:
  assumes "plan_emission a (Some s) = Inr p" "ep_recipient p = Some r"
  shows "0 \<le> ov_burn_bps r \<and> ov_burn_bps r \<le> 10000
    \<and> ov_uid r < length (es_hotkeys s) \<and> es_owner_hotkey s = Some (es_hotkeys s ! ov_uid r)
    \<and> ov_uid r < length (at_local_hotkeys a) \<and> es_owner_hotkey s = Some (at_local_hotkeys a ! ov_uid r)
    \<and> weight_at (ep_weights p) (ov_uid r) = ddiv (of_int (ov_burn_bps r)) 10000
    \<and> (at_mode a = Scored \<longrightarrow> es_coldkeys s \<noteq> None)
    \<and> (\<forall>uid. uid \<noteq> ov_uid r \<longrightarrow> owner_held s uid \<longrightarrow> weight_at (ep_weights p) uid = 0)
    \<and> (\<forall>uid. uid \<noteq> ov_uid r \<longrightarrow> 0 < weight_at (ep_weights p) uid \<longrightarrow> at_mode a = Scored \<and> scored_uid_agrees a s uid)"
proof -
  obtain network burn needs withheld where n: "network_plan a s network = Inr (ep_weights p, burn, r, needs, withheld)"
      "at_mode a = Scored \<Longrightarrow> list_all (\<lambda>uid. at_scores a ! uid \<le> 0 \<or> scored_uid_agrees a s uid) [0..<length (at_scores a)]"
    using plan_recipient [OF assms] by blast
  let ?e = "map (\<lambda>uid. if uid \<in> set withheld then 0 else at_scores a ! uid) [0..<length (at_scores a)]"
  note ns = network_plan_shares [OF n(1)] and nc = network_plan_chain [OF n(1)]
  have shares: "uid \<noteq> ov_uid r \<Longrightarrow> weight_at (ep_weights p) uid = 0 \<or> weight_at ?e uid \<noteq> 0"
      "uid \<noteq> ov_uid r \<Longrightarrow> weight_at (ep_weights p) uid \<le> 0 \<or> 0 < weight_at ?e uid" for uid
    using ns(4) by (simp_all add: shares_burn_def)
  have zero: "weight_at (ep_weights p) uid = 0" if "uid \<noteq> ov_uid r" "owner_held s uid" for uid
  proof (cases "at_mode a = Scored")
    case True
    then have "weight_at ?e uid = 0" using nc(5) that by (simp add: weight_at_def)
    then show ?thesis using shares(1) [OF that(1)] by simp
  qed (use nc(6) that in simp)
  have pos: "at_mode a = Scored \<and> scored_uid_agrees a s uid"
    if "uid \<noteq> ov_uid r" "0 < weight_at (ep_weights p) uid" for uid
  proof -
    have m: "at_mode a = Scored" using nc(6) [OF _ that(1)] that(2) by (cases "at_mode a = Scored") simp_all
    have "0 < weight_at ?e uid" using shares(2) [OF that(1)] that(2) by simp
    then have "uid < length (at_scores a)" "0 < at_scores a ! uid" by (simp_all add: weight_at_def split: if_splits)
    then show ?thesis using n(2) [OF m] m by (auto simp: list_all_iff not_le [symmetric])
  qed
  have "0 \<le> ov_burn_bps r \<and> ov_burn_bps r \<le> 10000
      \<and> weight_at (ep_weights p) (ov_uid r) = ddiv (of_int (ov_burn_bps r)) 10000"
    using ns(1,4) by (simp add: shares_burn_def full_burn_bps_def burn_bps_denominator_def)
  then show ?thesis using nc(1-5) zero pos by blast
qed

definition demo_attempt :: emission_attempt where
  "demo_attempt =
     \<lparr>at_mode = Scored, at_network = Some Vote_testnet, at_block = 900, at_identity = ''0xaa'', at_netuid = 30, at_uid = 2,
      at_hotkey = ''v'', at_local_hotkeys = [''o'', ''m'', ''v''], at_scores = [1/2, 1/2, 0],
      at_commitment = Some \<lparr>oc_hotkey = ''o'', oc_block = 900,
        oc_record = NDict [(NStr ''block'', NInt 800), (NStr ''info'', NDict [(NStr ''fields'', NList [NDict
          [(NStr ''Raw20'', NStr (hex (utf8 ''endure.burn_bps=5000'')))]])])]\<rparr>, at_pools = []\<rparr>"

definition demo_chain :: emission_snapshot where
  "demo_chain =
     \<lparr>es_block = 900, es_hotkeys = [''o'', ''m'', ''v''], es_owner_hotkey = Some ''o'', es_owner_coldkey = Some ''c'',
      es_coldkeys = Some [''c'', ''d'', ''c''], es_permits = [False, False, True], es_last_updates = [0, 0, 700],
      es_rate_limit = 100\<rparr>"

definition demo_recipient :: vote_recipient where
  "demo_recipient = \<lparr>ov_network = Vote_testnet, ov_hotkey = ''o'', ov_uid = 0, ov_burn_bps = 5000,
     ov_coldkey = Some ''c'', ov_withheld = [2, 0]\<rparr>"

definition demo_plan :: emission_plan where
  "demo_plan = \<lparr>ep_due = True, ep_permit = True, ep_next_block = 801, ep_weights = [1/2, 1/2, 0],
     ep_recipient = Some demo_recipient, ep_burn_bps = Some 5000, ep_commitment_owner = None, ep_groups = []\<rparr>"

lemma demo_planned: "plan_emission demo_attempt (Some demo_chain) = Inr demo_plan"
  by code_simp

lemma withheld_uids_never_earn_witness:
  "weight_at (ep_weights demo_plan) (ov_uid demo_recipient) = ddiv (of_int (ov_burn_bps demo_recipient)) 10000
     \<and> weight_at (ep_weights demo_plan) 2 = 0 \<and> owner_held demo_chain 2 \<and> ov_uid demo_recipient \<noteq> 2"
proof -
  have "owner_held demo_chain 2" "ov_uid demo_recipient \<noteq> 2"
    by (simp_all add: owner_held_def demo_chain_def demo_recipient_def)
  then show ?thesis using withheld_uids_never_earn [OF demo_planned, of demo_recipient] by (simp add: demo_plan_def)
qed

subsection \<open>The owner's commitment\<close>

definition commitment_record :: "int \<Rightarrow> string \<Rightarrow> node" where
  "commitment_record block text =
     NDict [(NStr ''block'', NInt block), (NStr ''info'', NDict [(NStr ''fields'', NList [NDict
       [(NStr (''Raw'' @ str_int (int (length (utf8 text)))), NStr (''0x'' @ hex (utf8 text)))]])])]"

lemma digits_of_int:
  assumes "0 \<le> n"
  shows "list_all is_digit (str_int n)" "int_of_digits (str_int n) = n" "str_int n \<noteq> []"
    "str_int n = ''0'' \<or> hd (str_int n) \<noteq> CHR ''0''"
proof -
  have t: "str_int n = str_nat n" using assms by (simp add: str_int_def)
  show "list_all is_digit (str_int n)" "int_of_digits (str_int n) = n" "str_int n \<noteq> []"
    using assms str_nat_digits [of n] by (auto simp: t)
  have "digit_char 0 = CHR ''0''" by code_simp
  then show "str_int n = ''0'' \<or> hd (str_int n) \<noteq> CHR ''0''"
    using str_nat_zero_head [OF assms] str_nat_eq_digit [of 0] by (auto simp: t)
qed

lemma str_int_width: "0 \<le> n \<Longrightarrow> n < 10 ^ w \<Longrightarrow> 0 < w \<Longrightarrow> length (str_int n) \<le> w"
  using str_nat_bound by (simp add: str_int_def)

lemma starts_with_append [simp]: "starts_with p (p @ s)"
  by (simp add: starts_with_def)

lemma starts_withD: "starts_with p t \<Longrightarrow> t = p @ drop (length p) t"
  by (metis append_take_drop_id starts_with_def)

lemma parse_burn_commitment:
  assumes "burn_commitment_text n = Some text"
  shows "parse_burn_rate (Some text) = n" "0 \<le> n" "n \<le> full_burn_bps" "text = burn_commitment_prefix @ str_int n"
proof -
  show n: "0 \<le> n" "n \<le> full_burn_bps" and t: "text = burn_commitment_prefix @ str_int n"
    using assms by (auto simp: burn_commitment_text_def split: if_splits)
  have "length (str_int n) \<le> 5" using n by (intro str_int_width) (simp_all add: full_burn_bps_def)
  then show "parse_burn_rate (Some text) = n"
    using digits_of_int [OF n(1)] n(2) by (simp add: parse_burn_rate_def t)
qed

lemma parse_burn_exact:
  assumes "parse_burn_rate t = n" "n < full_burn_bps"
  shows "t = burn_commitment_text n"
proof -
  obtain u where u: "t = Some u" using assms by (auto simp: parse_burn_rate_def split: option.splits)
  define d where "d = drop (length burn_commitment_prefix) u"
  have d: "starts_with burn_commitment_prefix u" "d \<noteq> []" "list_all is_digit d" "d = ''0'' \<or> hd d \<noteq> CHR ''0''"
      "int_of_digits d = n"
    using assms by (auto simp: u parse_burn_rate_def d_def [symmetric] Let_def split: if_splits)
  have "str_int n = d"
  proof (cases "d = ''0''")
    case True
    have "int_of_digits ''0'' = 0" "str_int 0 = ''0''" by code_simp+
    then show ?thesis using d(5) True by simp
  next
    case False
    then show ?thesis using d str_int_of_digits [of d] by (simp add: is_decimal_def)
  qed
  moreover have "u = burn_commitment_prefix @ d" unfolding d_def by (rule starts_withD [OF d(1)])
  moreover have "0 \<le> n" using d(3,5) int_of_digits_nonneg by blast
  ultimately show ?thesis using u assms(2) by (simp add: burn_commitment_text_def)
qed

lemma length_utf8: "length (utf8 s) \<le> 2 * length s"
proof (induction s)
  case (Cons c s)
  have "length (utf8_char c) \<le> 2" by (cases c) (auto simp: Let_def)
  with Cons show ?case by (simp add: utf8_def)
qed (simp add: utf8_def)

lemma commitment_text_record:
  assumes "length body \<le> 400"
  shows "commitment_text (commitment_record block body) = Some body"
proof -
  let ?n = "int (length (utf8 body))"
  have "length (utf8 body) \<le> 800" using length_utf8 [of body] assms by linarith
  then have "length (str_int ?n) \<le> 3" by (intro str_int_width) simp_all
  moreover have "1 \<le> length (str_int ?n)" using digits_of_int(3) [of ?n] by (simp add: Suc_le_eq)
  ultimately have "raw_field_length (''Raw'' @ str_int ?n) = Some (length (utf8 body))"
    using digits_of_int [of ?n] starts_with_append [of "''Raw''" "str_int ?n"]
    by (simp add: raw_field_length_def Let_def)
  moreover have "fromhex (remove_prefix ''0x'' (''0x'' @ hex (utf8 body))) = Some (utf8 body)"
    using starts_with_append [of "''0x''" "hex (utf8 body)"] by (simp add: remove_prefix_def)
  ultimately show ?thesis
    by (simp add: commitment_text_def commitment_record_def node_get_def field_text_of_def)
qed

text \<open>
  C33: A burn rate survives its commitment: the text that an owner publishes for a rate, stored on
  chain as one raw field and read back at the snapshot block, sets exactly this rate.  And a rate
  below the full burn is never read from anything else: the published text is the only one.
\<close>

theorem burn_rate_round_trip:
  assumes "burn_commitment_text n = Some body" "es_owner_hotkey s = Some hotkey" "recorded \<le> es_block s"
  shows "observed_burn_rate (Some \<lparr>oc_hotkey = hotkey, oc_block = es_block s, oc_record = commitment_record recorded body\<rparr>) s
      = Inr n \<and> (n = 10000 \<or> {t. parse_burn_rate t = n} = {Some body})"
proof -
  note t = parse_burn_commitment [OF assms(1)]
  have "length (str_int n) \<le> 5" using t(2,3) by (intro str_int_width) (simp_all add: full_burn_bps_def)
  moreover have "length burn_commitment_prefix = 16" by (simp add: burn_commitment_prefix_def)
  ultimately have "commitment_text (commitment_record recorded body) = Some body"
    by (intro commitment_text_record) (simp add: t(4))
  moreover have "node_get ''block'' (commitment_record recorded body) = NInt recorded"
    by (simp add: node_get_def commitment_record_def)
  moreover have "parse_burn_rate u = n \<longleftrightarrow> u = Some body" if "n \<noteq> 10000" for u
    using parse_burn_exact [of u n] t(1,3) that assms(1) by (auto simp: full_burn_bps_def)
  ultimately show ?thesis
    using assms(2,3) t(1) by (auto simp: observed_burn_rate_def)
qed

lemma burn_rate_round_trip_witness:
  "observed_burn_rate (Some \<lparr>oc_hotkey = ''o'', oc_block = es_block demo_chain,
       oc_record = commitment_record 800 ''endure.burn_bps=2500''\<rparr>) demo_chain = Inr 2500
     \<and> (2500 = (10000 :: int) \<or> {t. parse_burn_rate t = 2500} = {Some ''endure.burn_bps=2500''})"
proof (rule burn_rate_round_trip)
  show "burn_commitment_text 2500 = Some ''endure.burn_bps=2500''" by code_simp
qed (simp_all add: demo_chain_def)

end
