(* ===== verification/Eligibility.thy ===== *)
theory Eligibility
  imports Emission_Policy
begin

text \<open>
  The confirmation of deregistrations (\<open>endure/scoring/eligibility.py\<close>): who owes observations and
  whose averages are archived, counted in resync generations of the metagraph.  Sets of hotkeys are
  lists; a Python set's order is never observed, because \<open>confirmed\<close> sorts.
\<close>

record tracker =
  tk_missing :: "(string \<times> int) list"
  tk_registered :: "string list"

definition new_tracker :: tracker where
  "new_tracker = \<lparr>tk_missing = [], tk_registered = []\<rparr>"

definition tracker_seed :: "string list \<Rightarrow> string list \<Rightarrow> tracker" where
  "tracker_seed registered persisted = \<lparr>tk_missing = [], tk_registered = remdups (registered @ persisted)\<rparr>"

definition missed :: "(string \<times> int) list \<Rightarrow> string \<Rightarrow> int" where
  "missed counts h = (case map_of counts h of None \<Rightarrow> 0 | Some n \<Rightarrow> n)"

definition tracker_advance :: "string list \<Rightarrow> tracker \<Rightarrow> tracker" where
  "tracker_advance current t =
     (let absent = filter (\<lambda>h. h \<notin> set current) (remdups (map fst (tk_missing t) @ tk_registered t));
          counted = fold (\<lambda>h counts. dict_set h (missed counts h + 1) counts) absent (tk_missing t)
      in \<lparr>tk_missing = filter (\<lambda>(h, _). h \<notin> set current) counted, tk_registered = remdups current\<rparr>)"

definition tracker_confirmed :: "tracker \<Rightarrow> string list" where
  "tracker_confirmed t =
     sort (map fst (filter (\<lambda>(_, n). deregistration_confirmation_syncs \<le> n) (tk_missing t)))"

definition forget_settled :: "string list \<Rightarrow> (string \<Rightarrow> bool) \<Rightarrow> tracker \<Rightarrow> tracker" where
  "forget_settled active has_unfinished t =
     t\<lparr>tk_missing := fold (\<lambda>h counts. if h \<notin> set active \<and> \<not> has_unfinished h
         then filter (\<lambda>(k, _). k \<noteq> h) counts else counts) (tracker_confirmed t) (tk_missing t)\<rparr>"

record scoring_members =
  sm_expected :: "string list"
  sm_archive :: "string list"

definition miner_scoring_set :: "string list \<Rightarrow> tracker \<Rightarrow> scoring_members" where
  "miner_scoring_set registered t = \<lparr>sm_expected = registered, sm_archive = tracker_confirmed t\<rparr>"

subsection \<open>Counting\<close>

lemma map_of_bump:
  assumes "distinct hs"
  shows "map_of (fold (\<lambda>h counts. dict_set h (missed counts h + 1) counts) hs counts) k =
     (if k \<in> set hs then Some (missed counts k + 1) else map_of counts k)"
  using assms
  by (induction hs arbitrary: counts) (auto simp: missed_def)

lemma map_of_keep: "map_of (filter (\<lambda>(h, _). P h) m) k = (if P k then map_of m k else None)"
  by (induction m) auto

lemma distinct_bump:
  "distinct (map fst counts) \<Longrightarrow>
     distinct (map fst (fold (\<lambda>h counts. dict_set h (missed counts h + 1) counts) hs counts))"
  by (induction hs arbitrary: counts) (simp_all add: distinct_dict_set)

lemma advance_missing:
  "map_of (tk_missing (tracker_advance current t)) h =
     (if h \<notin> set current \<and> (h \<in> fst ` set (tk_missing t) \<or> h \<in> set (tk_registered t))
      then Some (missed (tk_missing t) h + 1) else None)"
proof -
  have "map_of (tk_missing t) h = None" if "h \<notin> fst ` set (tk_missing t)"
    using that by (simp add: map_of_eq_None_iff)
  then show ?thesis
    by (auto simp: tracker_advance_def Let_def map_of_keep map_of_bump)
qed

lemma advance_distinct:
  assumes "distinct (map fst (tk_missing t))"
  shows "distinct (map fst (tk_missing (tracker_advance current t)))"
  using assms by (simp add: tracker_advance_def Let_def distinct_map_filter distinct_bump case_prod_unfold)

definition run_tracker :: "string list \<Rightarrow> string list list \<Rightarrow> tracker" where
  "run_tracker baseline generations = fold tracker_advance generations (tracker_seed baseline [])"

definition absences :: "string list list \<Rightarrow> string \<Rightarrow> nat" where
  "absences generations h = length (takeWhile (\<lambda>g. h \<notin> set g) (rev generations))"

lemma seed_both: "tracker_seed registered persisted = tracker_seed (registered @ persisted) []"
  by (simp add: tracker_seed_def)

lemma absences_snoc:
  "absences (gs @ [g]) h = (if h \<in> set g then 0 else Suc (absences gs h))"
  by (simp add: absences_def)

lemma absences_zero:
  "absences gs h = 0 \<Longrightarrow> gs \<noteq> [] \<Longrightarrow> h \<in> set (last gs)"
  by (cases gs rule: rev_cases) (auto simp: absences_snoc split: if_splits)

lemma run_tracker_state:
  "distinct (map fst (tk_missing (run_tracker b gs)))
   \<and> set (tk_registered (run_tracker b gs)) = set (if gs = [] then b else last gs)
   \<and> (\<forall>h. map_of (tk_missing (run_tracker b gs)) h =
        (if h \<in> set b \<union> \<Union> (set ` set gs) \<and> 0 < absences gs h then Some (int (absences gs h)) else None))"
proof (induction gs rule: rev_induct)
  case Nil
  show ?case by (simp add: run_tracker_def tracker_seed_def absences_def)
next
  case (snoc g gs)
  let ?t = "run_tracker b gs" and ?seen = "set b \<union> \<Union> (set ` set gs)"
  have t: "run_tracker b (gs @ [g]) = tracker_advance g ?t" by (simp add: run_tracker_def)
  have look: "map_of (tk_missing ?t) h = (if h \<in> ?seen \<and> 0 < absences gs h then Some (int (absences gs h)) else None)" for h
    using snoc.IH by blast
  have keys: "h \<in> fst ` set (tk_missing ?t) \<longleftrightarrow> h \<in> ?seen \<and> 0 < absences gs h" for h
    using look [of h] map_of_eq_None_iff [of "tk_missing ?t" h] by (auto split: if_splits)
  have reg: "set (tk_registered ?t) = set (if gs = [] then b else last gs)" using snoc.IH by blast
  have known: "h \<in> fst ` set (tk_missing ?t) \<or> h \<in> set (tk_registered ?t) \<longleftrightarrow> h \<in> ?seen" for h
  proof (cases "gs = []")
    case True
    then show ?thesis by (simp add: run_tracker_def tracker_seed_def)
  next
    case False
    then have "set (last gs) \<subseteq> ?seen" by (meson UN_upper last_in_set le_supI2)
    then show ?thesis using False absences_zero [of gs h] by (auto simp: keys reg)
  qed
  have "map_of (tk_missing (tracker_advance g ?t)) h =
      (if h \<in> set b \<union> \<Union> (set ` set (gs @ [g])) \<and> 0 < absences (gs @ [g]) h
       then Some (int (absences (gs @ [g]) h)) else None)" for h
    using known [of h] look [of h]
    by (auto simp: advance_missing absences_snoc missed_def)
  moreover have "set (tk_registered (tracker_advance g ?t)) = set g" by (simp add: tracker_advance_def Let_def)
  ultimately show ?case using snoc.IH advance_distinct unfolding t by auto
qed

text \<open>
  C34: After any sequence of resync generations the tracker confirms as deregistered exactly the
  hotkeys that it has ever known, from the seed or a generation, and that are absent from the last
  two generations, in ascending order: one stale snapshot never archives a miner, and a hotkey that
  vanished before a restart is still archived.
\<close>

theorem confirmed_after_two_absences:
  "tracker_confirmed (fold tracker_advance gs (tracker_seed registered persisted)) =
     sorted_list_of_set {h \<in> set registered \<union> set persisted \<union> \<Union> (set ` set gs). 2 \<le> absences gs h}"
proof -
  let ?b = "registered @ persisted"
  let ?t = "run_tracker ?b gs"
  have d: "distinct (map fst (tk_missing ?t))" using run_tracker_state [of ?b gs] by blast
  have look: "map_of (tk_missing ?t) h =
      (if h \<in> set ?b \<union> \<Union> (set ` set gs) \<and> 0 < absences gs h then Some (int (absences gs h)) else None)" for h
    using run_tracker_state [of ?b gs] by blast
  have "h \<in> set (tracker_confirmed ?t) \<longleftrightarrow> h \<in> set ?b \<union> \<Union> (set ` set gs) \<and> 2 \<le> absences gs h" for h
  proof -
    have "h \<in> set (tracker_confirmed ?t) \<longleftrightarrow> (\<exists>n. map_of (tk_missing ?t) h = Some n \<and> 2 \<le> n)"
      using d by (force simp: tracker_confirmed_def deregistration_confirmation_syncs_def)
    then show ?thesis by (auto simp: look)
  qed
  then have set: "set (tracker_confirmed ?t) = {h \<in> set registered \<union> set persisted \<union> \<Union> (set ` set gs). 2 \<le> absences gs h}"
    by auto
  have "distinct (tracker_confirmed ?t)" "sorted (tracker_confirmed ?t)"
    using d by (simp_all add: tracker_confirmed_def distinct_map_filter)
  then have "tracker_confirmed ?t = sorted_list_of_set (set (tracker_confirmed ?t))"
    by (simp add: sorted_list_of_set_sort_remdups sorted_sort_id distinct_remdups_id)
  moreover have "fold tracker_advance gs (tracker_seed registered persisted) = ?t"
    by (simp add: run_tracker_def seed_both [of registered persisted])
  ultimately show ?thesis by (simp only: set)
qed

end
