(* ===== verification/Cr4_Schedule.thy ===== *)
theory Cr4_Schedule
  imports Prelude
begin

text \<open>
  The block by which a CR4 commitment must be revealed (\<open>endure/base/cr4_schedule.py\<close>): a bounded
  search over the subnet's epochs, as its chain would run them.
\<close>

definition commit_inclusion_block_offset :: int where
  "commit_inclusion_block_offset = 1"

definition max_reveal_period_epochs :: int where
  "max_reveal_period_epochs = 100"

definition max_tempo_blocks :: int where
  "max_tempo_blocks = 50400"

datatype schedule_error = Not_positive | Search_exceeded | Negative_margin | Period_too_long

record epoch_schedule =
  ec_last :: int
  ec_pending :: int
  ec_index :: int
  ec_tempo :: int
  ec_since :: int
  ec_current :: int

definition runs_epoch :: "epoch_schedule \<Rightarrow> int \<Rightarrow> bool" where
  "runs_epoch s block \<longleftrightarrow> 0 < ec_pending s \<and> ec_pending s \<le> block
     \<or> ec_since s > max_tempo_blocks \<or> block - ec_last s \<ge> ec_tempo s"

definition epoch_before_coinbase :: "epoch_schedule \<Rightarrow> int \<Rightarrow> int" where
  "epoch_before_coinbase s block = ec_index s + (if runs_epoch s block then 1 else 0)"

definition advance_epoch :: "epoch_schedule \<Rightarrow> int \<Rightarrow> epoch_schedule" where
  "advance_epoch s block =
     (let elapsed = block - ec_current s;
          advanced = s\<lparr>ec_since := ec_since s + elapsed, ec_current := block\<rparr>
      in advanced\<lparr>ec_last := block, ec_pending := 0, ec_index := ec_index advanced + 1, ec_since := 0\<rparr>)"

definition next_epoch_block :: "epoch_schedule \<Rightarrow> int" where
  "next_epoch_block s =
     (let candidates = [ec_last s + ec_tempo s, ec_current s + max 1 (max_tempo_blocks - ec_since s + 1)]
            @ (if 0 < ec_pending s then [ec_pending s] else [])
      in max (ec_current s + 1) (Min (set candidates)))"

text \<open>\<open>for _ in range(n)\<close>; the loop ends in the error.\<close>

fun search_epoch :: "nat \<Rightarrow> int \<Rightarrow> epoch_schedule \<Rightarrow> schedule_error + int" where
  "search_epoch 0 target s = Inl Search_exceeded"
| "search_epoch (Suc n) target s =
     (let block = next_epoch_block s
      in if ec_index s + 1 = target \<and> runs_epoch s block then Inr block
         else
           let s' = advance_epoch s block
           in if ec_index s' = target then Inr (block + 1) else search_epoch n target s')"

definition epoch_start_after_commit :: "epoch_schedule \<Rightarrow> int \<Rightarrow> schedule_error + int" where
  "epoch_start_after_commit s epochs =
     (if ec_tempo s \<le> 0 \<or> epochs \<le> 0 then Inl Not_positive
      else search_epoch (nat (epochs + 1))
             (epoch_before_coinbase s (ec_current s + commit_inclusion_block_offset) + epochs) s)"

definition cr4_reveal_deadline_block :: "epoch_schedule \<Rightarrow> int \<Rightarrow> int \<Rightarrow> schedule_error + int" where
  "cr4_reveal_deadline_block s period margin =
     (if margin < 0 then Inl Negative_margin
      else if max_reveal_period_epochs < period then Inl Period_too_long
      else ebind (epoch_start_after_commit s (period + 1)) (\<lambda>block. Inr (block + margin)))"

subsection \<open>The search ends in time\<close>

lemma next_epoch_bounds:
  assumes "0 < ec_tempo s" "ec_last s \<le> ec_current s"
  shows "ec_current s < next_epoch_block s" "next_epoch_block s \<le> ec_current s + ec_tempo s"
proof -
  have "Min (set ([ec_last s + ec_tempo s, ec_current s + max 1 (max_tempo_blocks - ec_since s + 1)]
            @ (if 0 < ec_pending s then [ec_pending s] else []))) \<le> ec_last s + ec_tempo s"
    by (rule Min_le) auto
  then show "next_epoch_block s \<le> ec_current s + ec_tempo s"
    using assms unfolding next_epoch_block_def Let_def by linarith
  show "ec_current s < next_epoch_block s" by (simp add: next_epoch_block_def Let_def)
qed

lemma advance_epoch_simps [simp]:
  "ec_index (advance_epoch s block) = ec_index s + 1" "ec_current (advance_epoch s block) = block"
  "ec_last (advance_epoch s block) = block" "ec_tempo (advance_epoch s block) = ec_tempo s"
  by (simp_all add: advance_epoch_def Let_def)

lemma search_epoch_ends:
  assumes "0 < ec_tempo s" "ec_last s \<le> ec_current s" "ec_index s < target" "target \<le> ec_index s + int n"
  shows "\<exists>block. search_epoch n target s = Inr block \<and> ec_current s < block
     \<and> block \<le> ec_current s + (target - ec_index s) * ec_tempo s + 1"
  using assms
proof (induction n arbitrary: s)
  case (Suc n)
  let ?b = "next_epoch_block s"
  note b = next_epoch_bounds [OF Suc.prems(1,2)]
  have one: "ec_tempo s \<le> (target - ec_index s) * ec_tempo s"
    using mult_right_mono [of 1 "target - ec_index s" "ec_tempo s"] Suc.prems(1,3) by simp
  show ?case
  proof (cases "ec_index s + 1 = target")
    case True
    then show ?thesis using b one by (auto simp: Let_def)
  next
    case False
    have "\<exists>block. search_epoch n target (advance_epoch s ?b) = Inr block \<and> ?b < block
       \<and> block \<le> ?b + (target - (ec_index s + 1)) * ec_tempo s + 1"
      using Suc.IH [of "advance_epoch s ?b"] Suc.prems False by simp
    moreover have "(target - (ec_index s + 1)) * ec_tempo s = (target - ec_index s) * ec_tempo s - ec_tempo s"
      by (simp add: algebra_simps)
    ultimately show ?thesis using b False by (auto simp: Let_def)
  qed
qed simp

text \<open>
  C30: For every schedule with a positive tempo and every reveal period up to the evidence bound, the
  search for the reveal deadline never exceeds its bound on the passes: it returns a block after the
  current one, at most one tempo per epoch of the period and two more, one block and the finality
  margin later.
\<close>

theorem reveal_deadline_is_found:
  assumes "0 < ec_tempo s" "ec_last s \<le> ec_current s" "0 \<le> period" "period \<le> 100" "0 \<le> margin"
  shows "\<exists>block. cr4_reveal_deadline_block s period margin = Inr block \<and> ec_current s + margin < block
     \<and> block \<le> ec_current s + (period + 2) * ec_tempo s + 1 + margin"
proof -
  let ?target = "epoch_before_coinbase s (ec_current s + commit_inclusion_block_offset) + (period + 1)"
  have t: "ec_index s < ?target" "?target \<le> ec_index s + int (nat (period + 1 + 1))" "?target - ec_index s \<le> period + 2"
    using assms(3) by (auto simp: epoch_before_coinbase_def)
  obtain block where block: "search_epoch (nat (period + 1 + 1)) ?target s = Inr block" "ec_current s < block"
      "block \<le> ec_current s + (?target - ec_index s) * ec_tempo s + 1"
    using search_epoch_ends [OF assms(1,2) t(1,2)] by blast
  have "(?target - ec_index s) * ec_tempo s \<le> (period + 2) * ec_tempo s"
    using t(3) assms(1) by (intro mult_right_mono) auto
  with block(3) have "block \<le> ec_current s + (period + 2) * ec_tempo s + 1" by linarith
  with block(1,2) show ?thesis
    using assms by (auto simp: cr4_reveal_deadline_block_def epoch_start_after_commit_def max_reveal_period_epochs_def)
qed

lemma reveal_deadline_is_found_witness:
  "\<exists>block. cr4_reveal_deadline_block
       \<lparr>ec_last = 1000, ec_pending = 0, ec_index = 7, ec_tempo = 360, ec_since = 40, ec_current = 1040\<rparr> 1 10 = Inr block
     \<and> 1050 < block \<and> block \<le> 1040 + 3 * 360 + 11"
  using reveal_deadline_is_found
    [of "\<lparr>ec_last = 1000, ec_pending = 0, ec_index = 7, ec_tempo = 360, ec_since = 40, ec_current = 1040\<rparr>" 1 10]
  by simp

end
