(* ===== verification/Vote_Window.thy ===== *)
theory Vote_Window
  imports Risk_Scoring Sampling Emission_Policy
begin

text \<open>
  The payout vote of an orchestrator (second half of \<open>endure/scoring/assessment_orchestrator.py\<close>):
  the window of revealed rounds whose identical forecasts are pooled, the tie seed the finalized
  chain gives it, the two caches of the process, and the weights.  The chain is read through
  callables with effects that may fail.  Whatever the caches hold and wherever reads failed, a
  vote's pools are those of its window under the seed of the window's newest round.
\<close>

subsection \<open>The tie seed of a round\<close>

record 'w chain_reads =
  cr_finalized :: "('w, int) archive_read"
  cr_timestamp :: "int \<Rightarrow> ('w, int) archive_read"
  cr_hash :: "int \<Rightarrow> ('w, string) archive_read"

definition tie_seed_read_failures :: "archive_failure list" where
  "tie_seed_read_failures =
     archive_fetch_failures @ [Market_data_error, Market_data_unavailable, Deadline_error]"

definition chain_tie_seed :: "'w chain_reads \<Rightarrow> datetime \<Rightarrow> ('w, string option) archive_read" where
  "chain_tie_seed reads close =
     (let target = utc_timestamp_milliseconds (close + tie_seed_delay)
      in wbind (cr_finalized reads) (\<lambda>finalized.
         wbind (cr_timestamp reads finalized) (\<lambda>head w.
           if head < target then (w, Inr None)
           else wbind (first_block_at_or_after target finalized (cr_timestamp reads)) (\<lambda>block.
                wbind (cr_hash reads block) (\<lambda>hash w. (w, Inr (Some (normalize_genesis_hash hash))))) w)))"

subsection \<open>The state of an orchestrator\<close>

record vote_state =
  vs_groups :: "(string \<times> groups) list"
  vs_pools :: "string list list"
  vs_seeds :: "(string \<times> string) list"
  vs_last_window :: "(string list \<times> string) option"

definition new_vote_state :: vote_state where
  "new_vote_state = \<lparr>vs_groups = [], vs_pools = [], vs_seeds = [], vs_last_window = None\<rparr>"

datatype vote_error = Tie_seed_unavailable | Seed_read_failed archive_failure

text \<open>The reads behind one seed, or the round id without a chain.\<close>

type_synonym 'w tie_seed_reads = "('w, 'w chain_reads) archive_read option"

type_synonym ('w, 'r) vote_call = "vote_state \<Rightarrow> 'w \<Rightarrow> vote_state \<times> 'w \<times> (vote_error + 'r)"

definition tie_seed ::
  "'w tie_seed_reads \<Rightarrow> string \<Rightarrow> 'a db_scheme \<Rightarrow> string \<Rightarrow> ('w, string option) vote_call" where
  "tie_seed start schema_id d round_id st w =
     (case start of
        None \<Rightarrow> (st, w, Inr (Some round_id))
      | Some begin_reads \<Rightarrow>
          (case map_of (vs_seeds st) round_id of
             Some seed \<Rightarrow> (st, w, Inr (Some seed))
           | None \<Rightarrow>
               (case round_windows d (round_id, schema_id) of
                  None \<Rightarrow> (st, w, Inl Tie_seed_unavailable)
                | Some windows \<Rightarrow>
                    (case wbind begin_reads (\<lambda>reads. chain_tie_seed reads (reveal_close windows)) w of
                       (w', Inl e) \<Rightarrow>
                         if e \<in> set tie_seed_read_failures then (st, w', Inr None)
                         else (st, w', Inl (Seed_read_failed e))
                     | (w', Inr None) \<Rightarrow> (st, w', Inr None)
                     | (w', Inr (Some seed)) \<Rightarrow>
                         (st\<lparr>vs_seeds := dict_set round_id seed (vs_seeds st)\<rparr>, w', Inr (Some seed))))))"

definition seeded :: "string list \<Rightarrow> string \<Rightarrow> vote_state \<Rightarrow> vote_state" where
  "seeded window seed st = st\<lparr>vs_last_window := Some (window, seed)\<rparr>"

definition seeded_window ::
  "'w tie_seed_reads \<Rightarrow> string \<Rightarrow> 'a db_scheme \<Rightarrow> ('w, string list \<times> string) vote_call" where
  "seeded_window start schema_id d st w =
     (let rounds = revealed_round_ids d schema_id (pool_window_rounds + 1);
          st = st\<lparr>vs_seeds := filter (\<lambda>s. fst s \<in> set rounds) (vs_seeds st)\<rparr>
      in case rounds of
           [] \<Rightarrow> (st, w, Inr ([], ''''))
         | newest_round # earlier \<Rightarrow>
             (case tie_seed start schema_id d newest_round st w of
                (st, w, Inl e) \<Rightarrow> (st, w, Inl e)
              | (st, w, Inr (Some seed)) \<Rightarrow>
                  (let window = take pool_window_rounds rounds
                   in (seeded window seed st, w, Inr (window, seed)))
              | (st, w, Inr None) \<Rightarrow>
                  (case earlier of
                     [] \<Rightarrow> (st, w, Inr ([], ''''))
                   | second_round # _ \<Rightarrow>
                       (case tie_seed start schema_id d second_round st w of
                          (st, w, Inl e) \<Rightarrow> (st, w, Inl e)
                        | (st, w, Inr (Some seed)) \<Rightarrow>
                            (let window = take pool_window_rounds earlier
                             in (seeded window seed st, w, Inr (window, seed)))
                        | (st, w, Inr None) \<Rightarrow>
                            (case vs_last_window st of
                               Some last_window \<Rightarrow> (st, w, Inr last_window)
                             | None \<Rightarrow> (st, w, Inl Tie_seed_unavailable))))))"

definition vote_pools ::
  "(bytes \<Rightarrow> bytes) \<Rightarrow> 'w tie_seed_reads \<Rightarrow> ('o, 'a db_scheme) scoring_config \<Rightarrow> 'a db_scheme
     \<Rightarrow> string set option \<Rightarrow> ('w, string list list) vote_call" where
  "vote_pools sha256 start cfg d scored st w =
     (case seeded_window start (sc_schema_id cfg) d st w of
        (st, w, Inl e) \<Rightarrow> (st, w, Inl e)
      | (st, w, Inr (rounds, seed)) \<Rightarrow>
          (let known = vs_groups st;
               window = map (\<lambda>r. (r, case map_of known r of
                   Some groups \<Rightarrow> groups
                 | None \<Rightarrow> identical_forecast_groups (sc_accepted_values cfg d r))) rounds
           in (st\<lparr>vs_groups := window\<rparr>, w,
               Inr (tie_ordered sha256 (duplicate_pools (map snd window) scored) seed))))"

definition vote_weights ::
  "(bytes \<Rightarrow> bytes) \<Rightarrow> 'w tie_seed_reads \<Rightarrow> ('o, 'a score_db_scheme) scoring_config
     \<Rightarrow> string list option \<Rightarrow> 'a score_db_scheme \<Rightarrow> ('w, (string \<times> rat) list) vote_call" where
  "vote_weights sha256 start cfg registered d st w =
     (let blended = blended_scores cfg d;
          blended = (case registered of None \<Rightarrow> blended
            | Some hotkeys \<Rightarrow> filter (\<lambda>(hotkey, _). hotkey \<in> set hotkeys) blended);
          scored = fst ` set (filter (\<lambda>(_, score). 0 < score) blended)
      in case vote_pools sha256 start cfg d (Some scored) st w of
           (st, w, Inl e) \<Rightarrow> (st, w, Inl e)
         | (st, w, Inr pools) \<Rightarrow>
             (st\<lparr>vs_pools := pools\<rparr>, w,
              Inr (normalize_weights blended weight_sharpening_gamma pools)))"

definition current_pools :: "vote_state \<Rightarrow> string list list" where
  "current_pools st = vs_pools st"

definition current_pool_sizes :: "vote_state \<Rightarrow> (string \<times> nat) list" where
  "current_pool_sizes st = pool_sizes_of (vs_pools st)"

subsection \<open>A chain, as its reads see it\<close>

text \<open>Blocks never change once finalized, and a read that answers tells the truth.\<close>

definition honest_reads :: "(int \<Rightarrow> int) \<Rightarrow> (int \<Rightarrow> string) \<Rightarrow> 'w chain_reads \<Rightarrow> bool" where
  "honest_reads f hash reads \<longleftrightarrow>
     (\<forall>w w' b. cr_finalized reads w = (w', Inr b) \<longrightarrow> 0 \<le> b)
     \<and> (\<forall>b w w' t. cr_timestamp reads b w = (w', Inr t) \<longrightarrow> t = f b)
     \<and> (\<forall>b w w' h. cr_hash reads b w = (w', Inr h) \<longrightarrow> h = hash b)"

definition honest_chain :: "(int \<Rightarrow> int) \<Rightarrow> (int \<Rightarrow> string) \<Rightarrow> 'w tie_seed_reads \<Rightarrow> bool" where
  "honest_chain f hash start \<longleftrightarrow>
     (\<forall>j k. 0 \<le> j \<and> j < k \<longrightarrow> f j < f k)
     \<and> (\<exists>begin_reads. start = Some begin_reads
          \<and> (\<forall>w w' reads. begin_reads w = (w', Inr reads) \<longrightarrow> honest_reads f hash reads))"

definition chain_seed :: "(int \<Rightarrow> int) \<Rightarrow> (int \<Rightarrow> string) \<Rightarrow> datetime \<Rightarrow> string \<Rightarrow> bool" where
  "chain_seed f hash close seed \<longleftrightarrow>
     (\<exists>b \<ge> 0. utc_timestamp_milliseconds (close + tie_seed_delay) \<le> f b
        \<and> (\<forall>k. 0 \<le> k \<and> k < b \<longrightarrow> f k < utc_timestamp_milliseconds (close + tie_seed_delay))
        \<and> seed = normalize_genesis_hash (hash b))"

lemma chain_seed_unique: "chain_seed f hash close s \<Longrightarrow> chain_seed f hash close s' \<Longrightarrow> s = s'"
  unfolding chain_seed_def by (metis leD linorder_neqE_linordered_idom)

lemma wbind_Inr:
  "wbind m f w = (w', Inr r) \<longleftrightarrow> (\<exists>w1 a. m w = (w1, Inr a) \<and> f a w1 = (w', Inr r))"
  by (auto simp: wbind_def split: prod.splits sum.splits)

text \<open>A bisection whose lookups may fail: if it answers, it found the boundary.\<close>

lemma bisect_honest:
  assumes "bisect_blocks past ts lower upper w = (w', Inr b)" "lower \<le> upper"
    and "\<And>k w w' t. ts k w = (w', Inr t) \<Longrightarrow> t = f k"
    and "\<And>j k. lower \<le> j \<Longrightarrow> j \<le> k \<Longrightarrow> past (f j) \<Longrightarrow> past (f k)" "past (f upper)"
  shows "lower \<le> b \<and> b \<le> upper \<and> past (f b) \<and> (\<forall>k. lower \<le> k \<and> k < b \<longrightarrow> \<not> past (f k))"
  using assms
proof (induction past ts lower upper w rule: bisect_blocks.induct)
  case (1 past ts lower upper w)
  show ?case
  proof (cases "lower < upper")
    case True
    define m where "m = lower + (upper - lower) div 2"
    have m: "lower \<le> m" "m < upper" unfolding m_def using True by linarith+
    have eq: "bisect_blocks past ts lower upper w = (case ts m w of (w1, Inl e) \<Rightarrow> (w1, Inl e)
        | (w1, Inr t) \<Rightarrow> if past t then bisect_blocks past ts lower m w1
                        else bisect_blocks past ts (m + 1) upper w1)"
      using True by (subst bisect_blocks.simps) (simp add: m_def [symmetric] Let_def)
    obtain w1 t where at: "ts m w = (w1, Inr t)"
      and rest: "(if past t then bisect_blocks past ts lower m w1 else bisect_blocks past ts (m + 1) upper w1)
        = (w', Inr b)"
      using "1.prems"(1) unfolding eq by (auto split: prod.splits sum.splits)
    have t: "t = f m" by (rule "1.prems"(3) [OF at])
    show ?thesis
    proof (cases "past t")
      case p: True
      have "lower \<le> b \<and> b \<le> m \<and> past (f b) \<and> (\<forall>k. lower \<le> k \<and> k < b \<longrightarrow> \<not> past (f k))"
      proof (rule "1.IH"(1) [OF True m_def at [symmetric] refl p])
        show "bisect_blocks past ts lower m w1 = (w', Inr b)" using rest p by simp
        show "past (f m)" using p t by simp
      qed (fact m(1), rule "1.prems"(3), assumption, rule "1.prems"(4))
      then show ?thesis using m(2) by auto
    next
      case p: False
      have "m + 1 \<le> b \<and> b \<le> upper \<and> past (f b) \<and> (\<forall>k. m + 1 \<le> k \<and> k < b \<longrightarrow> \<not> past (f k))"
      proof (rule "1.IH"(2) [OF True m_def at [symmetric] refl p])
        show "bisect_blocks past ts (m + 1) upper w1 = (w', Inr b)" using rest p by simp
        show "past (f k)" if "m + 1 \<le> j" "j \<le> k" "past (f j)" for j k
          by (rule "1.prems"(4) [of j]) (use that m in simp_all)
      qed (use m(2) in simp, rule "1.prems"(3), assumption, rule "1.prems"(5))
      moreover have "\<not> past (f k)" if "lower \<le> k" "k \<le> m" for k
        using "1.prems"(4) [of k m] that p t by blast
      ultimately show ?thesis using m(1) by (meson add1_zle_eq not_le order.trans less_imp_le)
    qed
  next
    case False
    then have "bisect_blocks past ts lower upper w = (w, Inr lower)" by (subst bisect_blocks.simps) simp
    then have "b = upper" "lower = upper" using False "1.prems"(1,2) by simp_all
    then show ?thesis using "1.prems"(5) by auto
  qed
qed

lemma chain_tie_seed_honest:
  assumes "chain_tie_seed reads close w = (w', Inr (Some seed))"
    and "honest_reads f hash reads" "\<And>j k. 0 \<le> j \<Longrightarrow> j < k \<Longrightarrow> f j < f k"
  shows "chain_seed f hash close seed"
proof -
  define target where "target = utc_timestamp_milliseconds (close + tie_seed_delay)"
  have ts: "t = f k" if "cr_timestamp reads k w = (w', Inr t)" for k w w' t
    using assms(2) that by (auto simp: honest_reads_def)
  have mono: "f j \<le> f k" if "0 \<le> j" "j \<le> k" for j k
    using assms(3) [of j k] that by (cases "j = k") auto
  from assms(1) obtain w1 finalized w2 head w3 b w4 h where r:
    "cr_finalized reads w = (w1, Inr finalized)" "cr_timestamp reads finalized w1 = (w2, Inr head)"
    "target \<le> head" "first_block_at_or_after target finalized (cr_timestamp reads) w2 = (w3, Inr b)"
    "cr_hash reads b w3 = (w4, Inr h)" "seed = normalize_genesis_hash h"
    by (auto simp: chain_tie_seed_def Let_def wbind_Inr target_def [symmetric] not_less split: if_splits)
  have fin: "0 \<le> finalized" and h: "h = hash b" using assms(2) r(1,5) by (auto simp: honest_reads_def)
  have "0 \<le> b \<and> target \<le> f b \<and> (\<forall>k. 0 \<le> k \<and> k < b \<longrightarrow> f k < target)"
  proof -
    obtain w5 t where t: "cr_timestamp reads finalized w2 = (w5, Inr t)"
      "(if t < target then (w5, Inl Market_data_unavailable)
        else if t = target then (w5, Inr finalized)
        else bisect_blocks (\<lambda>t. target \<le> t) (cr_timestamp reads) 0 finalized w5) = (w3, Inr b)"
      using r(4) by (auto simp: first_block_at_or_after_def wbind_Inr)
    have tf: "t = f finalized" by (rule ts [OF t(1)])
    consider "t = target" "b = finalized"
      | "target < t" "bisect_blocks (\<lambda>t. target \<le> t) (cr_timestamp reads) 0 finalized w5 = (w3, Inr b)"
      using t(2) by (auto split: if_splits)
    then show ?thesis
    proof cases
      case 1
      then show ?thesis using assms(3) tf fin by auto
    next
      case 2
      have "0 \<le> b \<and> b \<le> finalized \<and> target \<le> f b \<and> (\<forall>k. 0 \<le> k \<and> k < b \<longrightarrow> \<not> target \<le> f k)"
        by (rule bisect_honest [OF 2(2)]) (use fin tf 2(1) in \<open>auto intro: ts order.trans mono\<close>)
      then show ?thesis by auto
    qed
  qed
  then show ?thesis using r(6) h by (auto simp: chain_seed_def target_def)
qed

subsection \<open>The windows of a round are never rewritten\<close>

lemma round_windows_update:
  assumes "\<And>x. round_key (f x) = round_key x" "\<And>x. rr_windows (f x) = rr_windows x"
  shows "round_windows (update_round p f d) k = round_windows d k"
  using assms by (simp add: round_windows_def round_of_update_round option.map_comp o_def if_distrib cong: if_cong)

lemma round_windows_submissions:
  "db_rounds d' = db_rounds d \<Longrightarrow> round_windows d' k = round_windows d k"
  by (simp add: round_windows_def round_of_def)

lemma storage_step_windows:
  assumes "storage_step d d'" "round_windows d k = Some w"
  shows "round_windows d' k = Some w"
  using assms
proof (induction rule: storage_step.induct)
  case (St_open v schema_id u now p d d')
  then have "d' = d \<or> (\<exists>r. db_rounds d' = db_rounds d @ [r])"
    by (auto simp: open_round_def Let_def split: if_splits option.splits)
  then show ?case using St_open(2) by (auto simp: round_windows_def round_of_append)
next
  case (St_commit kc h ch now m d d' b)
  then have "db_rounds d' = db_rounds d"
    by (auto simp: record_commit_def Let_def split: if_splits option.splits)
  with St_commit(2) show ?case using round_windows_submissions by metis
next
  case (St_attempt ka h m d d' b)
  then have "db_rounds d' = db_rounds d"
    by (auto simp: record_reveal_attempt_def Let_def split: if_splits option.splits)
  with St_attempt(2) show ?case using round_windows_submissions by metis
next
  case (St_reveal kr h bj n acc code now d d' b)
  then have "db_rounds d' = db_rounds d"
    by (auto simp: record_reveal_def Let_def split: if_splits option.splits)
  with St_reveal(2) show ?case using round_windows_submissions by metis
next
  case (St_close d' kc now d)
  have "db_rounds (fst (snapshot_if_open kc now d)) = db_rounds d" by (simp add: snapshot_if_open_def Let_def)
  with St_close show ?case
    by (simp add: close_round_def flip_round_revealed_def round_windows_update round_key_def
        round_windows_submissions [of "fst (snapshot_if_open kc now d)" d])
next
  case (St_score d kc st d' now)
  have "db_rounds (fst (snapshot_if_open kc now d)) = db_rounds d" by (simp add: snapshot_if_open_def Let_def)
  with St_score show ?case
    by (simp add: set_round_state_def Let_def round_windows_update round_key_def
        round_windows_submissions [of "fst (snapshot_if_open kc now d)" d])
qed

lemma storage_steps_windows:
  "storage_step\<^sup>*\<^sup>* d d' \<Longrightarrow> round_windows d k = Some w \<Longrightarrow> round_windows d' k = Some w"
  by (induction rule: rtranclp_induct) (auto intro: storage_step_windows)

lemma score_step_windows:
  assumes "score_step d d'" "score_inv d" "round_windows d k = Some w"
  shows "round_windows d' k = Some w"
proof -
  obtain d1 where "storage_step\<^sup>*\<^sup>* d d1" "same_rounds d1 d'" using score_step_effect(3) [OF assms(1,2)] by blast
  then show ?thesis
    using storage_steps_windows [OF _ assms(3)] round_windows_submissions [of d' d1 k] by (simp add: same_rounds_def)
qed

subsection \<open>What the caches may hold\<close>

inductive vote_run ::
  "(bytes \<Rightarrow> bytes) \<Rightarrow> 'w tie_seed_reads \<Rightarrow> ('o, 'a score_db_scheme) scoring_config
     \<Rightarrow> 'a score_db_scheme \<Rightarrow> vote_state \<Rightarrow> bool"
  for sha256 start cfg where
  Vr_start: "score_inv d \<Longrightarrow> vote_run sha256 start cfg d new_vote_state"
| Vr_store: "vote_run sha256 start cfg d st \<Longrightarrow> score_step d d' \<Longrightarrow> vote_run sha256 start cfg d' st"
| Vr_pools: "vote_run sha256 start cfg d st \<Longrightarrow> vote_pools sha256 start cfg d scored st w = (st', w', r)
    \<Longrightarrow> vote_run sha256 start cfg d st'"
| Vr_weights: "vote_run sha256 start cfg d st
    \<Longrightarrow> vote_weights sha256 start cfg registered d st w = (st', w', r') \<Longrightarrow> vote_run sha256 start cfg d st'"

definition seed_of_round ::
  "(int \<Rightarrow> int) \<Rightarrow> (int \<Rightarrow> string) \<Rightarrow> string \<Rightarrow> 'a db_scheme \<Rightarrow> string \<Rightarrow> string \<Rightarrow> bool" where
  "seed_of_round f hash schema_id d r seed \<longleftrightarrow>
     (\<exists>w. round_windows d (r, schema_id) = Some w \<and> chain_seed f hash (reveal_close w) seed)"

definition window_ok ::
  "(int \<Rightarrow> int) \<Rightarrow> (int \<Rightarrow> string) \<Rightarrow> string \<Rightarrow> 'a db_scheme \<Rightarrow> string list \<times> string \<Rightarrow> bool" where
  "window_ok f hash schema_id d v \<longleftrightarrow>
     v = ([], []) \<or> (fst v \<noteq> [] \<and> length (fst v) \<le> pool_window_rounds
       \<and> (\<forall>r \<in> set (fst v). revealed d (r, schema_id)) \<and> seed_of_round f hash schema_id d (hd (fst v)) (snd v))"

definition groups_ok :: "('o, 'a db_scheme) scoring_config \<Rightarrow> 'a db_scheme \<Rightarrow> (string \<times> groups) list \<Rightarrow> bool" where
  "groups_ok cfg d known \<longleftrightarrow>
     (\<forall>(r, g) \<in> set known. revealed d (r, sc_schema_id cfg)
        \<and> g = identical_forecast_groups (sc_accepted_values cfg d r))"

definition seeds_ok ::
  "(int \<Rightarrow> int) \<Rightarrow> (int \<Rightarrow> string) \<Rightarrow> string \<Rightarrow> 'a db_scheme \<Rightarrow> vote_state \<Rightarrow> bool" where
  "seeds_ok f hash schema_id d st \<longleftrightarrow>
     (\<forall>(r, seed) \<in> set (vs_seeds st). seed_of_round f hash schema_id d r seed)
     \<and> (case vs_last_window st of None \<Rightarrow> True | Some v \<Rightarrow> window_ok f hash schema_id d v)"

lemma groups_okD: "groups_ok cfg d known \<Longrightarrow> map_of known r = Some g \<Longrightarrow>
    g = identical_forecast_groups (sc_accepted_values cfg d r)"
  by (auto simp: groups_ok_def dest: map_of_SomeD)

lemma tie_seed_ok:
  assumes "tie_seed start schema_id d r st w = (st', w', res)" "honest_chain f hash start"
    and "seeds_ok f hash schema_id d st"
  shows "seeds_ok f hash schema_id d st'" "vs_last_window st' = vs_last_window st" "vs_groups st' = vs_groups st"
    "res = Inr (Some seed) \<Longrightarrow> seed_of_round f hash schema_id d r seed"
proof -
  obtain begin_reads where b: "start = Some begin_reads"
    "\<And>w w' reads. begin_reads w = (w', Inr reads) \<Longrightarrow> honest_reads f hash reads"
    "\<And>j k. 0 \<le> j \<Longrightarrow> j < k \<Longrightarrow> f j < f k"
    using assms(2) by (auto simp: honest_chain_def)
  have chain: "seed_of_round f hash schema_id d r seed"
    if "round_windows d (r, schema_id) = Some v"
      "wbind begin_reads (\<lambda>reads. chain_tie_seed reads (reveal_close v)) w = (w', Inr (Some seed))" for v w w' seed
    using that chain_tie_seed_honest [OF _ b(2) b(3)] by (fastforce simp: wbind_Inr seed_of_round_def)
  have "seeds_ok f hash schema_id d st' \<and> vs_last_window st' = vs_last_window st \<and> vs_groups st' = vs_groups st
      \<and> (\<forall>seed. res = Inr (Some seed) \<longrightarrow> seed_of_round f hash schema_id d r seed)"
  proof (cases "map_of (vs_seeds st) r")
    case (Some s)
    then have "(r, s) \<in> set (vs_seeds st)" by (rule map_of_SomeD)
    with Some assms(1,3) b(1) show ?thesis by (auto simp: tie_seed_def seeds_ok_def)
  next
    case None
    have stored: "seeds_ok f hash schema_id d (st\<lparr>vs_seeds := dict_set r s (vs_seeds st)\<rparr>)"
      if "seed_of_round f hash schema_id d r s" for s
      using that assms(3) by (auto simp: seeds_ok_def dest!: dict_set_mem)
    show ?thesis
      using assms(1,3) b(1) None chain stored
      by (auto simp: tie_seed_def split: option.splits prod.splits sum.splits if_splits)
  qed
  then show "seeds_ok f hash schema_id d st'" "vs_last_window st' = vs_last_window st" "vs_groups st' = vs_groups st"
    "res = Inr (Some seed) \<Longrightarrow> seed_of_round f hash schema_id d r seed" by blast+
qed

lemma revealed_ids_revealed:
  assumes "r \<in> set (revealed_round_ids d schema_id n)" "storage_inv d"
  shows "revealed d (r, schema_id)"
proof -
  obtain x where x: "x \<in> set (db_rounds d)" "rr_schema_id x = schema_id" "post_embargo (rr_state x)" "rr_round_id x = r"
    using assms(1) by (auto simp: revealed_round_ids_def dest!: in_set_takeD)
  then have "round_of d (r, schema_id) = Some x"
    using assms(2) select_one_unique [of round_key "db_rounds d" x]
    by (simp add: storage_inv_def storage_ok_def round_of_def round_key_def)
  then show ?thesis using x(3) by (simp add: revealed_def round_state_def)
qed

lemma seeded_window_ok:
  assumes run: "seeded_window start schema_id d st w = (st', w', res)"
    and "honest_chain f hash start" "seeds_ok f hash schema_id d st" "storage_inv d"
  shows "seeds_ok f hash schema_id d st'" "vs_groups st' = vs_groups st"
    "res = Inr v \<Longrightarrow> window_ok f hash schema_id d v"
proof -
  define rounds where "rounds = revealed_round_ids d schema_id (Suc pool_window_rounds)"
  define st0 where "st0 = st\<lparr>vs_seeds := filter (\<lambda>s. fst s \<in> set rounds) (vs_seeds st)\<rparr>"
  have st0: "seeds_ok f hash schema_id d st0" "vs_groups st0 = vs_groups st"
    using assms(3) by (auto simp: st0_def seeds_ok_def)
  have rev: "revealed d (r, schema_id)" if "r \<in> set rounds" for r
    using revealed_ids_revealed [OF _ assms(4)] that by (simp add: rounds_def)
  have win: "window_ok f hash schema_id d (take pool_window_rounds (r # rs), seed)"
    if "set (r # rs) \<subseteq> set rounds" "seed_of_round f hash schema_id d r seed" for r rs seed
  proof -
    obtain n where "pool_window_rounds = Suc n"
      by (simp add: pool_window_rounds_def default_payout_half_life_rounds_def)
    then have "take pool_window_rounds (r # rs) \<noteq> []" "hd (take pool_window_rounds (r # rs)) = r" by simp_all
    moreover have "\<forall>x \<in> set (take pool_window_rounds (r # rs)). revealed d (x, schema_id)"
      using that(1) set_take_subset [of pool_window_rounds "r # rs"] rev by blast
    ultimately show ?thesis using that(2) by (simp add: window_ok_def del: take_Suc_Cons)
  qed
  have kept: "seeds_ok f hash schema_id d (seeded (fst v) (snd v) s)"
    if "seeds_ok f hash schema_id d s" "window_ok f hash schema_id d v" for s v
    using that by (simp add: seeds_ok_def seeded_def)
  have "seeds_ok f hash schema_id d st' \<and> vs_groups st' = vs_groups st
      \<and> (\<forall>v. res = Inr v \<longrightarrow> window_ok f hash schema_id d v)"
  proof (cases rounds)
    case Nil
    then show ?thesis
      using run assms(3) by (auto simp: seeded_window_def rounds_def [symmetric] Let_def window_ok_def seeds_ok_def)
  next
    case (Cons r rs)
    obtain s1 w1 a1 where t1: "tie_seed start schema_id d r st0 w = (s1, w1, a1)" by (metis prod.exhaust)
    note ok1 = tie_seed_ok [OF t1 assms(2) st0(1)]
    have eq: "seeded_window start schema_id d st w = (case (s1, w1, a1) of
        (st, w, Inl e) \<Rightarrow> (st, w, Inl e)
      | (st, w, Inr (Some seed)) \<Rightarrow>
          (let window = take pool_window_rounds (r # rs) in (seeded window seed st, w, Inr (window, seed)))
      | (st, w, Inr None) \<Rightarrow>
          (case rs of
             [] \<Rightarrow> (st, w, Inr ([], []))
           | second_round # _ \<Rightarrow>
               (case tie_seed start schema_id d second_round st w of
                  (st, w, Inl e) \<Rightarrow> (st, w, Inl e)
                | (st, w, Inr (Some seed)) \<Rightarrow>
                    (let window = take pool_window_rounds rs
                     in (seeded window seed st, w, Inr (window, seed)))
                | (st, w, Inr None) \<Rightarrow>
                    (case vs_last_window st of
                       Some last_window \<Rightarrow> (st, w, Inr last_window)
                     | None \<Rightarrow> (st, w, Inl Tie_seed_unavailable)))))"
      using t1 by (simp add: seeded_window_def rounds_def [symmetric] Cons st0_def Let_def)
    consider (fail) e where "a1 = Inl e" | (known) seed where "a1 = Inr (Some seed)" | (unknown) "a1 = Inr None"
      by (cases a1) (metis option.exhaust)+
    then show ?thesis
    proof cases
      case fail
      then show ?thesis using run eq ok1(1,3) st0(2) by auto
    next
      case known
      then have "window_ok f hash schema_id d (take pool_window_rounds (r # rs), seed)"
        using ok1(4) by (intro win) (simp_all add: Cons)
      then show ?thesis using run eq known kept [OF ok1(1)] ok1(3) st0(2) by (auto simp: Let_def seeded_def)
    next
      case unknown
      show ?thesis
      proof (cases rs)
        case Nil
        then show ?thesis using run eq unknown ok1(1,3) st0(2) by (auto simp: window_ok_def)
      next
        case (Cons r2 rs2)
        obtain s2 w2 a2 where t2: "tie_seed start schema_id d r2 s1 w1 = (s2, w2, a2)" by (metis prod.exhaust)
        note ok2 = tie_seed_ok [OF t2 assms(2) ok1(1)]
        have g: "vs_groups s2 = vs_groups st" using ok2(3) ok1(3) st0(2) by simp
        consider (fail) e where "a2 = Inl e" | (known) seed where "a2 = Inr (Some seed)" | (unknown2) "a2 = Inr None"
          by (cases a2) (metis option.exhaust)+
        then show ?thesis
        proof cases
          case fail
          then show ?thesis using run eq unknown Cons t2 ok2(1) g by auto
        next
          case known
          then have "window_ok f hash schema_id d (take pool_window_rounds rs, seed)"
            using ok2(4) \<open>rounds = r # rs\<close> unfolding Cons by (intro win) auto
          then show ?thesis
            using run eq unknown Cons t2 known kept [OF ok2(1)] g by (auto simp: Let_def seeded_def)
        next
          case unknown2
          show ?thesis
          proof (cases "vs_last_window s2")
            case None
            then show ?thesis using run eq unknown unknown2 Cons t2 ok2(1) g by auto
          next
            case (Some v)
            then have "window_ok f hash schema_id d v" using ok2(1) by (simp add: seeds_ok_def)
            then show ?thesis using run eq unknown unknown2 \<open>rs = r2 # rs2\<close> Some t2 ok2(1) g by auto
          qed
        qed
      qed
    qed
  qed
  then show "seeds_ok f hash schema_id d st'" "vs_groups st' = vs_groups st"
    "res = Inr v \<Longrightarrow> window_ok f hash schema_id d v" by blast+
qed

subsection \<open>Cached groups stay true\<close>

text \<open>Accepted values are read from the bundles a round is scored from, and from nothing else.\<close>

locale frozen_values =
  fixes cfg :: "('o, 'a score_db_scheme) scoring_config"
  assumes from_bundles: "scoring_bundles d (r, sc_schema_id cfg) None 0 = scoring_bundles d' (r, sc_schema_id cfg) None 0
    \<Longrightarrow> sc_accepted_values cfg d r = sc_accepted_values cfg d' r"
begin

lemma accepted_values_kept:
  assumes "score_step d d'" "score_inv d" "revealed d (r, sc_schema_id cfg)"
  shows "revealed d' (r, sc_schema_id cfg)" "sc_accepted_values cfg d' r = sc_accepted_values cfg d r"
proof -
  have "score_step\<^sup>*\<^sup>* d d'" using assms(1) by blast
  from score_steps_effect(3) [OF this assms(2,3)] show "revealed d' (r, sc_schema_id cfg)"
    "sc_accepted_values cfg d' r = sc_accepted_values cfg d r"
    by (blast intro: from_bundles)+
qed

lemma groups_ok_step:
  assumes "groups_ok cfg d known" "score_step d d'" "score_inv d"
  shows "groups_ok cfg d' known"
  using assms(1) accepted_values_kept [OF assms(2,3)] by (fastforce simp: groups_ok_def)

lemma window_ok_step:
  fixes d :: "'a score_db_scheme"
  assumes "window_ok f hash (sc_schema_id cfg) d v" "score_step d d'" "score_inv d"
  shows "window_ok f hash (sc_schema_id cfg) d' v"
  using assms(1) accepted_values_kept(1) [OF assms(2,3)] score_step_windows [OF assms(2,3)]
  by (fastforce simp: window_ok_def seed_of_round_def)

lemma seeds_ok_step:
  fixes d :: "'a score_db_scheme"
  assumes "seeds_ok f hash (sc_schema_id cfg) d st" "score_step d d'" "score_inv d"
  shows "seeds_ok f hash (sc_schema_id cfg) d' st"
  using assms(1) window_ok_step [OF _ assms(2,3)] score_step_windows [OF assms(2,3)]
  by (fastforce simp: seeds_ok_def seed_of_round_def split: option.splits)

lemma vote_pools_ok:
  assumes run: "vote_pools sha256 start cfg d scored st w = (st', w', res)"
    and ok: "honest_chain f hash start" "score_inv d" "seeds_ok f hash (sc_schema_id cfg) d st" "groups_ok cfg d (vs_groups st)"
  shows "seeds_ok f hash (sc_schema_id cfg) d st'" "groups_ok cfg d (vs_groups st')"
    "res = Inr pools \<Longrightarrow> \<exists>v. window_ok f hash (sc_schema_id cfg) d v \<and> map fst (vs_groups st') = fst v
      \<and> pools = tie_ordered sha256
          (duplicate_pools (map (\<lambda>r. identical_forecast_groups (sc_accepted_values cfg d r)) (fst v)) scored) (snd v)"
proof -
  obtain s1 w1 a where s: "seeded_window start (sc_schema_id cfg) d st w = (s1, w1, a)" by (metis prod.exhaust)
  have "storage_inv d" using ok(2) by (simp add: score_inv_def)
  note win = seeded_window_ok [OF s ok(1,3) this]
  have "seeds_ok f hash (sc_schema_id cfg) d st' \<and> groups_ok cfg d (vs_groups st') \<and> (\<forall>pools. res = Inr pools \<longrightarrow>
      (\<exists>v. window_ok f hash (sc_schema_id cfg) d v \<and> map fst (vs_groups st') = fst v
      \<and> pools = tie_ordered sha256
          (duplicate_pools (map (\<lambda>r. identical_forecast_groups (sc_accepted_values cfg d r)) (fst v)) scored) (snd v)))"
  proof (cases a)
    case (Inl e)
    then show ?thesis using run s win(1,2) ok(4) by (auto simp: vote_pools_def)
  next
    case (Inr v)
    define window where "window = map (\<lambda>r. (r, identical_forecast_groups (sc_accepted_values cfg d r))) (fst v)"
    have "(case map_of (vs_groups s1) r of Some groups \<Rightarrow> groups
        | None \<Rightarrow> identical_forecast_groups (sc_accepted_values cfg d r)) = identical_forecast_groups (sc_accepted_values cfg d r)"
      for r using groups_okD [OF ok(4)] win(2) by (auto split: option.splits)
    then have r: "st' = s1\<lparr>vs_groups := window\<rparr>"
      "res = Inr (tie_ordered sha256 (duplicate_pools (map snd window) scored) (snd v))"
      using run s by (simp_all add: vote_pools_def Inr window_def Let_def case_prod_unfold)
    have v: "window_ok f hash (sc_schema_id cfg) d v" using win(3) Inr by simp
    then have "groups_ok cfg d window" by (auto simp: groups_ok_def window_def window_ok_def)
    moreover have "seeds_ok f hash (sc_schema_id cfg) d st'" using win(1) by (simp add: r(1) seeds_ok_def)
    ultimately show ?thesis
      using v by (intro conjI allI impI exI [of _ v]) (simp_all add: r window_def o_def)
  qed
  then show "seeds_ok f hash (sc_schema_id cfg) d st'" "groups_ok cfg d (vs_groups st')"
    "res = Inr pools \<Longrightarrow> \<exists>v. window_ok f hash (sc_schema_id cfg) d v \<and> map fst (vs_groups st') = fst v
      \<and> pools = tie_ordered sha256
          (duplicate_pools (map (\<lambda>r. identical_forecast_groups (sc_accepted_values cfg d r)) (fst v)) scored) (snd v)"
    by blast+
qed

lemma vote_run_ok:
  assumes "vote_run sha256 start cfg d st" "honest_chain f hash start"
  shows "score_inv d \<and> seeds_ok f hash (sc_schema_id cfg) d st \<and> groups_ok cfg d (vs_groups st)"
  using assms(1)
proof (induction rule: vote_run.induct)
  case (Vr_start d)
  then show ?case by (simp add: new_vote_state_def seeds_ok_def groups_ok_def)
next
  case (Vr_store d st d')
  then show ?case using score_inv_step seeds_ok_step groups_ok_step by blast
next
  case (Vr_pools d st scored w st' w' r)
  then show ?case using vote_pools_ok(1,2) [OF Vr_pools(2) assms(2)] by blast
next
  case (Vr_weights d st registered w st' w' r')
  then obtain scored s1 w1 a where p: "vote_pools sha256 start cfg d scored st w = (s1, w1, a)"
    "vs_seeds st' = vs_seeds s1" "vs_last_window st' = vs_last_window s1" "vs_groups st' = vs_groups s1"
    by (auto simp: vote_weights_def Let_def split: prod.splits sum.splits)
  with Vr_weights vote_pools_ok(1,2) [OF p(1) assms(2)] show ?case by (simp add: seeds_ok_def)
qed

end

interpretation risk_votes: frozen_values "risk_scoring_config sha256 parse_json price_series active"
  for sha256 parse_json price_series active
  by unfold_locales (simp add: risk_scoring_config_def accepted_risk_values_def)

interpretation lending_votes: frozen_values "lending_scoring_config sha256 parse_json price_series liquidation_buffer_bps"
  for sha256 parse_json price_series liquidation_buffer_bps
  by unfold_locales (simp add: lending_scoring_config_def accepted_lending_values_def)

text \<open>C14: two validators that vote on the same window of rounds, with the same submissions stored, order
  the same pools the same way, whatever either one cached before, wherever its chain reads failed,
  whenever it was restarted, and however its tick's reads were interleaved with the chain's growth.\<close>

theorem validators_share_pools:
  assumes "honest_chain f hash start" "honest_chain f hash start'"
    and "vote_run sha256 start (risk_scoring_config sha256 parse_json prices active) d st"
    and "vote_run sha256 start' (risk_scoring_config sha256 parse_json prices' active') d' st'"
    and "vote_pools sha256 start (risk_scoring_config sha256 parse_json prices active) d scored st w = (st1, w1, Inr pools)"
    and "vote_pools sha256 start' (risk_scoring_config sha256 parse_json prices' active') d' scored st' w' = (st1', w1', Inr pools')"
    and "map fst (vs_groups st1) = map fst (vs_groups st1')"
    and "\<forall>r \<in> fst ` set (vs_groups st1). scoring_bundles d (r, risk_schema_id) None 0 = scoring_bundles d' (r, risk_schema_id) None 0
      \<and> round_windows d (r, risk_schema_id) = round_windows d' (r, risk_schema_id)"
  shows "pools = pools'"
proof -
  let ?cfg = "risk_scoring_config sha256 parse_json prices active"
  let ?cfg' = "risk_scoring_config sha256 parse_json prices' active'"
  have id: "sc_schema_id ?cfg = risk_schema_id" "sc_schema_id ?cfg' = risk_schema_id"
    by (simp_all add: risk_scoring_config_def)
  obtain v where v: "window_ok f hash risk_schema_id d v" "map fst (vs_groups st1) = fst v"
    "pools = tie_ordered sha256
      (duplicate_pools (map (\<lambda>r. identical_forecast_groups (sc_accepted_values ?cfg d r)) (fst v)) scored) (snd v)"
    using risk_votes.vote_pools_ok(3) [OF assms(5,1)] risk_votes.vote_run_ok [OF assms(3,1)] unfolding id by blast
  obtain v' where v': "window_ok f hash risk_schema_id d' v'" "map fst (vs_groups st1') = fst v'"
    "pools' = tie_ordered sha256
      (duplicate_pools (map (\<lambda>r. identical_forecast_groups (sc_accepted_values ?cfg' d' r)) (fst v')) scored) (snd v')"
    using risk_votes.vote_pools_ok(3) [OF assms(6,2)] risk_votes.vote_run_ok [OF assms(4,2)] unfolding id by blast
  have same: "fst v = fst v'" using assms(7) v(2) v'(2) by simp
  have mem: "fst ` set (vs_groups st1) = set (fst v)" using v(2) by (metis list.set_map)
  have "sc_accepted_values ?cfg d r = sc_accepted_values ?cfg' d' r" if "r \<in> set (fst v)" for r
    using assms(8) that by (simp add: mem risk_scoring_config_def accepted_risk_values_def)
  then have "map (\<lambda>r. identical_forecast_groups (sc_accepted_values ?cfg d r)) (fst v)
      = map (\<lambda>r. identical_forecast_groups (sc_accepted_values ?cfg' d' r)) (fst v')"
    unfolding same [symmetric] by (intro map_cong refl arg_cong [of _ _ identical_forecast_groups])
  moreover have "snd v = snd v'"
  proof (cases "fst v = []")
    case True
    then show ?thesis using v(1) v'(1) same by (auto simp: window_ok_def)
  next
    case False
    then have "seed_of_round f hash risk_schema_id d (hd (fst v)) (snd v)"
      "seed_of_round f hash risk_schema_id d' (hd (fst v)) (snd v')"
      using v(1) v'(1) same by (auto simp: window_ok_def)
    moreover have "round_windows d (hd (fst v), risk_schema_id) = round_windows d' (hd (fst v), risk_schema_id)"
      using assms(8) False by (simp add: mem)
    ultimately show ?thesis unfolding seed_of_round_def using chain_seed_unique by (metis option.inject)
  qed
  ultimately show ?thesis using v(3) v'(3) by simp
qed

text \<open>An archive that answers once and then times out, and a vote before and after.\<close>

definition demo_chain_reads :: "nat chain_reads" where
  "demo_chain_reads =
     \<lparr>cr_finalized = (\<lambda>w. (Suc w, if w = 0 then Inr 7 else Inl Timeout_error)),
      cr_timestamp = (\<lambda>b w. (Suc w, Inr b)), cr_hash = (\<lambda>b w. (Suc w, Inr ''AB''))\<rparr>"

definition demo_start :: "nat tie_seed_reads" where
  "demo_start = Some (\<lambda>w. (w, Inr demo_chain_reads))"

definition demo_risk_config :: "(risk_output, score_db) scoring_config" where
  "demo_risk_config = risk_scoring_config (\<lambda>_. []) (\<lambda>_. None) demo_no_pools {}"

definition demo_vote :: "vote_state \<Rightarrow> nat \<Rightarrow> vote_state \<times> nat \<times> (vote_error + string list list)" where
  "demo_vote = vote_pools (\<lambda>_. []) demo_start demo_risk_config demo_due None"

definition demo_voted :: vote_state where
  "demo_voted = fst (demo_vote new_vote_state 0)"

lemma demo_votes:
  "map fst (vs_groups demo_voted) = [''2025-01-02'']" "map fst (vs_groups (fst (demo_vote demo_voted 9))) = [''2025-01-02'']"
  "vs_seeds demo_voted = [(''2025-01-02'', ''0xab'')]"
  "isl (snd (snd (demo_vote new_vote_state 0))) = False" "isl (snd (snd (demo_vote demo_voted 9))) = False"
  by code_simp+

lemma demo_honest: "honest_chain (\<lambda>b. b) (\<lambda>_. ''AB'') demo_start"
  by (simp add: honest_chain_def demo_start_def honest_reads_def demo_chain_reads_def)

lemma validators_share_pools_witness:
  "snd (snd (demo_vote new_vote_state 0)) = snd (snd (demo_vote demo_voted 9))"
proof -
  obtain p1 p2 where p: "snd (snd (demo_vote new_vote_state 0)) = Inr p1" "snd (snd (demo_vote demo_voted 9)) = Inr p2"
    using demo_votes(4,5) not_isl by metis
  then obtain s1 w1 s2 w2 where r: "demo_vote new_vote_state 0 = (s1, w1, Inr p1)" "demo_vote demo_voted 9 = (s2, w2, Inr p2)"
    by (metis prod.collapse)
  note runs = this [unfolded demo_vote_def demo_risk_config_def]
  have start: "vote_run (\<lambda>_. []) demo_start (risk_scoring_config (\<lambda>_. []) (\<lambda>_. None) demo_no_pools {}) demo_due new_vote_state"
    using loop_steps_inv [OF demo_due_steps demo_config_ok empty_loop_inv] by (intro Vr_start) (simp add: loop_inv_def)
  have "demo_voted = s1" using r(1) by (simp add: demo_voted_def)
  then have "vote_run (\<lambda>_. []) demo_start (risk_scoring_config (\<lambda>_. []) (\<lambda>_. None) demo_no_pools {}) demo_due demo_voted"
    using Vr_pools [OF start runs(1)] by simp
  from validators_share_pools [OF demo_honest demo_honest start this runs] have "p1 = p2"
    using demo_votes(1,2) \<open>demo_voted = s1\<close> r(2) by simp
  with p show ?thesis by simp
qed

end
