(* ===== verification/Round_Service.thy ===== *)
theory Round_Service
  imports Vote_Window Round_Engine
begin

text \<open>
  The validator's round loop (\<open>endure/protocol/vertical.py\<close>, \<open>validator_service.py\<close>): one tick opens
  the active round, reveals every round whose window has closed, resolves its due horizons within a
  budget, archives, and votes.  What a tick reads outside the database (the monotonic clock, prices,
  block lookups) is given per visit of a round's horizon; a tick is one run over one database.
  An error stands for the class name the service keeps of it.
\<close>

subsection \<open>The budget of a tick\<close>

record resolution_budget =
  rb_deadline :: "int option"

definition unlimited_budget :: resolution_budget where
  "unlimited_budget = \<lparr>rb_deadline = None\<rparr>"

definition budget_starting_now :: "int \<Rightarrow> int \<Rightarrow> resolution_budget" where
  "budget_starting_now seconds now_ns = \<lparr>rb_deadline = Some (now_ns + seconds * 1000000000)\<rparr>"

definition exhausted :: "resolution_budget \<Rightarrow> int \<Rightarrow> bool" where
  "exhausted b now_ns = (case rb_deadline b of None \<Rightarrow> False | Some deadline \<Rightarrow> deadline \<le> now_ns)"

text \<open>The successive readings of the monotonic clock in one visit, and the world the pass reads.\<close>

record 'e visit =
  vi_clock :: "nat \<Rightarrow> int"
  vi_world :: 'e

subsection \<open>The round program\<close>

record ('e, 'd) round_program =
  rp_schema_id :: string
  rp_parse :: "string \<Rightarrow> wire_bundle option"
  rp_blended :: "'d \<Rightarrow> (string \<times> rat) list"
  rp_resolve :: "'e \<Rightarrow> (nat \<Rightarrow> bool) \<Rightarrow> string \<Rightarrow> int \<Rightarrow> datetime \<Rightarrow> datetime \<Rightarrow> 'd
    \<Rightarrow> scoring_error + 'd \<times> (string \<times> rat) list"
  rp_horizons :: "int list"
  rp_due_seconds :: "(int \<times> int) list"

definition parsed_bundles :: "('e, 'd) round_program \<Rightarrow> (string \<times> string) list \<Rightarrow> (string \<times> wire_bundle) list" where
  "parsed_bundles prog accepted =
     fold (\<lambda>(hotkey, json) bundles. case rp_parse prog json of
         None \<Rightarrow> bundles | Some b \<Rightarrow> dict_set hotkey b bundles) accepted []"

definition program_rows ::
  "('e, 'd) round_program \<Rightarrow> (string \<times> rat) list \<Rightarrow> (string \<times> string) list \<Rightarrow> consensus_error + consensus_row list" where
  "program_rows prog blends accepted =
     (let bundles = parsed_bundles prog accepted
      in if bundles = [] then Inr []
         else compute_assessment_consensus (map (\<lambda>(hk, b). (hk, bundle_values b)) bundles) (map_of blends))"

definition publish_consensus ::
  "('e, 'a score_db_scheme) round_program \<Rightarrow> string \<Rightarrow> datetime \<Rightarrow> 'a score_db_scheme
     \<Rightarrow> consensus_error publish_error + 'a score_db_scheme \<times> bool" where
  "publish_consensus prog round_id now d =
     ebind (publish_consensus_from_bundles (round_id, rp_schema_id prog) (program_rows prog (rp_blended prog d)) now d)
       (\<lambda>(d', accepted, _). Inr (d', parsed_bundles prog accepted \<noteq> []))"

text \<open>A deadline that escapes the orchestrator is a deferral, every other error a failure.\<close>

definition is_deadline :: "scoring_error \<Rightarrow> bool" where
  "is_deadline e \<longleftrightarrow> e = Resolver_failed Deadline_error"

definition due_at :: "('e, 'd) round_program \<Rightarrow> round_windows \<Rightarrow> int \<Rightarrow> datetime" where
  "due_at prog w horizon =
     reveal_close w + (case map_of (rp_due_seconds prog) horizon of Some s \<Rightarrow> s | None \<Rightarrow> horizon) * second"

text \<open>The loop over the horizons: whether all are resolved, whether one was scored, the last error.\<close>

fun resolve_horizons ::
  "('e, 'a score_db_scheme) round_program \<Rightarrow> resolution_budget \<Rightarrow> (int \<Rightarrow> 'e visit) \<Rightarrow> string \<Rightarrow> round_windows
     \<Rightarrow> datetime \<Rightarrow> int list \<Rightarrow> 'a score_db_scheme \<times> bool \<times> bool \<times> scoring_error option
     \<Rightarrow> 'a score_db_scheme \<times> bool \<times> bool \<times> scoring_error option" where
  "resolve_horizons prog budget visits round_id w now [] s = s"
| "resolve_horizons prog budget visits round_id w now (h # hs) (d, all_resolved, scored, err) =
     (if has_resolution_marker d (round_id, rp_schema_id prog) h
      then resolve_horizons prog budget visits round_id w now hs (d, all_resolved, scored, err)
      else if now \<le> due_at prog w h
      then resolve_horizons prog budget visits round_id w now hs (d, False, scored, err)
      else if exhausted budget (vi_clock (visits h) 0) then (d, False, scored, err)
      else case rp_resolve prog (vi_world (visits h)) (\<lambda>n. exhausted budget (vi_clock (visits h) (Suc n)))
                  round_id h now (due_at prog w h) d of
          Inl e \<Rightarrow>
            if is_deadline e then (d, False, scored, err)
            else resolve_horizons prog budget visits round_id w now hs (d, False, scored, Some e)
        | Inr (d', _) \<Rightarrow> resolve_horizons prog budget visits round_id w now hs (d', all_resolved, True, err))"

definition resolve_due ::
  "('e, 'a score_db_scheme) round_program \<Rightarrow> resolution_budget \<Rightarrow> (int \<Rightarrow> 'e visit) \<Rightarrow> string \<Rightarrow> round_windows
     \<Rightarrow> datetime \<Rightarrow> 'a score_db_scheme \<Rightarrow> 'a score_db_scheme \<times> bool \<times> scoring_error option" where
  "resolve_due prog budget visits round_id w now d =
     (let k = (round_id, rp_schema_id prog)
      in case resolve_horizons prog budget visits round_id w now (rp_horizons prog) (d, True, False, None) of
           (d, all_resolved, scored, err) \<Rightarrow>
             if all_resolved \<and> (\<forall>h \<in> set (rp_horizons prog). has_resolution_marker d k h)
             then (set_round_state k Round_closed now d, scored, err)
             else if scored then (set_round_state k Round_partially_scored now d, scored, err)
             else (d, scored, err))"

subsection \<open>The service\<close>

datatype service_error =
    Universe_fetch_failed universe_error | Universe_rejected
  | Publication_failed "consensus_error publish_error" | Resolution_failed scoring_error

record round_service =
  sv_universe_failures :: int
  sv_last_universe_error :: "service_error option"
  sv_resolution_failures :: int
  sv_last_resolution_error :: "service_error option"
  sv_empty_rounds :: int
  sv_last_empty_round :: "string option"
  sv_votes :: vote_state

definition new_round_service :: round_service where
  "new_round_service = \<lparr>sv_universe_failures = 0, sv_last_universe_error = None,
     sv_resolution_failures = 0, sv_last_resolution_error = None, sv_empty_rounds = 0,
     sv_last_empty_round = None, sv_votes = new_vote_state\<rparr>"

record round_scheduler =
  sch_active_window :: "datetime \<Rightarrow> round_error + round_windows option"
  sch_publication_at :: "round_windows \<Rightarrow> round_error + datetime"

record ('e, 'w, 'd) service_config =
  rs_scheduler :: round_scheduler
  rs_fetch_universe :: "string \<Rightarrow> universe_error + universe_snapshot"
  rs_schema_id :: string
  rs_horizons :: "int list"
  rs_program :: "('e, 'd) round_program"
  rs_max_targets :: "nat option"
  rs_budget_seconds :: "int option"
  rs_weights :: "'d \<Rightarrow> ('w, (string \<times> rat) list) vote_call"

definition mk_service_config :: "('e, 'w, 'd) service_config \<Rightarrow> ('e, 'w, 'd) service_config option" where
  "mk_service_config cfg =
     (if (case rs_budget_seconds cfg of Some s \<Rightarrow> s \<le> 0 | None \<Rightarrow> False) then None else Some cfg)"

definition tick_budget :: "('e, 'w, 'd) service_config \<Rightarrow> int \<Rightarrow> resolution_budget" where
  "tick_budget cfg now_ns =
     (case rs_budget_seconds cfg of None \<Rightarrow> unlimited_budget | Some s \<Rightarrow> budget_starting_now s now_ns)"

definition record_scored_round :: "string \<Rightarrow> bool \<Rightarrow> round_service \<Rightarrow> round_service" where
  "record_scored_round round_id had_submissions sv =
     (if had_submissions then sv\<lparr>sv_empty_rounds := 0, sv_last_empty_round := None\<rparr>
      else sv\<lparr>sv_empty_rounds := sv_empty_rounds sv + 1, sv_last_empty_round := Some round_id\<rparr>)"

definition universe_valid_for_round :: "('e, 'w, 'd) service_config \<Rightarrow> universe_snapshot \<Rightarrow> string \<Rightarrow> bool" where
  "universe_valid_for_round cfg u round_id \<longleftrightarrow>
     us_round_id u = round_id
     \<and> (case rs_max_targets cfg of None \<Rightarrow> True | Some m \<Rightarrow> length (us_tickers u) \<le> m)"

definition universe_failed :: "service_error \<Rightarrow> round_service \<Rightarrow> round_service" where
  "universe_failed e sv =
     sv\<lparr>sv_universe_failures := sv_universe_failures sv + 1, sv_last_universe_error := Some e\<rparr>"

datatype tick_error = Scheduler_failed round_error | Open_failed storage_error | Vote_failed vote_error

definition open_active_round ::
  "('e, 'w, 'a score_db_scheme) service_config \<Rightarrow> datetime \<Rightarrow> round_service \<Rightarrow> 'a score_db_scheme
     \<Rightarrow> tick_error + round_service \<times> 'a score_db_scheme" where
  "open_active_round cfg now sv d =
     (case sch_active_window (rs_scheduler cfg) now of
        Inl e \<Rightarrow> Inl (Scheduler_failed e)
      | Inr None \<Rightarrow> Inr (sv, d)
      | Inr (Some window) \<Rightarrow>
          if round_state d (rw_round_id window, rs_schema_id cfg) \<noteq> None then Inr (sv, d)
          else (case rs_fetch_universe cfg (rw_round_id window) of
              Inl e \<Rightarrow> Inr (universe_failed (Universe_fetch_failed e) sv, d)
            | Inr universe \<Rightarrow>
                if \<not> universe_valid_for_round cfg universe (rw_round_id window)
                then Inr (universe_failed Universe_rejected sv, d)
                else (case sch_publication_at (rs_scheduler cfg) window of
                    Inl e \<Rightarrow> Inl (Scheduler_failed e)
                  | Inr publication \<Rightarrow>
                      (case open_round window (rs_schema_id cfg) (Some universe) now (Some publication) d of
                         Inl e \<Rightarrow> Inl (Open_failed e)
                       | Inr d' \<Rightarrow>
                           Inr (sv\<lparr>sv_universe_failures := 0, sv_last_universe_error := None\<rparr>, d')))))"

definition advance_one_round ::
  "('e, 'w, 'a score_db_scheme) service_config \<Rightarrow> resolution_budget \<Rightarrow> (int \<Rightarrow> 'e visit) \<Rightarrow> datetime \<Rightarrow> string
     \<Rightarrow> round_service \<Rightarrow> 'a score_db_scheme
     \<Rightarrow> round_service \<times> 'a score_db_scheme \<times> (service_error + bool \<times> service_error option)" where
  "advance_one_round cfg budget visits now round_id sv d =
     (let k = (round_id, rs_schema_id cfg)
      in case round_windows d k of
        None \<Rightarrow> (sv, d, Inr (False, None))
      | Some w \<Rightarrow>
          let revealing =
             (if round_state d k = Some Round_open \<and> reveal_close w < now
              then ebind (publish_consensus (rs_program cfg) round_id now d)
                     (\<lambda>(d', had). Inr (record_scored_round round_id had sv, d', Some Round_revealed))
              else Inr (sv, d, round_state d k))
          in case revealing of
              Inl e \<Rightarrow> (sv, d, Inl (Publication_failed e))
            | Inr (sv, d, state) \<Rightarrow>
                if state \<notin> {Some Round_revealed, Some Round_partially_scored} then (sv, d, Inr (False, None))
                else (case resolve_due (rs_program cfg) budget visits round_id w now d of
                    (d, scored, err) \<Rightarrow> (sv, d, Inr (scored, map_option Resolution_failed err))))"

text \<open>Every round in turn, a failure of one kept from the others.\<close>

fun advance_each ::
  "('e, 'w, 'a score_db_scheme) service_config \<Rightarrow> resolution_budget \<Rightarrow> (string \<Rightarrow> int \<Rightarrow> 'e visit) \<Rightarrow> datetime
     \<Rightarrow> string list \<Rightarrow> round_service \<times> 'a score_db_scheme \<times> bool \<times> bool
     \<Rightarrow> round_service \<times> 'a score_db_scheme \<times> bool \<times> bool" where
  "advance_each cfg budget visits now [] s = s"
| "advance_each cfg budget visits now (r # rs) (sv, d, scored_any, failed) =
     (case advance_one_round cfg budget (visits r) now r sv d of
        (sv, d, Inl e) \<Rightarrow>
          advance_each cfg budget visits now rs
            (sv\<lparr>sv_last_resolution_error := Some e\<rparr>, d, scored_any, True)
      | (sv, d, Inr (scored, None)) \<Rightarrow> advance_each cfg budget visits now rs (sv, d, scored_any \<or> scored, failed)
      | (sv, d, Inr (scored, Some e)) \<Rightarrow>
          advance_each cfg budget visits now rs
            (sv\<lparr>sv_last_resolution_error := Some e\<rparr>, d, scored_any \<or> scored, True))"

text \<open>The archival of the model does not fail, so its handler in the code has no counterpart.\<close>

fun archive_each ::
  "string \<Rightarrow> string list \<Rightarrow> int list \<Rightarrow> 'a score_db_scheme \<times> bool \<Rightarrow> 'a score_db_scheme \<times> bool" where
  "archive_each schema_id hotkeys [] s = s"
| "archive_each schema_id hotkeys (h # hs) (d, scored_any) =
     (if \<not> all_unfinished_have_marker d schema_id h then archive_each schema_id hotkeys hs (d, scored_any)
      else case archive_ema_horizon schema_id h hotkeys d of
        (d, archived) \<Rightarrow> archive_each schema_id hotkeys hs (d, scored_any \<or> archived))"

definition advance_rounds ::
  "('e, 'w, 'a score_db_scheme) service_config \<Rightarrow> resolution_budget \<Rightarrow> (string \<Rightarrow> int \<Rightarrow> 'e visit) \<Rightarrow> datetime
     \<Rightarrow> string list \<Rightarrow> round_service \<Rightarrow> 'a score_db_scheme \<Rightarrow> round_service \<times> 'a score_db_scheme \<times> bool" where
  "advance_rounds cfg budget visits now archive_hotkeys sv d =
     (case advance_each cfg budget visits now (unfinished_rounds d (rs_schema_id cfg)) (sv, d, False, False) of
        (sv, d, scored_any, failed) \<Rightarrow>
          (case (if archive_hotkeys = [] then (d, scored_any)
                 else archive_each (rs_schema_id cfg) archive_hotkeys (rs_horizons cfg) (d, scored_any)) of
             (d, scored_any) \<Rightarrow>
               ((if failed then sv\<lparr>sv_resolution_failures := sv_resolution_failures sv + 1\<rparr>
                 else sv\<lparr>sv_resolution_failures := 0, sv_last_resolution_error := None\<rparr>), d, scored_any)))"

definition tick ::
  "('e, 'w, 'a score_db_scheme) service_config \<Rightarrow> datetime \<Rightarrow> int \<Rightarrow> (string \<Rightarrow> int \<Rightarrow> 'e visit) \<Rightarrow> string list
     \<Rightarrow> round_service \<Rightarrow> 'w \<Rightarrow> 'a score_db_scheme
     \<Rightarrow> round_service \<times> 'w \<times> 'a score_db_scheme \<times> (tick_error + (string \<times> rat) list option)" where
  "tick cfg now now_ns visits archive_hotkeys sv world d =
     (case open_active_round cfg now sv d of
        Inl e \<Rightarrow> (sv, world, d, Inl e)
      | Inr (sv, d) \<Rightarrow>
          (case advance_rounds cfg (tick_budget cfg now_ns) visits now archive_hotkeys sv d of
             (sv, d, scored) \<Rightarrow>
               if \<not> scored then (sv, world, d, Inr None)
               else (case rs_weights cfg d (sv_votes sv) world of
                   (votes, world, Inl e) \<Rightarrow> (sv\<lparr>sv_votes := votes\<rparr>, world, d, Inl (Vote_failed e))
                 | (votes, world, Inr weights) \<Rightarrow> (sv\<lparr>sv_votes := votes\<rparr>, world, d, Inr (Some weights)))))"

definition blended_snapshot :: "('e, 'w, 'd) service_config \<Rightarrow> 'd \<Rightarrow> (string \<times> rat) list" where
  "blended_snapshot cfg d = rp_blended (rs_program cfg) d"

subsection \<open>The contract of a program\<close>

text \<open>
  Its resolution is a pass of the scoring loop under the configuration of the visit, and its parser
  accepts only bundles that make coordinates.
\<close>

locale scoring_program =
  fixes prog :: "('e, 'a score_db_scheme) round_program"
    and cfg_of :: "'e \<Rightarrow> ('o, 'a score_db_scheme) scoring_config"
    and half_life :: int
  assumes is_pass: "rp_resolve prog e clock rid h now due d = Inr (d', scores) \<Longrightarrow>
      \<exists>ctx archive clock'. resolve_and_score (cfg_of e) half_life rid h now archive ctx clock' d = Inr (d', scores)"
    and schema: "sc_schema_id (cfg_of e) = rp_schema_id prog"
    and config: "config_ok (cfg_of e)"
    and parsed: "rp_parse prog json = Some b \<Longrightarrow> a \<in> set (bundle_values b) \<Longrightarrow> values_ok a"

definition program_step ::
  "('e \<Rightarrow> ('o, 'a score_db_scheme) scoring_config) \<Rightarrow> int \<Rightarrow> 'a score_db_scheme \<Rightarrow> 'a score_db_scheme \<Rightarrow> bool" where
  "program_step cfg_of half_life d d' \<longleftrightarrow> (\<exists>e. loop_step (cfg_of e) half_life d d')"

text \<open>The rounds still open after their reveal window.\<close>

definition late :: "string \<Rightarrow> datetime \<Rightarrow> 'a db_scheme \<Rightarrow> string set" where
  "late schema_id now d =
     {r. round_state d (r, schema_id) = Some Round_open
        \<and> (\<exists>w. round_windows d (r, schema_id) = Some w \<and> reveal_close w < now)}"

text \<open>A closed round has all its horizons resolved.\<close>

definition closed_resolved :: "string \<Rightarrow> int list \<Rightarrow> 'a score_db_scheme \<Rightarrow> bool" where
  "closed_resolved schema_id horizons d \<longleftrightarrow>
     (\<forall>r. round_state d (r, schema_id) = Some Round_closed
        \<longrightarrow> (\<forall>h \<in> set horizons. has_resolution_marker d (r, schema_id) h))"

lemma late_cong:
  assumes "\<And>r. round_state d' (r, s) = round_state d (r, s)" "\<And>r. round_windows d' (r, s) = round_windows d (r, s)"
  shows "late s now d' = late s now d"
  using assms by (simp add: late_def)

lemma same_rounds_windows: "same_rounds d d' \<Longrightarrow> round_windows d' k = round_windows d k"
  by (rule round_windows_submissions) (simp add: same_rounds_def)

lemma same_rounds_late: "same_rounds d d' \<Longrightarrow> late s now d' = late s now d"
  by (intro late_cong) (erule same_roundsD(2), erule same_rounds_windows)

lemma markers_kept: "written_once d d' \<Longrightarrow> has_resolution_marker d k h \<Longrightarrow> has_resolution_marker d' k h"
  unfolding written_once_def has_resolution_marker_def using set_mono_prefix by blast

lemma closed_resolved_mono:
  assumes "closed_resolved s hs d" "written_once d d'"
    and "\<And>r. round_state d' (r, s) = Some Round_closed \<Longrightarrow> round_state d (r, s) = Some Round_closed"
  shows "closed_resolved s hs d'"
  using assms(1,3) markers_kept [OF assms(2)] by (simp add: closed_resolved_def)

text \<open>A pass and an archival leave the rounds alone.\<close>

lemma pass_table_op:
  assumes "resolve_and_score cfg n rid h now archive ctx clock d = Inr (d', scores)"
  shows "table_op d d'"
  using resolve_and_score_pass [OF assms] scoring_pass_op table_op_refl by blast

lemma archive_table_op: "archive_ema_horizon s h hks d = (d', b) \<Longrightarrow> table_op d d'"
  using delete_emas_op by (fastforce simp: archive_ema_horizon_def split: if_splits)

lemma table_op_effect:
  assumes "table_op d d'"
  shows "same_rounds d d'" "written_once d d'" "late s now d' = late s now d"
    "closed_resolved s hs d \<Longrightarrow> closed_resolved s hs d'"
proof -
  show r: "same_rounds d d'" and w: "written_once d d'" using assms by (simp_all add: table_op_def)
  show "late s now d' = late s now d" by (rule same_rounds_late [OF r])
  show "closed_resolved s hs d'" if "closed_resolved s hs d"
    by (rule closed_resolved_mono [OF that w]) (simp only: same_roundsD(2) [OF r])
qed

lemma closed_windows: "round_windows (close_round k now d) k' = round_windows d k'"
proof -
  have "db_rounds (fst (snapshot_if_open k now d)) = db_rounds d" by (simp add: snapshot_if_open_def Let_def)
  then show ?thesis
    by (simp add: close_round_def flip_round_revealed_def round_windows_update round_key_def
        round_windows_submissions [of "fst (snapshot_if_open k now d)" d])
qed

lemma state_windows: "round_windows (set_round_state k st now d) k' = round_windows d k'"
proof -
  have "db_rounds (fst (snapshot_if_open k now d)) = db_rounds d" by (simp add: snapshot_if_open_def Let_def)
  then show ?thesis
    by (simp add: set_round_state_def Let_def round_windows_update round_key_def
        round_windows_submissions [of "fst (snapshot_if_open k now d)" d])
qed

text \<open>A publication reveals its round and touches no other.\<close>

lemma publish_rounds:
  assumes "publish_consensus_and_reveal k rows now d = Inr d'" "score_inv d"
  shows "round_state d' k' = (if k' = k \<and> round_state d k = Some Round_open then Some Round_revealed else round_state d k')"
    "round_windows d' k' = round_windows d k'" "written_once d d'"
proof -
  note s = publish_effect(3) [OF assms]
  show "round_state d' k' = (if k' = k \<and> round_state d k = Some Round_open then Some Round_revealed else round_state d k')"
    using assms(2) by (simp add: same_roundsD(2) [OF s] close_round_state score_inv_def storage_inv_def)
  show "round_windows d' k' = round_windows d k'" by (simp add: same_rounds_windows [OF s] closed_windows)
  show "written_once d d'" by (rule publish_effect(2) [OF assms])
qed

lemma publish_late:
  assumes "publish_consensus_and_reveal (r, s) rows now d = Inr d'" "score_inv d"
  shows "late s t d' \<subseteq> late s t d - {r}"
    "closed_resolved s hs d \<Longrightarrow> closed_resolved s hs d'"
proof -
  note eff = publish_rounds [OF assms]
  show "late s t d' \<subseteq> late s t d - {r}" by (auto simp: late_def eff(1,2) split: if_splits)
  show "closed_resolved s hs d'" if "closed_resolved s hs d"
    by (rule closed_resolved_mono [OF that eff(3)]) (simp add: eff(1) split: if_splits)
qed

text \<open>The transition that ends a resolution.\<close>

lemma set_state_effect:
  assumes "round_state d (r, s) \<in> {Some Round_revealed, Some Round_partially_scored}"
    and "st \<in> {Round_partially_scored, Round_closed}"
    and "st = Round_closed \<Longrightarrow> \<forall>h \<in> set hs. has_resolution_marker d (r, s) h"
  shows "storage_step d (set_round_state (r, s) st now d)"
    "late s t (set_round_state (r, s) st now d) = late s t d"
    "closed_resolved s hs d \<Longrightarrow> closed_resolved s hs (set_round_state (r, s) st now d)"
proof -
  note eff = set_round_state_effect(1) [OF assms(1), of st now]
  show step: "storage_step d (set_round_state (r, s) st now d)" by (rule St_score [OF assms(1,2) refl])
  show "late s t (set_round_state (r, s) st now d) = late s t d"
    using assms(1,2) by (auto simp: late_def eff state_windows split: if_splits)
  have "sd_markers (set_round_state (r, s) st now d) = sd_markers d"
    by (rule storage_step_tables(3) [OF step])
  then have "has_resolution_marker (set_round_state (r, s) st now d) k h = has_resolution_marker d k h" for k h
    by (simp add: has_resolution_marker_def)
  then show "closed_resolved s hs (set_round_state (r, s) st now d)" if "closed_resolved s hs d"
    using that assms(2,3) by (auto simp: closed_resolved_def eff split: if_splits)
qed

subsection \<open>What each operation does to the store\<close>

lemma late_unfinished: "late s now d \<subseteq> set (unfinished_rounds d s)"
proof
  fix r
  assume "r \<in> late s now d"
  then obtain x where x: "round_of d (r, s) = Some x" "rr_state x = Round_open" by (auto simp: late_def round_state_def)
  then have "x \<in> set (db_rounds d)" "rr_round_id x = r" "rr_schema_id x = s"
    using round_of_Some [OF x(1)] by (auto simp: round_key_def)
  then show "r \<in> set (unfinished_rounds d s)" using x(2) by (force simp: unfinished_rounds_def)
qed

abbreviation archives :: "string \<Rightarrow> string list \<Rightarrow> 'a score_db_scheme \<Rightarrow> 'a score_db_scheme \<Rightarrow> bool" where
  "archives s hks d d' \<equiv> \<exists>h b. archive_ema_horizon s h hks d = (d', b)"

lemma archive_each_effect:
  assumes "archive_each s hks hs (d, b) = (d', b')"
  shows "table_op d d' \<and> (archives s hks)\<^sup>*\<^sup>* d d'"
  using assms
proof (induction hs arbitrary: d b)
  case (Cons h hs)
  show ?case
  proof (cases "all_unfinished_have_marker d s h")
    case True
    obtain d1 b1 where a: "archive_ema_horizon s h hks d = (d1, b1)" by (metis prod.exhaust)
    then have "archive_each s hks hs (d1, b \<or> b1) = (d', b')" using Cons.prems True by simp
    note rest = Cons.IH [OF this]
    have "archives s hks d d1" using a by blast
    then show ?thesis
      using rest archive_table_op [OF a] by (blast intro: converse_rtranclp_into_rtranclp table_op_trans)
  qed (use Cons in simp)
qed simp

definition safe_step ::
  "('a score_db_scheme \<Rightarrow> 'a score_db_scheme \<Rightarrow> bool) \<Rightarrow> string \<Rightarrow> int list \<Rightarrow> 'a score_db_scheme \<Rightarrow> 'a score_db_scheme \<Rightarrow> bool" where
  "safe_step stp s hs d d' \<longleftrightarrow> stp\<^sup>*\<^sup>* d d' \<and> (closed_resolved s hs d \<longrightarrow> closed_resolved s hs d')"

lemma safe_step_refl [simp]: "safe_step stp s hs d d"
  by (simp add: safe_step_def)

lemma safe_step_trans: "safe_step stp s hs a b \<Longrightarrow> safe_step stp s hs b c \<Longrightarrow> safe_step stp s hs a c"
  by (auto simp: safe_step_def)

context scoring_program
begin

abbreviation "schema_id \<equiv> rp_schema_id prog"
abbreviation "steps \<equiv> program_step cfg_of half_life"
abbreviation "safe \<equiv> safe_step steps schema_id (rp_horizons prog)"

lemma steps_inv:
  assumes "steps\<^sup>*\<^sup>* d d'" "loop_inv schema_id d"
  shows "loop_inv schema_id d'"
  using assms
proof (induction rule: rtranclp_induct)
  case (step d' d'')
  then obtain e where "loop_step (cfg_of e) half_life d' d''" by (auto simp: program_step_def)
  from loop_step_inv [OF this config] step show ?case by (simp add: schema)
qed

lemma safe_inv: "safe d d' \<Longrightarrow> loop_inv schema_id d \<Longrightarrow> loop_inv schema_id d'"
  using steps_inv [of d d'] by (simp add: safe_step_def)

lemma consensus_computes: "\<exists>rows. program_rows prog blends accepted = Inr rows \<and> distinct (map cr_coordinate rows)"
proof -
  define bs where "bs = parsed_bundles prog accepted"
  have "\<exists>json. rp_parse prog json = Some b" if "(hk, b) \<in> set bs" for hk b
  proof -
    have "(hk, b) \<in> set (fold (\<lambda>(hotkey, json) bundles. case rp_parse prog json of
        None \<Rightarrow> bundles | Some b \<Rightarrow> dict_set hotkey b bundles) accepted m)
      \<Longrightarrow> (hk, b) \<in> set m \<or> (\<exists>json. rp_parse prog json = Some b)" for m
      by (induction accepted arbitrary: m) (fastforce split: option.splits dest: dict_set_mem)+
    from this [of "[]"] that show ?thesis by (simp add: bs_def parsed_bundles_def)
  qed
  then have "bundles_values_ok (map (\<lambda>(hk, b). (hk, bundle_values b)) bs)"
    using parsed by (fastforce simp: bundles_values_ok_def)
  then obtain ss where "round_samples (map (\<lambda>(hk, b). (hk, bundle_values b)) bs) (map_of blends) = Inr ss"
    using round_samples_ok by blast
  from consensus_rows [OF this] obtain rows where
    "compute_assessment_consensus (map (\<lambda>(hk, b). (hk, bundle_values b)) bs) (map_of blends) = Inr rows"
    "distinct (map cr_coordinate rows)" by (metis distinct_sorted_list_of_set)
  then show ?thesis by (simp add: program_rows_def bs_def [symmetric] Let_def)
qed

lemma publication_succeeds:
  assumes "score_inv d" "round_state d (r, schema_id) = Some Round_open"
  obtains d' had rows where "publish_consensus prog r now d = Inr (d', had)"
    "publish_consensus_and_reveal (r, schema_id) rows now d = Inr d'"
proof -
  let ?k = "(r, schema_id)"
  obtain d1 bundles where s: "snapshot_if_open ?k now d = (d1, bundles)" by (metis prod.exhaust)
  obtain rows where rows: "program_rows prog (rp_blended prog d) bundles = Inr rows" "distinct (map cr_coordinate rows)"
    using consensus_computes by blast
  have "db_rounds d1 = db_rounds d" using s by (auto simp: snapshot_if_open_def Let_def split: if_splits)
  then have "references_round d1 ?k rows"
    using assms(2) by (auto simp: references_round_def round_of_def round_state_def simp del: select_one_None)
  then obtain d2 where d2: "insert_consensus_if_absent ?k rows now d1 = Inr d2"
    using rows(2) by (cases "\<exists>e \<in> set (sd_consensus d1). ce_key e = ?k") (simp_all add: insert_consensus_if_absent_def)
  have p: "publish_consensus_from_bundles ?k (program_rows prog (rp_blended prog d)) now d
      = Inr (flip_round_revealed ?k now d2, bundles, rows)"
    by (simp add: publish_consensus_from_bundles_def s rows(1) d2)
  show thesis
    by (rule that [OF _ publish_from_bundles(1) [OF p]]) (simp add: publish_consensus_def p)
qed

lemma resolve_horizons_effect:
  assumes "resolve_horizons prog budget visits r w now hs (d, a, b, e) = (d', a', b', e')"
  shows "table_op d d' \<and> steps\<^sup>*\<^sup>* d d'"
  using assms
proof (induction hs arbitrary: d a b e)
  case (Cons h hs)
  show ?case
  proof (cases "has_resolution_marker d (r, schema_id) h \<or> now \<le> due_at prog w h \<or> exhausted budget (vi_clock (visits h) 0)")
    case True
    then show ?thesis using Cons by (auto split: if_splits)
  next
    case False
    let ?run = "rp_resolve prog (vi_world (visits h)) (\<lambda>n. exhausted budget (vi_clock (visits h) (Suc n)))
        r h now (due_at prog w h) d"
    show ?thesis
    proof (cases ?run)
      case (Inl err)
      then show ?thesis using Cons False by (auto split: if_splits)
    next
      case (Inr res)
      obtain d1 scores where res: "res = (d1, scores)" by (metis prod.exhaust)
      obtain ctx archive clock where pass:
        "resolve_and_score (cfg_of (vi_world (visits h))) half_life r h now archive ctx clock d = Inr (d1, scores)"
        using is_pass [OF Inr [unfolded res]] by blast
      then have "steps d d1" by (auto simp: program_step_def intro: Lp_pass)
      moreover have "resolve_horizons prog budget visits r w now hs (d1, a, True, e) = (d', a', b', e')"
        using Cons.prems False Inr res by simp
      ultimately show ?thesis
        using Cons.IH pass_table_op [OF pass] by (meson converse_rtranclp_into_rtranclp table_op_trans)
    qed
  qed
qed simp

lemma resolve_due_effect:
  assumes "resolve_due prog budget visits r w now d = (d', b, e)"
    and "round_state d (r, schema_id) \<in> {Some Round_revealed, Some Round_partially_scored}"
  shows "safe d d' \<and> late schema_id t d' = late schema_id t d"
proof -
  let ?k = "(r, schema_id)"
  obtain d1 a1 b1 e1 where h: "resolve_horizons prog budget visits r w now (rp_horizons prog) (d, True, False, None)
      = (d1, a1, b1, e1)" by (metis prod.exhaust)
  from resolve_horizons_effect [OF h] have op: "table_op d d1" and steps: "steps\<^sup>*\<^sup>* d d1" by simp_all
  note eff = table_op_effect [OF op]
  have st: "round_state d1 ?k \<in> {Some Round_revealed, Some Round_partially_scored}"
    using assms(2) by (simp only: same_roundsD(2) [OF eff(1)])
  have base: "safe d d1" using steps eff(4) by (simp add: safe_step_def)
  consider "d' = d1"
    | st where "st \<in> {Round_partially_scored, Round_closed}" "d' = set_round_state ?k st now d1"
      "st = Round_closed \<Longrightarrow> \<forall>h \<in> set (rp_horizons prog). has_resolution_marker d1 ?k h"
    using assms(1) h by (auto simp: resolve_due_def Let_def split: if_splits)
  then show ?thesis
  proof cases
    case 1
    then show ?thesis using base eff(3) by simp
  next
    case (2 x)
    note c = set_state_effect [OF st 2(1) 2(3)]
    have "steps d1 d'" using c(1) unfolding 2(2) program_step_def by (blast intro: Lp_rounds)
    then have "safe d1 d'" using c(3) by (auto simp: safe_step_def 2(2))
    then show ?thesis using safe_step_trans [OF base] c(2) eff(3) by (simp add: 2(2))
  qed
qed

end

subsection \<open>What a tick does to the store\<close>

context scoring_program
begin

lemma advance_one_round_effect:
  assumes run: "advance_one_round cfg budget visits now r sv d = (sv', d', res)"
    and cfg: "rs_program cfg = prog" "rs_schema_id cfg = schema_id" and inv: "loop_inv schema_id d"
  shows "safe d d' \<and> late schema_id now d' \<subseteq> late schema_id now d - {r}"
proof -
  let ?k = "(r, schema_id)"
  show ?thesis
  proof (cases "r \<in> late schema_id now d")
    case False
    consider "d' = d" | w b e where "resolve_due prog budget visits r w now d = (d', b, e)"
        "round_state d ?k \<in> {Some Round_revealed, Some Round_partially_scored}"
      using run cfg False
      by (auto simp: advance_one_round_def Let_def late_def split: option.splits if_splits prod.splits)
    then show ?thesis using False resolve_due_effect by cases auto
  next
    case True
    then obtain w where w: "round_windows d ?k = Some w" "reveal_close w < now" "round_state d ?k = Some Round_open"
      by (auto simp: late_def)
    have score: "score_inv d" using inv by (simp add: loop_inv_def)
    obtain d1 had rows where p: "publish_consensus prog r now d = Inr (d1, had)"
      "publish_consensus_and_reveal ?k rows now d = Inr d1" by (rule publication_succeeds [OF score w(3)])
    have "steps d d1" using p(2) unfolding program_step_def by (blast intro: Lp_publish)
    then have safe: "safe d d1" using publish_late(2) [OF p(2) score] by (auto simp: safe_step_def)
    have late: "late schema_id now d1 \<subseteq> late schema_id now d - {r}" by (rule publish_late(1) [OF p(2) score])
    have st: "round_state d1 ?k = Some Round_revealed" using publish_rounds(1) [OF p(2) score] w(3) by simp
    obtain b e where "resolve_due prog budget visits r w now d1 = (d', b, e)"
      using run cfg w p(1) by (auto simp: advance_one_round_def Let_def split: prod.splits)
    then have "safe d1 d' \<and> late schema_id now d' = late schema_id now d1"
      by (rule resolve_due_effect) (simp add: st)
    then show ?thesis using safe_step_trans [OF safe] late by blast
  qed
qed

lemma advance_each_effect:
  assumes "advance_each cfg budget visits now rs (sv, d, b, f) = (sv', d', b', f')"
    and "rs_program cfg = prog" "rs_schema_id cfg = schema_id" "loop_inv schema_id d"
  shows "safe d d' \<and> late schema_id now d' \<subseteq> late schema_id now d - set rs"
  using assms(1,4)
proof (induction rs arbitrary: sv d b f)
  case (Cons r rs)
  obtain sv1 d1 res where one: "advance_one_round cfg budget (visits r) now r sv d = (sv1, d1, res)"
    by (metis prod.exhaust)
  note eff = advance_one_round_effect [OF one assms(2,3) Cons.prems(2)]
  have "loop_inv schema_id d1" using safe_inv eff Cons.prems(2) by blast
  moreover obtain sv2 b2 f2 where "advance_each cfg budget visits now rs (sv2, d1, b2, f2) = (sv', d', b', f')"
    using Cons.prems(1) one by (cases res) (auto split: prod.splits option.splits)
  ultimately have rest: "safe d1 d' \<and> late schema_id now d' \<subseteq> late schema_id now d1 - set rs" by (rule Cons.IH [rotated])
  have "safe d d'" by (rule safe_step_trans) (use eff rest in blast)+
  then show ?case using eff rest by auto
qed simp

lemma advance_rounds_effect:
  assumes "advance_rounds cfg budget visits now hks sv d = (sv', d', b)"
    and "rs_program cfg = prog" "rs_schema_id cfg = schema_id" "loop_inv schema_id d"
  shows "safe d d' \<and> late schema_id now d' = {}"
proof -
  obtain sv1 d1 b1 f1 where e: "advance_each cfg budget visits now (unfinished_rounds d schema_id) (sv, d, False, False)
      = (sv1, d1, b1, f1)" by (metis prod.exhaust)
  have one: "safe d d1" "late schema_id now d1 = {}"
    using advance_each_effect [OF e assms(2-4)] late_unfinished [of schema_id now d] by blast+
  have "d' = d1 \<or> (\<exists>b'. archive_each schema_id hks (rs_horizons cfg) (d1, b1) = (d', b'))"
    using assms(1,3) e by (auto simp: advance_rounds_def split: if_splits prod.splits)
  then consider "d' = d1" | b' where "archive_each schema_id hks (rs_horizons cfg) (d1, b1) = (d', b')" by blast
  then show ?thesis
  proof cases
    case 1
    then show ?thesis using one by simp
  next
    case 2
    from archive_each_effect [OF this] have op: "table_op d1 d'" and arch: "(archives schema_id hks)\<^sup>*\<^sup>* d1 d'" by simp_all
    have "steps x y" if "archives schema_id hks x y" for x y
      using that Lp_archive by (metis program_step_def)
    then have "archives schema_id hks \<le> steps" by (intro predicate2I)
    then have "steps\<^sup>*\<^sup>* d1 d'" by (rule rtranclp_mono [THEN predicate2D]) (rule arch)
    then have "safe d1 d'" using table_op_effect(4) [OF op] by (simp add: safe_step_def)
    then show ?thesis
      using safe_step_trans [OF one(1)] one(2) table_op_effect(3) [OF op, of schema_id now] by simp
  qed
qed

lemma open_active_round_effect:
  assumes "open_active_round cfg now sv d = Inr (sv', d')" "rs_schema_id cfg = schema_id" "loop_inv schema_id d"
  shows "safe d d'"
proof -
  have "d' = d \<or> (\<exists>w u p. open_round w schema_id (Some u) now (Some p) d = Inr d')"
    using assms(1,2) by (auto simp: open_active_round_def split: sum.splits option.splits if_splits)
  then show ?thesis
  proof
    assume "\<exists>w u p. open_round w schema_id (Some u) now (Some p) d = Inr d'"
    then obtain w u p where o: "open_round w schema_id (Some u) now (Some p) d = Inr d'" by blast
    then have st: "storage_step d d'" by (rule St_open)
    then have "steps d d'" unfolding program_step_def by (blast intro: Lp_rounds)
    moreover have "written_once d d'"
      using tables_ok_storage_step(2) [OF st] assms(3) by (simp add: loop_inv_def)
    ultimately show ?thesis
      using open_round_effect [OF o] closed_resolved_mono [of schema_id "rp_horizons prog" d d']
      by (auto simp: safe_step_def) (metis option.inject round_state.distinct(5))
  qed simp
qed

lemma tick_effect:
  assumes "tick cfg now now_ns visits hks sv world d = (sv', world', d', res)"
    and "rs_program cfg = prog" "rs_schema_id cfg = schema_id" "loop_inv schema_id d"
  shows "safe d d'" "open_active_round cfg now sv d = Inr opened \<Longrightarrow> late schema_id now d' = {}"
proof -
  have "safe d d' \<and> (open_active_round cfg now sv d = Inr opened \<longrightarrow> late schema_id now d' = {})"
  proof (cases "open_active_round cfg now sv d")
    case (Inl e)
    then show ?thesis using assms(1) by (simp add: tick_def)
  next
    case (Inr x)
    obtain sv1 d1 where x: "x = (sv1, d1)" by (metis prod.exhaust)
    obtain sv2 d2 b where a: "advance_rounds cfg (tick_budget cfg now_ns) visits now hks sv1 d1 = (sv2, d2, b)"
      by (metis prod.exhaust)
    have "d' = d2"
      using assms(1) by (auto simp: tick_def Inr x a split: if_splits prod.splits sum.splits)
    moreover have "safe d d1" by (rule open_active_round_effect [OF Inr [unfolded x] assms(3,4)])
    moreover from this have "loop_inv schema_id d1" using safe_inv assms(4) by blast
    ultimately show ?thesis
      using advance_rounds_effect [OF a assms(2,3)] safe_step_trans by blast
  qed
  then show "safe d d'" "open_active_round cfg now sv d = Inr opened \<Longrightarrow> late schema_id now d' = {}" by blast+
qed

end

subsection \<open>Rounds move forward\<close>

text \<open>Rounds move forward only, and past the reveal keep the bundles they are scored from.\<close>

definition moves_forward :: "'a db_scheme \<Rightarrow> 'a db_scheme \<Rightarrow> round_key \<Rightarrow> bool" where
  "moves_forward d d' k \<longleftrightarrow>
     round_state_rank (round_state d k) \<le> round_state_rank (round_state d' k)
     \<and> (1 < round_state_rank (round_state d k)
          \<longrightarrow> (\<forall>limit offset. scoring_bundles d' k limit offset = scoring_bundles d k limit offset))"

lemma moves_forward_refl: "moves_forward d d k"
  by (simp add: moves_forward_def)

lemma moves_forward_trans: "moves_forward a b k \<Longrightarrow> moves_forward b c k \<Longrightarrow> moves_forward a c k"
  by (auto simp: moves_forward_def)

lemma storage_moves_forward:
  assumes "storage_step\<^sup>*\<^sup>* d d1" "same_rounds d1 d'" "storage_inv d"
  shows "moves_forward d d' k"
proof -
  have "scoring_bundles d' k limit offset = scoring_bundles d k limit offset"
    if past: "1 < round_state_rank (round_state d k)" for limit offset
  proof -
    obtain st where "round_state d k = Some st" "st \<noteq> Round_open"
      using past by (cases "round_state d k" rule: round_state_rank.cases) auto
    from closed_round_frozen(1) [OF assms(1,3) this] show ?thesis
      by (simp only: same_roundsD(4) [OF assms(2)])
  qed
  then show ?thesis
    using storage_steps_rank [OF assms(1,3), of k] by (simp add: moves_forward_def same_roundsD(2) [OF assms(2)])
qed

lemma loop_step_forward:
  assumes "loop_step cfg n d d'" "score_inv d"
  shows "moves_forward d d' k"
proof -
  have inv: "storage_inv d" using assms(2) by (simp add: score_inv_def)
  have "\<exists>d1. storage_step\<^sup>*\<^sup>* d d1 \<and> same_rounds d1 d'"
    using assms(1)
  proof cases
    case Lp_rounds
    then show ?thesis using same_rounds_refl by blast
  next
    case (Lp_publish k rows now)
    then show ?thesis using score_step_effect(3) [OF Sc_publish assms(2)] by blast
  next
    case (Lp_pass rid h now archive ctx clock scores)
    then show ?thesis using table_op_effect(1) [OF pass_table_op] by blast
  next
    case (Lp_archive schema h hotkeys b)
    then show ?thesis using table_op_effect(1) [OF archive_table_op] by blast
  qed
  then show ?thesis using storage_moves_forward inv by blast
qed

context scoring_program
begin

lemma steps_forward:
  assumes "steps\<^sup>*\<^sup>* d d'" "loop_inv schema_id d"
  shows "moves_forward d d' k"
  using assms
proof (induction rule: rtranclp_induct)
  case (step d1 d2)
  then obtain e where "loop_step (cfg_of e) half_life d1 d2" by (auto simp: program_step_def)
  moreover have "score_inv d1" using steps_inv [OF step(1) step(4)] by (simp add: loop_inv_def)
  ultimately show ?case using step moves_forward_trans loop_step_forward by blast
qed (rule moves_forward_refl)

end


subsection \<open>The programs of the two schemas\<close>

record risk_world =
  rk_prices :: price_provider
  rk_reveal_close_block :: "datetime \<Rightarrow> archive_failure + int"
  rk_window_end_block :: "(datetime \<Rightarrow> archive_failure + int) option"

text \<open>Blended scores and accepted values read no prices.\<close>

definition no_prices :: price_provider where
  "no_prices = (\<lambda>_ _. Inr None)"

definition risk_program ::
  "(bytes \<Rightarrow> bytes) \<Rightarrow> (string \<Rightarrow> node option) \<Rightarrow> coordinate set \<Rightarrow> (int \<times> int) list
     \<Rightarrow> (risk_world, 'a score_db_scheme) round_program" where
  "risk_program sha256 parse_json active due_seconds =
     \<lparr>rp_schema_id = risk_schema_id,
      rp_parse = (\<lambda>json. map_option Risk_bundle (model_validate_json risk_model parse_json json)),
      rp_blended = blended_scores (risk_scoring_config sha256 parse_json no_prices active :: (risk_output, 'a score_db_scheme) scoring_config),
      rp_resolve = (\<lambda>e clock round_id horizon now due d.
        risk_resolve_and_score (risk_scoring_config sha256 parse_json (rk_prices e) active)
          (rk_reveal_close_block e) (rk_window_end_block e) default_payout_half_life_rounds
          round_id (Some horizon) now (Some due) [] clock d),
      rp_horizons = risk_horizons, rp_due_seconds = due_seconds\<rparr>"

definition lending_program ::
  "(bytes \<Rightarrow> bytes) \<Rightarrow> (string \<Rightarrow> node option) \<Rightarrow> int
     \<Rightarrow> (price_provider, 'a score_db_scheme) round_program" where
  "lending_program sha256 parse_json liquidation_buffer_bps =
     \<lparr>rp_schema_id = forge_lending_schema_id,
      rp_parse = (\<lambda>json. map_option Lending_bundle (model_validate_json lending_model parse_json json)),
      rp_blended = blended_scores (lending_scoring_config sha256 parse_json no_prices liquidation_buffer_bps
         :: (lending_output, 'a score_db_scheme) scoring_config),
      rp_resolve = (\<lambda>prices clock round_id horizon now due d.
        resolve_and_score (lending_scoring_config sha256 parse_json prices liquidation_buffer_bps)
          default_payout_half_life_rounds round_id horizon now [] neutral_context clock d),
      rp_horizons = [lending_horizon_seconds], rp_due_seconds = []\<rparr>"

lemma validated_values_ok:
  "model_validate_json risk_model parse_json json = Some b \<Longrightarrow> a \<in> set (bundle_values (Risk_bundle b)) \<Longrightarrow> values_ok a"
  "model_validate_json lending_model parse_json json = Some c \<Longrightarrow> a \<in> set (bundle_values (Lending_bundle c)) \<Longrightarrow> values_ok a"
proof -
  show "values_ok a" if r: "model_validate_json risk_model parse_json json = Some b" "a \<in> set (bundle_values (Risk_bundle b))"
  proof -
    obtain n where "parse_bundle risk_model n = Inr b"
      using r(1) by (auto simp: model_validate_json_def split: option.splits sum.splits)
    then have "parse_risk_bundle n = Inr (Risk_bundle b)" by (simp add: parse_risk_bundle_def)
    then show ?thesis using parsed_values_ok r(2) by blast
  qed
  show "values_ok a" if r: "model_validate_json lending_model parse_json json = Some c" "a \<in> set (bundle_values (Lending_bundle c))"
  proof -
    obtain n where "parse_bundle lending_model n = Inr c"
      using r(1) by (auto simp: model_validate_json_def split: option.splits sum.splits)
    then have "parse_lending_bundle n = Inr (Lending_bundle c)" by (simp add: parse_lending_bundle_def)
    then show ?thesis using parsed_values_ok r(2) by blast
  qed
qed

lemma risk_pass_is_pass:
  assumes "risk_resolve_and_score cfg rb eb n rid (Some h) now due archive clock d = Inr (d', scores)"
  shows "\<exists>ctx. resolve_and_score cfg n rid h now archive ctx clock d = Inr (d', scores)"
  using assms by (auto simp: risk_resolve_and_score_def Let_def split: option.splits)

interpretation risk_rounds: scoring_program "risk_program sha256 parse_json active due_seconds"
  "\<lambda>e. risk_scoring_config sha256 parse_json (rk_prices e) active" default_payout_half_life_rounds
  for sha256 parse_json active due_seconds
proof
  show "\<exists>ctx archive clock'. resolve_and_score (risk_scoring_config sha256 parse_json (rk_prices e) active)
      default_payout_half_life_rounds rid h now archive ctx clock' d = Inr (d', scores)"
    if "rp_resolve (risk_program sha256 parse_json active due_seconds) e clock rid h now due d = Inr (d', scores)"
    for e clock rid h now due d d' scores
    using that risk_pass_is_pass by (force simp: risk_program_def)
  show "values_ok a" if "rp_parse (risk_program sha256 parse_json active due_seconds) json = Some b"
    "a \<in> set (bundle_values b)" for json b a
    using that validated_values_ok(1) by (fastforce simp: risk_program_def)
qed (simp_all add: risk_scoring_config_def risk_program_def scoring_configs_ok(1) [unfolded risk_scoring_config_def])

interpretation lending_rounds: scoring_program "lending_program sha256 parse_json liquidation_buffer_bps"
  "\<lambda>prices. lending_scoring_config sha256 parse_json prices liquidation_buffer_bps" default_payout_half_life_rounds
  for sha256 parse_json liquidation_buffer_bps
proof
  show "\<exists>ctx archive clock'. resolve_and_score (lending_scoring_config sha256 parse_json e liquidation_buffer_bps)
      default_payout_half_life_rounds rid h now archive ctx clock' d = Inr (d', scores)"
    if "rp_resolve (lending_program sha256 parse_json liquidation_buffer_bps) e clock rid h now due d = Inr (d', scores)"
    for e clock rid h now due d d' scores
    using that by (auto simp: lending_program_def)
  show "values_ok a" if "rp_parse (lending_program sha256 parse_json liquidation_buffer_bps) json = Some b"
    "a \<in> set (bundle_values b)" for json b a
    using that validated_values_ok(2) by (fastforce simp: lending_program_def)
qed (simp_all add: lending_scoring_config_def lending_program_def scoring_configs_ok(2) [unfolded lending_scoring_config_def])

definition risk_service ::
  "(bytes \<Rightarrow> bytes) \<Rightarrow> (string \<Rightarrow> node option) \<Rightarrow> coordinate set \<Rightarrow> (int \<times> int) list \<Rightarrow> round_scheduler
     \<Rightarrow> int option \<Rightarrow> 'w tie_seed_reads \<Rightarrow> string list \<Rightarrow> (risk_world, 'w, 'a score_db_scheme) service_config" where
  "risk_service sha256 parse_json active due_seconds scheduler budget_seconds start registered =
     \<lparr>rs_scheduler = scheduler, rs_fetch_universe = fetch_alpha_risk_universe sha256 alpha_risk_provider,
      rs_schema_id = risk_schema_id, rs_horizons = risk_horizons,
      rs_program = risk_program sha256 parse_json active due_seconds,
      rs_max_targets = Some max_alpha_risk_targets_per_round, rs_budget_seconds = budget_seconds,
      rs_weights = vote_weights sha256 start
        (risk_scoring_config sha256 parse_json no_prices active :: (risk_output, 'a score_db_scheme) scoring_config)
        (Some registered)\<rparr>"

subsection \<open>Properties\<close>

lemma risk_service_fields:
  "rs_program (risk_service sha256 parse_json active due_seconds scheduler budget start registered)
     = risk_program sha256 parse_json active due_seconds"
  "rs_schema_id (risk_service sha256 parse_json active due_seconds scheduler budget start registered)
     = rp_schema_id (risk_program sha256 parse_json active due_seconds :: (risk_world, 'a score_db_scheme) round_program)"
  "rp_schema_id (risk_program sha256 parse_json active due_seconds) = risk_schema_id"
  "rp_horizons (risk_program sha256 parse_json active due_seconds) = risk_horizons"
  by (simp_all add: risk_service_def risk_program_def)

lemma risk_service_schema:
  "rs_schema_id (risk_service sha256 parse_json active due_seconds scheduler budget start registered) = risk_schema_id"
  by (simp add: risk_service_def)

text \<open>C11: after a tick that got past opening the active round, no round is still open whose reveal window
  has closed, whatever the budget, the archive, the clocks and the vote did and whatever older rounds failed.\<close>

theorem tick_reveals_expired_rounds:
  assumes "tick (risk_service sha256 parse_json active due_seconds scheduler budget start registered)
      now now_ns visits archive_hotkeys sv world d = (sv', world', d', res)"
    and "open_active_round (risk_service sha256 parse_json active due_seconds scheduler budget start registered) now sv d
      = Inr opened"
    and "loop_inv risk_schema_id d"
  shows "\<forall>r w. round_state d' (r, risk_schema_id) = Some Round_open \<longrightarrow> round_windows d' (r, risk_schema_id) = Some w
    \<longrightarrow> now \<le> reveal_close w"
proof -
  have "late risk_schema_id now d' = {}"
    using risk_rounds.tick_effect(2) [OF assms(1) risk_service_fields(1,2) _ assms(2)] assms(3)
    by (simp add: risk_service_fields(3))
  then show ?thesis by (force simp: late_def not_less [symmetric])
qed

text \<open>A validator's life: ticks, and between them the transactions of its handlers.\<close>

inductive service_run ::
  "('e, 'w, 'a score_db_scheme) service_config \<Rightarrow> 'a score_db_scheme \<Rightarrow> round_service \<Rightarrow> bool"
  for cfg where
  Run_start: "loop_inv (rs_schema_id cfg) d \<Longrightarrow> closed_resolved (rs_schema_id cfg) (rp_horizons (rs_program cfg)) d
     \<Longrightarrow> service_run cfg d new_round_service"
| Run_commit: "service_run cfg d sv \<Longrightarrow> record_commit k h ch t m d = (d', b) \<Longrightarrow> service_run cfg d' sv"
| Run_attempt: "service_run cfg d sv \<Longrightarrow> record_reveal_attempt k h m d = (d', b) \<Longrightarrow> service_run cfg d' sv"
| Run_reveal: "service_run cfg d sv \<Longrightarrow> record_reveal k h bj n acc code t d = (d', b) \<Longrightarrow> service_run cfg d' sv"
| Run_tick: "service_run cfg d sv \<Longrightarrow>
     tick cfg now now_ns visits archive_hotkeys sv world d = (sv', world', d', res) \<Longrightarrow> service_run cfg d' sv'"

lemma handler_step_effect:
  assumes "storage_step d d'" "\<And>k. round_state d' k = round_state d k" "loop_inv s d"
  shows "loop_inv s d' \<and> (closed_resolved s hs d \<longrightarrow> closed_resolved s hs d')"
proof -
  have w: "written_once d d'" using tables_ok_storage_step(2) [OF assms(1)] assms(3) by (simp add: loop_inv_def)
  have "loop_inv s d'"
    using storage_step_tables(5,6) [OF assms(1)] by (intro loop_inv_keep [OF assms(3)] Sc_rounds assms(1)) simp_all
  then show ?thesis using closed_resolved_mono [OF _ w] assms(2) by simp
qed

lemma service_run_inv:
  assumes "service_run (risk_service sha256 parse_json active due_seconds scheduler budget start registered) d sv"
  shows "loop_inv risk_schema_id d \<and> closed_resolved risk_schema_id risk_horizons d"
proof -
  let ?cfg = "risk_service sha256 parse_json active due_seconds scheduler budget start registered"
  note f = risk_service_fields
  show ?thesis
    using assms
  proof (induction rule: service_run.induct)
    case (Run_start d)
    then show ?case by (simp add: f(1,3,4) risk_service_schema)
  next
    case (Run_commit d sv k h ch t m d' b)
    then show ?case
      using handler_step_effect [OF St_commit [OF Run_commit(2)]] record_commit_frame(1) [OF Run_commit(2)] by blast
  next
    case (Run_attempt d sv k h m d' b)
    then show ?case
      using handler_step_effect [OF St_attempt [OF Run_attempt(2)]] record_reveal_attempt_frame(1) [OF Run_attempt(2)] by blast
  next
    case (Run_reveal d sv k h bj n acc code t d' b)
    then show ?case
      using handler_step_effect [OF St_reveal [OF Run_reveal(2)]] record_reveal_frame(1) [OF Run_reveal(2)] by blast
  next
    case (Run_tick d sv now now_ns visits hks world sv' world' d' res)
    have inv: "loop_inv (rp_schema_id (risk_program sha256 parse_json active due_seconds
        :: (risk_world, 'b score_db_scheme) round_program)) d"
      using Run_tick by (simp add: f)
    note safe = risk_rounds.tick_effect(1) [OF Run_tick(2) f(1,2) inv]
    from risk_rounds.safe_inv [OF this inv] safe Run_tick(3) show ?case by (simp add: f safe_step_def)
  qed
qed

text \<open>What happens to the database of a running validator, over restarts of its service.\<close>

inductive service_step ::
  "('e, 'w, 'a score_db_scheme) service_config \<Rightarrow> 'a score_db_scheme \<Rightarrow> 'a score_db_scheme \<Rightarrow> bool" for cfg where
  Sv_commit: "record_commit k h ch t m d = (d', b) \<Longrightarrow> service_step cfg d d'"
| Sv_attempt: "record_reveal_attempt k h m d = (d', b) \<Longrightarrow> service_step cfg d d'"
| Sv_reveal: "record_reveal k h bj n acc code t d = (d', b) \<Longrightarrow> service_step cfg d d'"
| Sv_tick: "tick cfg now now_ns visits archive_hotkeys sv world d = (sv', world', d', res) \<Longrightarrow> service_step cfg d d'"

lemma service_step_forward:
  fixes d :: "'d score_db_scheme"
  assumes "service_step (risk_service sha256 parse_json active due_seconds scheduler budget start registered) d d'"
    and "loop_inv risk_schema_id d"
  shows "moves_forward d d' k" "loop_inv risk_schema_id d'"
proof -
  let ?prog = "risk_program sha256 parse_json active due_seconds :: (risk_world, 'd score_db_scheme) round_program"
  have handler: "moves_forward d d' k \<and> loop_inv risk_schema_id d'"
    if s: "storage_step d d'" "\<And>k. round_state d' k = round_state d k"
  proof -
    have "storage_inv d" using assms(2) by (simp add: loop_inv_def score_inv_def)
    then show ?thesis
      using storage_moves_forward [OF r_into_rtranclp [where r = storage_step, OF s(1)] same_rounds_refl]
        handler_step_effect [OF s assms(2), of "[]"] by blast
  qed
  have "moves_forward d d' k \<and> loop_inv risk_schema_id d'"
    using assms(1)
  proof cases
    case (Sv_commit k h ch t m b)
    show ?thesis by (rule handler [OF St_commit [OF Sv_commit] record_commit_frame(1) [OF Sv_commit]])
  next
    case (Sv_attempt k h m b)
    show ?thesis by (rule handler [OF St_attempt [OF Sv_attempt] record_reveal_attempt_frame(1) [OF Sv_attempt]])
  next
    case (Sv_reveal k h bj n acc code t b)
    show ?thesis by (rule handler [OF St_reveal [OF Sv_reveal] record_reveal_frame(1) [OF Sv_reveal]])
  next
    case (Sv_tick now now_ns visits archive_hotkeys sv world sv' world' res)
    have inv: "loop_inv (rp_schema_id ?prog) d" using assms(2) by (simp add: risk_service_fields(3))
    note safe = risk_rounds.tick_effect(1) [OF Sv_tick risk_service_fields(1,2) inv]
    then show ?thesis
      using risk_rounds.steps_forward [OF _ inv] risk_rounds.safe_inv [OF safe inv]
      by (simp add: safe_step_def risk_service_fields(3))
  qed
  then show "moves_forward d d' k" "loop_inv risk_schema_id d'" by simp_all
qed


text \<open>C12: at any point of a validator's life, across restarts with the same database, every transaction
  has kept the invariant of the scoring loop, and a closed round has all its horizons resolved.\<close>

theorem service_keeps_loop_invariant:
  assumes "service_run (risk_service sha256 parse_json active due_seconds scheduler budget start registered) d sv"
  shows "loop_inv risk_schema_id d \<and> (\<forall>r. round_state d (r, risk_schema_id) = Some Round_closed
    \<longrightarrow> (\<forall>h \<in> set risk_horizons. has_resolution_marker d (r, risk_schema_id) h))"
  using service_run_inv [OF assms] by (simp add: closed_resolved_def)

text \<open>A tick one microsecond after the reveal window of the demo round.\<close>

definition demo_scheduler :: round_scheduler where
  "demo_scheduler = \<lparr>sch_active_window = (\<lambda>_. Inr None), sch_publication_at = (\<lambda>w. Inr (reveal_close w))\<rparr>"

definition demo_service :: "(risk_world, nat, score_db) service_config" where
  "demo_service = risk_service (\<lambda>_. []) (\<lambda>_. None) {} [] demo_scheduler (Some 60) demo_start []"

definition demo_visits :: "string \<Rightarrow> int \<Rightarrow> risk_world visit" where
  "demo_visits = (\<lambda>_ _. \<lparr>vi_clock = (\<lambda>n. int n), vi_world =
     \<lparr>rk_prices = no_prices, rk_reveal_close_block = (\<lambda>_. Inr 600), rk_window_end_block = None\<rparr>\<rparr>)"

definition demo_tick :: "round_service \<times> nat \<times> score_db \<times> (tick_error + (string \<times> rat) list option)" where
  "demo_tick = tick demo_service 41 0 demo_visits [] new_round_service 0 demo_round"

definition demo_ticked :: score_db where
  "demo_ticked = fst (snd (snd demo_tick))"

lemma demo_tick_eq: "demo_tick = (fst demo_tick, fst (snd demo_tick), demo_ticked, snd (snd (snd demo_tick)))"
  by (simp add: demo_ticked_def)

lemma demo_round_inv: "loop_inv risk_schema_id demo_round"
proof -
  have "open_round demo_windows (snd demo_key) (Some demo_universe) 10 None empty_score_db = Inr demo_round"
    by (simp add: demo_round_def open_round_def demo_windows_def Let_def empty_score_db_def
        empty_db_def db.defs round_of_def)
  then have st: "storage_step empty_score_db demo_round" by (rule St_open)
  show ?thesis
    by (rule loop_inv_keep [OF empty_loop_inv Sc_rounds [OF st]])
      (use storage_step_tables(5,6) [OF st] in simp_all)
qed

lemma demo_ticked_reads:
  "round_windows demo_ticked (''2025-01-02'', risk_schema_id) = Some demo_windows" "reveal_close demo_windows = 40"
  "open_active_round demo_service 41 new_round_service demo_round = Inr (new_round_service, demo_round)"
  by code_simp+

lemma tick_reveals_expired_rounds_witness:
  "round_state demo_ticked (''2025-01-02'', risk_schema_id) \<noteq> Some Round_open"
  using tick_reveals_expired_rounds [OF demo_tick_eq [unfolded demo_tick_def demo_service_def]
      demo_ticked_reads(3) [unfolded demo_service_def] demo_round_inv] demo_ticked_reads(1,2) by fastforce

lemma service_keeps_loop_invariant_witness:
  "loop_inv risk_schema_id demo_ticked"
proof -
  have "sd_markers demo_round = []" "round_state demo_round (r, s) \<noteq> Some Round_closed" for r s
    by (simp_all add: demo_round_def open_round_def demo_windows_def Let_def empty_score_db_def
        empty_db_def db.defs round_of_def round_state_def)
  then have "closed_resolved risk_schema_id risk_horizons demo_round" by (simp add: closed_resolved_def)
  then have "service_run demo_service demo_round new_round_service"
    using demo_round_inv by (intro Run_start) (simp_all add: demo_service_def risk_service_fields(1,4) risk_service_schema)
  from Run_tick [OF this demo_tick_eq [unfolded demo_tick_def]] show ?thesis
    using service_keeps_loop_invariant unfolding demo_service_def by blast
qed

text \<open>
  C4: While a validator runs its ticks and handlers, the life cycle of a round only moves forward: absent,
  open, revealed, partially scored, closed; and once it is past its reveal, every page of the bundles
  it is scored from stays as it is.
\<close>

theorem round_state_never_rewinds:
  assumes "service_run (risk_service sha256 parse_json active due_seconds scheduler budget start registered) d sv"
    and "(service_step (risk_service sha256 parse_json active due_seconds scheduler budget start registered))\<^sup>*\<^sup>* d d'"
  shows "round_state_rank (round_state d k) \<le> round_state_rank (round_state d' k)
    \<and> (1 < round_state_rank (round_state d k)
        \<longrightarrow> scoring_bundles d' k limit offset = scoring_bundles d k limit offset)"
proof -
  have "moves_forward d d' k \<and> loop_inv risk_schema_id d'"
    using assms(2)
  proof (induction rule: rtranclp_induct)
    case base
    then show ?case using service_run_inv [OF assms(1)] by (simp add: moves_forward_refl)
  next
    case (step d1 d2)
    then show ?case using service_step_forward [OF step(2)] moves_forward_trans by blast
  qed
  then show ?thesis by (simp add: moves_forward_def)
qed

definition demo_second_tick :: "round_service \<times> nat \<times> score_db \<times> (tick_error + (string \<times> rat) list option)" where
  "demo_second_tick = tick demo_service 42 0 demo_visits [] new_round_service 0 demo_ticked"

lemma round_state_never_rewinds_witness:
  "1 < round_state_rank (round_state (fst (snd (snd demo_second_tick))) (''2025-01-02'', risk_schema_id))
   \<and> scoring_bundles (fst (snd (snd demo_second_tick))) (''2025-01-02'', risk_schema_id) None 0
     = scoring_bundles demo_ticked (''2025-01-02'', risk_schema_id) None 0"
proof -
  have "sd_markers demo_round = []" "round_state demo_round (r, s) \<noteq> Some Round_closed" for r s
    by (simp_all add: demo_round_def open_round_def demo_windows_def Let_def empty_score_db_def
        empty_db_def db.defs round_of_def round_state_def)
  then have "closed_resolved risk_schema_id risk_horizons demo_round" by (simp add: closed_resolved_def)
  then have "service_run demo_service demo_round new_round_service"
    using demo_round_inv by (intro Run_start) (simp_all add: demo_service_def risk_service_fields(1,4) risk_service_schema)
  note run = Run_tick [OF this demo_tick_eq [unfolded demo_tick_def]]
  have "service_step demo_service demo_ticked (fst (snd (snd demo_second_tick)))"
    by (rule Sv_tick [where sv' = "fst demo_second_tick" and world' = "fst (snd demo_second_tick)"
        and res = "snd (snd (snd demo_second_tick))"]) (simp add: demo_second_tick_def)
  then have steps: "(service_step demo_service)\<^sup>*\<^sup>* demo_ticked (fst (snd (snd demo_second_tick)))" by blast
  have "round_state_rank (round_state demo_ticked (''2025-01-02'', risk_schema_id)) = 2" by code_simp
  then show ?thesis
    using round_state_never_rewinds [OF run [unfolded demo_service_def] steps [unfolded demo_service_def],
        of "(''2025-01-02'', risk_schema_id)" None 0] by simp
qed

end
