(* ===== verification/Miner_Baseline.thy ===== *)
theory Miner_Baseline
  imports Submission
begin

text \<open>
  The reference miners (\<open>endure/protocol/risk_miner.py\<close>, \<open>lending_miner.py\<close>): the deterministic bundle
  of a round and its assembly.  Building a bundle runs the validators of the schema's models on
  typed values; the theorems say that they always pass.  The pool observations are a parameter.
\<close>

subsection \<open>Construction of a model from typed values\<close>

text \<open>The fields are validated together, the model validator runs on what they return.\<close>

definition construct_output :: "'o schema_model \<Rightarrow> 'o output_value \<Rightarrow> 'o output_value parsed" where
  "construct_output m v =
     ebind (pap (pap (pap (Inr (\<lambda>c rs h. v\<lparr>ov_confidence := c, ov_reason_codes := rs, ov_horizon := h\<rparr>))
              (raising (validate_confidence_bps (ov_confidence v))))
              (raising (validate_reason_codes (ov_reason_codes v))))
              (raising (horizon_validator m (ov_horizon v)))) (\<lambda>v.
     ebind (raising (validate_against_spec (sm_name m (ov_output v)) v (sm_spec m (ov_output v)))) (\<lambda>_. Inr v))"

definition construct_asset :: "'o schema_model \<Rightarrow> int \<Rightarrow> 'o output_value list \<Rightarrow> 'o asset_submission parsed" where
  "construct_asset m netuid outs =
     ebind (pap (pap (Inr (\<lambda>n outs. \<lparr>as_netuid = n, as_outputs = outs\<rparr>))
              (raising (netuid_validator netuid)))
              (raising (ebind (sm_check_outputs m outs) (\<lambda>_. Inr outs)))) (\<lambda>a.
     ebind (raising (sm_check_asset m (as_outputs a))) (\<lambda>_. Inr a))"

definition construct_bundle ::
  "'o schema_model \<Rightarrow> string \<Rightarrow> 'o asset_submission list \<Rightarrow> 'o submission_bundle parsed" where
  "construct_bundle m round_id assets =
     pap (pap (Inr (\<lambda>r as. \<lparr>sb_round_id = r, sb_schema_id = sm_schema_id m, sb_assets = as\<rparr>))
       (raising (round_id_validator round_id)))
       (raising (assets_validator assets))"

subsection \<open>The Alpha Risk baseline\<close>

definition risk_baseline_reason_code :: string where
  "risk_baseline_reason_code = ''baseline_persistence''"

definition baseline_bps_values :: "(risk_output \<times> int) \<Rightarrow> int option" where
  "baseline_bps_values =
     map_of [((Max_drawdown, horizon_5d_seconds), 1500), ((Max_drawdown, horizon_30d_seconds), 3000),
       ((Realized_volatility, horizon_5d_seconds), 8000), ((Realized_volatility, horizon_30d_seconds), 8000)]"

record baseline_observation =
  lo_price_rao :: int
  lo_tao_reserve_rao :: int

definition risk_output_value :: "risk_output \<Rightarrow> int \<Rightarrow> int \<Rightarrow> risk_output output_value parsed" where
  "risk_output_value out v h =
     construct_output risk_model
       \<lparr>ov_output = out, ov_value = v, ov_confidence = confidence_floor_bps (risk_spec out),
        ov_reason_codes = [risk_baseline_reason_code], ov_horizon = h, ov_unit = ps_unit (risk_spec out)\<rparr>"

text \<open>The table has an entry for each horizon of the loop, so its lookups do not fail.\<close>

definition baseline_asset_outputs :: "baseline_observation \<Rightarrow> risk_output output_value list parsed" where
  "baseline_asset_outputs obs =
     etraverse (\<lambda>(out, v, h). risk_output_value out v h)
       (concat (map (\<lambda>h.
          [(Max_drawdown, the (baseline_bps_values (Max_drawdown, h)), h),
           (Realized_volatility, the (baseline_bps_values (Realized_volatility, h)), h),
           (Twap_price, lo_price_rao obs, h),
           (Liquidity_depth, lo_tao_reserve_rao obs, h)]) risk_horizons))"

definition baseline_risk_assets ::
  "(int \<Rightarrow> baseline_observation option) \<Rightarrow> int list \<Rightarrow> risk_output asset_submission list parsed" where
  "baseline_risk_assets latest netuids =
     ebind (etraverse (\<lambda>n. case latest n of
              None \<Rightarrow> Inr []
            | Some obs \<Rightarrow> ebind (baseline_asset_outputs obs) (\<lambda>outs.
                ebind (construct_asset risk_model n outs) (\<lambda>a. Inr [a]))) netuids) (\<lambda>as. Inr (concat as))"

definition baseline_risk_bundle ::
  "string \<Rightarrow> int list \<Rightarrow> (int \<Rightarrow> baseline_observation option) \<Rightarrow> risk_output submission_bundle parsed" where
  "baseline_risk_bundle round_id netuids latest =
     ebind (baseline_risk_assets latest (sorted_list_of_set (set netuids))) (construct_bundle risk_model round_id)"

datatype assembly_error = Invalid_bundle "wire_error list" | Not_canonical canonical_error

definition assemble_model ::
  "(bytes \<Rightarrow> bytes) \<Rightarrow> 'o schema_model \<Rightarrow> 'o submission_bundle parsed \<Rightarrow> string \<Rightarrow> bytes
     \<Rightarrow> assembly_error + assembled_submission" where
  "assemble_model blake2b m b hotkey nonce =
     (case b of
        Inl e \<Rightarrow> Inl (Invalid_bundle e)
      | Inr b \<Rightarrow> (case assemble_bundle blake2b (to_canonical_payload m b) hotkey nonce of
            Inl e \<Rightarrow> Inl (Not_canonical e) | Inr a \<Rightarrow> Inr a))"

definition risk_baseline_assembler ::
  "(bytes \<Rightarrow> bytes) \<Rightarrow> int list \<Rightarrow> string \<Rightarrow> (int \<Rightarrow> baseline_observation option) \<Rightarrow> bytes \<Rightarrow> string
     \<Rightarrow> assembly_error + assembled_submission" where
  "risk_baseline_assembler blake2b netuids hotkey latest nonce round_id =
     assemble_model blake2b risk_model (baseline_risk_bundle round_id netuids latest) hotkey nonce"

subsection \<open>The lending baseline\<close>

definition lending_baseline_reason_code :: string where
  "lending_baseline_reason_code = ''baseline_conservative''"

definition baseline_lending_values :: "(lending_output \<times> int) list" where
  "baseline_lending_values =
     [(Safe_asset_price, one_e18 div 100), (Collateral_factor, 5000), (Liquidation_threshold, 6000),
      (Liquidation_incentive, one_e18 + one_e18 div 10), (Supply_cap, 0), (Borrow_cap, 0), (Risk_tier, 6)]"

definition lending_output_values :: "lending_output output_value list parsed" where
  "lending_output_values =
     etraverse (\<lambda>(out, v). construct_output lending_model
       \<lparr>ov_output = out, ov_value = v, ov_confidence = confidence_floor_bps (lending_spec out),
        ov_reason_codes = [lending_baseline_reason_code], ov_horizon = lending_horizon_seconds,
        ov_unit = ps_unit (lending_spec out)\<rparr>) baseline_lending_values"

definition baseline_lending_bundle :: "string \<Rightarrow> int list \<Rightarrow> lending_output submission_bundle parsed" where
  "baseline_lending_bundle round_id netuids =
     ebind (etraverse (\<lambda>n. ebind lending_output_values (construct_asset lending_model n))
              (sorted_list_of_set (set netuids))) (construct_bundle lending_model round_id)"

definition lending_baseline_assembler ::
  "(bytes \<Rightarrow> bytes) \<Rightarrow> int list \<Rightarrow> string \<Rightarrow> bytes \<Rightarrow> string \<Rightarrow> assembly_error + assembled_submission" where
  "lending_baseline_assembler blake2b netuids hotkey nonce round_id =
     assemble_model blake2b lending_model (baseline_lending_bundle round_id netuids) hotkey nonce"

subsection \<open>Construction yields what the schema's parser reads\<close>

lemma construct_bundle_ok:
  assumes "fromisoformat round_id \<noteq> None" "assets \<noteq> []" "length assets \<le> max_assets_per_bundle"
    "distinct (map as_netuid assets)" "\<forall>a \<in> set assets. asset_ok m a"
  shows "\<exists>b. construct_bundle m round_id assets = Inr b \<and> bundle_ok m b \<and> sb_assets b = assets"
proof -
  have "round_id_validator round_id = Inr round_id" "assets_validator assets = Inr assets"
    using assms(1-4) by (auto simp: round_id_validator_Inr assets_validator_Inr)
  then show ?thesis using assms by (auto simp: construct_bundle_def bundle_ok_def)
qed

definition risk_baseline_value :: "risk_output \<Rightarrow> int \<Rightarrow> int \<Rightarrow> risk_output output_value" where
  "risk_baseline_value out v h =
     \<lparr>ov_output = out, ov_value = v, ov_confidence = 1000, ov_reason_codes = [risk_baseline_reason_code],
      ov_horizon = h, ov_unit = ps_unit (risk_spec out)\<rparr>"

definition observation_ok :: "baseline_observation \<Rightarrow> bool" where
  "observation_ok obs \<longleftrightarrow> 1 \<le> lo_price_rao obs \<and> lo_price_rao obs \<le> risk_value_max_int64
     \<and> 0 \<le> lo_tao_reserve_rao obs \<and> lo_tao_reserve_rao obs \<le> risk_value_max_int64"

lemma baseline_reason_codes:
  "validate_reason_codes [risk_baseline_reason_code] = Inr [risk_baseline_reason_code]"
  "validate_reason_codes [lending_baseline_reason_code] = Inr [lending_baseline_reason_code]"
  by code_simp+

lemma risk_output_value_Inr:
  assumes "h \<in> set risk_horizons" "min_value (risk_spec out) \<le> v"
    "case max_value (risk_spec out) of None \<Rightarrow> True | Some m \<Rightarrow> v \<le> m"
  shows "risk_output_value out v h = Inr (risk_baseline_value out v h)
    \<and> output_ok risk_model (risk_baseline_value out v h)"
proof -
  have c: "confidence_floor_bps (risk_spec out) = 1000" by (cases out) (simp_all add: risk_spec_defs)
  have "validate_against_spec (risk_output_name out) (risk_baseline_value out v h) (risk_spec out) = Inr ()"
    using assms(2,3) by (cases "max_value (risk_spec out)") (simp_all add: validate_against_spec_Inr risk_baseline_value_def c)
  moreover have "map_of (sm_outputs risk_model) (risk_output_name out) = Some out"
    by (cases out) (simp_all add: risk_model_def risk_outputs_def)
  ultimately show ?thesis
    using assms(1)
    by (simp add: risk_output_value_def construct_output_def c validate_confidence_bps_def max_confidence_bps_def
        baseline_reason_codes horizon_validator_def output_ok_def risk_model_def risk_baseline_value_def)
qed

definition risk_baseline_asset :: "int \<Rightarrow> baseline_observation \<Rightarrow> risk_output asset_submission" where
  "risk_baseline_asset n obs =
     \<lparr>as_netuid = n, as_outputs = map (\<lambda>(out, v, h). risk_baseline_value out v h)
        (concat (map (\<lambda>h.
          [(Max_drawdown, the (baseline_bps_values (Max_drawdown, h)), h),
           (Realized_volatility, the (baseline_bps_values (Realized_volatility, h)), h),
           (Twap_price, lo_price_rao obs, h),
           (Liquidity_depth, lo_tao_reserve_rao obs, h)]) risk_horizons))\<rparr>"

lemma risk_baseline_asset_ok:
  assumes "observation_ok obs" "0 \<le> n"
  shows "baseline_asset_outputs obs = Inr (as_outputs (risk_baseline_asset n obs))"
    "construct_asset risk_model n (as_outputs (risk_baseline_asset n obs)) = Inr (risk_baseline_asset n obs)"
    "asset_ok risk_model (risk_baseline_asset n obs)"
proof -
  have entries: "risk_output_value out v h = Inr (risk_baseline_value out v h)
      \<and> output_ok risk_model (risk_baseline_value out v h)"
    if "(out, v, h) \<in> set (concat (map (\<lambda>h.
          [(Max_drawdown, the (baseline_bps_values (Max_drawdown, h)), h),
           (Realized_volatility, the (baseline_bps_values (Realized_volatility, h)), h),
           (Twap_price, lo_price_rao obs, h),
           (Liquidity_depth, lo_tao_reserve_rao obs, h)]) risk_horizons))" for out v h
    using that assms(1)
    by (intro risk_output_value_Inr)
      (auto simp: risk_horizons_def baseline_bps_values_def horizon_5d_seconds_def horizon_30d_seconds_def
        observation_ok_def risk_spec_defs)
  show "baseline_asset_outputs obs = Inr (as_outputs (risk_baseline_asset n obs))"
    unfolding baseline_asset_outputs_def risk_baseline_asset_def asset_submission.simps
    by (rule etraverse_map) (use entries in auto)
  have "validate_risk_outputs (as_outputs (risk_baseline_asset n obs)) = Inr ()"
    by (auto simp: validate_risk_outputs_Inr risk_baseline_asset_def risk_baseline_value_def risk_output_keys_def
        risk_outputs_def risk_horizons_def horizon_5d_seconds_def horizon_30d_seconds_def)
  then have checks: "sm_check_outputs risk_model (as_outputs (risk_baseline_asset n obs)) = Inr ()"
    "\<And>a. sm_check_asset risk_model a = Inr ()" by (simp_all add: risk_model_def)
  have n: "as_netuid (risk_baseline_asset n obs) = n" by (simp add: risk_baseline_asset_def)
  then show "construct_asset risk_model n (as_outputs (risk_baseline_asset n obs)) = Inr (risk_baseline_asset n obs)"
    using assms(2) checks by (simp add: construct_asset_def netuid_validator_def risk_baseline_asset_def)
  have "\<forall>v \<in> set (as_outputs (risk_baseline_asset n obs)). output_ok risk_model v"
    unfolding risk_baseline_asset_def using entries by fastforce
  then show "asset_ok risk_model (risk_baseline_asset n obs)" using assms(2) checks n by (simp add: asset_ok_def)
qed

lemma baseline_risk_assets_ok:
  assumes "\<forall>n \<in> set ns. 0 \<le> n" "\<forall>n obs. latest n = Some obs \<longrightarrow> observation_ok obs"
  shows "\<exists>as. baseline_risk_assets latest ns = Inr as \<and> map as_netuid as = filter (\<lambda>n. latest n \<noteq> None) ns
    \<and> (\<forall>a \<in> set as. asset_ok risk_model a)"
proof -
  let ?g = "\<lambda>n. case latest n of None \<Rightarrow> [] | Some obs \<Rightarrow> [risk_baseline_asset n obs]"
  have "baseline_risk_assets latest ns = Inr (concat (map ?g ns))"
  proof -
    have "etraverse (\<lambda>n. case latest n of
              None \<Rightarrow> Inr []
            | Some obs \<Rightarrow> ebind (baseline_asset_outputs obs) (\<lambda>outs.
                ebind (construct_asset risk_model n outs) (\<lambda>a. Inr [a]))) ns = Inr (map ?g ns)"
      by (rule etraverse_map)
        (use assms risk_baseline_asset_ok(1,2) in \<open>auto split: option.split\<close>)
    then show ?thesis by (simp add: baseline_risk_assets_def)
  qed
  moreover have "map as_netuid (concat (map ?g ns)) = filter (\<lambda>n. latest n \<noteq> None) ns"
    by (induction ns) (auto simp: risk_baseline_asset_def split: option.split)
  moreover have "\<forall>a \<in> set (concat (map ?g ns)). asset_ok risk_model a"
    using assms risk_baseline_asset_ok(3) by (auto split: option.splits)
  ultimately show ?thesis by blast
qed

definition lending_baseline_asset :: "int \<Rightarrow> lending_output asset_submission" where
  "lending_baseline_asset n =
     \<lparr>as_netuid = n, as_outputs = map (\<lambda>(out, v).
        \<lparr>ov_output = out, ov_value = v, ov_confidence = confidence_floor_bps (lending_spec out),
         ov_reason_codes = [lending_baseline_reason_code], ov_horizon = lending_horizon_seconds,
         ov_unit = ps_unit (lending_spec out)\<rparr>) baseline_lending_values\<rparr>"

lemma lending_baseline_values:
  "lending_output_values = Inr (as_outputs (lending_baseline_asset n))"
  "validate_lending_outputs (as_outputs (lending_baseline_asset n)) = Inr ()"
  "validate_cross_output (as_outputs (lending_baseline_asset n)) = Inr ()"
proof -
  have eq: "as_outputs (lending_baseline_asset n) = as_outputs (lending_baseline_asset 0)" for n
    by (simp add: lending_baseline_asset_def)
  show "lending_output_values = Inr (as_outputs (lending_baseline_asset n))" by (subst eq) code_simp
  show "validate_lending_outputs (as_outputs (lending_baseline_asset n)) = Inr ()" by (subst eq) code_simp
  show "validate_cross_output (as_outputs (lending_baseline_asset n)) = Inr ()" by (subst eq) code_simp
qed

lemma lending_baseline_asset_ok:
  assumes "0 \<le> n"
  shows "ebind lending_output_values (construct_asset lending_model n) = Inr (lending_baseline_asset n)"
    "asset_ok lending_model (lending_baseline_asset n)"
proof -
  have checks: "sm_check_outputs lending_model (as_outputs (lending_baseline_asset n)) = Inr ()"
    "sm_check_asset lending_model (as_outputs (lending_baseline_asset n)) = Inr ()"
    using lending_baseline_values(2,3) by (simp_all add: lending_model_def)
  have n: "as_netuid (lending_baseline_asset n) = n" by (simp add: lending_baseline_asset_def)
  have "construct_asset lending_model n (as_outputs (lending_baseline_asset n)) = Inr (lending_baseline_asset n)"
    using assms checks by (simp add: construct_asset_def netuid_validator_def lending_baseline_asset_def)
  then show "ebind lending_output_values (construct_asset lending_model n) = Inr (lending_baseline_asset n)"
    by (simp only: lending_baseline_values(1) [of n] ebind_simps)
  have "output_ok lending_model v" if v: "v \<in> set (as_outputs (lending_baseline_asset n))" for v
  proof -
    have c: "\<forall>(out, v) \<in> set baseline_lending_values. min_value (lending_spec out) \<le> v
        \<and> (case max_value (lending_spec out) of None \<Rightarrow> True | Some m \<Rightarrow> v \<le> m)
        \<and> 0 \<le> confidence_floor_bps (lending_spec out) \<and> confidence_floor_bps (lending_spec out) \<le> max_confidence_bps
        \<and> map_of (sm_outputs lending_model) (lending_output_name out) = Some out"
      by code_simp
    obtain out x where o: "(out, x) \<in> set baseline_lending_values"
      "v = \<lparr>ov_output = out, ov_value = x, ov_confidence = confidence_floor_bps (lending_spec out),
         ov_reason_codes = [lending_baseline_reason_code], ov_horizon = lending_horizon_seconds,
         ov_unit = ps_unit (lending_spec out)\<rparr>"
      using v unfolding lending_baseline_asset_def by fastforce
    from bspec [OF c o(1)] show ?thesis
      by (cases "max_value (lending_spec out)")
        (simp_all add: o(2) output_ok_def validate_against_spec_Inr baseline_reason_codes lending_model_def)
  qed
  then show "asset_ok lending_model (lending_baseline_asset n)" using assms checks n by (simp add: asset_ok_def)
qed

text \<open>
  C35: the reference miners are always schema-valid: for a canonical round and at least one but no more
  than the cap of observed netuids, the Alpha Risk baseline passes every validator, covers exactly the
  observed netuids in order, and the parser of the schema reads its canonical payload back; so does
  the lending baseline for the netuids it is given.
\<close>

theorem baseline_bundles_are_valid:
  assumes "fromisoformat round_id \<noteq> None" "\<forall>n \<in> set netuids. 0 \<le> n"
    and "\<forall>n obs. latest n = Some obs \<longrightarrow> observation_ok obs"
    and "observed = filter (\<lambda>n. latest n \<noteq> None) (sorted_list_of_set (set netuids))"
    and "observed \<noteq> []" "length (sorted_list_of_set (set netuids)) \<le> max_assets_per_bundle"
  shows "(\<exists>b. baseline_risk_bundle round_id netuids latest = Inr b \<and> bundle_ok risk_model b
      \<and> map as_netuid (sb_assets b) = observed
      \<and> parse_bundle risk_model (sort_keys (to_canonical_payload risk_model b)) = Inr (canon_bundle risk_model b))
    \<and> (\<exists>b. baseline_lending_bundle round_id netuids = Inr b \<and> bundle_ok lending_model b
      \<and> map as_netuid (sb_assets b) = sorted_list_of_set (set netuids)
      \<and> parse_bundle lending_model (sort_keys (to_canonical_payload lending_model b)) = Inr (canon_bundle lending_model b))"
proof (rule conjI)
  let ?ns = "sorted_list_of_set (set netuids)"
  have nonneg: "0 \<le> n" if "n \<in> set ?ns" for n using assms(2) that by simp
  have ne: "?ns \<noteq> []" using assms(4,5) by auto
  show "\<exists>b. baseline_risk_bundle round_id netuids latest = Inr b \<and> bundle_ok risk_model b
      \<and> map as_netuid (sb_assets b) = observed
      \<and> parse_bundle risk_model (sort_keys (to_canonical_payload risk_model b)) = Inr (canon_bundle risk_model b)"
  proof -
    obtain as where as: "baseline_risk_assets latest ?ns = Inr as" "map as_netuid as = observed"
      "\<forall>a \<in> set as. asset_ok risk_model a"
      using baseline_risk_assets_ok [of ?ns latest] nonneg assms(3,4) by blast
    have "length as \<le> max_assets_per_bundle"
      using as(2) assms(4,6) length_filter_le [of "\<lambda>n. latest n \<noteq> None" ?ns] by (metis length_map order_trans)
    moreover have "as \<noteq> []" "distinct (map as_netuid as)" using as(2) assms(4,5) by auto
    ultimately obtain b where "construct_bundle risk_model round_id as = Inr b" "bundle_ok risk_model b" "sb_assets b = as"
      using construct_bundle_ok [OF assms(1)] as(3) by blast
    then show ?thesis
      using as(1,2) risk.parse_canonical_payload by (auto simp: baseline_risk_bundle_def)
  qed
  show "\<exists>b. baseline_lending_bundle round_id netuids = Inr b \<and> bundle_ok lending_model b
      \<and> map as_netuid (sb_assets b) = ?ns
      \<and> parse_bundle lending_model (sort_keys (to_canonical_payload lending_model b)) = Inr (canon_bundle lending_model b)"
  proof -
    let ?as = "map lending_baseline_asset ?ns"
    have as: "etraverse (\<lambda>n. ebind lending_output_values (construct_asset lending_model n)) ?ns = Inr ?as"
      using lending_baseline_asset_ok(1) nonneg by (intro etraverse_map) blast
    have id: "map as_netuid ?as = ?ns" by (simp add: lending_baseline_asset_def o_def)
    obtain b where "construct_bundle lending_model round_id ?as = Inr b" "bundle_ok lending_model b" "sb_assets b = ?as"
      using construct_bundle_ok [OF assms(1), of ?as lending_model] ne assms(6) id lending_baseline_asset_ok(2) nonneg
      by (auto simp: o_def)
    then show ?thesis
      using as id lending.parse_canonical_payload by (auto simp: baseline_lending_bundle_def)
  qed
qed

lemma baseline_bundles_are_valid_witness:
  "\<exists>b. baseline_lending_bundle ''2026-07-20'' [8, 3, 8] = Inr b \<and> map as_netuid (sb_assets b) = [3, 8]"
proof -
  let ?obs = "\<lparr>lo_price_rao = 5, lo_tao_reserve_rao = 7\<rparr>"
  let ?latest = "\<lambda>n :: int. if n = 8 then Some ?obs else None"
  have r: "fromisoformat ''2026-07-20'' \<noteq> None" by code_simp
  have n: "\<forall>n \<in> set [8, 3, 8 :: int]. 0 \<le> n" by simp
  have l: "\<forall>n obs. ?latest n = Some obs \<longrightarrow> observation_ok obs"
    by (simp add: observation_ok_def risk_value_max_int64_def)
  have s: "sorted_list_of_set (set [8, 3, 8 :: int]) = [3, 8]" by code_simp
  have o: "[8] = filter (\<lambda>n. ?latest n \<noteq> None) (sorted_list_of_set (set [8, 3, 8]))" unfolding s by simp
  have m: "length (sorted_list_of_set (set [8, 3, 8 :: int])) \<le> max_assets_per_bundle"
    unfolding s by (simp add: max_assets_per_bundle_def)
  from baseline_bundles_are_valid [OF r n l o list.distinct(2) m] obtain b where
    "baseline_lending_bundle ''2026-07-20'' [8, 3, 8] = Inr b"
    "map as_netuid (sb_assets b) = sorted_list_of_set (set [8, 3, 8])" by (elim conjE exE) simp
  then show ?thesis unfolding s by (intro exI conjI)
qed

end
