(* ===== verification/Miner_Service.thy ===== *)
theory Miner_Service
  imports Miner_Baseline
begin

text \<open>
  The miner's round loop (\<open>endure/protocol/miner_service.py\<close>): assemble, persist, push the commit while
  the commit window is open, push the reveal after the close, and reload the persisted rounds at a
  start.  The state file is represented by the payload its JSON text holds, written atomically by
  \<open>os.replace\<close>; assembly and the broadcast (how many validators accepted) are given to a tick.  A run
  may end between any two of these effects and start again from the file.
\<close>

subsection \<open>State\<close>

definition max_tracked_rounds :: nat where
  "max_tracked_rounds = 10"

record miner_state =
  mi_assembled :: "(string \<times> assembled_submission) list"
  mi_committed :: "string set"
  mi_revealed :: "string set"
  mi_missed :: "string set"

definition new_miner_state :: miner_state where
  "new_miner_state = \<lparr>mi_assembled = [], mi_committed = {}, mi_revealed = {}, mi_missed = {}\<rparr>"

record tracked_round =
  tr_submission :: assembled_submission
  tr_committed :: bool
  tr_revealed :: bool

datatype state_file = No_file | Corrupt_file | Payload "(string \<times> tracked_round) list"

text \<open>\<open>sorted(rounds)[-_MAX_TRACKED_ROUNDS:]\<close>.\<close>

definition newest_tracked :: "string list \<Rightarrow> string list" where
  "newest_tracked rounds = (let s = sort rounds in drop (length s - max_tracked_rounds) s)"

definition missed_commit_rounds :: "miner_state \<Rightarrow> string list" where
  "missed_commit_rounds st = sorted_list_of_set (mi_missed st)"

definition load_round :: "(string \<times> tracked_round) list \<Rightarrow> string \<Rightarrow> miner_state \<Rightarrow> miner_state" where
  "load_round payload r st =
     (let entry = the (map_of payload r)
      in st\<lparr>mi_assembled := dict_set r (tr_submission entry) (mi_assembled st),
            mi_committed := (if tr_committed entry then insert r (mi_committed st) else mi_committed st),
            mi_revealed := (if tr_revealed entry then insert r (mi_revealed st) else mi_revealed st)\<rparr>)"

text \<open>A corrupt file is moved aside.\<close>

definition load_state :: "state_file \<Rightarrow> miner_state \<times> state_file" where
  "load_state file =
     (case file of
        No_file \<Rightarrow> (new_miner_state, No_file)
      | Corrupt_file \<Rightarrow> (new_miner_state, No_file)
      | Payload payload \<Rightarrow> (fold (load_round payload) (newest_tracked (map fst payload)) new_miner_state, file))"

definition state_payload :: "miner_state \<Rightarrow> (string \<times> tracked_round) list" where
  "state_payload st =
     map (\<lambda>r. (r, \<lparr>tr_submission = the (map_of (mi_assembled st) r), tr_committed = r \<in> mi_committed st,
              tr_revealed = r \<in> mi_revealed st\<rparr>)) (newest_tracked (map fst (mi_assembled st)))"

definition persist_state :: "bool \<Rightarrow> miner_state \<Rightarrow> state_file \<Rightarrow> state_file" where
  "persist_state has_path st file = (if has_path then Payload (state_payload st) else file)"

subsection \<open>A tick\<close>

text \<open>\<open>_assemble\<close>: the nonce is on disk before anything is sent.\<close>

definition ensure_assembled ::
  "bool \<Rightarrow> (string \<Rightarrow> assembly_error + assembled_submission) \<Rightarrow> string \<Rightarrow> miner_state \<Rightarrow> state_file
     \<Rightarrow> assembly_error + assembled_submission \<times> miner_state \<times> state_file" where
  "ensure_assembled has_path assemble r st file =
     (case map_of (mi_assembled st) r of
        Some a \<Rightarrow> Inr (a, st, file)
      | None \<Rightarrow> ebind (assemble r) (\<lambda>a.
          let st = st\<lparr>mi_assembled := dict_set r a (mi_assembled st)\<rparr>
          in Inr (a, st, persist_state has_path st file)))"

definition miner_commit :: "string \<Rightarrow> string \<Rightarrow> assembled_submission \<Rightarrow> submit_commit" where
  "miner_commit schema_id r a =
     \<lparr>sc_round_id = r, sc_schema_id = schema_id, sc_spec_version = current_version_key,
      sc_bundle_hash = asm_bundle_hash a, sc_accepted = False, sc_rejection_code = None\<rparr>"

definition miner_reveal :: "string \<Rightarrow> string \<Rightarrow> assembled_submission \<Rightarrow> submit_reveal" where
  "miner_reveal schema_id r a =
     \<lparr>sv_round_id = r, sv_schema_id = schema_id, sv_spec_version = current_version_key,
      sv_bundle_json = asm_bundle_json a, sv_nonce_hex = asm_nonce_hex a, sv_accepted = False,
      sv_rejection_code = None\<rparr>"

datatype sent = Sent_commit submit_commit int | Sent_reveal submit_reveal int

definition acknowledge_commit :: "bool \<Rightarrow> string \<Rightarrow> int \<Rightarrow> miner_state \<Rightarrow> state_file \<Rightarrow> miner_state \<times> state_file" where
  "acknowledge_commit has_path r acks st file =
     (if 1 \<le> acks \<and> r \<notin> mi_committed st
      then let st = st\<lparr>mi_committed := insert r (mi_committed st)\<rparr> in (st, persist_state has_path st file)
      else (st, file))"

definition acknowledge_reveal :: "bool \<Rightarrow> string \<Rightarrow> int \<Rightarrow> miner_state \<Rightarrow> state_file \<Rightarrow> miner_state \<times> state_file" where
  "acknowledge_reveal has_path r acks st file =
     (if 1 \<le> acks \<and> r \<notin> mi_revealed st
      then let st = st\<lparr>mi_revealed := insert r (mi_revealed st)\<rparr> in (st, persist_state has_path st file)
      else (st, file))"

definition miss_commit :: "string \<Rightarrow> miner_state \<Rightarrow> miner_state" where
  "miss_commit r st =
     (if r \<in> mi_missed st then st
      else let missed = insert r (mi_missed st)
           in st\<lparr>mi_missed := (if max_tracked_rounds < card missed then missed - {Min missed} else missed)\<rparr>)"

datatype miner_error = Assembly_failed assembly_error | Miner_scheduler_failed round_error | Round_not_assembled

record miner_config =
  mn_schema_id :: string
  mn_active_window :: "datetime \<Rightarrow> round_error + round_windows option"
  mn_has_path :: bool

definition tick_commit ::
  "miner_config \<Rightarrow> (string \<Rightarrow> assembly_error + assembled_submission) \<Rightarrow> int \<Rightarrow> string \<Rightarrow> miner_state \<Rightarrow> state_file
     \<Rightarrow> miner_error + miner_state \<times> state_file \<times> sent list" where
  "tick_commit cfg assemble acks r st file =
     (case ensure_assembled (mn_has_path cfg) assemble r st file of
        Inl e \<Rightarrow> Inl (Assembly_failed e)
      | Inr (a, st, file) \<Rightarrow>
          (case acknowledge_commit (mn_has_path cfg) r acks st file of
             (st, file) \<Rightarrow> Inr (st, file, [Sent_commit (miner_commit (mn_schema_id cfg) r a) acks])))"

definition tick_reveal ::
  "miner_config \<Rightarrow> int \<Rightarrow> string \<Rightarrow> miner_state \<Rightarrow> state_file \<Rightarrow> miner_error + miner_state \<times> state_file \<times> sent list" where
  "tick_reveal cfg acks r st file =
     (if r \<notin> mi_committed st then Inr (miss_commit r st, file, [])
      else case map_of (mi_assembled st) r of
          None \<Rightarrow> Inl Round_not_assembled
        | Some a \<Rightarrow>
            (case acknowledge_reveal (mn_has_path cfg) r acks st file of
               (st, file) \<Rightarrow> Inr (st, file, [Sent_reveal (miner_reveal (mn_schema_id cfg) r a) acks])))"

definition miner_tick ::
  "miner_config \<Rightarrow> (string \<Rightarrow> assembly_error + assembled_submission) \<Rightarrow> int \<Rightarrow> datetime \<Rightarrow> miner_state \<Rightarrow> state_file
     \<Rightarrow> miner_error + miner_state \<times> state_file \<times> sent list" where
  "miner_tick cfg assemble acks now st file =
     (case mn_active_window cfg now of
        Inl e \<Rightarrow> Inl (Miner_scheduler_failed e)
      | Inr None \<Rightarrow> Inr (st, file, [])
      | Inr (Some w) \<Rightarrow>
          (case phase_at now w of
             Commit \<Rightarrow> tick_commit cfg assemble acks (rw_round_id w) st file
           | Reveal \<Rightarrow> tick_reveal cfg acks (rw_round_id w) st file
           | _ \<Rightarrow> Inr (st, file, [])))"

subsection \<open>A miner's life\<close>

text \<open>
  The active round never goes back.  \<open>opens\<close> says what any assembly makes: a submission whose nonce
  and text hash to its commitment.  A crash keeps what the run had sent and persisted so far.
\<close>

definition opens :: "(bytes \<Rightarrow> bytes) \<Rightarrow> string \<Rightarrow> string \<Rightarrow> string \<Rightarrow> string \<Rightarrow> bool" where
  "opens blake2b hotkey h json nonce_hex \<longleftrightarrow>
     (\<exists>nonce. nonce_hex = hex nonce \<and> h = commit_hash blake2b (utf8 json) nonce hotkey)"

definition assembles :: "(bytes \<Rightarrow> bytes) \<Rightarrow> string \<Rightarrow> (string \<Rightarrow> assembly_error + assembled_submission) \<Rightarrow> bool" where
  "assembles blake2b hotkey assemble \<longleftrightarrow>
     (\<forall>r a. assemble r = Inr a \<longrightarrow> opens blake2b hotkey (asm_bundle_hash a) (asm_bundle_json a) (asm_nonce_hex a))"

inductive miner_run ::
  "(bytes \<Rightarrow> bytes) \<Rightarrow> string \<Rightarrow> miner_config \<Rightarrow> string \<Rightarrow> miner_state \<Rightarrow> state_file \<Rightarrow> sent list \<Rightarrow> bool"
  for blake2b hotkey cfg where
  Mr_start: "miner_run blake2b hotkey cfg [] new_miner_state No_file []"
| Mr_restart: "miner_run blake2b hotkey cfg cur st file history \<Longrightarrow> load_state file = (st', file') \<Longrightarrow>
    miner_run blake2b hotkey cfg cur st' file' history"
| Mr_idle: "miner_run blake2b hotkey cfg cur st file history \<Longrightarrow>
    mn_active_window cfg now = Inr None \<Longrightarrow> miner_tick cfg assemble acks now st file = Inr (st', file', msgs) \<Longrightarrow>
    miner_run blake2b hotkey cfg cur st' file' (history @ msgs)"
| Mr_tick: "miner_run blake2b hotkey cfg cur st file history \<Longrightarrow> assembles blake2b hotkey assemble \<Longrightarrow>
    mn_active_window cfg now = Inr (Some w) \<Longrightarrow> cur \<le> rw_round_id w \<Longrightarrow>
    miner_tick cfg assemble acks now st file = Inr (st', file', msgs) \<Longrightarrow>
    miner_run blake2b hotkey cfg (rw_round_id w) st' file' (history @ msgs)"
| Mr_crash_assembled: "miner_run blake2b hotkey cfg cur st file history \<Longrightarrow> assembles blake2b hotkey assemble \<Longrightarrow>
    cur \<le> r \<Longrightarrow> ensure_assembled (mn_has_path cfg) assemble r st file = Inr (a, st1, file1) \<Longrightarrow>
    load_state file1 = (st', file') \<Longrightarrow> miner_run blake2b hotkey cfg r st' file' history"
| Mr_crash_committing: "miner_run blake2b hotkey cfg cur st file history \<Longrightarrow> assembles blake2b hotkey assemble \<Longrightarrow>
    cur \<le> r \<Longrightarrow> ensure_assembled (mn_has_path cfg) assemble r st file = Inr (a, st1, file1) \<Longrightarrow>
    load_state file1 = (st', file') \<Longrightarrow>
    miner_run blake2b hotkey cfg r st' file' (history @ [Sent_commit (miner_commit (mn_schema_id cfg) r a) acks])"
| Mr_crash_revealing: "miner_run blake2b hotkey cfg cur st file history \<Longrightarrow> cur \<le> r \<Longrightarrow>
    r \<in> mi_committed st \<Longrightarrow> map_of (mi_assembled st) r = Some a \<Longrightarrow> load_state file = (st', file') \<Longrightarrow>
    miner_run blake2b hotkey cfg r st' file' (history @ [Sent_reveal (miner_reveal (mn_schema_id cfg) r a) acks])"

subsection \<open>The newest tracked rounds\<close>

lemma newest_tracked_facts:
  assumes "distinct ks"
  shows "sorted (newest_tracked ks)" "distinct (newest_tracked ks)" "set (newest_tracked ks) \<subseteq> set ks"
    "length (newest_tracked ks) \<le> max_tracked_rounds" "newest_tracked (newest_tracked ks) = newest_tracked ks"
    "cur \<in> set ks \<Longrightarrow> \<forall>k \<in> set ks. k \<le> cur \<Longrightarrow> cur \<in> set (newest_tracked ks)"
proof -
  show s: "sorted (newest_tracked ks)" and "distinct (newest_tracked ks)" "set (newest_tracked ks) \<subseteq> set ks"
    using assms set_drop_subset [of _ "sort ks"] by (auto simp: newest_tracked_def Let_def sorted_wrt_drop)
  show l: "length (newest_tracked ks) \<le> max_tracked_rounds" by (simp add: newest_tracked_def Let_def)
  show "newest_tracked (newest_tracked ks) = newest_tracked ks"
    using l sort_key_id_if_sorted [of "\<lambda>x. x" "newest_tracked ks"] s
    by (simp add: newest_tracked_def [of "newest_tracked ks"] Let_def)
  assume c: "cur \<in> set ks" "\<forall>k \<in> set ks. k \<le> cur"
  then have ne: "sort ks \<noteq> []" by (metis list.set(1) empty_iff set_sort)
  have "last (sort ks) = cur"
  proof (rule antisym)
    show "last (sort ks) \<le> cur" using last_in_set [OF ne] c(2) by simp
    obtain i where i: "i < length (sort ks)" "sort ks ! i = cur" using c(1) by (metis in_set_conv_nth set_sort)
    have "sort ks ! i \<le> sort ks ! (length (sort ks) - 1)" using i(1) by (intro sorted_nth_mono) simp_all
    then show "cur \<le> last (sort ks)" using i(2) ne by (simp add: last_conv_nth)
  qed
  moreover obtain n where "length ks = Suc n" using c(1) by (cases ks) auto
  then have "newest_tracked ks \<noteq> []" by (simp add: newest_tracked_def Let_def max_tracked_rounds_def)
  then have "last (newest_tracked ks) = last (sort ks)" by (simp add: newest_tracked_def Let_def)
  ultimately show "cur \<in> set (newest_tracked ks)" using \<open>newest_tracked ks \<noteq> []\<close> last_in_set by metis
qed

lemma fold_load:
  assumes "distinct rs" "set rs \<inter> fst ` set (mi_assembled st) = {}"
  shows "fold (load_round p) rs st = st\<lparr>
     mi_assembled := mi_assembled st @ map (\<lambda>r. (r, tr_submission (the (map_of p r)))) rs,
     mi_committed := mi_committed st \<union> {r \<in> set rs. tr_committed (the (map_of p r))},
     mi_revealed := mi_revealed st \<union> {r \<in> set rs. tr_revealed (the (map_of p r))}\<rparr>"
  using assms
proof (induction rs arbitrary: st)
  case (Cons r rs)
  have new: "dict_set r v (mi_assembled st) = mi_assembled st @ [(r, v)]" for v
    using Cons.prems(2) by (intro dict_set_new) auto
  define st1 where "st1 = load_round p r st"
  have sel: "mi_assembled st1 = mi_assembled st @ [(r, tr_submission (the (map_of p r)))]"
    "mi_committed st1 = (if tr_committed (the (map_of p r)) then insert r (mi_committed st) else mi_committed st)"
    "mi_revealed st1 = (if tr_revealed (the (map_of p r)) then insert r (mi_revealed st) else mi_revealed st)"
    "mi_missed st1 = mi_missed st" "miner_state.more st1 = miner_state.more st"
    by (simp_all add: st1_def load_round_def Let_def new)
  have "set rs \<inter> fst ` set (mi_assembled st1) = {}" using Cons.prems by (auto simp: sel)
  then have "fold (load_round p) (r # rs) st = st1\<lparr>
     mi_assembled := mi_assembled st1 @ map (\<lambda>r. (r, tr_submission (the (map_of p r)))) rs,
     mi_committed := mi_committed st1 \<union> {r \<in> set rs. tr_committed (the (map_of p r))},
     mi_revealed := mi_revealed st1 \<union> {r \<in> set rs. tr_revealed (the (map_of p r))}\<rparr>"
    using Cons.IH [of st1] Cons.prems(1) by (simp add: st1_def)
  then show ?case by (simp only:) (rule miner_state.equality; auto simp: sel)
qed simp

text \<open>A restart keeps the newest rounds, and the file still describes the state.\<close>

lemma load_state_payload:
  assumes "distinct (map fst (mi_assembled st))" "load_state (Payload (state_payload st)) = (st', file')"
  shows "file' = Payload (state_payload st')" "map fst (mi_assembled st') = newest_tracked (map fst (mi_assembled st))"
    "r \<in> set (newest_tracked (map fst (mi_assembled st))) \<Longrightarrow> map_of (mi_assembled st') r = map_of (mi_assembled st) r"
    "mi_committed st' = mi_committed st \<inter> set (newest_tracked (map fst (mi_assembled st)))"
proof -
  let ?rs = "newest_tracked (map fst (mi_assembled st))" and ?p = "state_payload st"
  note n = newest_tracked_facts [OF assms(1)]
  have keys: "map fst ?p = ?rs" by (simp add: state_payload_def o_def)
  have look: "the (map_of ?p r) = \<lparr>tr_submission = the (map_of (mi_assembled st) r), tr_committed = r \<in> mi_committed st,
      tr_revealed = r \<in> mi_revealed st\<rparr>" if "r \<in> set ?rs" for r
  proof -
    have "map_of ?p r = Some \<lparr>tr_submission = the (map_of (mi_assembled st) r), tr_committed = r \<in> mi_committed st,
        tr_revealed = r \<in> mi_revealed st\<rparr>"
      using that n(2) by (intro map_of_is_SomeI) (simp_all add: keys [simplified] state_payload_def o_def)
    then show ?thesis by simp
  qed
  have fl: "file' = Payload ?p"
    and st': "st' = fold (load_round ?p) ?rs new_miner_state"
    using assms(2) n(5) by (simp_all add: load_state_def keys)
  have new: "set ?rs \<inter> fst ` set (mi_assembled new_miner_state) = {}" by (simp add: new_miner_state_def)
  note f = fold_load [OF n(2) new, of ?p, folded st']
  have asm: "mi_assembled st' = map (\<lambda>r. (r, the (map_of (mi_assembled st) r))) ?rs"
    using f look by (simp add: new_miner_state_def)
  have com: "mi_committed st' = mi_committed st \<inter> set ?rs" and rev: "mi_revealed st' = mi_revealed st \<inter> set ?rs"
    using f look by (auto simp: new_miner_state_def)
  show k: "map fst (mi_assembled st') = ?rs" by (simp add: asm o_def)
  have m: "map_of (mi_assembled st') r = map_of (mi_assembled st) r" if "r \<in> set ?rs" for r
  proof -
    have "r \<in> fst ` set (mi_assembled st)" using that n(3) by auto
    then obtain a where "map_of (mi_assembled st) r = Some a" by (metis domD domIff map_of_eq_None_iff)
    moreover have "map_of (mi_assembled st') r = Some (the (map_of (mi_assembled st) r))"
      using that n(2) by (intro map_of_is_SomeI) (simp_all add: asm o_def)
    ultimately show ?thesis by simp
  qed
  show "r \<in> set ?rs \<Longrightarrow> map_of (mi_assembled st') r = map_of (mi_assembled st) r" by (rule m)
  show "mi_committed st' = mi_committed st \<inter> set ?rs" by (rule com)
  have "state_payload st' = ?p"
    unfolding state_payload_def k n(5) using m com rev by (intro map_cong refl) simp
  with fl show "file' = Payload (state_payload st')" by simp
qed

subsection \<open>What holds at every point of a run\<close>

definition sent_commits :: "sent list \<Rightarrow> string \<Rightarrow> string set" where
  "sent_commits hist r = {h. \<exists>c acks. Sent_commit c acks \<in> set hist \<and> sc_round_id c = r \<and> sc_bundle_hash c = h}"

definition sent_reveals :: "sent list \<Rightarrow> string \<Rightarrow> (string \<times> string) set" where
  "sent_reveals hist r = {(json, nonce). \<exists>v acks. Sent_reveal v acks \<in> set hist
     \<and> sv_round_id v = r \<and> sv_bundle_json v = json \<and> sv_nonce_hex v = nonce}"

definition commit_acked :: "sent list \<Rightarrow> string \<Rightarrow> bool" where
  "commit_acked hist r \<longleftrightarrow> (\<exists>c acks. Sent_commit c acks \<in> set hist \<and> sc_round_id c = r \<and> 1 \<le> acks)"

text \<open>What was sent of a round is one submission.\<close>

definition sent_is :: "sent list \<Rightarrow> string \<Rightarrow> assembled_submission \<Rightarrow> bool" where
  "sent_is hist r a \<longleftrightarrow>
     sent_commits hist r \<subseteq> {asm_bundle_hash a} \<and> sent_reveals hist r \<subseteq> {(asm_bundle_json a, asm_nonce_hex a)}"

definition unsent :: "sent list \<Rightarrow> string \<Rightarrow> bool" where
  "unsent hist r \<longleftrightarrow> sent_commits hist r = {} \<and> sent_reveals hist r = {}"

definition state_ok :: "(bytes \<Rightarrow> bytes) \<Rightarrow> string \<Rightarrow> string \<Rightarrow> miner_state \<Rightarrow> state_file \<Rightarrow> bool" where
  "state_ok blake2b hotkey cur st fl \<longleftrightarrow>
     distinct (map fst (mi_assembled st)) \<and> (\<forall>r \<in> fst ` set (mi_assembled st). r \<le> cur)
     \<and> (fl = Payload (state_payload st) \<or> (fl = No_file \<and> mi_assembled st = []))
     \<and> mi_committed st \<subseteq> fst ` set (mi_assembled st)
     \<and> (\<forall>r a. map_of (mi_assembled st) r = Some a \<longrightarrow>
          opens blake2b hotkey (asm_bundle_hash a) (asm_bundle_json a) (asm_nonce_hex a))"

definition log_ok :: "(bytes \<Rightarrow> bytes) \<Rightarrow> string \<Rightarrow> string \<Rightarrow> miner_state \<Rightarrow> sent list \<Rightarrow> bool" where
  "log_ok blake2b hotkey cur st hist \<longleftrightarrow>
     (\<forall>r. cur < r \<longrightarrow> unsent hist r)
     \<and> (\<not> unsent hist cur \<longrightarrow> (\<exists>a. map_of (mi_assembled st) cur = Some a \<and> sent_is hist cur a))
     \<and> (\<forall>r. \<exists>a. sent_is hist r a \<and> (unsent hist r
          \<or> opens blake2b hotkey (asm_bundle_hash a) (asm_bundle_json a) (asm_nonce_hex a)))
     \<and> (\<forall>r \<in> mi_committed st. commit_acked hist r)
     \<and> (\<forall>r. sent_reveals hist r \<noteq> {} \<longrightarrow> commit_acked hist r)"

lemma sent_simps [simp]:
  "sent_commits (hist @ [Sent_commit c k]) r = (if sc_round_id c = r then insert (sc_bundle_hash c) (sent_commits hist r) else sent_commits hist r)"
  "sent_commits (hist @ [Sent_reveal v k]) r = sent_commits hist r"
  "sent_reveals (hist @ [Sent_commit c k]) r = sent_reveals hist r"
  "sent_reveals (hist @ [Sent_reveal v k]) r = (if sv_round_id v = r
     then insert (sv_bundle_json v, sv_nonce_hex v) (sent_reveals hist r) else sent_reveals hist r)"
  "commit_acked (hist @ [Sent_reveal v k]) r = commit_acked hist r"
  "commit_acked (hist @ [Sent_commit c k]) r \<longleftrightarrow> commit_acked hist r \<or> (sc_round_id c = r \<and> 1 \<le> k)"
  by (auto simp: sent_commits_def sent_reveals_def commit_acked_def)

lemma ensure_assembled_ok:
  assumes "ensure_assembled True assemble r st fl = Inr (a, st1, fl1)" "assembles blake2b hotkey assemble" "cur \<le> r"
    and "state_ok blake2b hotkey cur st fl" "log_ok blake2b hotkey cur st hist"
  shows "state_ok blake2b hotkey r st1 fl1" "log_ok blake2b hotkey r st1 hist"
    "map_of (mi_assembled st1) r = Some a" "mi_committed st1 = mi_committed st"
proof -
  have "state_ok blake2b hotkey r st1 fl1 \<and> log_ok blake2b hotkey r st1 hist \<and> map_of (mi_assembled st1) r = Some a
      \<and> mi_committed st1 = mi_committed st"
  proof (cases "map_of (mi_assembled st) r")
    case (Some b)
    then have "r \<in> fst ` set (mi_assembled st)" by (metis map_of_eq_None_iff not_None_eq)
    then have "r = cur" using assms(3,4) by (force simp: state_ok_def intro: antisym)
    then show ?thesis using assms Some by (simp add: ensure_assembled_def)
  next
    case None
    have a: "assemble r = Inr a" "st1 = st\<lparr>mi_assembled := mi_assembled st @ [(r, a)]\<rparr>"
      "fl1 = Payload (state_payload st1)"
      using assms(1) None dict_set_new [of r "mi_assembled st" a]
      by (auto simp: ensure_assembled_def persist_state_def Let_def map_of_eq_None_iff)
    have fresh: "r \<notin> fst ` set (mi_assembled st)" using None by (simp add: map_of_eq_None_iff)
    have "opens blake2b hotkey (asm_bundle_hash a) (asm_bundle_json a) (asm_nonce_hex a)"
      using assms(2) a(1) by (simp add: assembles_def)
    then have "state_ok blake2b hotkey r st1 fl1"
      using assms(3,4) fresh a(3) by (auto simp: state_ok_def a(2) map_add_def split: option.splits)
    moreover have "unsent hist r"
    proof (cases "cur = r")
      case True
      then show ?thesis using assms(5) None by (auto simp: log_ok_def)
    qed (use assms(3,5) in \<open>simp add: log_ok_def\<close>)
    then have "log_ok blake2b hotkey r st1 hist"
      using assms(3,5) by (auto simp: log_ok_def a(2))
    moreover have "map_of (mi_assembled st1) r = Some a" using None by (simp add: a(2) map_add_def)
    ultimately show ?thesis by (simp add: a(2))
  qed
  then show "state_ok blake2b hotkey r st1 fl1" "log_ok blake2b hotkey r st1 hist"
    "map_of (mi_assembled st1) r = Some a" "mi_committed st1 = mi_committed st" by blast+
qed

lemma send_ok:
  assumes "log_ok blake2b hotkey r st hist" "state_ok blake2b hotkey r st fl" "map_of (mi_assembled st) r = Some a"
  shows "log_ok blake2b hotkey r st (hist @ [Sent_commit (miner_commit s r a) acks])"
    "r \<in> mi_committed st \<Longrightarrow> log_ok blake2b hotkey r st (hist @ [Sent_reveal (miner_reveal s r a) acks])"
proof -
  have o: "opens blake2b hotkey (asm_bundle_hash a) (asm_bundle_json a) (asm_nonce_hex a)"
    using assms(2,3) by (simp add: state_ok_def)
  have sent: "sent_is hist r a"
    using assms(1,3) by (cases "unsent hist r") (auto simp: log_ok_def unsent_def sent_is_def)
  have step: "log_ok blake2b hotkey r st hist'"
    if same: "\<And>r'. r' \<noteq> r \<Longrightarrow> sent_commits hist' r' = sent_commits hist r' \<and> sent_reveals hist' r' = sent_reveals hist r'"
      and is_a: "sent_is hist' r a" and acked: "\<And>r'. commit_acked hist r' \<Longrightarrow> commit_acked hist' r'"
      and ack: "sent_reveals hist' r \<noteq> {} \<Longrightarrow> commit_acked hist' r" for hist'
  proof -
    have other: "unsent hist' r' = unsent hist r'" "sent_is hist' r' b = sent_is hist r' b" if "r' \<noteq> r" for r' b
      using same [OF that] by (simp_all add: unsent_def sent_is_def)
    have "\<exists>b. sent_is hist' r' b \<and> (unsent hist' r'
        \<or> opens blake2b hotkey (asm_bundle_hash b) (asm_bundle_json b) (asm_nonce_hex b))" for r'
    proof (cases "r' = r")
      case False
      then show ?thesis using assms(1) other [OF False] by (simp add: log_ok_def)
    qed (use is_a o in blast)
    moreover have "sent_reveals hist' r' \<noteq> {} \<longrightarrow> commit_acked hist' r'" for r'
      using same [of r'] acked [of r'] ack assms(1) by (cases "r' = r") (auto simp: log_ok_def)
    moreover have "r < r' \<longrightarrow> unsent hist' r'" for r' using other(1) [of r'] assms(1) by (auto simp: log_ok_def)
    ultimately show ?thesis
      using assms(1,3) is_a acked by (simp add: log_ok_def)
  qed
  show "log_ok blake2b hotkey r st (hist @ [Sent_commit (miner_commit s r a) acks])"
    using sent assms(1) by (intro step) (auto simp: miner_commit_def sent_is_def log_ok_def)
  show "log_ok blake2b hotkey r st (hist @ [Sent_reveal (miner_reveal s r a) acks])" if "r \<in> mi_committed st"
    using sent assms(1) that by (intro step) (auto simp: miner_reveal_def sent_is_def log_ok_def)
qed

lemma acknowledge_ok:
  assumes "log_ok blake2b hotkey r st hist" "state_ok blake2b hotkey r st fl" "r \<in> fst ` set (mi_assembled st)"
  shows "acknowledge_commit True r acks st fl = (st', fl') \<Longrightarrow> (1 \<le> acks \<Longrightarrow> commit_acked hist r) \<Longrightarrow>
      state_ok blake2b hotkey r st' fl' \<and> log_ok blake2b hotkey r st' hist"
    "acknowledge_reveal True r acks st fl = (st'', fl'') \<Longrightarrow>
      state_ok blake2b hotkey r st'' fl'' \<and> log_ok blake2b hotkey r st'' hist"
proof -
  assume run: "acknowledge_commit True r acks st fl = (st', fl')" and acked: "1 \<le> acks \<Longrightarrow> commit_acked hist r"
  show "state_ok blake2b hotkey r st' fl' \<and> log_ok blake2b hotkey r st' hist"
  proof (cases "1 \<le> acks \<and> r \<notin> mi_committed st")
    case True
    then have st': "st' = st\<lparr>mi_committed := insert r (mi_committed st)\<rparr>" "fl' = Payload (state_payload st')"
      using run by (auto simp: acknowledge_commit_def persist_state_def Let_def)
    have "state_ok blake2b hotkey r st' fl'" using assms(2,3) st'(2) by (simp add: state_ok_def st'(1))
    moreover have "log_ok blake2b hotkey r st' hist" using assms(1) acked True by (simp add: log_ok_def st'(1))
    ultimately show ?thesis by simp
  next
    case False
    then have "st' = st" "fl' = fl" using run by (auto simp: acknowledge_commit_def)
    then show ?thesis using assms(1,2) by simp
  qed
next
  assume run: "acknowledge_reveal True r acks st fl = (st'', fl'')"
  show "state_ok blake2b hotkey r st'' fl'' \<and> log_ok blake2b hotkey r st'' hist"
  proof (cases "1 \<le> acks \<and> r \<notin> mi_revealed st")
    case True
    then have st': "st'' = st\<lparr>mi_revealed := insert r (mi_revealed st)\<rparr>" "fl'' = Payload (state_payload st'')"
      using run by (auto simp: acknowledge_reveal_def persist_state_def Let_def)
    have "state_ok blake2b hotkey r st'' fl''" using assms(2) st'(2) by (simp add: state_ok_def st'(1))
    moreover have "log_ok blake2b hotkey r st'' hist" using assms(1) by (simp add: log_ok_def st'(1))
    ultimately show ?thesis by simp
  next
    case False
    then have "st'' = st" "fl'' = fl" using run by (auto simp: acknowledge_reveal_def)
    then show ?thesis using assms(1,2) by simp
  qed
qed

lemma miss_commit_ok:
  assumes "log_ok blake2b hotkey r st hist" "state_ok blake2b hotkey r st fl"
  shows "log_ok blake2b hotkey r (miss_commit r st) hist \<and> state_ok blake2b hotkey r (miss_commit r st) fl"
proof -
  define m where "m = mi_missed (miss_commit r st)"
  have m: "miss_commit r st = st\<lparr>mi_missed := m\<rparr>" by (simp add: m_def miss_commit_def Let_def)
  have "state_payload (st\<lparr>mi_missed := m\<rparr>) = state_payload st" by (simp add: state_payload_def)
  then show ?thesis using assms by (simp add: m log_ok_def state_ok_def)
qed

lemma restart_ok:
  assumes "load_state fl = (st', fl')" "state_ok blake2b hotkey cur st fl" "log_ok blake2b hotkey cur st hist"
  shows "state_ok blake2b hotkey cur st' fl'" "log_ok blake2b hotkey cur st' hist"
proof -
  have d: "distinct (map fst (mi_assembled st))" using assms(2) by (simp add: state_ok_def)
  have "state_ok blake2b hotkey cur st' fl' \<and> log_ok blake2b hotkey cur st' hist"
  proof (cases "fl = No_file")
    case True
    then have "mi_assembled st = []" "mi_committed st = {}" "st' = new_miner_state" "fl' = No_file"
      using assms(1,2) by (auto simp: state_ok_def load_state_def)
    then show ?thesis using assms(3) by (auto simp: state_ok_def log_ok_def new_miner_state_def)
  next
    case False
    then have "fl = Payload (state_payload st)" using assms(2) by (auto simp: state_ok_def)
    then have load: "load_state (Payload (state_payload st)) = (st', fl')" using assms(1) by simp
    note l = load_state_payload [OF d load]
    let ?rs = "newest_tracked (map fst (mi_assembled st))"
    note n = newest_tracked_facts [OF d]
    have keys: "fst ` set (mi_assembled st') = set ?rs" using l(2) by (metis list.set_map)
    have sub: "map_of (mi_assembled st') r = Some a \<Longrightarrow> map_of (mi_assembled st) r = Some a" for r a
      using l(3) [of r] keys by (metis map_of_eq_None_iff not_None_eq)
    have opened: "\<forall>r a. map_of (mi_assembled st') r = Some a \<longrightarrow>
        opens blake2b hotkey (asm_bundle_hash a) (asm_bundle_json a) (asm_nonce_hex a)"
      using assms(2) sub unfolding state_ok_def by blast
    have "\<forall>r \<in> fst ` set (mi_assembled st'). r \<le> cur"
      using assms(2) n(3) unfolding keys state_ok_def by auto
    moreover have "mi_committed st' \<subseteq> fst ` set (mi_assembled st')" unfolding keys l(4) by simp
    ultimately have "state_ok blake2b hotkey cur st' fl'"
      using opened l(1,2) n(2) unfolding state_ok_def by simp
    moreover have "\<exists>a. map_of (mi_assembled st') cur = Some a \<and> sent_is hist cur a" if sent: "\<not> unsent hist cur"
    proof -
      obtain a where a: "map_of (mi_assembled st) cur = Some a" "sent_is hist cur a"
        using assms(3) sent by (auto simp: log_ok_def)
      then have "cur \<in> set (map fst (mi_assembled st))" by (metis image_set map_of_eq_None_iff not_None_eq)
      then have "cur \<in> set ?rs" using n(6) assms(2) by (simp add: state_ok_def)
      then show ?thesis using l(3) a by simp
    qed
    then have "log_ok blake2b hotkey cur st' hist" using assms(3) l(4) by (simp add: log_ok_def)
    ultimately show ?thesis by simp
  qed
  then show "state_ok blake2b hotkey cur st' fl'" "log_ok blake2b hotkey cur st' hist" by simp_all
qed

lemma later_round_ok:
  assumes "state_ok blake2b hotkey cur st fl" "log_ok blake2b hotkey cur st hist" "cur \<le> r"
  shows "state_ok blake2b hotkey r st fl" "log_ok blake2b hotkey r st hist"
  using assms by (auto simp: state_ok_def log_ok_def le_less)

lemma miner_run_ok:
  assumes "miner_run blake2b hotkey cfg cur st fl hist" "mn_has_path cfg"
  shows "state_ok blake2b hotkey cur st fl \<and> log_ok blake2b hotkey cur st hist"
  using assms(1)
proof (induction rule: miner_run.induct)
  case Mr_start
  have "sent_is [] r \<lparr>asm_bundle_json = [], asm_nonce_hex = [], asm_bundle_hash = []\<rparr>" "unsent [] r" for r
    by (simp_all add: sent_is_def unsent_def sent_commits_def sent_reveals_def)
  then show ?case by (auto simp: state_ok_def log_ok_def new_miner_state_def sent_reveals_def)
next
  case (Mr_restart cur st fl hist st' fl')
  then show ?case using restart_ok by blast
next
  case (Mr_idle cur st fl hist now assemble acks st' fl' msgs)
  then show ?case by (simp add: miner_tick_def)
next
  case (Mr_tick cur st fl hist assemble now w acks st' fl' msgs)
  let ?r = "rw_round_id w"
  have ok: "state_ok blake2b hotkey cur st fl" "log_ok blake2b hotkey cur st hist" using Mr_tick by simp_all
  note later = later_round_ok [OF ok Mr_tick(4)]
  consider (commit) "tick_commit cfg assemble acks ?r st fl = Inr (st', fl', msgs)"
    | (reveal) "tick_reveal cfg acks ?r st fl = Inr (st', fl', msgs)"
    | (idle) "st' = st" "fl' = fl" "msgs = []"
    using Mr_tick(3,5) by (cases "phase_at now w") (simp_all add: miner_tick_def)
  then show ?case
  proof cases
    case commit
    obtain a st1 fl1 where e: "ensure_assembled True assemble ?r st fl = Inr (a, st1, fl1)"
      using commit assms(2) by (auto simp: tick_commit_def split: sum.splits prod.splits)
    note en = ensure_assembled_ok [OF e Mr_tick(2,4) ok]
    have m: "msgs = [Sent_commit (miner_commit (mn_schema_id cfg) ?r a) acks]"
      and ack: "acknowledge_commit True ?r acks st1 fl1 = (st', fl')"
      using commit e assms(2) by (auto simp: tick_commit_def split: prod.splits)
    note sent = send_ok(1) [OF en(2,1,3), of "mn_schema_id cfg" acks]
    have key: "?r \<in> fst ` set (mi_assembled st1)" using en(3) by (metis map_of_eq_None_iff not_None_eq)
    from acknowledge_ok(1) [OF sent en(1) key ack] show ?thesis by (simp add: m miner_commit_def)
  next
    case reveal
    show ?thesis
    proof (cases "?r \<in> mi_committed st")
      case False
      then show ?thesis using reveal miss_commit_ok [OF later(2,1)] by (simp add: tick_reveal_def)
    next
      case True
      obtain a where a: "map_of (mi_assembled st) ?r = Some a"
        using reveal True by (auto simp: tick_reveal_def split: option.splits)
      have m: "msgs = [Sent_reveal (miner_reveal (mn_schema_id cfg) ?r a) acks]"
        and ack: "acknowledge_reveal True ?r acks st fl = (st', fl')"
        using reveal True a assms(2) by (auto simp: tick_reveal_def split: prod.splits)
      note sent = send_ok(2) [OF later(2,1) a True, of "mn_schema_id cfg" acks]
      have key: "?r \<in> fst ` set (mi_assembled st)" using a by (metis map_of_eq_None_iff not_None_eq)
      from acknowledge_ok(2) [OF sent later(1) key ack] show ?thesis by (simp add: m)
    qed
  qed (use later in simp)
next
  case (Mr_crash_assembled cur st fl hist assemble r a st1 fl1 st' fl')
  then have ok: "state_ok blake2b hotkey cur st fl" "log_ok blake2b hotkey cur st hist"
    "ensure_assembled True assemble r st fl = Inr (a, st1, fl1)" using assms(2) by simp_all
  from ensure_assembled_ok [OF ok(3) Mr_crash_assembled(2,3) ok(1,2)] restart_ok [OF Mr_crash_assembled(5)]
  show ?case by blast
next
  case (Mr_crash_committing cur st fl hist assemble r a st1 fl1 st' fl' acks)
  then have ok: "state_ok blake2b hotkey cur st fl" "log_ok blake2b hotkey cur st hist"
    "ensure_assembled True assemble r st fl = Inr (a, st1, fl1)" using assms(2) by simp_all
  note en = ensure_assembled_ok [OF ok(3) Mr_crash_committing(2,3) ok(1,2)]
  from restart_ok [OF Mr_crash_committing(5) en(1) send_ok(1) [OF en(2,1,3)]] show ?case by blast
next
  case (Mr_crash_revealing cur st fl hist r a st' fl' acks)
  then have ok: "state_ok blake2b hotkey cur st fl" "log_ok blake2b hotkey cur st hist" by simp_all
  note later = later_round_ok [OF ok Mr_crash_revealing(2)]
  from restart_ok [OF Mr_crash_revealing(5) later(1) send_ok(2) [OF later(2,1) Mr_crash_revealing(4,3)]]
  show ?case by blast
qed

subsection \<open>Properties\<close>

text \<open>A commit acknowledged by one validator, a restart, and the reveal.\<close>

definition demo_submission :: assembled_submission where
  "demo_submission = \<lparr>asm_bundle_json = ''[]'', asm_nonce_hex = hex [7],
     asm_bundle_hash = commit_hash (\<lambda>_. []) (utf8 ''[]'') [7] ''5F''\<rparr>"

definition demo_miner :: miner_config where
  "demo_miner = \<lparr>mn_schema_id = ''forge.subnet_alpha_risk.v1'', mn_active_window = (\<lambda>_. Inr (Some
     \<lparr>rw_round_id = ''2026-07-20'', commit_open = 10, commit_close = 20, t0_close = 25, reveal_open = 30,
      reveal_close = 40\<rparr>)), mn_has_path = True\<rparr>"

lemma demo_miner_run:
  "\<exists>st fl. miner_run (\<lambda>_. []) ''5F'' demo_miner ''2026-07-20'' st fl
     [Sent_commit (miner_commit ''forge.subnet_alpha_risk.v1'' ''2026-07-20'' demo_submission) 1,
      Sent_reveal (miner_reveal ''forge.subnet_alpha_risk.v1'' ''2026-07-20'' demo_submission) 0]"
proof -
  let ?w = "\<lparr>rw_round_id = ''2026-07-20'', commit_open = 10, commit_close = 20, t0_close = 25, reveal_open = 30,
      reveal_close = 40\<rparr>"
  let ?st = "\<lparr>mi_assembled = [(''2026-07-20'', demo_submission)], mi_committed = {''2026-07-20''},
      mi_revealed = {}, mi_missed = {}\<rparr>"
  have asm: "assembles (\<lambda>_. []) ''5F'' (\<lambda>_. Inr demo_submission)"
    by (auto simp: assembles_def opens_def demo_submission_def)
  have window: "mn_active_window demo_miner now = Inr (Some ?w)" for now by (simp add: demo_miner_def)
  have "miner_tick demo_miner (\<lambda>_. Inr demo_submission) 1 15 new_miner_state No_file
      = Inr (?st, Payload (state_payload ?st),
          [Sent_commit (miner_commit ''forge.subnet_alpha_risk.v1'' ''2026-07-20'' demo_submission) 1])"
    by (simp add: miner_tick_def demo_miner_def phase_at_def tick_commit_def ensure_assembled_def new_miner_state_def
        acknowledge_commit_def persist_state_def Let_def)
  from Mr_tick [OF Mr_start asm window _ this] have run:
    "miner_run (\<lambda>_. []) ''5F'' demo_miner ''2026-07-20'' ?st (Payload (state_payload ?st))
       [Sent_commit (miner_commit ''forge.subnet_alpha_risk.v1'' ''2026-07-20'' demo_submission) 1]" by simp
  have load: "load_state (Payload (state_payload ?st)) = (?st, Payload (state_payload ?st))"
    by (simp add: load_state_def state_payload_def newest_tracked_def max_tracked_rounds_def Let_def load_round_def
        new_miner_state_def)
  have "miner_tick demo_miner (\<lambda>_. Inr demo_submission) 0 35 ?st (Payload (state_payload ?st))
      = Inr (?st, Payload (state_payload ?st),
          [Sent_reveal (miner_reveal ''forge.subnet_alpha_risk.v1'' ''2026-07-20'' demo_submission) 0])"
    by (simp add: miner_tick_def demo_miner_def phase_at_def tick_reveal_def acknowledge_reveal_def)
  from Mr_tick [OF Mr_restart [OF run load] asm window _ this] show ?thesis by auto
qed

text \<open>
  C13: whatever crashes and restarts a miner goes through, all commits it ever sends for a round carry
  one hash, every reveal it sends opens that hash and follows a commit some validator accepted, and no
  tick fails for want of the submission it committed to.
\<close>

theorem reveals_open_their_commits:
  assumes "miner_run blake2b hotkey cfg cur st fl hist" "mn_has_path cfg"
  shows "(\<forall>r h h'. h \<in> sent_commits hist r \<longrightarrow> h' \<in> sent_commits hist r \<longrightarrow> h' = h)
    \<and> (\<forall>r h json nonce. h \<in> sent_commits hist r \<longrightarrow> (json, nonce) \<in> sent_reveals hist r
        \<longrightarrow> opens blake2b hotkey h json nonce)
    \<and> (\<forall>r. sent_reveals hist r \<noteq> {} \<longrightarrow> commit_acked hist r)
    \<and> tick_reveal cfg acks cur st fl \<noteq> Inl Round_not_assembled"
proof -
  have log: "log_ok blake2b hotkey cur st hist" and st: "state_ok blake2b hotkey cur st fl"
    using miner_run_ok [OF assms] by simp_all
  have one: "\<exists>a. sent_is hist r a \<and> (unsent hist r
      \<or> opens blake2b hotkey (asm_bundle_hash a) (asm_bundle_json a) (asm_nonce_hex a))" for r
    using log by (simp add: log_ok_def)
  have "h' = h" if "h \<in> sent_commits hist r" "h' \<in> sent_commits hist r" for r h h'
    using one [of r] that by (auto simp: sent_is_def)
  moreover have "opens blake2b hotkey h json nonce"
    if "h \<in> sent_commits hist r" "(json, nonce) \<in> sent_reveals hist r" for r h json nonce
    using one [of r] that by (auto simp: sent_is_def unsent_def)
  moreover have "tick_reveal cfg acks cur st fl \<noteq> Inl Round_not_assembled"
  proof (cases "cur \<in> mi_committed st")
    case True
    then have "map_of (mi_assembled st) cur \<noteq> None"
      using st unfolding state_ok_def map_of_eq_None_iff by blast
    then show ?thesis by (auto simp: tick_reveal_def split: option.split prod.split)
  qed (simp add: tick_reveal_def)
  ultimately show ?thesis using log by (simp add: log_ok_def)
qed

lemma reveals_open_their_commits_witness:
  "\<exists>st fl hist. miner_run (\<lambda>_. []) ''5F'' demo_miner ''2026-07-20'' st fl hist
     \<and> opens (\<lambda>_. []) ''5F'' (asm_bundle_hash demo_submission) (asm_bundle_json demo_submission)
         (asm_nonce_hex demo_submission)
     \<and> commit_acked hist ''2026-07-20'' \<and> sent_reveals hist ''2026-07-20'' \<noteq> {}"
proof -
  obtain st fl hist where run: "miner_run (\<lambda>_. []) ''5F'' demo_miner ''2026-07-20'' st fl hist"
    and hist: "hist = [Sent_commit (miner_commit ''forge.subnet_alpha_risk.v1'' ''2026-07-20'' demo_submission) 1,
      Sent_reveal (miner_reveal ''forge.subnet_alpha_risk.v1'' ''2026-07-20'' demo_submission) 0]"
    using demo_miner_run by blast
  have "mn_has_path demo_miner" by (simp add: demo_miner_def)
  note ok = reveals_open_their_commits [OF run this]
  have c: "asm_bundle_hash demo_submission \<in> sent_commits hist ''2026-07-20''"
    and v: "(asm_bundle_json demo_submission, asm_nonce_hex demo_submission) \<in> sent_reveals hist ''2026-07-20''"
    by (auto simp: hist sent_commits_def sent_reveals_def miner_commit_def miner_reveal_def)
  then show ?thesis using run ok by blast
qed

end
