(* ===== verification/Instants.thy ===== *)
theory Instants
  imports Storage
begin

text \<open>
  The texts of instants.  The tables hold every instant as the text \<open>datetime.isoformat\<close> gives it in
  UTC, and the queries compare these texts; the model holds the instants themselves.  The two orders
  agree, although only an instant with microseconds has a fraction, so the embargo query over texts
  selects what the embargo query of the model selects.
\<close>

subsection \<open>The text of an instant\<close>

definition fraction_text :: "int \<Rightarrow> string" where
  "fraction_text us = (if us = 0 then [] else CHR ''.'' # zero_pad 6 us)"

definition utc_offset :: string where
  "utc_offset = ''+00:00''"

definition instant_text :: "datetime \<Rightarrow> string" where
  "instant_text t =
     (let s = t div second
      in isoformat (utc_date t) @ ''T'' @ zero_pad 2 (s div 3600 mod 24) @ '':'' @ zero_pad 2 (s div 60 mod 60)
         @ '':'' @ zero_pad 2 (s mod 60) @ fraction_text (t mod second) @ utc_offset)"

definition valid_instant :: "datetime \<Rightarrow> bool" where
  "valid_instant t \<longleftrightarrow> valid_date (utc_date t)"

subsection \<open>Their order\<close>

text \<open>Comparison in mixed radix.\<close>

lemma radix_less:
  fixes a b c d k :: int
  assumes "0 \<le> b" "b < k" "0 \<le> d" "d < k"
  shows "a * k + b < c * k + d \<longleftrightarrow> a < c \<or> a = c \<and> b < d"
proof -
  consider "a < c" | "a = c" | "c < a" by linarith
  then show ?thesis
  proof cases
    case 1
    then have "(a + 1) * k \<le> c * k" using assms by (intro mult_right_mono) auto
    then show ?thesis using 1 assms by (simp add: algebra_simps)
  next
    case 3
    then have "(c + 1) * k \<le> a * k" using assms by (intro mult_right_mono) auto
    then show ?thesis using 3 assms by (simp add: algebra_simps)
  qed simp
qed

lemma zero_pad_less:
  assumes "0 \<le> a" "a < 10 ^ w" "0 \<le> b" "b < 10 ^ w" "0 < w"
  shows "length (zero_pad w a) = length (zero_pad w b)" "zero_pad w a < zero_pad w b \<longleftrightarrow> a < b"
    "zero_pad w a = zero_pad w b \<longleftrightarrow> a = b"
  using zero_pad_digits [OF assms(1,2,5)] zero_pad_digits [OF assms(3,4,5)] digits_less_iff by metis+

lemma fraction_less:
  assumes "0 \<le> a" "a < second" "0 \<le> b" "b < second"
  shows "fraction_text a @ utc_offset < fraction_text b @ utc_offset \<longleftrightarrow> a < b"
proof -
  have w: "0 \<le> a" "a < 10 ^ 6" "0 \<le> b" "b < 10 ^ 6" using assms by (simp_all add: second_def)
  note z = zero_pad_less [OF w]
  have plus: "CHR ''+'' < CHR ''.''" by code_simp
  show ?thesis
    using z(2,3) append_less_iff [OF z(1)] plus assms
    by (auto simp: fraction_text_def utc_offset_def)
qed

lemma isoformat_length: "valid_date n \<Longrightarrow> length (isoformat n) = 10"
  using ymd_widths [of "date_year n" "date_month n" "date_day n"] valid_ymd_of_date [of n]
  by (simp add: isoformat_def zero_pad_digits(1))

lemma isoformat_eq_iff: "valid_date m \<Longrightarrow> valid_date n \<Longrightarrow> isoformat m = isoformat n \<longleftrightarrow> m = n"
  by (metis fromisoformat_isoformat option.inject)

lemma day_parts:
  "t div day = t div second div 60 div 60 div 24" "t div second div 3600 = t div second div 60 div 60"
proof -
  have "t div (second * 86400) = t div second div 86400" "x div (60 * 1440) = x div 60 div 1440"
    "x div (60 * 24) = x div 60 div 24" "x div (60 * 60) = x div 60 div 60" for x :: int
    by (intro zdiv_zmult2_eq, simp)+
  then show "t div day = t div second div 60 div 60 div 24" "t div second div 3600 = t div second div 60 div 60"
    by (simp_all add: duration_defs)
qed

lemma instant_less_iff:
  fixes a b :: datetime
  defines "s \<equiv> \<lambda>t. t div second"
  shows "a < b \<longleftrightarrow> a div day < b div day \<or> a div day = b div day \<and>
      (s a div 3600 mod 24 < s b div 3600 mod 24 \<or> s a div 3600 mod 24 = s b div 3600 mod 24 \<and>
      (s a div 60 mod 60 < s b div 60 mod 60 \<or> s a div 60 mod 60 = s b div 60 mod 60 \<and>
      (s a mod 60 < s b mod 60 \<or> s a mod 60 = s b mod 60 \<and> a mod second < b mod second)))"
proof -
  have radix: "x < y \<longleftrightarrow> x div k < y div k \<or> x div k = y div k \<and> x mod k < y mod k" if "0 < k" for x y k :: int
    using radix_less [of "x mod k" k "y mod k" "x div k" "y div k"] that by simp
  have eq: "x = y \<longleftrightarrow> x div k = y div k \<and> x mod k = y mod k" for x y k :: int by (metis div_mult_mod_eq)
  show ?thesis
    unfolding s_def day_parts
    using radix [of second a b] radix [of 60 "a div second" "b div second"] eq [of "a div second" "b div second" 60]
      radix [of 60 "a div second div 60" "b div second div 60"]
      eq [of "a div second div 60" "b div second div 60" 60]
      radix [of 24 "a div second div 60 div 60" "b div second div 60 div 60"]
      eq [of "a div second div 60 div 60" "b div second div 60 div 60" 24]
    by (simp only: second_def zero_less_numeral simp_thms) blast
qed

lemma instant_text_less:
  assumes "valid_instant a" "valid_instant b"
  shows "instant_text a < instant_text b \<longleftrightarrow> a < b"
proof -
  define s where "s t = t div second" for t :: int
  have us: "0 \<le> t mod second" "t mod second < second" for t by (simp_all add: second_def)
  have two: "0 \<le> x mod 24" "x mod 24 < 10 ^ 2" "0 \<le> x mod 60" "x mod 60 < 10 ^ 2" for x :: int
    using pos_mod_bound [of 24 x] pos_mod_bound [of 60 x] by simp_all
  have v: "valid_date (utc_date a)" "valid_date (utc_date b)" using assms by (simp_all add: valid_instant_def)
  have days: "utc_date a < utc_date b \<longleftrightarrow> a div day < b div day" "utc_date a = utc_date b \<longleftrightarrow> a div day = b div day"
    by (auto simp: utc_date_def)
  note z = zero_pad_less [OF two(1,2) two(1,2), OF zero_less_numeral]
    zero_pad_less [OF two(3,4) two(3,4), OF zero_less_numeral]
  have app: "x @ u < y @ w \<longleftrightarrow> x < y \<or> x = y \<and> u < w" if "length x = length y" for x y u w :: string
    by (rule append_less_iff [OF that])
  show ?thesis
    unfolding instant_less_iff [of a b] instant_text_def Let_def
    by (simp only: app isoformat_length [OF v(1)] isoformat_length [OF v(2)] isoformat_less_iff [OF v]
        isoformat_eq_iff [OF v] days z fraction_less [OF us us] list.size append_Cons append_Nil less_list_code
        simp_thms less_irrefl)
qed

lemma instant_texts_order:
  assumes "valid_instant a" "valid_instant b"
  shows "(instant_text a < instant_text b \<longleftrightarrow> a < b) \<and> (instant_text a = instant_text b \<longleftrightarrow> a = b)"
  using instant_text_less assms by (metis less_irrefl neqE)

subsection \<open>The embargo query as the database runs it\<close>

definition post_embargo_round_texts :: "'a db_scheme \<Rightarrow> string \<Rightarrow> string \<Rightarrow> string list" where
  "post_embargo_round_texts d schema_id now_iso =
     map rr_round_id (filter (\<lambda>r. rr_schema_id r = schema_id \<and> rr_state r \<in> post_embargo_round_states
       \<and> instant_text (rr_publication_at r) < now_iso) (db_rounds d))"

text \<open>
  C39: the embargo is decided on texts and means instants: while the stored publication instants and
  the clock lie in the years 1 to 9999, the query that compares their ISO texts selects exactly the
  rounds past their reveal whose publication instant has passed, with or without microseconds.
\<close>

theorem embargo_texts_mean_instants:
  assumes "valid_instant now" "\<forall>r \<in> set (db_rounds d). valid_instant (rr_publication_at r)"
  shows "post_embargo_round_texts d schema_id (instant_text now) = post_embargo_rounds d schema_id now"
  unfolding post_embargo_round_texts_def post_embargo_rounds_def
  using assms by (auto simp: post_embargo_states instant_text_less intro!: arg_cong [where f = "map rr_round_id"] filter_cong)

definition demo_revealed_row :: round_row where
  "demo_revealed_row =
     \<lparr>rr_round_id = ''2026-07-19'', rr_schema_id = ''risk'', rr_state = Round_revealed,
      rr_universe_stale = True, rr_degraded = False,
      rr_windows = \<lparr>rw_round_id = ''2026-07-19'', commit_open = 0, commit_close = 1, t0_close = 2,
        reveal_open = 3, reveal_close = 4\<rparr>,
      rr_publication_at = 63920102400000000, rr_created_at = 0, rr_updated_at = 0\<rparr>"

lemma embargo_texts_mean_instants_witness:
  "post_embargo_round_texts (empty_db\<lparr>db_rounds := [demo_revealed_row]\<rparr>) ''risk''
       ''2026-07-20T00:00:00.000001+00:00'' = [''2026-07-19'']"
proof -
  have v: "valid_instant 63920102400000001" by code_simp
  have now: "instant_text 63920102400000001 = ''2026-07-20T00:00:00.000001+00:00''" by code_simp
  have "valid_instant (rr_publication_at demo_revealed_row)" by code_simp
  then have "\<forall>r \<in> set (db_rounds (empty_db\<lparr>db_rounds := [demo_revealed_row]\<rparr>)). valid_instant (rr_publication_at r)"
    by simp
  note same = embargo_texts_mean_instants [OF v this, of "''risk''"]
  show ?thesis unfolding same [unfolded now]
    by (simp add: post_embargo_rounds_def demo_revealed_row_def post_embargo_def)
qed

end
