(* ===== verification/Risk_Feed.thy ===== *)
theory Risk_Feed
  imports Publication Scoring_Facts Instants Risk_Schema Universe Decimal_Text
begin

text \<open>
  The signed Alpha Risk feed: the tier of a subnet (\<open>endure/publication/risk_tier.py\<close>), the feed a
  validator builds from its tables (\<open>endure/publication/risk_feed.py\<close>), and the check a consumer
  runs on it (\<open>verify/risk_feed.py\<close>).  sha256, the signer and the key pair are parameters, and so are
  the texts of a row's two decimals, which the table holds.
\<close>

subsection \<open>Tiers\<close>

datatype risk_tier = Tier_A | Tier_B | Tier_C | Tier_D | Tier_E | Unrated

fun tier_text :: "risk_tier \<Rightarrow> string" where
  "tier_text Tier_A = ''A''"
| "tier_text Tier_B = ''B''"
| "tier_text Tier_C = ''C''"
| "tier_text Tier_D = ''D''"
| "tier_text Tier_E = ''E''"
| "tier_text Unrated = ''unrated''"

definition tier_a_max_drawdown_bps :: rat where "tier_a_max_drawdown_bps = 1000"

definition tier_a_max_volatility_bps :: rat where "tier_a_max_volatility_bps = 5000"

definition tier_b_max_drawdown_bps :: rat where "tier_b_max_drawdown_bps = 2000"

definition tier_b_max_volatility_bps :: rat where "tier_b_max_volatility_bps = 8000"

definition tier_c_max_drawdown_bps :: rat where "tier_c_max_drawdown_bps = 3500"

definition tier_c_max_volatility_bps :: rat where "tier_c_max_volatility_bps = 12000"

definition tier_d_max_drawdown_bps :: rat where "tier_d_max_drawdown_bps = 5000"

definition tier_d_max_volatility_bps :: rat where "tier_d_max_volatility_bps = 16000"

lemmas tier_bounds =
  tier_a_max_drawdown_bps_def tier_a_max_volatility_bps_def tier_b_max_drawdown_bps_def tier_b_max_volatility_bps_def
  tier_c_max_drawdown_bps_def tier_c_max_volatility_bps_def tier_d_max_drawdown_bps_def tier_d_max_volatility_bps_def

record risk_tier_inputs =
  ti_max_drawdown_bps :: "rat option"
  ti_realized_volatility_bps :: "rat option"
  ti_max_drawdown_voided :: bool
  ti_realized_volatility_voided :: bool

definition derive_risk_tier :: "risk_tier_inputs \<Rightarrow> risk_tier" where
  "derive_risk_tier i =
     (case (ti_max_drawdown_bps i, ti_realized_volatility_bps i) of
        (Some drawdown, Some volatility) \<Rightarrow>
          if ti_max_drawdown_voided i \<or> ti_realized_volatility_voided i then Unrated
          else if drawdown < tier_a_max_drawdown_bps \<and> volatility < tier_a_max_volatility_bps then Tier_A
          else if drawdown < tier_b_max_drawdown_bps \<and> volatility < tier_b_max_volatility_bps then Tier_B
          else if drawdown < tier_c_max_drawdown_bps \<and> volatility < tier_c_max_volatility_bps then Tier_C
          else if drawdown < tier_d_max_drawdown_bps \<and> volatility < tier_d_max_volatility_bps then Tier_D
          else Tier_E
      | _ \<Rightarrow> Unrated)"

subsection \<open>The metadata of a round\<close>

record round_meta =
  rm_round_id :: string
  rm_schema_id :: string
  rm_state :: round_state
  rm_created_at :: datetime
  rm_universe_stale :: bool
  rm_degraded :: bool
  rm_commit_open_at :: datetime
  rm_commit_close_at :: datetime
  rm_t0_close_at :: datetime
  rm_reveal_open_at :: datetime
  rm_reveal_close_at :: datetime
  rm_publication_available_at :: datetime
  rm_universe_source_hash :: "string option"
  rm_universe_size :: nat
  rm_accepted_submissions :: "nat option"

definition meta_of :: "'a db_scheme \<Rightarrow> round_row \<Rightarrow> universe_snapshot option \<Rightarrow> round_meta" where
  "meta_of d r universe =
     \<lparr>rm_round_id = rr_round_id r, rm_schema_id = rr_schema_id r, rm_state = rr_state r,
      rm_created_at = rr_created_at r, rm_universe_stale = rr_universe_stale r,
      rm_degraded = rr_degraded r,
      rm_commit_open_at = commit_open (rr_windows r),
      rm_commit_close_at = commit_close (rr_windows r),
      rm_t0_close_at = t0_close (rr_windows r),
      rm_reveal_open_at = reveal_open (rr_windows r),
      rm_reveal_close_at = reveal_close (rr_windows r),
      rm_publication_available_at = rr_publication_at r,
      rm_universe_source_hash = map_option us_source_hash universe,
      rm_universe_size = (case universe of None \<Rightarrow> 0 | Some u \<Rightarrow> length (us_tickers u)),
      rm_accepted_submissions = Some (accepted_submission_count d (round_key r))\<rparr>"

definition round_meta_for :: "'a db_scheme \<Rightarrow> round_key \<Rightarrow> universe_error + round_meta option" where
  "round_meta_for d k =
     (case round_of d k of
        None \<Rightarrow> Inr None
      | Some r \<Rightarrow> ebind (universe_for d k) (\<lambda>u. Inr (Some (meta_of d r u))))"

subsection \<open>The feed\<close>

text \<open>\<open>int(s)\<close>: spaces around, a sign, underscores between digits.\<close>

definition py_int :: "string \<Rightarrow> int option" where
  "py_int s =
     (case split_sign (strip s) of (neg, ds) \<Rightarrow>
        let digits = filter (\<lambda>c. c \<noteq> CHR ''_'') ds
        in if ds = [] \<or> \<not> list_all (\<lambda>c. is_digit c \<or> c = CHR ''_'') ds \<or> hd ds = CHR ''_'' \<or> last ds = CHR ''_''
              \<or> \<not> successively (\<lambda>a b. is_digit a \<or> is_digit b) ds \<or> max_int_digits < length digits
           then None
           else Some (if neg then - int_of_digits digits else int_of_digits digits))"

datatype feed_error =
    Not_an_int string | Feed_universe universe_error | Feed_coordinate coordinate_error
  | Feed_not_canonical canonical_error

definition int_of_text :: "string \<Rightarrow> feed_error + int" where
  "int_of_text s = (case py_int s of None \<Rightarrow> Inl (Not_an_int s) | Some n \<Rightarrow> Inr n)"

definition tier_outputs :: "string list" where
  "tier_outputs = [risk_output_name Max_drawdown, risk_output_name Realized_volatility]"

definition netuids_from_universe :: "'a db_scheme \<Rightarrow> string option \<Rightarrow> feed_error + int list" where
  "netuids_from_universe d round_id =
     (case round_id of
        None \<Rightarrow> Inr alpha_risk_whitelisted_netuids
      | Some r \<Rightarrow>
          (case universe_for d (r, risk_schema_id) of
             Inl e \<Rightarrow> Inl (Feed_universe e)
           | Inr None \<Rightarrow> Inr alpha_risk_whitelisted_netuids
           | Inr (Some u) \<Rightarrow> etraverse int_of_text (us_tickers u)))"

text \<open>\<open>_rows_by_netuid\<close>: the rows with their netuids, and the rows of one netuid.\<close>

definition rows_by_netuid :: "consensus_row list \<Rightarrow> feed_error + (int \<times> consensus_row) list" where
  "rows_by_netuid rows =
     etraverse (\<lambda>r. ebind (int_of_text (target_id (cr_coordinate r))) (\<lambda>n. Inr (n, r)))
       (filter (\<lambda>r. target_kind (cr_coordinate r) = Subnet_asset) rows)"

definition netuid_rows :: "(int \<times> consensus_row) list \<Rightarrow> int \<Rightarrow> consensus_row list" where
  "netuid_rows grouped n = map snd (filter (\<lambda>(m, r). m = n) grouped)"

definition thirty_day_values :: "consensus_row list \<Rightarrow> rat option \<times> rat option" where
  "thirty_day_values rows =
     foldl (\<lambda>(drawdown, volatility) r.
         let c = cr_coordinate r
         in if horizon_value c \<noteq> horizon_30d_seconds then (drawdown, volatility)
            else (if coord_output c = risk_output_name Max_drawdown then Some (cr_value r) else drawdown,
                  if coord_output c = risk_output_name Realized_volatility then Some (cr_value r) else volatility))
       (None, None) rows"

definition resolved_thirty_day_outputs :: "'a score_db_scheme \<Rightarrow> string \<Rightarrow> coordinate set" where
  "resolved_thirty_day_outputs d round_id =
     rt_coordinate ` set (filter (\<lambda>t. rt_status t = realized_target_resolved \<and> rt_value t \<noteq> None)
       (realized_targets_for_horizon d (round_id, risk_schema_id) (Some horizon_30d_seconds)))"

definition tier_inputs ::
  "int \<Rightarrow> consensus_row list \<Rightarrow> coordinate set \<Rightarrow> coordinate_error + risk_tier_inputs" where
  "tier_inputs netuid rows resolved =
     ebind (subnet_asset netuid horizon_30d_seconds (risk_output_name Max_drawdown)) (\<lambda>drawdown_coordinate.
     ebind (subnet_asset netuid horizon_30d_seconds (risk_output_name Realized_volatility)) (\<lambda>volatility_coordinate.
     Inr \<lparr>ti_max_drawdown_bps = fst (thirty_day_values rows),
          ti_realized_volatility_bps = snd (thirty_day_values rows),
          ti_max_drawdown_voided = drawdown_coordinate \<notin> resolved,
          ti_realized_volatility_voided = volatility_coordinate \<notin> resolved\<rparr>))"

record tier_context =
  tc_round_id :: string
  tc_rows :: "(int \<times> consensus_row) list"
  tc_resolved :: "coordinate set"
  tc_meta :: "round_meta option"

record subnet_entry =
  su_netuid :: int
  su_tier :: risk_tier
  su_tier_round_id :: "string option"
  su_tier_as_of :: "string option"
  su_consensus :: "consensus_row list"

record risk_feed =
  rf_round_id :: "string option"
  rf_as_of :: "string option"
  rf_subnets :: "subnet_entry list"

definition subnet_payload ::
  "(int \<Rightarrow> tier_context option) \<Rightarrow> (int \<times> consensus_row) list \<Rightarrow> int \<Rightarrow> feed_error + subnet_entry" where
  "subnet_payload context grouped netuid =
     (case context netuid of
        None \<Rightarrow> Inr \<lparr>su_netuid = netuid, su_tier = Unrated, su_tier_round_id = None, su_tier_as_of = None,
                    su_consensus = netuid_rows grouped netuid\<rparr>
      | Some tc \<Rightarrow>
          (case tier_inputs netuid (netuid_rows (tc_rows tc) netuid) (tc_resolved tc) of
             Inl e \<Rightarrow> Inl (Feed_coordinate e)
           | Inr i \<Rightarrow> Inr \<lparr>su_netuid = netuid, su_tier = derive_risk_tier i, su_tier_round_id = Some (tc_round_id tc),
                         su_tier_as_of = map_option (instant_text \<circ> rm_reveal_close_at) (tc_meta tc),
                         su_consensus = netuid_rows grouped netuid\<rparr>))"

definition meta_or_error :: "'a db_scheme \<Rightarrow> string \<Rightarrow> feed_error + round_meta option" where
  "meta_or_error d round_id =
     (case round_meta_for d (round_id, risk_schema_id) of Inl e \<Rightarrow> Inl (Feed_universe e) | Inr m \<Rightarrow> Inr m)"

definition tier_context_of :: "'a score_db_scheme \<Rightarrow> string \<Rightarrow> feed_error + tier_context" where
  "tier_context_of d round_id =
     ebind (rows_by_netuid (assessment_consensus_for d (round_id, risk_schema_id))) (\<lambda>rows.
     ebind (meta_or_error d round_id) (\<lambda>meta.
     Inr \<lparr>tc_round_id = round_id, tc_rows = rows, tc_resolved = resolved_thirty_day_outputs d round_id,
          tc_meta = meta\<rparr>))"

text \<open>The dict of the tier rounds: a later entry of a netuid replaces an earlier one.\<close>

definition tier_rounds :: "'a score_db_scheme \<Rightarrow> datetime \<Rightarrow> int \<Rightarrow> string option" where
  "tier_rounds d now netuid =
     (if netuid \<in> set alpha_risk_whitelisted_netuids
      then map_of (rev (latest_resolved_rounds d risk_schema_id horizon_30d_seconds tier_outputs now)) netuid
      else None)"

definition tier_round_ids :: "'a score_db_scheme \<Rightarrow> datetime \<Rightarrow> string list" where
  "tier_round_ids d now =
     sorted_list_of_set (set (List.map_filter (tier_rounds d now) alpha_risk_whitelisted_netuids))"

definition feed_payload :: "'a score_db_scheme \<Rightarrow> datetime \<Rightarrow> feed_error + risk_feed" where
  "feed_payload d now =
     (let round_id = latest_consensus_round d risk_schema_id now;
          rows = (case round_id of None \<Rightarrow> [] | Some r \<Rightarrow> assessment_consensus_for d (r, risk_schema_id))
      in ebind (netuids_from_universe d round_id) (\<lambda>universe.
         ebind (etraverse (\<lambda>r. ebind (tier_context_of d r) (\<lambda>tc. Inr (r, tc))) (tier_round_ids d now)) (\<lambda>contexts.
         ebind (rows_by_netuid rows) (\<lambda>grouped.
         ebind (case round_id of None \<Rightarrow> Inr None | Some r \<Rightarrow> meta_or_error d r) (\<lambda>meta.
         ebind (etraverse (subnet_payload (\<lambda>n. Option.bind (tier_rounds d now n) (map_of contexts)) grouped)
           (sorted_list_of_set (set universe \<inter> set alpha_risk_whitelisted_netuids
             \<union> set (filter (\<lambda>n. tier_rounds d now n \<noteq> None) alpha_risk_whitelisted_netuids)))) (\<lambda>subnets.
         Inr \<lparr>rf_round_id = round_id, rf_as_of = map_option (instant_text \<circ> rm_reveal_close_at) meta, rf_subnets = subnets\<rparr>))))))"

subsection \<open>Its document\<close>

definition feed_schema_version :: int where
  "feed_schema_version = 1"

definition text_or_null :: "string option \<Rightarrow> node" where
  "text_or_null s = (case s of None \<Rightarrow> NNone | Some t \<Rightarrow> NStr t)"

definition consensus_payload :: "(consensus_row \<Rightarrow> string \<times> string) \<Rightarrow> consensus_row \<Rightarrow> node" where
  "consensus_payload texts r =
     NDict [(NStr ''output'', NStr (coord_output (cr_coordinate r))),
            (NStr ''horizon_seconds'', NInt (horizon_value (cr_coordinate r))),
            (NStr ''median'', NStr (fst (texts r))), (NStr ''mad'', NStr (snd (texts r))),
            (NStr ''n_submitters'', NInt (cr_n_submitters r))]"

definition subnet_node :: "(consensus_row \<Rightarrow> string \<times> string) \<Rightarrow> subnet_entry \<Rightarrow> node" where
  "subnet_node texts e =
     NDict [(NStr ''netuid'', NInt (su_netuid e)), (NStr ''tier'', NStr (tier_text (su_tier e))),
            (NStr ''tier_round_id'', text_or_null (su_tier_round_id e)),
            (NStr ''tier_as_of'', text_or_null (su_tier_as_of e)),
            (NStr ''consensus'', NList (map (consensus_payload texts) (su_consensus e)))]"

definition feed_node :: "(consensus_row \<Rightarrow> string \<times> string) \<Rightarrow> risk_feed \<Rightarrow> node" where
  "feed_node texts f =
     NDict [(NStr ''schema_id'', NStr risk_schema_id), (NStr ''feed_schema_version'', NInt feed_schema_version),
            (NStr ''round_id'', text_or_null (rf_round_id f)), (NStr ''as_of'', text_or_null (rf_as_of f)),
            (NStr ''subnets'', NList (map (subnet_node texts) (rf_subnets f)))]"

definition signature_node :: "(bytes \<Rightarrow> bytes) \<Rightarrow> (bytes \<Rightarrow> bytes) \<Rightarrow> string \<Rightarrow> bytes \<Rightarrow> node" where
  "signature_node sha256 signer signed_by canonical =
     NDict [(NStr ''signed_by'', NStr signed_by), (NStr ''signature_hex'', NStr (hex (signer canonical))),
            (NStr ''canonical_payload_sha256'', NStr (hex (sha256 canonical)))]"

definition build_signed_risk_feed ::
  "(bytes \<Rightarrow> bytes) \<Rightarrow> (consensus_row \<Rightarrow> string \<times> string) \<Rightarrow> (bytes \<Rightarrow> bytes) option \<Rightarrow> string option
     \<Rightarrow> 'a score_db_scheme \<Rightarrow> datetime \<Rightarrow> feed_error + node" where
  "build_signed_risk_feed sha256 texts signer signed_by d now =
     ebind (feed_payload d now) (\<lambda>f.
     case canonical_bundle_bytes (feed_node texts f) of
       Inl e \<Rightarrow> Inl (Feed_not_canonical e)
     | Inr canonical \<Rightarrow> Inr (NDict [(NStr ''payload'', feed_node texts f),
         (NStr ''signature'', case (signer, signed_by) of
             (Some s, Some who) \<Rightarrow> signature_node sha256 s who canonical | _ \<Rightarrow> NNone)]))"

subsection \<open>The consumer's check\<close>

datatype verify_error =
    Not_an_object string | Missing_string string | Payload_not_canonical canonical_error | Digest_not_ascii
  | Digest_differs | Signature_not_hex | Unknown_signer | Signature_invalid | Round_id_not_text

record verified_risk_feed =
  vf_signer :: string
  vf_round_id :: "string option"
  vf_payload_sha256 :: string

definition object_mapping :: "string \<Rightarrow> node \<Rightarrow> verify_error + (node \<times> node) list" where
  "object_mapping label v =
     (case v of
        NDict items \<Rightarrow> if list_all (\<lambda>(k, _). case k of NStr _ \<Rightarrow> True | _ \<Rightarrow> False) items then Inr items
                      else Inl (Not_an_object label)
      | _ \<Rightarrow> Inl (Not_an_object label))"

text \<open>\<open>mapping.get(key)\<close>.\<close>

definition entry :: "(node \<times> node) list \<Rightarrow> string \<Rightarrow> node" where
  "entry items k = (case map_of items (NStr k) of None \<Rightarrow> NNone | Some v \<Rightarrow> v)"

definition required_string :: "(node \<times> node) list \<Rightarrow> string \<Rightarrow> verify_error + string" where
  "required_string items k =
     (case entry items k of NStr s \<Rightarrow> if s = [] then Inl (Missing_string k) else Inr s | _ \<Rightarrow> Inl (Missing_string k))"

text \<open>
  \<open>hmac.compare_digest\<close> refuses texts that are not ASCII.  \<open>keypair\<close> is the check of signatures by an
  address, where the address has one.
\<close>

definition verify_risk_feed ::
  "(bytes \<Rightarrow> bytes) \<Rightarrow> (string \<Rightarrow> (bytes \<Rightarrow> bytes \<Rightarrow> bool) option) \<Rightarrow> node \<Rightarrow> verify_error + verified_risk_feed" where
  "verify_risk_feed sha256 keypair document =
     ebind (object_mapping ''feed'' document) (\<lambda>envelope.
     ebind (object_mapping ''payload'' (entry envelope ''payload'')) (\<lambda>payload.
     ebind (object_mapping ''signature'' (entry envelope ''signature'')) (\<lambda>signature.
     ebind (required_string signature ''signed_by'') (\<lambda>signed_by.
     ebind (required_string signature ''signature_hex'') (\<lambda>signature_hex.
     ebind (required_string signature ''canonical_payload_sha256'') (\<lambda>expected.
     case canonical_bundle_bytes (NDict payload) of
       Inl e \<Rightarrow> Inl (Payload_not_canonical e)
     | Inr canonical \<Rightarrow>
         if \<not> list_all (\<lambda>c. (of_char c :: nat) < 128) expected then Inl Digest_not_ascii
         else if expected \<noteq> hex (sha256 canonical) then Inl Digest_differs
         else case fromhex signature_hex of
             None \<Rightarrow> Inl Signature_not_hex
           | Some signature_bytes \<Rightarrow>
               (case keypair signed_by of
                  None \<Rightarrow> Inl Unknown_signer
                | Some verifies \<Rightarrow>
                    if \<not> verifies canonical signature_bytes then Inl Signature_invalid
                    else ebind (case entry payload ''round_id'' of
                             NNone \<Rightarrow> Inr None | NStr s \<Rightarrow> Inr (Some s) | _ \<Rightarrow> Inl Round_id_not_text) (\<lambda>round_id.
                         Inr \<lparr>vf_signer = signed_by, vf_round_id = round_id,
                              vf_payload_sha256 = hex (sha256 canonical)\<rparr>))))))))"

subsection \<open>Which subnets are rated\<close>

fun tier_rank :: "risk_tier \<Rightarrow> nat" where
  "tier_rank Tier_A = 0"
| "tier_rank Tier_B = 1"
| "tier_rank Tier_C = 2"
| "tier_rank Tier_D = 3"
| "tier_rank Tier_E = 4"
| "tier_rank Unrated = 5"

lemma rated_iff:
  "derive_risk_tier i \<noteq> Unrated \<longleftrightarrow> ti_max_drawdown_bps i \<noteq> None \<and> ti_realized_volatility_bps i \<noteq> None
     \<and> \<not> ti_max_drawdown_voided i \<and> \<not> ti_realized_volatility_voided i"
  by (auto simp: derive_risk_tier_def split: option.splits)

lemma worse_risk_never_rates_better:
  assumes "drawdown \<le> drawdown'" "volatility \<le> volatility'"
  shows "tier_rank (derive_risk_tier \<lparr>ti_max_drawdown_bps = Some drawdown, ti_realized_volatility_bps = Some volatility,
           ti_max_drawdown_voided = False, ti_realized_volatility_voided = False\<rparr>)
     \<le> tier_rank (derive_risk_tier \<lparr>ti_max_drawdown_bps = Some drawdown', ti_realized_volatility_bps = Some volatility',
           ti_max_drawdown_voided = v, ti_realized_volatility_voided = v'\<rparr>)"
  using assms by (simp add: derive_risk_tier_def tier_bounds)

text \<open>A thirty-day outcome of a subnet, and a consensus value of it.\<close>

definition resolved_outcome :: "'a score_db_scheme \<Rightarrow> string \<Rightarrow> int \<Rightarrow> risk_output \<Rightarrow> bool" where
  "resolved_outcome d r n out \<longleftrightarrow>
     (\<exists>t \<in> set (sd_targets d). te_key t = (r, risk_schema_id)
       \<and> rt_coordinate (te_row t) = Coordinate Subnet_asset (str_int n) Seconds horizon_30d_seconds (risk_output_name out)
       \<and> rt_status (te_row t) = realized_target_resolved \<and> rt_value (te_row t) \<noteq> None)"

definition published_value :: "'a score_db_scheme \<Rightarrow> string \<Rightarrow> int \<Rightarrow> risk_output \<Rightarrow> rat \<Rightarrow> bool" where
  "published_value d r n out v \<longleftrightarrow>
     (\<exists>e \<in> set (sd_consensus d). ce_key e = (r, risk_schema_id)
       \<and> target_kind (cr_coordinate (ce_row e)) = Subnet_asset
       \<and> py_int (target_id (cr_coordinate (ce_row e))) = Some n
       \<and> horizon_value (cr_coordinate (ce_row e)) = horizon_30d_seconds
       \<and> coord_output (cr_coordinate (ce_row e)) = risk_output_name out \<and> cr_value (ce_row e) = v)"

lemma thirty_day_values_of:
  "(fst (thirty_day_values rows) = Some v \<longrightarrow> (\<exists>r \<in> set rows. horizon_value (cr_coordinate r) = horizon_30d_seconds
      \<and> coord_output (cr_coordinate r) = risk_output_name Max_drawdown \<and> cr_value r = v))
   \<and> (snd (thirty_day_values rows) = Some w \<longrightarrow> (\<exists>r \<in> set rows. horizon_value (cr_coordinate r) = horizon_30d_seconds
      \<and> coord_output (cr_coordinate r) = risk_output_name Realized_volatility \<and> cr_value r = w))"
proof (induction rows rule: rev_induct)
  case Nil
  show ?case by (simp add: thirty_day_values_def)
next
  case (snoc r rows)
  let ?p = "thirty_day_values rows"
  let ?q = "thirty_day_values (rows @ [r])"
  have step: "?q = (if horizon_value (cr_coordinate r) \<noteq> horizon_30d_seconds then ?p
      else (if coord_output (cr_coordinate r) = risk_output_name Max_drawdown then Some (cr_value r) else fst ?p,
            if coord_output (cr_coordinate r) = risk_output_name Realized_volatility then Some (cr_value r) else snd ?p))"
    by (simp add: thirty_day_values_def Let_def split_beta)
  show ?case
    using snoc by (cases "horizon_value (cr_coordinate r) = horizon_30d_seconds") (auto simp: step)
qed

lemma resolved_output_in:
  assumes "c \<in> resolved_thirty_day_outputs d r"
  shows "\<exists>t \<in> set (sd_targets d). te_key t = (r, risk_schema_id) \<and> rt_coordinate (te_row t) = c
     \<and> rt_status (te_row t) = realized_target_resolved \<and> rt_value (te_row t) \<noteq> None"
  using assms by (auto simp: resolved_thirty_day_outputs_def realized_targets_for_horizon_def)

lemma newest_member: "newest ids = Some r \<Longrightarrow> r \<in> set ids"
  using last_in_set [of "sort ids"] by (auto simp: newest_def simp flip: set_empty split: if_splits)

lemma tier_rounds_member:
  assumes "tier_rounds d now n = Some r"
  shows "n \<in> set alpha_risk_whitelisted_netuids" "r \<in> set (post_embargo_rounds d risk_schema_id now)"
proof -
  show "n \<in> set alpha_risk_whitelisted_netuids" using assms by (simp add: tier_rounds_def split: if_splits)
  have "(n, r) \<in> set (latest_resolved_rounds d risk_schema_id horizon_30d_seconds tier_outputs now)"
    using assms map_of_SomeD by (fastforce simp: tier_rounds_def split: if_splits)
  then obtain tid where "newest (complete_rounds (resolved_with_consensus d risk_schema_id horizon_30d_seconds
      tier_outputs now) tier_outputs tid) = Some r"
    by (auto simp: latest_resolved_rounds_def Let_def List.map_filter_def split: if_splits)
  from newest_member [OF this] show "r \<in> set (post_embargo_rounds d risk_schema_id now)"
    by (auto simp: complete_rounds_def resolved_with_consensus_def)
qed

lemma rows_by_netuid_rows:
  assumes "rows_by_netuid rows = Inr grouped" "r \<in> set (netuid_rows grouped n)"
  shows "r \<in> set rows \<and> target_kind (cr_coordinate r) = Subnet_asset \<and> py_int (target_id (cr_coordinate r)) = Some n"
proof -
  have "(n, r) \<in> set grouped" using assms(2) by (auto simp: netuid_rows_def)
  from etraverse_member [OF assms(1) [unfolded rows_by_netuid_def] this] obtain r' where
    "r' \<in> set rows" "target_kind (cr_coordinate r') = Subnet_asset"
    "ebind (int_of_text (target_id (cr_coordinate r'))) (\<lambda>n. Inr (n, r')) = Inr (n, r)" by auto
  then show ?thesis by (auto simp: int_of_text_def split: option.splits)
qed

lemma tier_context_fields:
  assumes "tier_context_of d r = Inr tc"
  shows "tc_round_id tc = r" "tc_resolved tc = resolved_thirty_day_outputs d r"
    "rows_by_netuid (assessment_consensus_for d (r, risk_schema_id)) = Inr (tc_rows tc)"
  using assms by (auto simp: tier_context_of_def)

text \<open>An entry of the feed, with the context its tier comes from.\<close>

lemma feed_entry:
  assumes "feed_payload d now = Inr f" "e \<in> set (rf_subnets f)"
  obtains contexts grouped n where
    "subnet_payload (\<lambda>n. Option.bind (tier_rounds d now n) (map_of contexts)) grouped n = Inr e"
    "\<And>r tc. map_of contexts r = Some tc \<Longrightarrow> tier_context_of d r = Inr tc"
proof -
  obtain contexts grouped ns where c: "etraverse (\<lambda>r. ebind (tier_context_of d r) (\<lambda>tc. Inr (r, tc)))
      (tier_round_ids d now) = Inr contexts"
    and s: "etraverse (subnet_payload (\<lambda>n. Option.bind (tier_rounds d now n) (map_of contexts)) grouped) ns
      = Inr (rf_subnets f)"
    using assms(1) by (auto simp: feed_payload_def Let_def)
  obtain n where "subnet_payload (\<lambda>n. Option.bind (tier_rounds d now n) (map_of contexts)) grouped n = Inr e"
    using etraverse_member [OF s assms(2)] by blast
  moreover have "tier_context_of d r = Inr tc" if "map_of contexts r = Some tc" for r tc
    using etraverse_member [OF c map_of_SomeD [OF that]] by auto
  ultimately show ?thesis by (rule that)
qed

text \<open>
  C31: a subnet is rated only on evidence: its tier is derived from values that the consensus of one
  round published for its thirty-day drawdown and volatility, that round is past its embargo, both
  outcomes have been resolved there to a value, and the subnet is whitelisted.
\<close>

theorem rated_subnets_have_evidence:
  assumes "feed_payload d now = Inr f" "e \<in> set (rf_subnets f)" "su_tier e \<noteq> Unrated"
  shows "\<exists>r drawdown volatility. su_tier_round_id e = Some r
     \<and> r \<in> set (post_embargo_rounds d risk_schema_id now) \<and> su_netuid e \<in> set alpha_risk_whitelisted_netuids
     \<and> resolved_outcome d r (su_netuid e) Max_drawdown \<and> resolved_outcome d r (su_netuid e) Realized_volatility
     \<and> published_value d r (su_netuid e) Max_drawdown drawdown
     \<and> published_value d r (su_netuid e) Realized_volatility volatility
     \<and> su_tier e = derive_risk_tier \<lparr>ti_max_drawdown_bps = Some drawdown, ti_realized_volatility_bps = Some volatility,
         ti_max_drawdown_voided = False, ti_realized_volatility_voided = False\<rparr>"
proof -
  obtain contexts grouped n where
    entry: "subnet_payload (\<lambda>n. Option.bind (tier_rounds d now n) (map_of contexts)) grouped n = Inr e"
    and contexts: "\<And>r tc. map_of contexts r = Some tc \<Longrightarrow> tier_context_of d r = Inr tc"
    using feed_entry [OF assms(1,2)] by blast
  obtain r tc where r: "tier_rounds d now n = Some r" and tc: "map_of contexts r = Some tc"
    using entry assms(3) by (cases "tier_rounds d now n"; cases "map_of contexts (the (tier_rounds d now n))")
      (auto simp: subnet_payload_def)
  note fields = tier_context_fields [OF contexts [OF tc]]
  obtain i where i: "tier_inputs n (netuid_rows (tc_rows tc) n) (tc_resolved tc) = Inr i"
    and e: "su_netuid e = n" "su_tier e = derive_risk_tier i" "su_tier_round_id e = Some r"
    using entry fields(1) by (auto simp: subnet_payload_def r tc split: sum.splits)
  have rated: "ti_max_drawdown_bps i \<noteq> None" "ti_realized_volatility_bps i \<noteq> None"
    "\<not> ti_max_drawdown_voided i" "\<not> ti_realized_volatility_voided i"
    using assms(3) by (simp_all add: e rated_iff)
  define rows where "rows = netuid_rows (tc_rows tc) n"
  have inputs: "ti_max_drawdown_bps i = fst (thirty_day_values rows)"
    "ti_realized_volatility_bps i = snd (thirty_day_values rows)"
    "ti_max_drawdown_voided i = (Coordinate Subnet_asset (str_int n) Seconds horizon_30d_seconds
       (risk_output_name Max_drawdown) \<notin> tc_resolved tc)"
    "ti_realized_volatility_voided i = (Coordinate Subnet_asset (str_int n) Seconds horizon_30d_seconds
       (risk_output_name Realized_volatility) \<notin> tc_resolved tc)"
    using i by (auto simp: tier_inputs_def subnet_asset_Inr rows_def)
  obtain v w where v: "ti_max_drawdown_bps i = Some v" and w: "ti_realized_volatility_bps i = Some w"
    using rated by auto
  have i_eq: "i = \<lparr>ti_max_drawdown_bps = Some v, ti_realized_volatility_bps = Some w,
      ti_max_drawdown_voided = False, ti_realized_volatility_voided = False\<rparr>"
    using v w rated by (cases i) simp
  have row: "\<exists>e \<in> set (sd_consensus d). ce_key e = (r, risk_schema_id) \<and> ce_row e = x
      \<and> target_kind (cr_coordinate x) = Subnet_asset \<and> py_int (target_id (cr_coordinate x)) = Some n"
    if "x \<in> set rows" for x
    using rows_by_netuid_rows [OF fields(3), of x n] that
    by (auto simp: rows_def assessment_consensus_for_def)
  have "published_value d r n Max_drawdown v" "published_value d r n Realized_volatility w"
    using thirty_day_values_of [of rows v w] v w row unfolding inputs published_value_def by metis+
  moreover have "resolved_outcome d r n Max_drawdown" "resolved_outcome d r n Realized_volatility"
    using rated(3,4) resolved_output_in unfolding inputs fields(2) resolved_outcome_def by blast+
  ultimately show ?thesis using tier_rounds_member [OF r] i_eq by (auto simp: e)
qed

subsection \<open>The signed document\<close>

lemma feed_node_clean: "ints_printable (feed_node texts f) \<Longrightarrow> clean (feed_node texts f)"
  by (auto simp: feed_node_def subnet_node_def consensus_payload_def text_or_null_def list_all_iff split: option.splits)

lemma feed_node_depth: "node_depth (feed_node texts f) \<le> 5"
  by (auto simp: feed_node_def subnet_node_def consensus_payload_def text_or_null_def node_depth_elem
      simp del: node_depth.simps(1,2) split: option.splits)

lemma hex_ascii: "list_all (\<lambda>c. (of_char c :: nat) < 128) (hex bs)"
proof -
  have digit: "(of_char (hex_digit n) :: nat) < 128" if "n < 16" for n using that by (simp add: hex_digit_def)
  have "unat b div 16 < 16" "unat b mod 16 < 16" for b :: "8 word" using unat_byte_less [of b] by simp_all
  then show ?thesis using digit by (simp add: hex_def list_all_iff)
qed

text \<open>
  C32: a feed the validator signs passes the consumer's check after it has travelled as JSON text: the
  check reports the signer, the round of the feed and the digest of its canonical payload.  The
  hypotheses say that the key pair of the address accepts the signer's signatures and that neither
  signatures nor digests are empty.
\<close>

theorem signed_feed_verifies:
  assumes "build_signed_risk_feed sha256 texts (Some signer) (Some who) d now = Inr doc"
    and "keypair who = Some verifies" "\<And>m. verifies m (signer m)" "who \<noteq> []"
    and "\<And>m. sha256 m \<noteq> []" "\<And>m. signer m \<noteq> []" "6 \<le> depth"
  shows "\<exists>f payload received. feed_payload d now = Inr f \<and> canonical_bundle_bytes (feed_node texts f) = Inr payload
     \<and> loads depth (dumps doc) = Some received
     \<and> verify_risk_feed sha256 keypair received = Inr
         \<lparr>vf_signer = who, vf_round_id = rf_round_id f, vf_payload_sha256 = hex (sha256 payload)\<rparr>"
proof -
  obtain f payload where f: "feed_payload d now = Inr f"
    and payload: "canonical_bundle_bytes (feed_node texts f) = Inr payload"
    and doc: "doc = NDict [(NStr ''payload'', feed_node texts f),
        (NStr ''signature'', signature_node sha256 signer who payload)]"
  proof -
    obtain f where "feed_payload d now = Inr f" using assms(1) by (auto simp: build_signed_risk_feed_def)
    with assms(1) that show ?thesis
      by (cases "canonical_bundle_bytes (feed_node texts f)") (auto simp: build_signed_risk_feed_def)
  qed
  have printable: "ints_printable (feed_node texts f)"
    using payload by (auto simp: canonical_bundle_bytes_def canonical_text_Inr)
  have "clean doc" using feed_node_clean [OF printable] by (simp add: doc signature_node_def)
  moreover have "node_depth doc \<le> depth"
    using feed_node_depth [of texts f] assms(7)
    by (auto simp: doc signature_node_def node_depth_elem simp del: node_depth.simps(1,2))
  ultimately have sent: "loads depth (dumps doc) = Some doc" by (rule loads_dumps)
  have ne: "hex bs \<noteq> []" if "bs \<noteq> []" for bs using that length_hex [of bs] by (metis length_0_conv mult_eq_0_iff zero_neq_numeral)
  obtain items where items: "feed_node texts f = NDict items" "object_mapping ''payload'' (NDict items) = Inr items"
    "entry items ''round_id'' = text_or_null (rf_round_id f)"
    by (simp add: feed_node_def object_mapping_def entry_def)
  have signature: "object_mapping ''signature'' (signature_node sha256 signer who payload) = Inr
      [(NStr ''signed_by'', NStr who), (NStr ''signature_hex'', NStr (hex (signer payload))),
       (NStr ''canonical_payload_sha256'', NStr (hex (sha256 payload)))]"
    by (simp add: signature_node_def object_mapping_def)
  have envelope: "object_mapping ''feed'' doc = Inr [(NStr ''payload'', NDict items),
      (NStr ''signature'', signature_node sha256 signer who payload)]"
    by (simp add: doc items(1) object_mapping_def)
  have parts: "entry [(NStr ''payload'', NDict items), (NStr ''signature'', s)] ''payload'' = NDict items"
    "entry [(NStr ''payload'', NDict items), (NStr ''signature'', s)] ''signature'' = s" for s
    by (simp_all add: entry_def)
  have strings: "required_string [(NStr ''signed_by'', NStr a), (NStr ''signature_hex'', NStr b),
      (NStr ''canonical_payload_sha256'', NStr c)] ''signed_by'' = Inr a"
    "required_string [(NStr ''signed_by'', NStr a), (NStr ''signature_hex'', NStr b),
      (NStr ''canonical_payload_sha256'', NStr c)] ''signature_hex'' = Inr b"
    "required_string [(NStr ''signed_by'', NStr a), (NStr ''signature_hex'', NStr b),
      (NStr ''canonical_payload_sha256'', NStr c)] ''canonical_payload_sha256'' = Inr c"
    if "a \<noteq> []" "b \<noteq> []" "c \<noteq> []" for a b c
    using that by (simp_all add: required_string_def entry_def)
  have nonempty: "hex (signer payload) \<noteq> []" "hex (sha256 payload) \<noteq> []" using ne assms(5,6) by blast+
  have "verify_risk_feed sha256 keypair doc = Inr
      \<lparr>vf_signer = who, vf_round_id = rf_round_id f, vf_payload_sha256 = hex (sha256 payload)\<rparr>"
    using payload assms(2,3) unfolding verify_risk_feed_def envelope items(1)
    by (cases "rf_round_id f")
      (simp_all add: parts items(2,3) signature strings [OF assms(4) nonempty] hex_ascii text_or_null_def)
  then show ?thesis using f payload sent by blast
qed

subsection \<open>A feed with one rated subnet\<close>

definition demo_feed_cell :: "risk_output \<Rightarrow> coordinate" where
  "demo_feed_cell out = Coordinate Subnet_asset ''8'' Seconds horizon_30d_seconds (risk_output_name out)"

definition demo_feed_value :: "risk_output \<Rightarrow> rat \<Rightarrow> consensus_row" where
  "demo_feed_value out v =
     \<lparr>cr_coordinate = demo_feed_cell out, cr_value = v, cr_dispersion = 0, cr_n_submitters = 3\<rparr>"

definition demo_feed_target :: "risk_output \<Rightarrow> rat \<Rightarrow> realized_target" where
  "demo_feed_target out v =
     \<lparr>rt_coordinate = demo_feed_cell out, rt_value = Some v, rt_status = realized_target_resolved, rt_payload_hash = None\<rparr>"

definition demo_feed_close :: datetime where
  "demo_feed_close = 63920102400000000"

definition demo_feed_round :: round_row where
  "demo_feed_round =
     \<lparr>rr_round_id = ''2026-07-19'', rr_schema_id = risk_schema_id, rr_state = Round_closed,
      rr_universe_stale = False, rr_degraded = False,
      rr_windows = \<lparr>rw_round_id = ''2026-07-19'', commit_open = 0, commit_close = 1, t0_close = 2,
        reveal_open = 3, reveal_close = demo_feed_close\<rparr>,
      rr_publication_at = demo_feed_close, rr_created_at = 0, rr_updated_at = 0\<rparr>"

definition demo_feed_db :: score_db where
  "demo_feed_db =
     (let k = (''2026-07-19'', risk_schema_id) in empty_score_db\<lparr>
        db_rounds := [demo_feed_round],
        db_universes := [\<lparr>ur_round_id = ''2026-07-19'', ur_schema_id = risk_schema_id, ur_tickers = [''8''],
          ur_source_hash = ''00'', ur_fetched_at = 0\<rparr>],
        sd_consensus := [\<lparr>ce_key = k, ce_row = demo_feed_value Max_drawdown 900, ce_at = 0\<rparr>,
          \<lparr>ce_key = k, ce_row = demo_feed_value Realized_volatility 6000, ce_at = 0\<rparr>],
        sd_targets := [\<lparr>te_key = k, te_row = demo_feed_target Max_drawdown 800, te_at = 0\<rparr>,
          \<lparr>te_key = k, te_row = demo_feed_target Realized_volatility 7000, te_at = 0\<rparr>]\<rparr>)"

definition demo_feed :: risk_feed where
  "demo_feed =
     \<lparr>rf_round_id = Some ''2026-07-19'', rf_as_of = Some ''2026-07-20T00:00:00+00:00'',
      rf_subnets = [\<lparr>su_netuid = 8, su_tier = Tier_B, su_tier_round_id = Some ''2026-07-19'',
        su_tier_as_of = Some ''2026-07-20T00:00:00+00:00'',
        su_consensus = [demo_feed_value Max_drawdown 900, demo_feed_value Realized_volatility 6000]\<rparr>]\<rparr>"

definition demo_feed_universe :: universe_snapshot where
  "demo_feed_universe = \<lparr>us_round_id = ''2026-07-19'', us_tickers = [''8''], us_source_hash = ''00''\<rparr>"

definition demo_feed_meta :: round_meta where
  "demo_feed_meta = meta_of demo_feed_db demo_feed_round (Some demo_feed_universe)"

lemma demo_feed_reads:
  "latest_consensus_round demo_feed_db risk_schema_id (demo_feed_close + 1) = Some ''2026-07-19''"
  "netuids_from_universe demo_feed_db (Some ''2026-07-19'') = Inr [8]"
  "assessment_consensus_for demo_feed_db (''2026-07-19'', risk_schema_id) =
     [demo_feed_value Max_drawdown 900, demo_feed_value Realized_volatility 6000]"
  "rows_by_netuid [demo_feed_value Max_drawdown 900, demo_feed_value Realized_volatility 6000] =
     Inr [(8, demo_feed_value Max_drawdown 900), (8, demo_feed_value Realized_volatility 6000)]"
  "resolved_thirty_day_outputs demo_feed_db ''2026-07-19'' =
     {demo_feed_cell Max_drawdown, demo_feed_cell Realized_volatility}"
  "meta_or_error demo_feed_db ''2026-07-19'' = Inr (Some demo_feed_meta)"
  "instant_text (rm_reveal_close_at demo_feed_meta) = ''2026-07-20T00:00:00+00:00''"
  by code_simp+

lemma demo_feed_rounds:
  "tier_rounds demo_feed_db (demo_feed_close + 1) 8 = Some ''2026-07-19''"
  "tier_round_ids demo_feed_db (demo_feed_close + 1) = [''2026-07-19'']"
  "sorted_list_of_set (set [8] \<inter> set alpha_risk_whitelisted_netuids \<union> set (filter
     (\<lambda>n. tier_rounds demo_feed_db (demo_feed_close + 1) n \<noteq> None) alpha_risk_whitelisted_netuids)) = [8]"
  by code_simp+

lemma demo_feed_tier:
  "tier_inputs 8 [demo_feed_value Max_drawdown 900, demo_feed_value Realized_volatility 6000]
     {demo_feed_cell Max_drawdown, demo_feed_cell Realized_volatility} =
   Inr \<lparr>ti_max_drawdown_bps = Some 900, ti_realized_volatility_bps = Some 6000,
        ti_max_drawdown_voided = False, ti_realized_volatility_voided = False\<rparr>"
  by code_simp

lemma demo_feed_payload: "feed_payload demo_feed_db (demo_feed_close + 1) = Inr demo_feed"
  unfolding feed_payload_def Let_def demo_feed_reads option.case ebind_simps demo_feed_rounds
  by (simp add: demo_feed_reads demo_feed_rounds tier_context_of_def subnet_payload_def netuid_rows_def demo_feed_tier
      demo_feed_def derive_risk_tier_def tier_bounds)

lemma rated_subnets_have_evidence_witness:
  "\<exists>v w. published_value demo_feed_db ''2026-07-19'' 8 Max_drawdown v
     \<and> published_value demo_feed_db ''2026-07-19'' 8 Realized_volatility w
     \<and> resolved_outcome demo_feed_db ''2026-07-19'' 8 Max_drawdown"
proof -
  define e where "e = hd (rf_subnets demo_feed)"
  have e: "e \<in> set (rf_subnets demo_feed)" "su_tier e \<noteq> Unrated" "su_netuid e = 8"
    "su_tier_round_id e = Some ''2026-07-19''" by (simp_all add: e_def demo_feed_def)
  from rated_subnets_have_evidence [OF demo_feed_payload e(1,2)] show ?thesis unfolding e(3,4) by auto
qed

lemma signed_feed_verifies_witness:
  "\<exists>doc received. build_signed_risk_feed (\<lambda>_. [7]) (\<lambda>_. (''1'', ''0'')) (Some (\<lambda>m. [1])) (Some ''5F'')
       demo_feed_db (demo_feed_close + 1) = Inr doc
     \<and> loads 6 (dumps doc) = Some received
     \<and> verify_risk_feed (\<lambda>_. [7]) (\<lambda>_. Some (\<lambda>m s. s = [1])) received = Inr
         \<lparr>vf_signer = ''5F'', vf_round_id = Some ''2026-07-19'', vf_payload_sha256 = ''07''\<rparr>"
proof -
  have "validate (feed_node (\<lambda>_. (''1'', ''0'')) demo_feed) = Inr ()"
    "ints_printable (feed_node (\<lambda>_. (''1'', ''0'')) demo_feed)"
    by (code_simp, code_simp)
  then obtain payload where "canonical_bundle_bytes (feed_node (\<lambda>_. (''1'', ''0'')) demo_feed) = Inr payload"
    by (simp add: canonical_bundle_bytes_def canonical_text_def)
  then obtain doc where doc: "build_signed_risk_feed (\<lambda>_. [7]) (\<lambda>_. (''1'', ''0'')) (Some (\<lambda>m. [1])) (Some ''5F'')
      demo_feed_db (demo_feed_close + 1) = Inr doc"
    by (simp add: build_signed_risk_feed_def demo_feed_payload)
  have "hex [7] = ''07''" by code_simp
  moreover have "rf_round_id demo_feed = Some ''2026-07-19''" by (simp add: demo_feed_def)
  ultimately show ?thesis
    using signed_feed_verifies [OF doc, of "\<lambda>_. Some (\<lambda>m s. s = [1])" "\<lambda>m s. s = [1]" 6] doc
    by (auto simp: demo_feed_payload)
qed
end
