(* ===== verification/Public_Api.thy ===== *)
theory Public_Api
  imports Risk_Feed Weights Registry
begin

text \<open>
  The validator's public read API (\<open>endure/api/app.py\<close>, \<open>endure/api/__init__.py\<close>): each route as a
  function of the request, the database and the clock, with the gate that keeps the data of a round
  under embargo, and the health of the round loop.  Responses are the values a route renders; the
  HTTP errors are values.
\<close>

subsection \<open>Resolution health\<close>

record horizon_health =
  hh_horizon_seconds :: int
  hh_due_at :: datetime

record resolution_detail =
  rd_round_id :: string
  rd_pending_horizons :: "horizon_health list"
  rd_overdue_horizons :: "horizon_health list"

record resolution_health =
  rh_pending_round_count :: nat
  rh_overdue_round_count :: nat
  rh_pending_rounds :: "resolution_detail list"
  rh_overdue_rounds :: "resolution_detail list"

definition effective_due_seconds :: "(int \<Rightarrow> int option) option \<Rightarrow> int \<Rightarrow> int" where
  "effective_due_seconds due_seconds horizon =
     (case due_seconds of None \<Rightarrow> horizon | Some m \<Rightarrow> (case m horizon of None \<Rightarrow> horizon | Some s \<Rightarrow> s))"

definition resolution_detail_of ::
  "int list \<Rightarrow> datetime \<Rightarrow> (int \<Rightarrow> int option) option \<Rightarrow> int \<Rightarrow> string \<times> datetime \<times> int set \<Rightarrow> resolution_detail" where
  "resolution_detail_of horizons now due_seconds grace = (\<lambda>(round_id, reveal_close_at, resolved).
     let due = (\<lambda>h. reveal_close_at + effective_due_seconds due_seconds h * second);
         open_horizons = filter (\<lambda>h. h \<notin> resolved) horizons;
         entry = (\<lambda>h. \<lparr>hh_horizon_seconds = h, hh_due_at = due h\<rparr>)
     in \<lparr>rd_round_id = round_id,
         rd_pending_horizons = map entry (filter (\<lambda>h. \<not> due h + grace * second < now) open_horizons),
         rd_overdue_horizons = map entry (filter (\<lambda>h. due h + grace * second < now) open_horizons)\<rparr>)"

definition assessment_round_resolution_health ::
  "(string \<times> datetime \<times> int set) list \<Rightarrow> int list \<Rightarrow> datetime \<Rightarrow> nat \<Rightarrow> (int \<Rightarrow> int option) option \<Rightarrow> int
     \<Rightarrow> resolution_health" where
  "assessment_round_resolution_health progress horizons now sample_limit due_seconds grace =
     (let details = map (resolution_detail_of horizons now due_seconds grace) progress;
          overdue = filter (\<lambda>r. rd_overdue_horizons r \<noteq> []) details;
          pending = filter (\<lambda>r. rd_overdue_horizons r = [] \<and> rd_pending_horizons r \<noteq> []) details
      in \<lparr>rh_pending_round_count = length pending, rh_overdue_round_count = length overdue,
          rh_pending_rounds = take sample_limit pending, rh_overdue_rounds = take sample_limit overdue\<rparr>)"

subsection \<open>The embargo gate\<close>

datatype api_error =
    Unknown_round | No_universe | Unknown_miner | Still_embargoed | Round_still_open | Not_readable
  | Weights_not_computed | Server_error

fun status_code :: "api_error \<Rightarrow> nat" where
  "status_code Unknown_round = 404"
| "status_code No_universe = 404"
| "status_code Unknown_miner = 404"
| "status_code Still_embargoed = 403"
| "status_code Round_still_open = 403"
| "status_code Not_readable = 403"
| "status_code Weights_not_computed = 503"
| "status_code Server_error = 500"

definition round_meta_or_404 :: "'a db_scheme \<Rightarrow> round_key \<Rightarrow> api_error + round_meta" where
  "round_meta_or_404 d k =
     (case round_meta_for d k of
        Inl _ \<Rightarrow> Inl Server_error | Inr None \<Rightarrow> Inl Unknown_round | Inr (Some m) \<Rightarrow> Inr m)"

definition embargo_lifted :: "datetime \<Rightarrow> round_meta \<Rightarrow> bool" where
  "embargo_lifted now m \<longleftrightarrow> rm_state m \<in> post_embargo_round_states \<and> rm_publication_available_at m < now"

definition ensure_embargo_lifted :: "datetime \<Rightarrow> round_meta \<Rightarrow> api_error + unit" where
  "ensure_embargo_lifted now m =
     (if rm_state m \<in> post_embargo_round_states
      then if embargo_lifted now m then Inr () else Inl Still_embargoed
      else if rm_state m = Round_open then Inl Round_still_open
      else Inl Not_readable)"

definition gated :: "datetime \<Rightarrow> 'a db_scheme \<Rightarrow> round_key \<Rightarrow> api_error + unit" where
  "gated now d k = ebind (round_meta_or_404 d k) (ensure_embargo_lifted now)"

subsection \<open>The leaderboard\<close>

definition default_limit :: int where
  "default_limit = 50"

definition max_limit :: int where
  "max_limit = 200"

definition bounded :: "int \<Rightarrow> int" where
  "bounded limit = max 1 (min limit max_limit)"

definition mean_of :: "rat list \<Rightarrow> rat" where
  "mean_of values = ddiv (dsum values) (of_nat (length values))"

record payout =
  po_weights :: "(string \<times> rat) list"
  po_pool_sizes :: "(string \<times> int) list"

record leaderboard_entry =
  lb_rank :: nat
  lb_miner_hotkey :: string
  lb_blended_score :: rat
  lb_weight_share :: rat
  lb_pool_size :: int
  lb_horizon_emas :: "(int \<times> rat) list"
  lb_coordinate_emas :: "ema_state list"

definition assessment_horizon_emas :: "ema_state list \<Rightarrow> (int \<times> rat) list" where
  "assessment_horizon_emas states =
     map (\<lambda>h. (h, mean_of (map es_ema (filter (\<lambda>s. horizon_value (es_coordinate s) = h) states))))
       (sorted_list_of_set (set (map (\<lambda>s. horizon_value (es_coordinate s)) states)))"

definition assessment_ema_payloads :: "ema_state list \<Rightarrow> ema_state list" where
  "assessment_ema_payloads states = sort_key es_coordinate states"

definition value_or :: "'v \<Rightarrow> ('k \<times> 'v) list \<Rightarrow> 'k \<Rightarrow> 'v" where
  "value_or dflt m k = (case map_of m k of None \<Rightarrow> dflt | Some v \<Rightarrow> v)"

definition assessment_leaderboard ::
  "'a score_db_scheme \<Rightarrow> string \<Rightarrow> coordinate set option \<Rightarrow> payout option \<Rightarrow> leaderboard_entry list" where
  "assessment_leaderboard d schema_id active payout =
     (let states = filter (\<lambda>s. case active of None \<Rightarrow> True | Some cs \<Rightarrow> es_coordinate s \<in> cs) (ema_states d schema_id);
          of_hotkey = (\<lambda>h. filter (\<lambda>s. es_hotkey s = h) states);
          blends = map (\<lambda>h. (h, mean_of (map es_ema (of_hotkey h)))) (sorted_list_of_set (set (map es_hotkey states)));
          weights = (case payout of None \<Rightarrow> normalize_weights blends weight_sharpening_gamma [] | Some p \<Rightarrow> po_weights p);
          sizes = (case payout of None \<Rightarrow> [] | Some p \<Rightarrow> po_pool_sizes p);
          ranked = sort_key (\<lambda>(h, b). (- b, h)) blends
      in map (\<lambda>(i, h, b).
           \<lparr>lb_rank = Suc i, lb_miner_hotkey = h, lb_blended_score = b, lb_weight_share = value_or 0 weights h,
            lb_pool_size = value_or 1 sizes h, lb_horizon_emas = assessment_horizon_emas (of_hotkey h),
            lb_coordinate_emas = assessment_ema_payloads (of_hotkey h)\<rparr>) (enumerate 0 ranked))"

subsection \<open>Health\<close>

record runtime_health =
  ru_validator_loop_alive :: bool
  ru_tick_stale :: bool
  ru_consecutive_tick_failures :: int
  ru_consecutive_universe_failures :: "int option"
  ru_consecutive_resolution_failures :: "int option"
  ru_consecutive_empty_scored_rounds :: "int option"
  ru_consecutive_set_weights_failures :: "int option"
  ru_weight_emission_degraded :: "bool option"
  ru_rpc_gate_degraded :: "bool option"
  ru_assessment_due_seconds :: "(int \<Rightarrow> int option) option"
  ru_overdue_grace_seconds :: "int option"

definition overdue_grace_seconds :: int where
  "overdue_grace_seconds = 1800"

definition health_rounds_sample :: nat where
  "health_rounds_sample = 10"

definition empty_scored_rounds_health_threshold :: int where
  "empty_scored_rounds_health_threshold = 2"

definition counter :: "int option \<Rightarrow> int" where
  "counter c = (case c of None \<Rightarrow> 0 | Some n \<Rightarrow> n)"

definition runtime_degraded :: "runtime_health \<Rightarrow> bool" where
  "runtime_degraded r \<longleftrightarrow>
     \<not> ru_validator_loop_alive r \<or> ru_tick_stale r \<or> 0 < ru_consecutive_tick_failures r
     \<or> 0 < counter (ru_consecutive_universe_failures r) \<or> 0 < counter (ru_consecutive_resolution_failures r)
     \<or> empty_scored_rounds_health_threshold \<le> counter (ru_consecutive_empty_scored_rounds r)
     \<or> 0 < counter (ru_consecutive_set_weights_failures r) \<or> ru_weight_emission_degraded r = Some True
     \<or> ru_rpc_gate_degraded r = Some True"

record health_response =
  hl_degraded :: bool
  hl_unfinished_round_count :: nat
  hl_unfinished_rounds :: "string list"
  hl_round_resolution :: "resolution_health option"

definition health ::
  "'a score_db_scheme \<Rightarrow> string \<Rightarrow> bool \<Rightarrow> runtime_health option \<Rightarrow> datetime \<Rightarrow> health_response" where
  "health d schema_id risk_publisher runtime now =
     (let unfinished = unfinished_rounds d schema_id;
          resolution = (if risk_publisher
            then Some (assessment_round_resolution_health (resolution_progress d schema_id) risk_horizons now
              health_rounds_sample (Option.bind runtime ru_assessment_due_seconds)
              (case Option.bind runtime ru_overdue_grace_seconds of None \<Rightarrow> overdue_grace_seconds | Some s \<Rightarrow> s))
            else None)
      in \<lparr>hl_degraded = (case resolution of None \<Rightarrow> False | Some h \<Rightarrow> 0 < rh_overdue_round_count h)
            \<or> (case runtime of None \<Rightarrow> False | Some r \<Rightarrow> runtime_degraded r),
          hl_unfinished_round_count = length unfinished,
          hl_unfinished_rounds = take health_rounds_sample unfinished,
          hl_round_resolution = resolution\<rparr>)"

subsection \<open>Routes\<close>

record api =
  ap_schema_id :: string
  ap_risk_publisher :: bool
  ap_runtime :: "runtime_health option"
  ap_active :: "coordinate set option"
  ap_payout :: "payout option option"
  ap_signer :: "(bytes \<Rightarrow> bytes) option"
  ap_hotkey :: "string option"
  ap_sha256 :: "bytes \<Rightarrow> bytes"
  ap_texts :: "consensus_row \<Rightarrow> string \<times> string"
  ap_json_depth :: nat

datatype request =
    Get_health
  | Get_rounds "round_state option" int "string option"
  | Get_miners
  | Get_round string
  | Get_universe string
  | Get_round_scores string
  | Get_consensus string
  | Get_submissions string int int
  | Get_outcomes string
  | Get_miner_scores string
  | Get_risk_subnets

record submissions_page =
  pg_limit :: int
  pg_offset :: int
  pg_has_more :: bool
  pg_submissions :: "(string \<times> node) list"

record round_summary =
  rs_round_id :: string
  rs_state :: round_state
  rs_created_at :: datetime
  rs_reveal_close_at :: datetime
  rs_publication_available_at :: datetime

datatype response =
    Health_of health_response
  | Rounds_of "round_summary list"
  | Leaderboard_of "leaderboard_entry list"
  | Meta_of round_meta
  | Universe_of "string list" string
  | Scores_of "score_history_row list"
  | Consensus_of "consensus_row list"
  | Submissions_of submissions_page
  | Outcomes_of "realized_target list"
  | Emas_of "ema_state list"
  | Feed_of node

definition round_summary_of :: "round_row \<Rightarrow> round_summary" where
  "round_summary_of r =
     \<lparr>rs_round_id = rr_round_id r, rs_state = rr_state r, rs_created_at = rr_created_at r,
      rs_reveal_close_at = reveal_close (rr_windows r), rs_publication_available_at = rr_publication_at r\<rparr>"

definition round_meta_response :: "datetime \<Rightarrow> round_meta \<Rightarrow> round_meta" where
  "round_meta_response now m = (if embargo_lifted now m then m else m\<lparr>rm_accepted_submissions := None\<rparr>)"

definition universe_payload :: "'a db_scheme \<Rightarrow> round_key \<Rightarrow> api_error + response" where
  "universe_payload d k =
     (case universe_for d k of
        Inl _ \<Rightarrow> Inl Server_error
      | Inr None \<Rightarrow> Inl No_universe
      | Inr (Some u) \<Rightarrow> Inr (Universe_of (us_tickers u) (us_source_hash u)))"

definition submissions_response ::
  "nat \<Rightarrow> 'a db_scheme \<Rightarrow> round_key \<Rightarrow> int \<Rightarrow> int \<Rightarrow> api_error + response" where
  "submissions_response depth d k limit offset =
     (let rows = page (Some (nat (bounded limit + 1))) (max 0 offset) (accepted_bundles d k)
      in ebind (etraverse (\<lambda>(hotkey, bundle). case loads depth bundle of
                  None \<Rightarrow> Inl Server_error | Some v \<Rightarrow> Inr (hotkey, v)) (take (nat (bounded limit)) rows)) (\<lambda>subs.
         Inr (Submissions_of \<lparr>pg_limit = bounded limit, pg_offset = max 0 offset,
           pg_has_more = bounded limit < int (length rows), pg_submissions = subs\<rparr>)))"

fun respond :: "api \<Rightarrow> 'a score_db_scheme \<Rightarrow> datetime \<Rightarrow> request \<Rightarrow> api_error + response" where
  "respond api d now Get_health =
     Inr (Health_of (health d (ap_schema_id api) (ap_risk_publisher api) (ap_runtime api) now))"
| "respond api d now (Get_rounds state limit before) =
     Inr (Rounds_of (map round_summary_of (list_rounds d (ap_schema_id api) state (nat (bounded limit)) before)))"
| "respond api d now Get_miners =
     (case ap_payout api of
        Some None \<Rightarrow> Inl Weights_not_computed
      | Some (Some p) \<Rightarrow> Inr (Leaderboard_of (assessment_leaderboard d (ap_schema_id api) (ap_active api) (Some p)))
      | None \<Rightarrow> Inr (Leaderboard_of (assessment_leaderboard d (ap_schema_id api) (ap_active api) None)))"
| "respond api d now (Get_round r) =
     ebind (round_meta_or_404 d (r, ap_schema_id api)) (\<lambda>m. Inr (Meta_of (round_meta_response now m)))"
| "respond api d now (Get_universe r) =
     ebind (round_meta_or_404 d (r, ap_schema_id api)) (\<lambda>_. universe_payload d (r, ap_schema_id api))"
| "respond api d now (Get_round_scores r) =
     ebind (gated now d (r, ap_schema_id api)) (\<lambda>_.
       Inr (Scores_of (score_history_for_round d (r, ap_schema_id api))))"
| "respond api d now (Get_consensus r) =
     ebind (gated now d (r, ap_schema_id api)) (\<lambda>_.
       Inr (Consensus_of (assessment_consensus_for d (r, ap_schema_id api))))"
| "respond api d now (Get_submissions r limit offset) =
     ebind (gated now d (r, ap_schema_id api)) (\<lambda>_.
       submissions_response (ap_json_depth api) d (r, ap_schema_id api) limit offset)"
| "respond api d now (Get_outcomes r) =
     ebind (gated now d (r, ap_schema_id api)) (\<lambda>_.
       Inr (Outcomes_of (realized_targets_for d (r, ap_schema_id api))))"
| "respond api d now (Get_miner_scores hotkey) =
     (let states = filter (\<lambda>s. es_hotkey s = hotkey) (ema_states d (ap_schema_id api))
      in if states = [] then Inl Unknown_miner else Inr (Emas_of (assessment_ema_payloads states)))"
| "respond api d now Get_risk_subnets =
     (case build_signed_risk_feed (ap_sha256 api) (ap_texts api) (ap_signer api) (ap_hotkey api) d now of
        Inl _ \<Rightarrow> Inl Server_error | Inr v \<Rightarrow> Inr (Feed_of v))"

subsection \<open>What a response depends on\<close>

text \<open>A round whose embargo is over, and the rows of a table that belong to such rounds.\<close>

definition lifted :: "'a db_scheme \<Rightarrow> datetime \<Rightarrow> round_key \<Rightarrow> bool" where
  "lifted d now k \<longleftrightarrow>
     (\<exists>r \<in> set (db_rounds d). round_key r = k \<and> post_embargo (rr_state r) \<and> rr_publication_at r < now)"

definition public_rows :: "'a db_scheme \<Rightarrow> datetime \<Rightarrow> ('r \<Rightarrow> round_key) \<Rightarrow> 'r list \<Rightarrow> 'r list" where
  "public_rows d now key rows = filter (\<lambda>x. lifted d now (key x)) rows"

text \<open>Two databases that differ only in what rounds under embargo hold.\<close>

definition same_public :: "datetime \<Rightarrow> 'a score_db_scheme \<Rightarrow> 'a score_db_scheme \<Rightarrow> bool" where
  "same_public now d d' \<longleftrightarrow>
     db_rounds d' = db_rounds d \<and> db_universes d' = db_universes d
     \<and> sd_emas d' = sd_emas d \<and> sd_markers d' = sd_markers d
     \<and> public_rows d now (fst \<circ> submission_key) (db_submissions d') = public_rows d now (fst \<circ> submission_key) (db_submissions d)
     \<and> public_rows d now ce_key (sd_consensus d') = public_rows d now ce_key (sd_consensus d)
     \<and> public_rows d now te_key (sd_targets d') = public_rows d now te_key (sd_targets d)
     \<and> public_rows d now he_key (sd_history d') = public_rows d now he_key (sd_history d)"

lemma public_rows_of:
  assumes "public_rows d now key xs = public_rows d now key ys" "\<And>x. P x \<Longrightarrow> lifted d now (key x)"
  shows "filter P xs = filter P ys"
proof -
  have "filter P zs = filter P (public_rows d now key zs)" for zs
    using assms(2) by (induction zs) (auto simp: public_rows_def)
  then show ?thesis using assms(1) by metis
qed

lemma lifted_member: "lifted d now (r, s) \<longleftrightarrow> r \<in> set (post_embargo_rounds d s now)"
  by (auto simp: lifted_def post_embargo_rounds_def round_key_def)

lemma same_round_reads:
  assumes "same_public now d d'"
  shows "round_of d' k = round_of d k" "universe_for d' k = universe_for d k"
    "unfinished_rounds d' s = unfinished_rounds d s" "resolution_progress d' s = resolution_progress d s"
    "list_rounds d' s state limit before = list_rounds d s state limit before"
    "post_embargo_rounds d' s now = post_embargo_rounds d s now" "ema_states d' s = ema_states d s"
  using assms
  by (simp_all add: same_public_def round_of_def universe_for_def unfinished_rounds_def resolution_progress_def
      list_rounds_def post_embargo_rounds_def ema_states_def)

lemma lifted_reads:
  assumes "same_public now d d'" "lifted d now k"
  shows "accepted_bundles d' k = accepted_bundles d k"
    "accepted_submission_count d' k = accepted_submission_count d k"
    "assessment_consensus_for d' k = assessment_consensus_for d k"
    "score_history_for_round d' k = score_history_for_round d k"
    "realized_targets_for_horizon d' k h = realized_targets_for_horizon d k h"
proof -
  have "filter (\<lambda>s. fst (submission_key s) = k \<and> sr_verdict s = Accepted) (db_submissions d') =
      filter (\<lambda>s. fst (submission_key s) = k \<and> sr_verdict s = Accepted) (db_submissions d)"
    by (rule public_rows_of [of d now "fst \<circ> submission_key"]) (use assms in \<open>auto simp: same_public_def\<close>)
  then show "accepted_bundles d' k = accepted_bundles d k"
    "accepted_submission_count d' k = accepted_submission_count d k"
    by (simp_all only: accepted_bundles_def accepted_submission_count_def)
  have "filter (\<lambda>e. ce_key e = k) (sd_consensus d') = filter (\<lambda>e. ce_key e = k) (sd_consensus d)"
    by (rule public_rows_of [of d now ce_key]) (use assms in \<open>auto simp: same_public_def\<close>)
  then show "assessment_consensus_for d' k = assessment_consensus_for d k"
    by (simp only: assessment_consensus_for_def)
  have "filter (\<lambda>e. he_key e = k) (sd_history d') = filter (\<lambda>e. he_key e = k) (sd_history d)"
    by (rule public_rows_of [of d now he_key]) (use assms in \<open>auto simp: same_public_def\<close>)
  then show "score_history_for_round d' k = score_history_for_round d k"
    by (simp only: score_history_for_round_def)
  have "filter (\<lambda>e. te_key e = k) (sd_targets d') = filter (\<lambda>e. te_key e = k) (sd_targets d)"
    by (rule public_rows_of [of d now te_key]) (use assms in \<open>auto simp: same_public_def\<close>)
  then show "realized_targets_for_horizon d' k h = realized_targets_for_horizon d k h"
    by (simp only: realized_targets_for_horizon_def)
qed

subsection \<open>The gate\<close>

lemma meta_lifted:
  assumes "round_of d k = Some r" "embargo_lifted now (meta_of d r u)"
  shows "lifted d now k"
  using assms select_one_SomeD [of "\<lambda>r. round_key r = k" "db_rounds d" r]
  by (auto simp: embargo_lifted_def meta_of_def lifted_def round_of_def post_embargo_states)

lemma gated_lifted: "gated now d k = Inr u \<Longrightarrow> lifted d now k"
  using meta_lifted
  by (fastforce simp: gated_def round_meta_or_404_def round_meta_for_def ensure_embargo_lifted_def
      split: sum.splits option.splits if_splits)

lemma meta_of_same:
  assumes "same_public now d d'" "round_of d k = Some r"
  shows "round_meta_response now (meta_of d' r u) = round_meta_response now (meta_of d r u)"
    "ensure_embargo_lifted now (meta_of d' r u) = ensure_embargo_lifted now (meta_of d r u)"
    "lifted d now k \<Longrightarrow> meta_of d' r u = meta_of d r u"
proof -
  have k: "round_key r = k"
    using assms(2) select_one_SomeD by (fastforce simp: round_of_def)
  have gate: "embargo_lifted now (meta_of d' r u) = embargo_lifted now (meta_of d r u)"
    by (simp add: embargo_lifted_def meta_of_def)
  show same: "meta_of d' r u = meta_of d r u" if "lifted d now k"
    using lifted_reads(2) [OF assms(1) that] by (simp add: meta_of_def k)
  show "ensure_embargo_lifted now (meta_of d' r u) = ensure_embargo_lifted now (meta_of d r u)"
    by (simp add: ensure_embargo_lifted_def gate) (simp add: meta_of_def)
  show "round_meta_response now (meta_of d' r u) = round_meta_response now (meta_of d r u)"
  proof (cases "embargo_lifted now (meta_of d r u)")
    case True
    then show ?thesis using same [OF meta_lifted [OF assms(2) True]] by simp
  next
    case False
    then show ?thesis by (simp add: round_meta_response_def gate) (simp add: meta_of_def)
  qed
qed

lemma round_reads_same:
  assumes "same_public now d d'"
  shows "gated now d' k = gated now d k"
    "ebind (round_meta_or_404 d' k) (\<lambda>m. Inr (Meta_of (round_meta_response now m))) =
     ebind (round_meta_or_404 d k) (\<lambda>m. Inr (Meta_of (round_meta_response now m)))"
    "ebind (round_meta_or_404 d' k) (\<lambda>_. x) = ebind (round_meta_or_404 d k) (\<lambda>_. x)"
    "lifted d now k \<Longrightarrow> round_meta_for d' k = round_meta_for d k"
  using same_round_reads(1,2) [OF assms, of k] meta_of_same [OF assms, of k]
  by (cases "round_of d k"; cases "universe_for d k";
      simp add: gated_def round_meta_or_404_def round_meta_for_def)+

subsection \<open>The feed\<close>

lemma etraverse_same: "(\<And>x. x \<in> set xs \<Longrightarrow> f x = g x) \<Longrightarrow> etraverse f xs = etraverse g xs"
  by (induction xs) simp_all

lemma latest_consensus_same:
  assumes "same_public now d d'"
  shows "latest_consensus_round d' s now = latest_consensus_round d s now"
proof -
  have "filter (\<lambda>e. snd (ce_key e) = s \<and> fst (ce_key e) \<in> set (post_embargo_rounds d s now)) (sd_consensus d') =
      filter (\<lambda>e. snd (ce_key e) = s \<and> fst (ce_key e) \<in> set (post_embargo_rounds d s now)) (sd_consensus d)"
    by (rule public_rows_of [of d now ce_key])
      (use assms in \<open>auto simp: same_public_def simp flip: lifted_member\<close>)
  then show ?thesis by (simp only: latest_consensus_round_def same_round_reads(6) [OF assms])
qed

lemma latest_consensus_lifted: "latest_consensus_round d s now = Some r \<Longrightarrow> lifted d now (r, s)"
  by (auto simp: latest_consensus_round_def lifted_member dest!: newest_member)

lemma latest_resolved_same:
  assumes "same_public now d d'"
  shows "latest_resolved_rounds d' s h outs now = latest_resolved_rounds d s h outs now"
proof -
  have join: "target_unique t \<in> consensus_unique ` set (sd_consensus d') \<longleftrightarrow>
      target_unique t \<in> consensus_unique ` set (sd_consensus d)" if "lifted d now (te_key t)" for t
  proof -
    have public: "target_unique t \<in> consensus_unique ` set es \<longleftrightarrow> target_unique t \<in> consensus_unique ` set (public_rows d now ce_key es)"
      for es using that by (auto simp: public_rows_def target_unique_def consensus_unique_def image_iff)
    have "public_rows d now ce_key (sd_consensus d') = public_rows d now ce_key (sd_consensus d)"
      using assms by (simp add: same_public_def)
    with public [of "sd_consensus d'"] public [of "sd_consensus d"] show ?thesis by (simp only: simp_thms)
  qed
  define joined where "joined db t \<longleftrightarrow> target_unique t \<in> consensus_unique ` set (sd_consensus db)"
    for db :: "'a score_db_scheme" and t
  define here where "here t \<longleftrightarrow> snd (te_key t) = s \<and> horizon_value (rt_coordinate (te_row t)) = h
      \<and> target_kind (rt_coordinate (te_row t)) = Subnet_asset \<and> rt_status (te_row t) = ''resolved''
      \<and> rt_value (te_row t) \<noteq> None \<and> coord_output (rt_coordinate (te_row t)) \<in> set outs
      \<and> fst (te_key t) \<in> set (post_embargo_rounds d s now)" for t :: target_entry
  have here: "lifted d now (te_key t)" if "here t" for t
    using that by (auto simp: here_def simp flip: lifted_member)
  have "resolved_with_consensus d s h outs now = filter (\<lambda>t. here t \<and> joined d t) (sd_targets d)"
    "resolved_with_consensus d' s h outs now = filter (\<lambda>t. here t \<and> joined d' t) (sd_targets d')"
    by (simp_all only: resolved_with_consensus_def here_def joined_def conj_assoc same_round_reads(6) [OF assms])
  moreover have "filter (\<lambda>t. here t \<and> joined d' t) (sd_targets d') = filter (\<lambda>t. here t \<and> joined d t) (sd_targets d')"
    using join here by (intro filter_cong) (auto simp: joined_def)
  moreover have "filter (\<lambda>t. here t \<and> joined d t) (sd_targets d') = filter (\<lambda>t. here t \<and> joined d t) (sd_targets d)"
    by (rule public_rows_of [of d now te_key]) (use assms here in \<open>auto simp: same_public_def\<close>)
  ultimately have "resolved_with_consensus d' s h outs now = resolved_with_consensus d s h outs now" by simp
  then show ?thesis by (simp only: latest_resolved_rounds_def)
qed

lemma feed_same:
  assumes "same_public now d d'"
  shows "feed_payload d' now = feed_payload d now"
proof -
  have rounds: "tier_rounds d' now = tier_rounds d now"
    by (simp add: tier_rounds_def fun_eq_iff latest_resolved_same [OF assms])
  then have ids: "tier_round_ids d' now = tier_round_ids d now" by (simp add: tier_round_ids_def)
  have tier_ctx: "tier_context_of d' r = tier_context_of d r" if r: "r \<in> set (tier_round_ids d now)" for r
  proof -
    obtain n where "tier_rounds d now n = Some r"
      using r by (force simp: tier_round_ids_def List.map_filter_def)
    then have l: "lifted d now (r, risk_schema_id)" using tier_rounds_member(2) lifted_member by blast
    show ?thesis
      by (simp add: tier_context_of_def meta_or_error_def resolved_thirty_day_outputs_def
          lifted_reads(3,5) [OF assms l] round_reads_same(4) [OF assms l])
  qed
  have latest: "latest_consensus_round d' risk_schema_id now = latest_consensus_round d risk_schema_id now"
    by (rule latest_consensus_same [OF assms])
  have universe: "netuids_from_universe d' r = netuids_from_universe d r" for r
    by (simp only: netuids_from_universe_def same_round_reads(2) [OF assms])
  have shown: "assessment_consensus_for d' (r, risk_schema_id) = assessment_consensus_for d (r, risk_schema_id)"
    "meta_or_error d' r = meta_or_error d r" if "latest_consensus_round d risk_schema_id now = Some r" for r
    using latest_consensus_lifted [OF that] lifted_reads(3) [OF assms] round_reads_same(4) [OF assms]
    by (simp_all add: meta_or_error_def)
  have contexts: "etraverse (\<lambda>r. ebind (tier_context_of d' r) (\<lambda>tc. Inr (r, tc))) (tier_round_ids d now) =
      etraverse (\<lambda>r. ebind (tier_context_of d r) (\<lambda>tc. Inr (r, tc))) (tier_round_ids d now)"
    by (rule etraverse_same) (simp add: tier_ctx)
  show ?thesis
    using shown
    by (cases "latest_consensus_round d risk_schema_id now")
      (simp_all only: feed_payload_def Let_def latest universe rounds ids contexts option.case)
qed

text \<open>
  C10: the public API gives nothing of a round under embargo away: two databases that differ only in
  the submissions, consensus, outcomes and score history of rounds that are still open or whose
  publication instant has not passed give the same response to every request, errors included.
\<close>

theorem api_hides_embargoed_rounds:
  assumes "same_public now d d'"
  shows "respond api d' now req = respond api d now req"
proof (cases req)
  case Get_health
  then show ?thesis by (simp add: health_def same_round_reads(3,4) [OF assms])
next
  case (Get_submissions r limit offset)
  let ?k = "(r, ap_schema_id api)"
  show ?thesis
  proof (cases "gated now d ?k")
    case (Inr u)
    then have "accepted_bundles d' ?k = accepted_bundles d ?k" by (intro lifted_reads(1) [OF assms gated_lifted])
    then show ?thesis
      using Get_submissions by (simp add: submissions_response_def round_reads_same(1) [OF assms])
  qed (simp add: Get_submissions round_reads_same(1) [OF assms])
next
  case (Get_round_scores r)
  let ?k = "(r, ap_schema_id api)"
  show ?thesis
    using Get_round_scores lifted_reads(4) [OF assms gated_lifted [of now d ?k]]
    by (cases "gated now d ?k") (simp_all add: round_reads_same(1) [OF assms])
next
  case (Get_consensus r)
  let ?k = "(r, ap_schema_id api)"
  show ?thesis
    using Get_consensus lifted_reads(3) [OF assms gated_lifted [of now d ?k]]
    by (cases "gated now d ?k") (simp_all add: round_reads_same(1) [OF assms])
next
  case (Get_outcomes r)
  let ?k = "(r, ap_schema_id api)"
  show ?thesis
    using Get_outcomes lifted_reads(5) [OF assms gated_lifted [of now d ?k]]
    by (cases "gated now d ?k") (simp_all add: round_reads_same(1) [OF assms] realized_targets_for_def)
next
  case (Get_universe r)
  have "universe_payload d' k = universe_payload d k" for k
    by (simp only: universe_payload_def same_round_reads(2) [OF assms])
  then show ?thesis using Get_universe by (simp add: round_reads_same(3) [OF assms])
next
  case Get_miners
  have "assessment_leaderboard d' s active p = assessment_leaderboard d s active p" for s active p
    by (simp only: assessment_leaderboard_def same_round_reads(7) [OF assms])
  then show ?thesis using Get_miners by (simp split: option.split)
next
  case (Get_miner_scores hotkey)
  then show ?thesis by (simp add: same_round_reads(7) [OF assms])
next
  case Get_risk_subnets
  then show ?thesis by (simp add: build_signed_risk_feed_def feed_same [OF assms])
next
  case (Get_round r)
  then show ?thesis by (simp only: respond.simps round_reads_same(2) [OF assms])
next
  case (Get_rounds state limit before)
  then show ?thesis by (simp add: same_round_reads(5) [OF assms])
qed

text \<open>A reveal accepted in an open round.\<close>

definition demo_api :: api where
  "demo_api = \<lparr>ap_schema_id = risk_schema_id, ap_risk_publisher = True, ap_runtime = None, ap_active = None,
     ap_payout = None, ap_signer = None, ap_hotkey = None, ap_sha256 = (\<lambda>_. []), ap_texts = (\<lambda>_. ([], [])),
     ap_json_depth = 10\<rparr>"

definition demo_unrevealed_db :: score_db where
  "demo_unrevealed_db = empty_score_db\<lparr>db_rounds := [demo_feed_round\<lparr>rr_state := Round_open\<rparr>]\<rparr>"

definition demo_hidden_db :: score_db where
  "demo_hidden_db = demo_unrevealed_db\<lparr>db_submissions :=
     [(new_submission (''2026-07-19'', risk_schema_id) ''hk1'')\<lparr>sr_verdict := Accepted\<rparr>]\<rparr>"

lemma api_hides_embargoed_rounds_witness:
  "respond demo_api demo_hidden_db 5 (Get_round ''2026-07-19'') = respond demo_api demo_unrevealed_db 5 (Get_round ''2026-07-19'')
   \<and> accepted_submission_count demo_hidden_db (''2026-07-19'', risk_schema_id) = 1
   \<and> accepted_submission_count demo_unrevealed_db (''2026-07-19'', risk_schema_id) = 0
   \<and> respond demo_api demo_hidden_db 5 (Get_submissions ''2026-07-19'' 50 0) = Inl Round_still_open"
proof -
  have hidden: "\<not> lifted demo_unrevealed_db 5 k" for k
    by (simp add: lifted_def demo_unrevealed_db_def post_embargo_def)
  have "same_public 5 demo_unrevealed_db demo_hidden_db"
    by (simp add: same_public_def public_rows_def hidden) (simp add: demo_hidden_db_def)
  from api_hides_embargoed_rounds [OF this, of demo_api "Get_round ''2026-07-19''"] show ?thesis
    by (simp add: accepted_submission_count_def demo_hidden_db_def demo_unrevealed_db_def new_submission_def
        submission_key_def empty_score_db_def empty_db_def demo_api_def gated_def round_meta_or_404_def
        round_meta_for_def round_of_def universe_for_def ensure_embargo_lifted_def meta_of_def
        post_embargo_round_states_def demo_feed_round_def round_key_def db.defs)
qed

text \<open>The gate opens for exactly the rounds that the repository's embargo query selects.\<close>

lemma gate_is_query:
  assumes "storage_ok d" "round_meta_for d (r, s) = Inr (Some m)"
  shows "ensure_embargo_lifted now m = Inr () \<longleftrightarrow> r \<in> set (post_embargo_rounds d s now)"
proof -
  obtain row u where row: "round_of d (r, s) = Some row" and m: "m = meta_of d row u"
    using assms(2) by (auto simp: round_meta_for_def split: option.splits)
  note mem = select_one_SomeD [OF row [unfolded round_of_def]]
  have "row' = row" if "row' \<in> set (db_rounds d)" "round_key row' = (r, s)" for row'
    using assms(1) that mem select_one_unique [of round_key "db_rounds d" row' "(r, s)"] row
    by (simp add: storage_ok_def round_of_def)
  then have "lifted d now (r, s) \<longleftrightarrow> post_embargo (rr_state row) \<and> rr_publication_at row < now"
    using mem by (auto simp: lifted_def)
  then show ?thesis
    by (simp add: m ensure_embargo_lifted_def embargo_lifted_def meta_of_def post_embargo_states flip: lifted_member)
qed

end
