(* ===== verification/Spec2Isabelle.thy ===== *)
theory Spec2Isabelle
  imports Submission Pools Publication Risk_Scoring Emission_Properties Weight_Vector Emission_Vote
    Eligibility Cr4_Schedule Round_Service Miner_Service Public_Api
begin

text \<open>
  A model of the Endure subnet, a Bittensor subnet on which miners submit risk assessments and
  validators score them and vote weights on chain.  All paths are below \<open>src/\<close>.

  The program.  Time is cut into rounds, one a day per schema.  In the commit window of a round a
  miner sends the hash of a canonical bundle; in its reveal window it sends the bundle and the nonce.
  A validator admits and judges both (\<open>endure/protocol/handlers.py\<close>, \<open>validation.py\<close>) and stores
  them (\<open>endure/storage/repository.py\<close>).  When the reveal window has closed, its round loop
  (\<open>validator_service.py\<close>, \<open>vertical.py\<close>) freezes the accepted bundles and publishes their consensus in
  one transaction; when a horizon is due it resolves the realized values from archive data, scores
  every hotkey and folds the scores into averages (\<open>endure/scoring\<close>); the averages, with identical
  forecasts pooled, become the weights of its vote.  The emission policy turns these into the u16
  vector that is sent, and the ledger in the repository follows each emission until the chain
  confirms it or its deadline passes.

  Theories, from the bottom up.

  \<^item> \<open>Prelude\<close>: fallible results as sums, loops over fallible bodies, lists of rows as tables and
    dictionaries.  \<open>Text\<close>, \<open>Dates\<close>, \<open>Decimal28\<close>, \<open>Decimal_Text\<close>: the standard library the sources use,
    namely \<open>str\<close>, UTF-8, hexadecimal text, calendar dates, and \<open>decimal\<close> at 28 digits with its texts.
    \<open>Decimal28\<close> states the rounding laws as the locale \<open>decimal_rounding\<close>, interpreted on \<open>rnd28\<close>.
  \<^item> \<open>Canonical\<close>: canonical JSON, its parser, and commit hashes (\<open>protocol/canonical.py\<close>,
    \<open>bundles.py\<close>).  \<open>Coordinates\<close>: cells and the rows keyed by them (\<open>assessment/coordinates.py\<close>).
  \<^item> \<open>Wire\<close>, \<open>Risk_Schema\<close>, \<open>Lending_Schema\<close>, \<open>Universe\<close>, \<open>Registry\<close>: the schemas, their
    parsers and validators, universes and the registry (\<open>assessment/\<close>).  The round trip of bundles is
    proved once in the locale \<open>assessment_schema\<close>, interpreted on both schemas.
  \<^item> \<open>Round_Engine\<close>: round windows, phases and the three schedulers (\<open>protocol/round_engine.py\<close>,
    \<open>schedulers.py\<close>).  \<open>Validation\<close>: the verdicts (\<open>protocol/validation.py\<close>, \<open>admission.py\<close>).
  \<^item> \<open>Storage\<close>, \<open>Storage_Rounds\<close>: the tables of rounds, submissions, universes and snapshots, one
    function per transaction, the relation \<open>storage_step\<close>, and its refinement of the life of a round
    (absent, open with a growing map of reveals, frozen); \<open>transaction\<close> is the same with the state
    change \<open>set_round_state\<close> from any state to any, as that function stands.  \<open>Instants\<close>: the texts by which the tables
    hold instants.  \<open>Storage_Scores\<close>, \<open>Publication\<close>: the assessment tables and their invariant.
  \<^item> \<open>Handlers\<close>, \<open>Submission\<close>: the two axon handlers as sequences of transactions with arbitrary
    interference between them; an honest submission end to end; what the digest check accepts.
  \<^item> \<open>Consensus\<close>: weighted median, dispersion and consensus rows (\<open>aggregation/\<close>).
  \<^item> \<open>Market_Data\<close>, \<open>Sampling\<close>, \<open>Risk_Observables\<close>: price series and their payloads, the bisections
    over the archive, the realized-value estimators (\<open>scoring/market_data.py\<close>, \<open>market_sampling.py\<close>,
    \<open>risk/observables.py\<close>).
  \<^item> \<open>Scoring\<close>, \<open>Scoring_Facts\<close>, \<open>Scoring_Loop\<close>, \<open>Scoring_Properties\<close>, \<open>Risk_Scoring\<close>: deviation
    scores, resolution within a budget, scoring passes and averages
    (\<open>scoring/assessment_orchestrator.py\<close>, \<open>risk/orchestrator.py\<close>, \<open>lending/orchestrator.py\<close>).  The
    loop's lemmas are proved in the locale \<open>assessment_resolver\<close>, interpreted on both verticals.
  \<^item> \<open>Pools\<close>, \<open>Weights\<close>, \<open>Vote_Window\<close>: pools of identical forecasts, payout weights, tie seeds and
    the caches of the vote (\<open>scoring/duplicates.py\<close>, \<open>weights.py\<close>).  Determinism of the vote is proved
    in the locale \<open>frozen_values\<close>, interpreted on both verticals.
  \<^item> \<open>Round_Service\<close>: the tick of the validator.  Its contract with a vertical is the locale
    \<open>scoring_program\<close>, interpreted on the risk and the lending program.  \<open>service_step\<close> is what a running
    validator does to its database; that rounds never go back is proved of it, from the code's own guards.
  \<^item> \<open>Eligibility\<close>, \<open>Emission_Policy\<close>, \<open>Weight_Processing\<close>, \<open>Weight_Vector\<close>, \<open>Emission_Vote\<close>,
    \<open>Cr4_Schedule\<close>: who is scored, what is planned, how it is encoded, and by which block it must be
    revealed (\<open>scoring/eligibility.py\<close>, \<open>emission_policy.py\<close>, \<open>weight_processing.py\<close>,
    \<open>base/cr4_schedule.py\<close>).
  \<^item> \<open>Ledger\<close>, \<open>Ledger_Resolution\<close>, \<open>Ledger_Facts\<close>, \<open>Ledger_Properties\<close>, \<open>Ledger_Liveness\<close>,
    \<open>Emission_Properties\<close>: the ledger of weight emissions, the last part of the repository;
    \<open>ledger_op\<close> is an operation with its inputs, so that evidence is stated of the snapshot that was given.
  \<^item> \<open>Miner_Baseline\<close>, \<open>Miner_Service\<close>: the reference miners and their round loop with crashes and
    restarts (\<open>protocol/risk_miner.py\<close>, \<open>lending_miner.py\<close>, \<open>miner_service.py\<close>).

  \<^item> \<open>Risk_Feed\<close>, \<open>Public_Api\<close>: risk tiers, the signed feed and the consumer's check of it
    (\<open>publication/\<close>, \<open>verify/risk_feed.py\<close>), and the routes of the public read API (\<open>api/\<close>).

  What the lemmas show.  Commit and reveal: what is accepted is what was committed to, acceptance is
  final and survives interference, caps hold, an honest miner is accepted, a restarted miner opens what
  it committed to.  Rounds: they never rewind, they close, what is scored and published is frozen at the
  close and never changes.  Scoring: averages count a round once, truncated passes resume, skipping or a
  worse forecast never pays, voids rest on evidence.  Votes: validators with the same evidence pool
  alike, units are u16 and pools round as one entry, the other hotkeys of the owner earn nothing.  Emissions: only chain
  evidence confirms, closed is final, deadlines close.  Publication: ratings rest on resolved outcomes, a
  signed feed verifies, and no response depends on what rounds under embargo hold.  Loops over chain data end within stated bounds.

  Conventions.  Text is a \<open>string\<close>, whose characters stand for the code points below 256.  Errors stand
  for the exceptions' classes; messages are dropped.  An instant is a number of microseconds.  A \<open>Decimal\<close>
  is its value where only the value is read, with rounding to 28 digits at every operation and no bound
  on the exponent.  A table is the list of its rows with its unique and foreign keys checked where
  SQLite checks them; a transaction is one function.  A clock is a function of the number of its reads.
  \<open>ln\<close> and \<open>sqrt\<close> of \<open>decimal\<close> are the rounded exact values and are the only definitions that do not
  evaluate as written; their code equations search for the rounded value.

  Bounds and fuel.  The JSON scanner has fuel twice the length of its text and a given recursion depth;
  \<open>loads_dumps\<close> shows that this is enough for every canonical text.  Bisections, the epoch search and the
  reveal scan end by measures.

  Parameters, for code outside the sources: blake2b and sha256, the exchange calendar, the price
  provider and recorded rows, chain reads (blocks, hashes, commitments, the owner's state), signers and
  key pairs, and the texts of stored decimals where a document shows them.

  Not modelled: the neuron processes with their threads, signals, health reports and chain client
  (\<open>neurons/\<close>, \<open>base/neuron.py\<close>, \<open>base/validator.py\<close>, \<open>runtime/\<close>), whose behaviour is that of the
  bittensor library; the request rate gate (\<open>base/rate_gate.py\<close>), a scheduler of threads over binary
  floating point; network I/O against the archive (\<open>live/\<close>); configuration and logging (\<open>utils/\<close>);
  migrations and SQLite set-up; scripts and release gates.
\<close>

end
